(* ===== verification/Prelude.thy ===== *)
theory Prelude
  imports Main "HOL-Library.Word"
begin

text \<open>
  Shared vocabulary of the development.

  The kernel is built for a 32-bit target with \<^verbatim>\<open>cargo xbuild --release\<close> (see the
  \<^verbatim>\<open>Makefile\<close>), so \<^verbatim>\<open>usize\<close> is 32 bits wide and integer overflow wraps around;
  slice and vector indexing is bounds-checked and panics.  Machine integers are
  therefore words, a computation that may panic or never come back returns an
  \<open>outcome\<close>, and a Rust \<^verbatim>\<open>Result<T, E>\<close> is the sum \<open>'e + 't\<close> with \<open>Inl\<close> for
  \<^verbatim>\<open>Err\<close>.

  The theory holds the type names, the outcome type with its sequencing operator, the
  bounds-checked vector accesses, byte-addressed memory with 32-bit little-endian loads
  and stores, and the conversions from word operations to arithmetic on \<open>nat\<close> (the
  collection \<open>word_nat\<close>) that the component proofs are carried out in.
\<close>

unbundle bit_operations_syntax

section \<open>Machine integers\<close>

type_synonym u8 = "8 word"
type_synonym u16 = "16 word"
type_synonym u32 = "32 word"
type_synonym u64 = "64 word"
type_synonym usize = "32 word"

named_theorems word_nat \<open>word operations read as operations on natural numbers\<close>

lemma unat_and_mask:
  fixes x :: "'a::len word"
  shows "unat (x AND mask n) = unat x mod 2 ^ n"
proof -
  have "unat (x AND mask n) = unat (take_bit n x)"
    by (simp add: take_bit_eq_mask)
  also have "\<dots> = take_bit n (unat x)"
    by transfer (simp add: take_bit_nat_eq nat_take_bit_eq take_bit_take_bit ac_simps)
  finally show ?thesis by (simp add: take_bit_eq_mod)
qed

lemma unat_drop_bit_div [word_nat]:
  fixes x :: "'a::len word"
  shows "unat (drop_bit n x) = unat x div 2 ^ n"
  by (metis unat_drop_bit_eq drop_bit_eq_div)

lemma unat_lt32: "unat (x :: 32 word) < 4294967296"
  using unsigned_less [of x, where 'a = nat] by simp

lemma unat_lt8: "unat (x :: 8 word) < 256"
  using unsigned_less [of x, where 'a = nat] by simp

lemma unat_lt16: "unat (x :: 16 word) < 65536"
  using unsigned_less [of x, where 'a = nat] by simp

lemma unat_and_1 [word_nat]: "unat ((x :: 'a::len word) AND 1) = unat x mod 2"
  using unat_and_mask [of x 1] by (simp add: mask_eq_exp_minus_1)

lemma unat_and_7 [word_nat]: "unat ((x :: 'a::len word) AND 7) = unat x mod 8"
  using unat_and_mask [of x 3] by (simp add: mask_eq_exp_minus_1)

lemma unat_and_fff [word_nat]: "unat ((x :: 'a::len word) AND 0xfff) = unat x mod 4096"
  using unat_and_mask [of x 12] by (simp add: mask_eq_exp_minus_1)

lemma unat_and_3ff [word_nat]: "unat ((x :: 'a::len word) AND 0x3ff) = unat x mod 1024"
  using unat_and_mask [of x 10] by (simp add: mask_eq_exp_minus_1)

lemma unat_and_not_mask:
  fixes x :: "'a::len word"
  shows "unat (x AND NOT (mask n)) = unat x - unat x mod 2 ^ n"
proof -
  have split: "(x AND NOT (mask n)) + (x AND mask n) = x"
    by (subst disjunctive_add) (auto simp: bit_simps intro!: bit_eqI)
  have "(x AND mask n) \<le> x"
    by (simp add: word_and_le2)
  then have "unat (x - (x AND mask n)) = unat x - unat (x AND mask n)"
    by (rule unat_sub)
  moreover have "x - (x AND mask n) = x AND NOT (mask n)"
    using split by (metis add_diff_cancel_right')
  ultimately show ?thesis
    by (simp add: unat_and_mask)
qed

lemma unat_page_base [word_nat]:
  "unat ((x :: 32 word) AND 0xfffff000) = unat x - unat x mod 4096"
proof -
  have "(0xfffff000 :: 32 word) = NOT (mask 12)"
    by (simp add: mask_eq_exp_minus_1 not_eq_complement)
  then show ?thesis
    using unat_and_not_mask [of x 12] by simp
qed

lemma unat_push_bit [word_nat]:
  fixes x :: "'a::len word"
  shows "unat (push_bit n x) = (unat x * 2 ^ n) mod 2 ^ LENGTH('a)"
proof -
  have "push_bit n x = of_nat (unat x * 2 ^ n)"
    by (simp add: push_bit_eq_mult)
  then show ?thesis
    by (simp only: unat_of_nat)
qed

lemma unat_add_no_wrap:
  fixes x y :: "'a::len word"
  assumes "unat x + unat y < 2 ^ LENGTH('a)"
  shows "unat (x + y) = unat x + unat y"
  using assms by (simp add: unat_add_lem)

lemma unat_add32:
  fixes x y :: "32 word"
  assumes "unat x + unat y < 4294967296"
  shows "unat (x + y) = unat x + unat y"
  using assms by (intro unat_add_no_wrap) simp

lemma unat_sub_le:
  fixes x y :: "'a::len word"
  assumes "unat y \<le> unat x"
  shows "unat (x - y) = unat x - unat y"
  using assms by (intro unat_sub) (simp add: word_le_nat_alt)

lemma unat_of_nat32:
  assumes "n < 4294967296"
  shows "unat (of_nat n :: 32 word) = n"
  using assms by (simp add: unat_of_nat)

text \<open>
  Single bits of a word, as the source tests, sets and clears them (the simplifier writes
  \<open>push_bit k 1\<close> as \<open>2 ^ k\<close>).
\<close>

lemma and_bit_eq_0:
  fixes x :: "'a::len word"
  shows "(x AND 2 ^ k = 0) = (\<not> bit x k)"
  by (simp add: and_exp_eq_0_iff_not_bit)

lemma bit_or_single:
  fixes x :: "'a::len word"
  assumes "k < LENGTH('a)"
  shows "bit (x OR 2 ^ k) j = (bit x j \<or> j = k)"
  using assms by (auto simp: bit_simps)

lemma bit_and_not_single:
  fixes x :: "'a::len word"
  shows "bit (x AND NOT (2 ^ k)) j = (bit x j \<and> j \<noteq> k)"
  by (auto simp: bit_simps dest: bit_imp_le_length)

section \<open>Outcomes: returning, panicking, never coming back\<close>

text \<open>
  \<open>Panic\<close> is a Rust panic (the kernel's panic handler halts the machine); \<open>Hang\<close> is a
  computation that spins for ever, on a lock its own thread already holds or in a loop
  whose exit condition can no longer become true.
\<close>

datatype 'a outcome = Done 'a | Panic | Hang

fun obind :: "'a outcome \<Rightarrow> ('a \<Rightarrow> 'b outcome) \<Rightarrow> 'b outcome" where
  "obind (Done x) f = f x"
| "obind Panic f = Panic"
| "obind Hang f = Hang"

fun ofold :: "('a \<Rightarrow> 's \<Rightarrow> 's outcome) \<Rightarrow> 'a list \<Rightarrow> 's \<Rightarrow> 's outcome" where
  "ofold f [] s = Done s"
| "ofold f (x # xs) s = obind (f x s) (ofold f xs)"

definition of_option :: "'a option \<Rightarrow> 'a outcome" where
  "of_option m = (case m of None \<Rightarrow> Panic | Some x \<Rightarrow> Done x)"

definition unwrap :: "'e + 'a \<Rightarrow> 'a outcome" where
  "unwrap r = (case r of Inl e \<Rightarrow> Panic | Inr x \<Rightarrow> Done x)"

lemma obind_Done_iff:
  "obind m f = Done y \<longleftrightarrow> (\<exists>x. m = Done x \<and> f x = Done y)"
  by (cases m) auto

lemma obind_assoc: "obind (obind m f) g = obind m (\<lambda>x. obind (f x) g)"
  by (cases m) auto

lemma ofold_append: "ofold f (xs @ ys) s = obind (ofold f xs s) (ofold f ys)"
proof (induction xs arbitrary: s)
  case (Cons x xs)
  then show ?case by (cases "f x s") auto
qed simp

lemma of_option_simps [simp]:
  "of_option None = Panic"
  "of_option (Some x) = Done x"
  by (simp_all add: of_option_def)

lemma unwrap_simps [simp]:
  "unwrap (Inl e) = Panic"
  "unwrap (Inr x) = Done x"
  by (simp_all add: unwrap_def)

section \<open>Bounds-checked vectors and arrays\<close>

definition vec_get :: "'a list \<Rightarrow> nat \<Rightarrow> 'a outcome" where
  "vec_get xs i = (if i < length xs then Done (xs ! i) else Panic)"

definition vec_set :: "'a list \<Rightarrow> nat \<Rightarrow> 'a \<Rightarrow> 'a list outcome" where
  "vec_set xs i v = (if i < length xs then Done (xs[i := v]) else Panic)"

text \<open>\<^verbatim>\<open>slice.get(index)\<close>: no panic, \<^verbatim>\<open>None\<close> out of range.\<close>

definition nth_opt :: "'a list \<Rightarrow> nat \<Rightarrow> 'a option" where
  "nth_opt xs i = (if i < length xs then Some (xs ! i) else None)"

lemma vec_get_ok [simp]: "i < length xs \<Longrightarrow> vec_get xs i = Done (xs ! i)"
  by (simp add: vec_get_def)

lemma vec_set_ok [simp]: "i < length xs \<Longrightarrow> vec_set xs i v = Done (xs[i := v])"
  by (simp add: vec_set_def)

lemma nth_opt_Some_iff: "nth_opt xs i = Some x \<longleftrightarrow> i < length xs \<and> xs ! i = x"
  by (simp add: nth_opt_def)

section \<open>Byte-addressed memory\<close>

type_synonym memory = "usize \<Rightarrow> u8"

definition load32 :: "memory \<Rightarrow> usize \<Rightarrow> u32" where
  "load32 m a = ucast (m a) OR push_bit 8 (ucast (m (a + 1)))
     OR push_bit 16 (ucast (m (a + 2))) OR push_bit 24 (ucast (m (a + 3)))"

definition store32 :: "memory \<Rightarrow> usize \<Rightarrow> u32 \<Rightarrow> memory" where
  "store32 m a v = m(a := ucast v, a + 1 := ucast (drop_bit 8 v),
     a + 2 := ucast (drop_bit 16 v), a + 3 := ucast (drop_bit 24 v))"

text \<open>The bytes an aligned or unaligned 32-bit access touches.\<close>

definition span :: "usize \<Rightarrow> nat \<Rightarrow> usize set" where
  "span a n = (\<lambda>i. a + of_nat i) ` {..<n}"

lemma load32_store32_same [simp]: "load32 (store32 m a v) a = v"
proof -
  have ne: "a + 1 \<noteq> a" "a + 2 \<noteq> a" "a + 3 \<noteq> a" "a + 2 \<noteq> a + 1" "a + 3 \<noteq> a + 1" "a + 3 \<noteq> a + 2"
    by simp_all
  have "load32 (store32 m a v) a = ucast (ucast v :: u8)
      OR push_bit 8 (ucast (ucast (drop_bit 8 v) :: u8))
      OR push_bit 16 (ucast (ucast (drop_bit 16 v) :: u8))
      OR push_bit 24 (ucast (ucast (drop_bit 24 v) :: u8))"
    using ne by (simp add: load32_def store32_def)
  also have "\<dots> = v"
  proof (rule bit_eqI)
    fix n :: nat
    consider "n < 8" | "8 \<le> n" "n < 16" | "16 \<le> n" "n < 24" | "24 \<le> n"
      by linarith
    then show "bit ((ucast (ucast v :: u8) :: u32) OR push_bit 8 (ucast (ucast (drop_bit 8 v) :: u8))
        OR push_bit 16 (ucast (ucast (drop_bit 16 v) :: u8))
        OR push_bit 24 (ucast (ucast (drop_bit 24 v) :: u8))) n = bit v n"
      by cases (auto simp: bit_simps dest: bit_imp_le_length)
  qed
  finally show ?thesis .
qed

lemma store32_other:
  assumes "b \<noteq> a" "b \<noteq> a + 1" "b \<noteq> a + 2" "b \<noteq> a + 3"
  shows "store32 m a v b = m b"
  using assms by (simp add: store32_def)

lemma unat_add_small:
  fixes a :: usize
  assumes "4 dvd unat a" "i < 4"
  shows "unat (a + of_nat i) = unat a + i"
proof -
  have "unat a + i < 4294967296"
    using assms unat_lt32 [of a] by (auto elim!: dvdE)
  then show ?thesis using assms(2) by (subst unat_add32) (auto simp: unat_of_nat32)
qed

text \<open>Accesses at aligned addresses do not overlap partially.\<close>

lemma aligned_bytes_distinct:
  fixes a b :: usize
  assumes "4 dvd unat a" "4 dvd unat b" "a \<noteq> b" "i < 4" "j < 4"
  shows "a + of_nat i \<noteq> b + of_nat j"
proof
  assume "a + of_nat i = b + of_nat j"
  then have "unat a + i = unat b + j"
    using unat_add_small [OF assms(1,4)] unat_add_small [OF assms(2,5)] by simp
  moreover obtain x y where "unat a = 4 * x" "unat b = 4 * y" using assms(1,2) by (auto elim!: dvdE)
  ultimately have "unat a = unat b" using assms(4,5) by presburger
  then show False using assms(3) by (simp add: word_unat_eq_iff)
qed

lemma load32_store32_aligned:
  assumes "4 dvd unat a" "4 dvd unat b"
  shows "load32 (store32 m a v) b = (if a = b then v else load32 m b)"
proof (cases "a = b")
  case False
  have ne: "b + of_nat j \<noteq> a + of_nat i" if "i < 4" "j < 4" for i j
    using aligned_bytes_distinct [OF assms False that] by metis
  have "store32 m a v (b + of_nat j) = m (b + of_nat j)" if "j < 4" for j
    using ne [of 0 j] ne [of 1 j] ne [of 2 j] ne [of 3 j] that by (intro store32_other) simp_all
  from this [of 0] this [of 1] this [of 2] this [of 3] show ?thesis
    using False by (simp add: load32_def)
qed simp

text \<open>Words at addresses given as natural numbers.\<close>

definition ld :: "memory \<Rightarrow> nat \<Rightarrow> u32" where
  "ld m k = load32 m (of_nat k)"

definition st :: "memory \<Rightarrow> nat \<Rightarrow> u32 \<Rightarrow> memory" where
  "st m k v = store32 m (of_nat k) v"

lemma ld_st:
  assumes "4 dvd j" "4 dvd k" "j < 4294967296" "k < 4294967296"
  shows "ld (st m j v) k = (if j = k then v else ld m k)"
proof -
  have "unat (of_nat j :: usize) = j" "unat (of_nat k :: usize) = k"
    using assms by (simp_all add: unat_of_nat32)
  moreover from this have "(of_nat j = (of_nat k :: usize)) = (j = k)" by metis
  ultimately show ?thesis
    using assms by (simp add: ld_def st_def load32_store32_aligned)
qed

lemma st_other:
  assumes "k + 4 \<le> 4294967296" "unat x \<notin> {k ..< k + 4}"
  shows "st m k v x = m x"
proof -
  have "unat (of_nat k + of_nat i :: usize) = k + i" if "i < 4" for i
    using that assms(1) unat_of_nat32 [of "k + i"] by simp
  then have "x \<noteq> of_nat k + of_nat i" if "i < 4" for i
    using that assms(2) by force
  from this [of 0] this [of 1] this [of 2] this [of 3] show ?thesis
    unfolding st_def by (intro store32_other) simp_all
qed

end
