(* ===== verification/Collections.thy ===== *)
theory Collections
  imports Prelude
begin

text \<open>
  The kernel's two generic containers: \<^verbatim>\<open>collections/slotlist.rs\<close> (a vector of reusable
  slots that hands out stable indices) and \<^verbatim>\<open>buffers.rs\<close> (the single-producer,
  single-consumer byte ring).  Each comes with the contract its clients use as a locale
  (\<open>slot_store\<close>, \<open>byte_fifo\<close>), interpreted here on the models of the code.
\<close>

section \<open>The first empty slot of a vector\<close>

text \<open>
  The scan loop that \<^verbatim>\<open>SlotList::find_empty_slot\<close> and
  \<^verbatim>\<open>FileHandleMap::get_next_available_handle\<close> both run: the least index from \<open>i\<close> on
  whose entry is \<^verbatim>\<open>None\<close>.
\<close>

fun first_none :: "'a option list \<Rightarrow> nat \<Rightarrow> nat option" where
  "first_none [] i = None"
| "first_none (x # xs) i = (case x of None \<Rightarrow> Some i | Some _ \<Rightarrow> first_none xs (Suc i))"

lemma first_none_None_iff: "first_none xs i = None \<longleftrightarrow> None \<notin> set xs"
  by (induction xs arbitrary: i) (auto split: option.splits)

lemma first_none_SomeD:
  assumes "first_none xs i = Some j"
  shows "i \<le> j \<and> j - i < length xs \<and> xs ! (j - i) = None \<and> (\<forall>k < j - i. xs ! k \<noteq> None)"
  using assms
proof (induction xs arbitrary: i)
  case (Cons x xs)
  show ?case
  proof (cases x)
    case None
    with Cons.prems show ?thesis by simp
  next
    case (Some y)
    with Cons.prems have *: "first_none xs (Suc i) = Some j" by simp
    note IH = Cons.IH [OF *]
    then have j: "j - i = Suc (j - Suc i)" by linarith
    show ?thesis
      using IH Some by (auto simp: j nth_Cons split: nat.splits)
  qed
qed simp

lemma first_none_0:
  assumes "first_none xs 0 = Some j"
  shows "j < length xs" "xs ! j = None" "k < j \<Longrightarrow> xs ! k \<noteq> None"
  using first_none_SomeD [OF assms] by auto

section \<open>SlotList\<close>

record 'a slotlist =
  slots :: "'a option list"

definition slotlist_new :: "'a slotlist" where
  "slotlist_new = \<lparr>slots = []\<rparr>"

definition find_empty_slot :: "'a slotlist \<Rightarrow> 'a slotlist \<times> nat" where
  "find_empty_slot s =
     (case first_none (slots s) 0 of
        Some i \<Rightarrow> (s, i)
      | None \<Rightarrow> (s\<lparr>slots := slots s @ [None]\<rparr>, length (slots s)))"

definition slot_insert :: "'a slotlist \<Rightarrow> 'a \<Rightarrow> 'a slotlist \<times> nat" where
  "slot_insert s item =
     (let (s', index) = find_empty_slot s
      in (s'\<lparr>slots := (slots s')[index := Some item]\<rparr>, index))"

definition slot_get :: "'a slotlist \<Rightarrow> nat \<Rightarrow> 'a option" where
  "slot_get s index = (case nth_opt (slots s) index of None \<Rightarrow> None | Some slot \<Rightarrow> slot)"

definition slot_remove :: "'a slotlist \<Rightarrow> nat \<Rightarrow> 'a slotlist \<times> 'a option" where
  "slot_remove s index =
     (case nth_opt (slots s) index of
        None \<Rightarrow> (s, None)
      | Some prev \<Rightarrow> (s\<lparr>slots := (slots s)[index := None]\<rparr>, prev))"

subsection \<open>The contract of a slot store\<close>

locale slot_store =
  fixes empty :: "'s"
    and insert :: "'s \<Rightarrow> 'a \<Rightarrow> 's \<times> nat"
    and get :: "'s \<Rightarrow> nat \<Rightarrow> 'a option"
    and remove :: "'s \<Rightarrow> nat \<Rightarrow> 's \<times> 'a option"
  assumes get_empty: "get empty j = None"
    and insert_fresh: "insert s x = (s', i) \<Longrightarrow> get s i = None"
    and get_insert: "insert s x = (s', i) \<Longrightarrow> get s' j = (if j = i then Some x else get s j)"
    and remove_result: "snd (remove s i) = get s i"
    and get_remove: "get (fst (remove s i)) j = (if j = i then None else get s j)"
    and insert_least: "insert s x = (s', i) \<Longrightarrow> k < i \<Longrightarrow> get s k \<noteq> None"
begin

lemma insert_keeps:
  assumes "insert s x = (s', i)" "get s j = Some y"
  shows "get s' j = Some y" and "i \<noteq> j"
  using get_insert [OF assms(1)] insert_fresh [OF assms(1)] assms(2) by auto

lemma insert_remove_other:
  assumes "insert s x = (s', i)"
  shows "get (fst (remove s' i)) j = get s j"
  using get_insert [OF assms] insert_fresh [OF assms] by (simp add: get_remove)

lemma insert_twice_distinct:
  assumes "insert s x = (s', i)" "insert s' y = (s'', j)"
  shows "i \<noteq> j" "get s'' i = Some x" "get s'' j = Some y"
proof -
  have "get s' i = Some x" using get_insert [OF assms(1)] by simp
  note keeps = insert_keeps [OF assms(2) this]
  show "i \<noteq> j" "get s'' i = Some x" using keeps by simp_all
  show "get s'' j = Some y" using get_insert [OF assms(2)] by simp
qed

lemma reinsert_reuses:
  assumes "get s i \<noteq> None" "\<And>k. k < i \<Longrightarrow> get s k \<noteq> None"
    and "insert (fst (remove s i)) x = (s', j)"
  shows "j = i"
proof -
  have "get (fst (remove s i)) j = None"
    by (rule insert_fresh [OF assms(3)])
  then have "\<not> j < i" using assms(2) [of j] by (auto simp: get_remove)
  moreover have "\<not> i < j"
    using insert_least [OF assms(3), of i] by (auto simp: get_remove)
  ultimately show ?thesis by simp
qed

end

lemma slot_insert_spec:
  assumes "slot_insert s x = (s', i)"
  shows "slot_get s i = None"
    and "slot_get s' j = (if j = i then Some x else slot_get s j)"
    and "\<forall>k < i. slot_get s k \<noteq> None"
proof -
  consider (found) "first_none (slots s) 0 = Some i" "slots s' = (slots s)[i := Some x]"
    | (grown) "first_none (slots s) 0 = None" "i = length (slots s)" "slots s' = slots s @ [Some x]"
    using assms
    by (auto simp: slot_insert_def find_empty_slot_def Let_def list_update_append split: option.splits)
  then have "slot_get s i = None \<and> slot_get s' j = (if j = i then Some x else slot_get s j)
    \<and> (\<forall>k < i. slot_get s k \<noteq> None)"
  proof (cases)
    case found
    note f = first_none_0 [OF found(1)]
    show ?thesis using f found(2) by (auto simp: slot_get_def nth_opt_def)
  next
    case grown
    have "None \<notin> set (slots s)" using grown(1) by (simp add: first_none_None_iff)
    then show ?thesis
      using grown by (auto simp: slot_get_def nth_opt_def nth_append in_set_conv_nth)
  qed
  then show "slot_get s i = None"
    and "slot_get s' j = (if j = i then Some x else slot_get s j)"
    and "\<forall>k < i. slot_get s k \<noteq> None"
    by simp_all
qed

lemma slot_remove_spec:
  "snd (slot_remove s i) = slot_get s i"
  "slot_get (fst (slot_remove s i)) j = (if j = i then None else slot_get s j)"
  by (auto simp: slot_remove_def slot_get_def nth_opt_def split: option.splits)

interpretation sl: slot_store slotlist_new slot_insert slot_get slot_remove
proof unfold_locales
  show "slot_get slotlist_new j = None" for j :: nat
    by (simp add: slot_get_def slotlist_new_def nth_opt_def)
qed (auto simp: slot_insert_spec slot_remove_spec)

section \<open>RingBuffer\<close>

record ringbuffer =
  rb_head :: usize
  rb_tail :: usize
  rb_data :: "u8 list"

definition ringbuffer_new :: "u8 list \<Rightarrow> ringbuffer" where
  "ringbuffer_new d = \<lparr>rb_head = 0, rb_tail = 0, rb_data = d\<rparr>"

text \<open>
  \<open>rb_read rb dest\<close> is \<^verbatim>\<open>rb.read(dest)\<close>: the new ring, the destination slice after the
  copy, and the number of bytes copied.  \<open>rb_write rb src\<close> likewise.
\<close>

definition rb_read :: "ringbuffer \<Rightarrow> u8 list \<Rightarrow> ringbuffer \<times> u8 list \<times> usize" where
  "rb_read rb dest =
     (let len = of_nat (length (rb_data rb));
          available_len = rb_tail rb - rb_head rb;
          to_read = (if available_len < of_nat (length dest) then available_len
                     else of_nat (length dest));
          dest' = fold (\<lambda>i d. d[i := rb_data rb ! unat ((rb_head rb + of_nat i) mod len)])
                    [0 ..< unat to_read] dest
      in (rb\<lparr>rb_head := rb_head rb + to_read\<rparr>, dest', to_read))"

definition rb_write :: "ringbuffer \<Rightarrow> u8 list \<Rightarrow> ringbuffer \<times> usize" where
  "rb_write rb src =
     (let len = of_nat (length (rb_data rb));
          available_room = rb_head rb + len - rb_tail rb;
          to_write = (if available_room < of_nat (length src) then available_room
                      else of_nat (length src));
          rb_data' = fold (\<lambda>i d. d[unat ((rb_tail rb + of_nat i) mod len) := src ! i])
                    [0 ..< unat to_write] (rb_data rb)
      in (rb\<lparr>rb_data := rb_data', rb_tail := rb_tail rb + to_write\<rparr>, to_write))"

definition available_bytes :: "ringbuffer \<Rightarrow> usize" where
  "available_bytes rb = rb_tail rb - rb_head rb"

definition rb_drain :: "ringbuffer \<Rightarrow> ringbuffer" where
  "rb_drain rb = rb\<lparr>rb_head := rb_tail rb\<rparr>"

text \<open>
  The cursors are never reduced modulo the capacity, they wrap at $2^{32}$; the ring is
  consistent across that wrap exactly because the capacity divides $2^{32}$ (every ring of
  the kernel holds 32 or 256 bytes).
\<close>

definition rb_inv :: "ringbuffer \<Rightarrow> bool" where
  "rb_inv rb \<longleftrightarrow> 0 < length (rb_data rb) \<and> length (rb_data rb) dvd 2 ^ 32 \<and> length (rb_data rb) < 2 ^ 32
     \<and> unat (rb_tail rb - rb_head rb) \<le> length (rb_data rb)"

definition rb_list :: "ringbuffer \<Rightarrow> u8 list" where
  "rb_list rb = map (\<lambda>i. rb_data rb ! ((unat (rb_head rb) + i) mod length (rb_data rb)))
     [0 ..< unat (rb_tail rb - rb_head rb)]"

subsection \<open>Index arithmetic\<close>

lemma ring_index:
  assumes "0 < L" "L dvd 2 ^ 32" "L < 2 ^ 32"
  shows "unat ((c + of_nat i :: usize) mod of_nat L) = (unat c + i) mod L"
proof -
  have "unat (c + of_nat i) = (unat c + i) mod 2 ^ 32"
    by (simp add: unat_word_ariths unat_of_nat mod_add_right_eq)
  moreover have "unat (of_nat L :: usize) = L"
    using assms(3) by (simp add: unat_of_nat)
  ultimately show ?thesis
    using assms(2) by (simp add: unat_mod_distrib mod_mod_cancel)
qed

lemma fold_update_nth:
  assumes "n \<le> length xs"
  shows "fold (\<lambda>i d. d[i := f i]) [0 ..< n] xs = map f [0 ..< n] @ drop n xs"
  using assms
proof (induction n)
  case (Suc n)
  then have "fold (\<lambda>i d. d[i := f i]) [0 ..< Suc n] xs = (map f [0 ..< n] @ drop n xs)[n := f n]"
    by simp
  also have "\<dots> = map f [0 ..< n] @ (drop n xs)[0 := f n]"
    by (simp add: list_update_append)
  also have "(drop n xs)[0 := f n] = f n # drop (Suc n) xs"
    using Suc.prems by (simp add: Cons_nth_drop_Suc [symmetric])
  finally show ?case by simp
qed simp

lemma length_fold_update [simp]:
  "length (fold (\<lambda>i d. d[g i := f i]) is xs) = length xs"
  by (induction "is" arbitrary: xs) auto

text \<open>Writing \<open>n \<le> L\<close> bytes at consecutive ring positions from \<open>t\<close> on.\<close>

lemma ring_inj:
  assumes "i < L" "j < L" "(t + i) mod L = (t + j) mod (L::nat)"
  shows "i = j"
  using assms
proof (induction i j rule: linorder_wlog)
  case (le i j)
  then have "L dvd (t + j) - (t + i)"
    by (metis add_le_mono le_refl mod_eq_dvd_iff_nat)
  then have "L dvd j - i" by simp
  with le show ?case by (auto dest: dvd_imp_le)
qed simp

lemma fold_ring_nth:
  assumes "n \<le> L" "length d = L"
  shows "(\<forall>i < n. fold (\<lambda>i d. d[(t + i) mod L := f i]) [0 ..< n] d ! ((t + i) mod L) = f i)
    \<and> (\<forall>k < L. (\<forall>i < n. k \<noteq> (t + i) mod L) \<longrightarrow>
         fold (\<lambda>i d. d[(t + i) mod L := f i]) [0 ..< n] d ! k = d ! k)"
  using assms
proof (induction n)
  case (Suc n)
  define e where "e = fold (\<lambda>i d. d[(t + i) mod L := f i]) [0 ..< n] d"
  have len: "length e = L" using Suc.prems by (simp add: e_def)
  have L: "0 < L" using Suc.prems by simp
  have IH: "\<forall>i < n. e ! ((t + i) mod L) = f i"
    "\<forall>k < L. (\<forall>i < n. k \<noteq> (t + i) mod L) \<longrightarrow> e ! k = d ! k"
    using Suc by (simp_all add: e_def)
  have ne: "(t + i) mod L \<noteq> (t + n) mod L" if "i < n" for i
    using ring_inj [of i L n t] that Suc.prems by auto
  have "fold (\<lambda>i d. d[(t + i) mod L := f i]) [0 ..< Suc n] d = e[(t + n) mod L := f n]"
    by (simp add: e_def)
  moreover have "(t + n) mod L < length e" using L len by simp
  ultimately show ?case
    using IH ne by (simp add: nth_list_update less_Suc_eq) (metis ne)
qed simp

subsection \<open>The ring is a bounded FIFO queue\<close>

lemma length_rb_list [simp]: "length (rb_list rb) = unat (rb_tail rb - rb_head rb)"
  by (simp add: rb_list_def)

lemma nth_rb_list:
  "i < length (rb_list rb) \<Longrightarrow> rb_list rb ! i = rb_data rb ! ((unat (rb_head rb) + i) mod length (rb_data rb))"
  by (simp add: rb_list_def)

lemma rb_new_spec:
  assumes "0 < length d" "length d dvd 2 ^ 32" "length d < 2 ^ 32"
  shows "rb_inv (ringbuffer_new d)" "rb_list (ringbuffer_new d) = []"
  using assms by (simp_all add: rb_inv_def ringbuffer_new_def rb_list_def)

lemma rb_read_spec:
  assumes inv: "rb_inv rb" and dest: "length dest < 2 ^ 32"
    and n: "n = min (length dest) (length (rb_list rb))"
    and r: "rb_read rb dest = (rb', dest', c)"
  shows "rb_inv rb'" "rb_list rb' = drop n (rb_list rb)" "rb_data rb' = rb_data rb" "unat c = n"
    "dest' = take n (rb_list rb) @ drop n dest"
proof -
  define L where "L = length (rb_data rb)"
  have L: "0 < L" "L dvd 2 ^ 32" "L < 2 ^ 32" "unat (rb_tail rb - rb_head rb) \<le> L"
    using inv by (simp_all add: rb_inv_def L_def)
  define to_read where "to_read = (if rb_tail rb - rb_head rb < of_nat (length dest) then rb_tail rb - rb_head rb
                     else of_nat (length dest))"
  have tr: "unat to_read = n"
    using dest by (auto simp: to_read_def n word_less_nat_alt unat_of_nat)
  have rb': "rb' = rb\<lparr>rb_head := rb_head rb + to_read\<rparr>" and c: "c = to_read"
    and d': "dest' = fold (\<lambda>i d. d[i := rb_data rb ! unat ((rb_head rb + of_nat i) mod of_nat L)])
                    [0 ..< n] dest"
    using r by (auto simp: rb_read_def Let_def to_read_def [symmetric] tr L_def)
  show "unat c = n" using c tr by simp
  show "rb_data rb' = rb_data rb" using rb' by simp
  have le: "n \<le> unat (rb_tail rb - rb_head rb)" by (simp add: n)
  have avail: "unat (rb_tail rb' - rb_head rb') = unat (rb_tail rb - rb_head rb) - n"
  proof -
    have "rb_tail rb' - rb_head rb' = (rb_tail rb - rb_head rb) - to_read" by (simp add: rb' algebra_simps)
    then show ?thesis using le tr by (simp add: unat_sub_le)
  qed
  then show "rb_inv rb'" using inv le by (auto simp: rb_inv_def rb')
  have hd: "(unat (rb_head rb') + i) mod L = (unat (rb_head rb) + (n + i)) mod L" for i
  proof -
    have "unat (rb_head rb') = (unat (rb_head rb) + n) mod 2 ^ 32"
      by (simp add: rb' unat_word_ariths tr)
    then have "(unat (rb_head rb') + i) mod L = ((unat (rb_head rb) + n) mod 2 ^ 32 mod L + i) mod L"
      by (simp add: mod_add_left_eq)
    also have "\<dots> = (unat (rb_head rb) + n + i) mod L"
      using L(2) by (simp add: mod_mod_cancel mod_add_left_eq)
    finally show ?thesis by (simp add: add.assoc)
  qed
  show "rb_list rb' = drop n (rb_list rb)"
  proof (rule nth_equalityI)
    show "length (rb_list rb') = length (drop n (rb_list rb))" using avail by simp
    fix i assume "i < length (rb_list rb')"
    then show "rb_list rb' ! i = drop n (rb_list rb) ! i"
      using avail le hd [of i] by (simp add: nth_rb_list rb' L_def [symmetric])
  qed
  have "dest' = map (\<lambda>i. rb_data rb ! ((unat (rb_head rb) + i) mod L)) [0 ..< n] @ drop n dest"
    unfolding d' by (subst fold_update_nth) (simp_all add: n ring_index [OF L(1-3)])
  also have "map (\<lambda>i. rb_data rb ! ((unat (rb_head rb) + i) mod L)) [0 ..< n] = take n (rb_list rb)"
    using le by (simp add: rb_list_def take_map L_def)
  finally show "dest' = take n (rb_list rb) @ drop n dest" .
qed

lemma rb_write_spec:
  assumes inv: "rb_inv rb" and src: "length src < 2 ^ 32"
    and n: "n = min (length src) (length (rb_data rb) - length (rb_list rb))"
    and w: "rb_write rb src = (rb', c)"
  shows "rb_inv rb'" "rb_list rb' = rb_list rb @ take n src"
    "length (rb_data rb') = length (rb_data rb)" "unat c = n"
proof -
  define L where "L = length (rb_data rb)"
  have L: "0 < L" "L dvd 2 ^ 32" "L < 2 ^ 32" "unat (rb_tail rb - rb_head rb) \<le> L"
    using inv by (simp_all add: rb_inv_def L_def)
  define m where "m = unat (rb_tail rb - rb_head rb)"
  define to_write where "to_write = (if rb_head rb + of_nat L - rb_tail rb < of_nat (length src)
      then rb_head rb + of_nat L - rb_tail rb else of_nat (length src))"
  have "rb_head rb + of_nat L - rb_tail rb = of_nat L - (rb_tail rb - rb_head rb)" by simp
  then have "unat (rb_head rb + of_nat L - rb_tail rb) = L - m"
    using L by (simp only:) (simp add: m_def unat_sub_le unat_of_nat)
  then have tw: "unat to_write = n"
    using src by (auto simp: to_write_def n m_def L_def word_less_nat_alt unat_of_nat)
  have nL: "n \<le> L - m" "n \<le> length src" by (simp_all add: n m_def L_def)
  define d' where "d' = fold (\<lambda>i d. d[(unat (rb_tail rb) + i) mod L := src ! i]) [0 ..< n] (rb_data rb)"
  have "rb_write rb src = (rb\<lparr>rb_data := d', rb_tail := rb_tail rb + to_write\<rparr>, to_write)"
    by (simp only: rb_write_def Let_def L_def [symmetric] to_write_def [symmetric] tw
        ring_index [OF L(1-3)] d'_def)
  with w have rb': "rb' = rb\<lparr>rb_data := d', rb_tail := rb_tail rb + to_write\<rparr>" and c: "c = to_write"
    by auto
  show "unat c = n" using c tw by simp
  have len: "length d' = L" by (simp add: d'_def L_def)
  then show "length (rb_data rb') = length (rb_data rb)" by (simp add: rb' L_def)
  have avail: "unat (rb_tail rb' - rb_head rb') = m + n"
  proof -
    have "rb_tail rb' - rb_head rb' = (rb_tail rb - rb_head rb) + to_write" by (simp add: rb')
    then show ?thesis using nL L by (simp add: unat_word_ariths tw m_def)
  qed
  show "rb_inv rb'" using inv nL avail len by (auto simp: rb_inv_def rb' L_def m_def)
  have tl: "(unat (rb_tail rb) + i) mod L = (unat (rb_head rb) + (m + i)) mod L" for i
  proof -
    have "unat (rb_tail rb) = (unat (rb_head rb) + m) mod 2 ^ 32"
      using unat_word_ariths(1) [of "rb_head rb" "rb_tail rb - rb_head rb"] by (simp add: m_def)
    then have "(unat (rb_tail rb) + i) mod L = ((unat (rb_head rb) + m) mod 2 ^ 32 mod L + i) mod L"
      by (simp add: mod_add_left_eq)
    also have "\<dots> = (unat (rb_head rb) + m + i) mod L"
      using L(2) by (simp add: mod_mod_cancel mod_add_left_eq)
    finally show ?thesis by (simp add: add.assoc)
  qed
  have "n \<le> L" using nL by simp
  note ring = fold_ring_nth [OF this L_def [symmetric], of "unat (rb_tail rb)" "\<lambda>i. src ! i",
      folded d'_def]
  have new: "d' ! ((unat (rb_head rb) + (m + i)) mod L) = src ! i" if "i < n" for i
    using ring that by (simp only: tl)
  have old: "d' ! ((unat (rb_head rb) + i) mod L) = rb_data rb ! ((unat (rb_head rb) + i) mod L)"
    if "i < m" for i
  proof -
    have "(unat (rb_head rb) + i) mod L \<noteq> (unat (rb_tail rb) + j) mod L" if "j < n" for j
    proof -
      have "m + j < L" using that nL(1) by arith
      then show ?thesis using ring_inj [of i L "m + j" "unat (rb_head rb)"] \<open>i < m\<close> by (auto simp: tl)
    qed
    then show ?thesis using ring L(1) by simp
  qed
  show "rb_list rb' = rb_list rb @ take n src"
  proof (rule nth_equalityI)
    show "length (rb_list rb') = length (rb_list rb @ take n src)"
      using avail nL by (simp add: m_def)
    fix i assume "i < length (rb_list rb')"
    then have i: "i < m + n" using avail by simp
    then have "rb_list rb' ! i = d' ! ((unat (rb_head rb) + i) mod L)"
      using avail len by (simp add: nth_rb_list) (simp add: rb')
    moreover have "(rb_list rb @ take n src) ! i
        = (if i < m then rb_data rb ! ((unat (rb_head rb) + i) mod L) else src ! (i - m))"
      using i by (simp add: nth_append nth_rb_list m_def L_def)
    ultimately show "rb_list rb' ! i = (rb_list rb @ take n src) ! i"
      using old [of i] new [of "i - m"] i by (cases "i < m") simp_all
  qed
qed

lemma rb_drain_spec:
  assumes "rb_inv rb"
  shows "rb_inv (rb_drain rb)" "rb_list (rb_drain rb) = []"
  using assms by (simp_all add: rb_inv_def rb_drain_def rb_list_def)

lemma available_bytes_spec: "unat (available_bytes rb) = length (rb_list rb)"
  by (simp add: available_bytes_def)

subsection \<open>The byte-queue interface\<close>

text \<open>
  Pipes, the TTY read buffers and the serial port only rely on a bounded byte queue.  A
  history is a sequence of writes and reads; \<open>fifo_run\<close> returns, beside the final queue, the
  bytes the writes accepted and the bytes the reads delivered.
\<close>

datatype fifo_op = FWrite "u8 list" | FRead "u8 list"

fun op_ok :: "fifo_op \<Rightarrow> bool" where
  "op_ok (FWrite src) \<longleftrightarrow> length src < 2 ^ 32"
| "op_ok (FRead dest) \<longleftrightarrow> length dest < 2 ^ 32"

fun fifo_run :: "('q \<Rightarrow> u8 list \<Rightarrow> 'q \<times> usize) \<Rightarrow> ('q \<Rightarrow> u8 list \<Rightarrow> 'q \<times> u8 list \<times> usize)
    \<Rightarrow> fifo_op list \<Rightarrow> 'q \<Rightarrow> 'q \<times> u8 list \<times> u8 list" where
  "fifo_run wr rd [] q = (q, [], [])"
| "fifo_run wr rd (FWrite src # ops) q =
     (case wr q src of (q', c) \<Rightarrow>
        (case fifo_run wr rd ops q' of (q'', a, d) \<Rightarrow> (q'', take (unat c) src @ a, d)))"
| "fifo_run wr rd (FRead dest # ops) q =
     (case rd q dest of (q', dest', c) \<Rightarrow>
        (case fifo_run wr rd ops q' of (q'', a, d) \<Rightarrow> (q'', a, take (unat c) dest' @ d)))"

locale byte_fifo =
  fixes inv :: "'q \<Rightarrow> bool"
    and contents :: "'q \<Rightarrow> u8 list"
    and capacity :: "'q \<Rightarrow> nat"
    and wr :: "'q \<Rightarrow> u8 list \<Rightarrow> 'q \<times> usize"
    and rd :: "'q \<Rightarrow> u8 list \<Rightarrow> 'q \<times> u8 list \<times> usize"
  assumes bounded: "inv q \<Longrightarrow> length (contents q) \<le> capacity q"
    and write_law: "\<lbrakk>inv q; length src < 2 ^ 32; wr q src = (q', c)\<rbrakk> \<Longrightarrow>
      inv q' \<and> capacity q' = capacity q \<and> unat c = min (length src) (capacity q - length (contents q))
      \<and> contents q' = contents q @ take (unat c) src"
    and read_law: "\<lbrakk>inv q; length dest < 2 ^ 32; rd q dest = (q', dest', c)\<rbrakk> \<Longrightarrow>
      inv q' \<and> capacity q' = capacity q \<and> unat c = min (length dest) (length (contents q))
      \<and> contents q' = drop (unat c) (contents q)
      \<and> dest' = take (unat c) (contents q) @ drop (unat c) dest"
begin

lemma fifo_history:
  assumes "inv q" "list_all op_ok ops" "fifo_run wr rd ops q = (q', accepted, delivered)"
  shows "inv q' \<and> contents q @ accepted = delivered @ contents q'"
  using assms
proof (induction ops arbitrary: q q' accepted delivered)
  case (Cons op ops)
  show ?case
  proof (cases op)
    case (FWrite src)
    obtain q1 c where w: "wr q src = (q1, c)" by fastforce
    obtain q2 a d where r: "fifo_run wr rd ops q1 = (q2, a, d)" by (metis prod_cases3)
    note law = write_law [OF Cons.prems(1) _ w]
    have len: "length src < 2 ^ 32" using Cons.prems(2) FWrite by simp
    have "inv q2 \<and> contents q1 @ a = d @ contents q2"
      using Cons.IH [OF _ _ r] law [OF len] Cons.prems(2) by simp
    then show ?thesis using Cons.prems(3) FWrite w r law [OF len] by auto
  next
    case (FRead dest)
    obtain q1 e c where w: "rd q dest = (q1, e, c)" by (metis prod_cases3)
    obtain q2 a d where r: "fifo_run wr rd ops q1 = (q2, a, d)" by (metis prod_cases3)
    have len: "length dest < 2 ^ 32" using Cons.prems(2) FRead by simp
    note law = read_law [OF Cons.prems(1) len w]
    have IH: "inv q2 \<and> contents q1 @ a = d @ contents q2"
      using Cons.IH [OF _ _ r] law Cons.prems(2) by simp
    have "take (unat c) e = take (unat c) (contents q)" using law by simp
    moreover have "contents q @ a = take (unat c) (contents q) @ contents q1 @ a"
      using law by simp
    ultimately show ?thesis using Cons.prems(3) FRead w r IH by auto
  qed
qed simp

lemma write_then_read:
  assumes "inv q" "length src < 2 ^ 32" "length dest < 2 ^ 32" "length src \<le> length dest"
    and "contents q = []" "length src \<le> capacity q"
    and "wr q src = (q', c)" "rd q' dest = (q'', dest', c')"
  shows "c' = c \<and> take (length src) dest' = src \<and> contents q'' = []"
proof -
  have w: "inv q'" "unat c = length src" "contents q' = src"
    using write_law [OF assms(1,2,7)] assms(5,6) by auto
  have "unat c' = length src" "contents q'' = []" "dest' = src @ drop (length src) dest"
    using read_law [OF w(1) assms(3,8)] w(3) assms(4) by auto
  then show ?thesis using w(2) by (simp add: word_unat_eq_iff)
qed

end

interpretation rbq: byte_fifo rb_inv rb_list "\<lambda>rb. length (rb_data rb)" rb_write rb_read
proof unfold_locales
  fix q src q' c
  assume a: "rb_inv q" "length src < 2 ^ 32" "rb_write q src = (q', c)"
  show "rb_inv q' \<and> length (rb_data q') = length (rb_data q)
    \<and> unat c = min (length src) (length (rb_data q) - length (rb_list q))
    \<and> rb_list q' = rb_list q @ take (unat c) src"
    using rb_write_spec [OF a(1,2) refl a(3)] by simp
next
  fix q dest q' dest' c
  assume a: "rb_inv q" "length dest < 2 ^ 32" "rb_read q dest = (q', dest', c)"
  show "rb_inv q' \<and> length (rb_data q') = length (rb_data q)
    \<and> unat c = min (length dest) (length (rb_list q))
    \<and> rb_list q' = drop (unat c) (rb_list q)
    \<and> dest' = take (unat c) (rb_list q) @ drop (unat c) dest"
    using rb_read_spec [OF a(1,2) refl a(3)] by simp
qed (simp add: rb_inv_def)

section \<open>Properties\<close>

text \<open>C5: across any sequence of writes and reads on a ring whose capacity divides 2^32, the bytes
  that were in the ring followed by the bytes the writes accepted are, in order, the bytes the
  reads delivered followed by the bytes still in the ring: nothing is lost, duplicated or
  reordered, even when the free-running cursors wrap around.\<close>

theorem ring_is_fifo:
  assumes "rb_inv rb" "list_all op_ok ops" "fifo_run rb_write rb_read ops rb = (rb', accepted, delivered)"
  shows "rb_inv rb' \<and> rb_list rb @ accepted = delivered @ rb_list rb'"
  using rbq.fifo_history [OF assms] .

text \<open>The cursors stand three bytes before the wrap, so the history below crosses it.\<close>

definition sample_ring :: ringbuffer where
  "sample_ring = \<lparr>rb_head = 0xfffffffd, rb_tail = 0xfffffffe, rb_data = [10, 11, 12, 13, 14, 15, 16, 17]\<rparr>"

lemma sample_ring_run:
  "fifo_run rb_write rb_read [FWrite [1, 2, 3, 4], FRead [0, 0, 0], FWrite [5]] sample_ring
     = (\<lparr>rb_head = 0, rb_tail = 3, rb_data = [3, 4, 5, 13, 14, 15, 1, 2]\<rparr>, [1, 2, 3, 4, 5], [15, 1, 2])"
  by code_simp

theorem ring_is_fifo_witness:
  "rb_inv sample_ring
     \<and> rb_list sample_ring @ [1, 2, 3, 4, 5]
         = [15, 1, 2] @ rb_list \<lparr>rb_head = 0, rb_tail = 3, rb_data = [3, 4, 5, 13, 14, 15, 1, 2]\<rparr>"
proof -
  have len: "length (rb_data sample_ring) = 8" by (simp add: sample_ring_def)
  have inv: "rb_inv sample_ring" unfolding rb_inv_def len by (simp add: sample_ring_def)
  show ?thesis using ring_is_fifo [OF inv _ sample_ring_run] inv by simp
qed

text \<open>C36: a slot list behaves as a finite map that chooses its own keys: inserting returns the least
  free index and changes that entry only, removing returns and clears one entry, and an index
  once handed out keeps its item until it is removed.\<close>

theorem slotlist_stable_indices:
  assumes "slot_insert s x = (s', i)"
  shows "slot_get s i = None \<and> (\<forall>k < i. slot_get s k \<noteq> None)
     \<and> (\<forall>j. slot_get s' j = (if j = i then Some x else slot_get s j))
     \<and> snd (slot_remove s' i) = Some x
     \<and> (\<forall>j. slot_get (fst (slot_remove s' i)) j = slot_get s j)"
  using slot_insert_spec [OF assms] slot_remove_spec [where s = s' and i = i] by auto

theorem slotlist_stable_indices_witness:
  "slot_insert \<lparr>slots = [Some (7 :: u8), None, Some 9]\<rparr> 8 = (\<lparr>slots = [Some 7, Some 8, Some 9]\<rparr>, 1)
   \<and> slot_get \<lparr>slots = [Some (7 :: u8), None, Some 9]\<rparr> 1 = None"
proof -
  have run: "slot_insert \<lparr>slots = [Some (7 :: u8), None, Some 9]\<rparr> 8 = (\<lparr>slots = [Some 7, Some 8, Some 9]\<rparr>, 1)"
    by code_simp
  show ?thesis using slotlist_stable_indices [OF run] run by simp
qed

end
