(* ===== verification/FrameAlloc.thy ===== *)
theory FrameAlloc
  imports Prelude
begin

text \<open>
  Physical memory (\<^verbatim>\<open>kernel/src/memory/address.rs\<close> and \<^verbatim>\<open>kernel/src/memory/physical/\<close>).

  A frame is a 4096-byte block of physical memory.  The bitmap keeps one bit per frame,
  set when the frame is taken; the reference counts tell how many pages share a frame, for
  copy-on-write.  \<open>phys\<close> is the pair of global variables \<^verbatim>\<open>ALLOCATOR\<close> and \<^verbatim>\<open>REF_COUNT\<close>.

  The specification reads a bitmap as the set of taken frames (\<open>frame_used\<close>).  The lemmas
  show that \<^verbatim>\<open>allocate_range\<close> and \<^verbatim>\<open>free_range\<close> add and remove exactly the frames of the
  range, that \<^verbatim>\<open>find_free_range\<close> is a complete first-fit search, and that no operation
  indexes the map out of bounds.  The locale \<open>frame_source\<close> is the contract the page tables
  rely on.
\<close>

section \<open>Addresses and frames\<close>

text \<open>
  \<^verbatim>\<open>PhysicalAddress\<close>, \<^verbatim>\<open>VirtualAddress\<close> and \<^verbatim>\<open>Frame\<close> are transparent wrappers around a
  \<^verbatim>\<open>usize\<close>; their comparison operators compare the wrapped integers.
\<close>

datatype physical_address = PhysicalAddress usize
datatype virtual_address = VirtualAddress usize
datatype frame = Frame usize

fun pa_usize :: "physical_address \<Rightarrow> usize" where
  "pa_usize (PhysicalAddress a) = a"

fun va_usize :: "virtual_address \<Rightarrow> usize" where
  "va_usize (VirtualAddress a) = a"

definition get_page_directory_index :: "virtual_address \<Rightarrow> usize" where
  "get_page_directory_index v = drop_bit 22 (va_usize v)"

definition get_page_table_index :: "virtual_address \<Rightarrow> usize" where
  "get_page_table_index v = drop_bit 12 (va_usize v) AND 0x3ff"

definition va_offset :: "virtual_address \<Rightarrow> usize \<Rightarrow> virtual_address" where
  "va_offset v delta = VirtualAddress (va_usize v + delta)"

definition frame_new :: "usize \<Rightarrow> frame" where
  "frame_new start = Frame (start AND 0xfffff000)"

fun next_frame :: "frame \<Rightarrow> frame" where
  "next_frame (Frame a) = Frame (a + 0x1000)"

fun get_address :: "frame \<Rightarrow> physical_address" where
  "get_address (Frame a) = PhysicalAddress a"

definition containing_address :: "physical_address \<Rightarrow> frame" where
  "containing_address addr = (let frame_start = pa_usize addr AND 0xfffff000 in frame_new frame_start)"

text \<open>The loop both \<^verbatim>\<open>zero_memory\<close> methods run: store a zero word, advance by four bytes.\<close>

fun zero_words :: "nat \<Rightarrow> usize \<Rightarrow> memory \<Rightarrow> memory" where
  "zero_words 0 ptr m = m"
| "zero_words (Suc n) ptr m = zero_words n (ptr + 4) (store32 m ptr 0)"

definition frame_zero_memory :: "frame \<Rightarrow> memory \<Rightarrow> memory" where
  "frame_zero_memory f m = zero_words 1024 (pa_usize (get_address f)) m"

section \<open>Frame ranges\<close>

record frame_range =
  fr_start :: usize
  fr_length :: usize

definition frame_range_new :: "usize \<Rightarrow> usize \<Rightarrow> frame_range" where
  "frame_range_new start len = \<lparr>fr_start = start, fr_length = len\<rparr>"

definition get_first_frame_index :: "frame_range \<Rightarrow> usize" where
  "get_first_frame_index r = drop_bit 12 (fr_start r)"

definition get_last_frame_index :: "frame_range \<Rightarrow> usize" where
  "get_last_frame_index r = drop_bit 12 (fr_start r + fr_length r - 1)"

definition get_starting_address :: "frame_range \<Rightarrow> physical_address" where
  "get_starting_address r = PhysicalAddress (fr_start r)"

definition get_ending_address :: "frame_range \<Rightarrow> physical_address" where
  "get_ending_address r = PhysicalAddress (fr_start r + fr_length r - 1)"

definition get_first_frame :: "frame_range \<Rightarrow> frame" where
  "get_first_frame r = frame_new (fr_start r)"

definition contains_address :: "frame_range \<Rightarrow> physical_address \<Rightarrow> bool" where
  "contains_address r addr =
     (fr_start r \<le> pa_usize addr \<and> fr_start r + fr_length r > pa_usize addr)"

definition range_size_in_frames :: "frame_range \<Rightarrow> usize" where
  "range_size_in_frames r = drop_bit 12 (fr_length r)"

definition size_in_bytes :: "frame_range \<Rightarrow> usize" where
  "size_in_bytes r = fr_length r"

definition range_zero_memory :: "frame_range \<Rightarrow> memory \<Rightarrow> memory" where
  "range_zero_memory r m = zero_words (unat (drop_bit 2 (size_in_bytes r))) (fr_start r) m"

section \<open>The BIOS memory map\<close>

record map_entry =
  base :: u64
  entry_length :: u64
  region_type :: u32
  acpi :: u32

definition REGION_TYPE_FREE :: u32 where "REGION_TYPE_FREE = 1"

definition load64 :: "memory \<Rightarrow> usize \<Rightarrow> u64" where
  "load64 m a = ucast (load32 m a) OR push_bit 32 (ucast (load32 m (a + 4)))"

definition load_entries_at_address :: "memory \<Rightarrow> usize \<Rightarrow> map_entry list" where
  "load_entries_at_address m addr =
     (let count = load32 m addr; first_entry = addr + 4
      in map (\<lambda>i. let p = first_entry + of_nat (24 * i)
                   in \<lparr>base = load64 m p, entry_length = load64 m (p + 8),
                       region_type = load32 m (p + 16), acpi = load32 m (p + 20)\<rparr>)
           [0 ..< unat count])"

section \<open>The frame bitmap\<close>

datatype bitmap_error = NoAvailableSpace | OutOfBounds

text \<open>The map is a raw slice: its address and the bytes found there.\<close>

record frame_bitmap =
  frame_count :: usize
  map_location :: usize
  bitmap :: "u8 list"

definition at_location :: "memory \<Rightarrow> usize \<Rightarrow> usize \<Rightarrow> frame_bitmap" where
  "at_location m start count =
     (let byte_size = drop_bit 3 count;
          byte_size = (if count AND 7 \<noteq> 0 then byte_size + 1 else byte_size)
      in \<lparr>frame_count = count, map_location = start,
          bitmap = map (\<lambda>i. m (start + of_nat i)) [0 ..< unat byte_size]\<rparr>)"

definition move_to_highmem :: "frame_bitmap \<Rightarrow> frame_bitmap" where
  "move_to_highmem bm = bm\<lparr>map_location := map_location bm OR 0xc0000000\<rparr>"

text \<open>\<^verbatim>\<open>for x in a..=b\<close> over \<^verbatim>\<open>usize\<close>: the values in order, none when \<^verbatim>\<open>a > b\<close>.\<close>

definition range_incl :: "usize \<Rightarrow> usize \<Rightarrow> usize list" where
  "range_incl a b = map of_nat [unat a ..< Suc (unat b)]"

text \<open>
  \<^verbatim>\<open>while frame < frame_count { map[frame >> 3] = 0xff; frame += 8 }\<close>.  If the addition
  wraps, the counter is zero again and the loop never ends.
\<close>

function reset_from :: "usize \<Rightarrow> usize \<Rightarrow> u8 list \<Rightarrow> u8 list outcome" where
  "reset_from count frame bs =
     (if frame < count
      then obind (vec_set bs (unat (drop_bit 3 frame)) 0xff)
             (\<lambda>bs'. if frame < frame + 8 then reset_from count (frame + 8) bs' else Hang)
      else Done bs)"
  by pat_completeness auto
termination
  by (relation "measure (\<lambda>(count, frame, bs). unat count - unat frame)")
     (auto simp: word_less_nat_alt)

declare reset_from.simps [simp del]

definition bitmap_reset :: "frame_bitmap \<Rightarrow> frame_bitmap outcome" where
  "bitmap_reset bm = obind (reset_from (frame_count bm) 0 (bitmap bm)) (\<lambda>bs. Done (bm\<lparr>bitmap := bs\<rparr>))"

definition bitmap_size_in_frames :: "frame_bitmap \<Rightarrow> usize" where
  "bitmap_size_in_frames bm =
     (let byte_size = drop_bit 3 (frame_count bm);
          count = drop_bit 12 byte_size
      in if byte_size AND 0xfff = 0 then count else count + 1)"

definition contains_frame_index :: "frame_bitmap \<Rightarrow> usize \<Rightarrow> bool" where
  "contains_frame_index bm index = (index < frame_count bm)"

definition contains_range :: "frame_bitmap \<Rightarrow> frame_range \<Rightarrow> bool" where
  "contains_range bm rng = contains_frame_index bm (get_last_frame_index rng)"

fun all_clear :: "u8 list \<Rightarrow> usize list \<Rightarrow> bool outcome" where
  "all_clear bs [] = Done True"
| "all_clear bs (frame # frames) =
     obind (vec_get bs (unat (drop_bit 3 frame)))
       (\<lambda>bitmap_byte. if bitmap_byte AND push_bit (unat (frame AND 7)) 1 \<noteq> 0 then Done False
                       else all_clear bs frames)"

definition is_range_free :: "frame_bitmap \<Rightarrow> frame_range \<Rightarrow> bool outcome" where
  "is_range_free bm rng =
     (if \<not> contains_range bm rng then Done False
      else all_clear (bitmap bm)
             (range_incl (get_first_frame_index rng) (get_last_frame_index rng)))"

text \<open>The search loop of \<^verbatim>\<open>find_free_range\<close>, from the given values of its three variables.\<close>

function find_free_from ::
  "frame_bitmap \<Rightarrow> usize \<Rightarrow> usize \<Rightarrow> usize \<Rightarrow> usize \<Rightarrow> frame_range option outcome" where
  "find_free_from bm wanted frame remaining search_start =
     (if frame < frame_count bm
      then obind (vec_get (bitmap bm) (unat (drop_bit 3 frame)))
             (\<lambda>b. if b AND push_bit (unat (frame AND 7)) 1 \<noteq> 0
                  then find_free_from bm wanted (frame + 1) wanted (frame + 1)
                  else if remaining - 1 = 0
                  then Done (Some (frame_range_new (push_bit 12 search_start)
                                     (push_bit 12 (frame + 1 - search_start))))
                  else find_free_from bm wanted (frame + 1) (remaining - 1) search_start)
      else Done None)"
  by pat_completeness auto

lemma unat_Suc_below:
  "(frame :: usize) < count \<Longrightarrow> unat (frame + 1) = Suc (unat frame)"
  using unat_lt32 [of count] by (subst unat_add32) (auto simp: word_less_nat_alt)

termination find_free_from
  by (relation "measure (\<lambda>(bm, wanted, frame, remaining, start). unat (frame_count bm) - unat frame)")
     (auto simp: unat_Suc_below word_less_nat_alt)

declare find_free_from.simps [simp del]

definition find_free_range :: "frame_bitmap \<Rightarrow> usize \<Rightarrow> frame_range option outcome" where
  "find_free_range bm wanted = find_free_from bm wanted 0 wanted 0"

definition set_frame_bit :: "usize \<Rightarrow> u8 list \<Rightarrow> u8 list outcome" where
  "set_frame_bit frame bs =
     (let byte_index = unat (drop_bit 3 frame)
      in obind (vec_get bs byte_index)
           (\<lambda>b. vec_set bs byte_index (b OR push_bit (unat (frame AND 7)) 1)))"

definition clear_frame_bit :: "usize \<Rightarrow> u8 list \<Rightarrow> u8 list outcome" where
  "clear_frame_bit frame bs =
     (let byte_index = unat (drop_bit 3 frame)
      in obind (vec_get bs byte_index)
           (\<lambda>b. vec_set bs byte_index (b AND NOT (push_bit (unat (frame AND 7)) 1))))"

definition allocate_range :: "frame_bitmap \<Rightarrow> frame_range \<Rightarrow> ((bitmap_error + unit) \<times> frame_bitmap) outcome" where
  "allocate_range bm rng =
     (if \<not> contains_range bm rng then Done (Inl OutOfBounds, bm)
      else obind (ofold set_frame_bit
                    (range_incl (get_first_frame_index rng) (get_last_frame_index rng)) (bitmap bm))
             (\<lambda>bs. Done (Inr (), bm\<lparr>bitmap := bs\<rparr>)))"

definition allocate_frames :: "frame_bitmap \<Rightarrow> usize \<Rightarrow> ((bitmap_error + frame_range) \<times> frame_bitmap) outcome" where
  "allocate_frames bm wanted =
     obind (find_free_range bm wanted)
       (\<lambda>found. case found of
            None \<Rightarrow> Done (Inl NoAvailableSpace, bm)
          | Some rng \<Rightarrow>
              obind (allocate_range bm rng)
                (\<lambda>(r, bm'). case r of Inr _ \<Rightarrow> Done (Inr rng, bm') | Inl e \<Rightarrow> Done (Inl e, bm')))"

definition free_range :: "frame_bitmap \<Rightarrow> frame_range \<Rightarrow> ((bitmap_error + unit) \<times> frame_bitmap) outcome" where
  "free_range bm rng =
     (if \<not> contains_range bm rng then Done (Inl OutOfBounds, bm)
      else obind (ofold clear_frame_bit
                    (range_incl (get_first_frame_index rng) (get_last_frame_index rng)) (bitmap bm))
             (\<lambda>bs. Done (Inr (), bm\<lparr>bitmap := bs\<rparr>)))"

text \<open>The \<^verbatim>\<open>for entry in map\<close> loop of \<^verbatim>\<open>initialize_from_memory_map\<close>, with its early return.\<close>

fun free_map_entries :: "map_entry list \<Rightarrow> frame_bitmap \<Rightarrow> ((bitmap_error + unit) \<times> frame_bitmap) outcome" where
  "free_map_entries [] bm = Done (Inr (), bm)"
| "free_map_entries (entry # entries) bm =
     (if region_type entry = REGION_TYPE_FREE
      then obind (free_range bm (frame_range_new (ucast (base entry AND 0xffffffff))
                                   (ucast (entry_length entry AND 0xffffffff))))
             (\<lambda>(r, bm'). case r of Inl e \<Rightarrow> Done (Inl e, bm') | Inr _ \<Rightarrow> free_map_entries entries bm')
      else free_map_entries entries bm)"

definition initialize_from_memory_map :: "map_entry list \<Rightarrow> frame_bitmap \<Rightarrow> ((bitmap_error + unit) \<times> frame_bitmap) outcome" where
  "initialize_from_memory_map entries bm = obind (bitmap_reset bm) (free_map_entries entries)"

text \<open>
  \<^verbatim>\<open>get_free_frame_count\<close>: the inner loop shifts \<^verbatim>\<open>mask\<close> through the eight bits of a byte and
  advances \<^verbatim>\<open>frame\<close> each time; a full byte is stepped over one frame at a time.  As in
  \<open>reset_from\<close> a wrap of the counter means that the loop starts over and never ends.
\<close>

definition count_clear_bits :: "u8 \<Rightarrow> usize \<Rightarrow> usize" where
  "count_clear_bits map_value free =
     fold (\<lambda>j free. if map_value AND push_bit j 1 = 0 then free + 1 else free) [0 ..< 8] free"

function count_free_from :: "frame_bitmap \<Rightarrow> usize \<Rightarrow> usize \<Rightarrow> usize outcome" where
  "count_free_from bm frame free =
     (if frame < frame_count bm
      then obind (vec_get (bitmap bm) (unat (drop_bit 3 frame)))
             (\<lambda>map_value. if map_value \<noteq> 0xff
                then if frame < frame + 8
                     then count_free_from bm (frame + 8) (count_clear_bits map_value free)
                     else Hang
                else count_free_from bm (frame + 1) free)
      else Done free)"
  by pat_completeness auto
termination count_free_from
  by (relation "measure (\<lambda>(bm, frame, free). unat (frame_count bm) - unat frame)")
     (auto simp: unat_Suc_below word_less_nat_alt)

declare count_free_from.simps [simp del]

definition get_free_frame_count :: "frame_bitmap \<Rightarrow> usize outcome" where
  "get_free_frame_count bm = count_free_from bm 0 0"

section \<open>Reference counts\<close>

record frame_refcount =
  references :: "u8 list"

definition frame_refcount_new :: "usize \<Rightarrow> frame_refcount" where
  "frame_refcount_new count = \<lparr>references = replicate (unat count) 0\<rparr>"

definition reference_frame_at_index :: "frame_refcount \<Rightarrow> usize \<Rightarrow> (u8 \<times> frame_refcount) outcome" where
  "reference_frame_at_index rc index =
     obind (vec_get (references rc) (unat index))
       (\<lambda>n. let new_count = n + 1
             in obind (vec_set (references rc) (unat index) new_count)
                  (\<lambda>rs. Done (new_count, rc\<lparr>references := rs\<rparr>)))"

definition reference_frame_at_address :: "frame_refcount \<Rightarrow> physical_address \<Rightarrow> (u8 \<times> frame_refcount) outcome" where
  "reference_frame_at_address rc addr = reference_frame_at_index rc (pa_usize addr div 0x1000)"

definition reference_frame :: "frame_refcount \<Rightarrow> frame \<Rightarrow> (u8 \<times> frame_refcount) outcome" where
  "reference_frame rc f = reference_frame_at_address rc (get_address f)"

definition release_frame_at_index :: "frame_refcount \<Rightarrow> usize \<Rightarrow> (u8 \<times> frame_refcount) outcome" where
  "release_frame_at_index rc index =
     obind (vec_get (references rc) (unat index))
       (\<lambda>current_count. if current_count = 0 then Done (0, rc)
          else let new_count = current_count - 1
               in obind (vec_set (references rc) (unat index) new_count)
                    (\<lambda>rs. Done (new_count, rc\<lparr>references := rs\<rparr>)))"

definition release_frame_at_address :: "frame_refcount \<Rightarrow> physical_address \<Rightarrow> (u8 \<times> frame_refcount) outcome" where
  "release_frame_at_address rc addr = release_frame_at_index rc (pa_usize addr div 0x1000)"

definition release_frame :: "frame_refcount \<Rightarrow> frame \<Rightarrow> (u8 \<times> frame_refcount) outcome" where
  "release_frame rc f = release_frame_at_address rc (get_address f)"

definition current_count_at_index :: "frame_refcount \<Rightarrow> usize \<Rightarrow> u8 outcome" where
  "current_count_at_index rc index = vec_get (references rc) (unat index)"

definition current_count_at_address :: "frame_refcount \<Rightarrow> physical_address \<Rightarrow> u8 outcome" where
  "current_count_at_address rc addr = current_count_at_index rc (pa_usize addr div 0x1000)"

section \<open>The global allocator\<close>

record phys =
  ALLOCATOR :: "frame_bitmap option"
  REF_COUNT :: "frame_refcount option"

definition memory_limit :: "map_entry list \<Rightarrow> usize" where
  "memory_limit memory_map =
     fold (\<lambda>entry limit. let stop = ucast (base entry + entry_length entry)
                           in if stop > limit then stop else limit) memory_map 0"

definition init_allocator :: "memory \<Rightarrow> usize \<Rightarrow> usize \<Rightarrow> phys \<Rightarrow> phys outcome" where
  "init_allocator m location memory_map_addr p =
     (if location AND 0xfff \<noteq> 0 then Panic
      else let memory_map = load_entries_at_address m memory_map_addr;
               limit = memory_limit memory_map;
               bm = at_location m location (drop_bit 12 limit)
           in obind (initialize_from_memory_map memory_map bm) (\<lambda>(r, bm).
              obind (unwrap r) (\<lambda>_.
              let own_range = frame_range_new location (bitmap_size_in_frames bm * 0x1000)
              in obind (allocate_range bm own_range) (\<lambda>(r, bm).
                 obind (unwrap r) (\<lambda>_. Done (p\<lparr>ALLOCATOR := Some bm\<rparr>))))))"

definition with_allocator :: "(frame_bitmap \<Rightarrow> ('t \<times> frame_bitmap) outcome) \<Rightarrow> phys \<Rightarrow> ('t \<times> phys) outcome" where
  "with_allocator f p =
     (case ALLOCATOR p of
        None \<Rightarrow> Panic
      | Some bm \<Rightarrow> obind (f bm) (\<lambda>(t, bm'). Done (t, p\<lparr>ALLOCATOR := Some bm'\<rparr>)))"

definition with_refcount :: "(frame_refcount \<Rightarrow> ('t \<times> frame_refcount) outcome) \<Rightarrow> phys \<Rightarrow> ('t \<times> phys) outcome" where
  "with_refcount f p =
     (case REF_COUNT p of
        None \<Rightarrow> Panic
      | Some rc \<Rightarrow> obind (f rc) (\<lambda>(t, rc'). Done (t, p\<lparr>REF_COUNT := Some rc'\<rparr>)))"

definition move_allocator_reference_to_highmem :: "phys \<Rightarrow> (unit \<times> phys) outcome" where
  "move_allocator_reference_to_highmem = with_allocator (\<lambda>bm. Done ((), move_to_highmem bm))"

definition phys_get_frame_count :: "phys \<Rightarrow> (usize \<times> phys) outcome" where
  "phys_get_frame_count = with_allocator (\<lambda>bm. Done (frame_count bm, bm))"

definition phys_get_free_frame_count :: "phys \<Rightarrow> (usize \<times> phys) outcome" where
  "phys_get_free_frame_count =
     with_allocator (\<lambda>bm. obind (get_free_frame_count bm) (\<lambda>n. Done (n, bm)))"

definition init_refcount :: "phys \<Rightarrow> phys outcome" where
  "init_refcount p =
     obind (phys_get_frame_count p) (\<lambda>(n, p). Done (p\<lparr>REF_COUNT := Some (frame_refcount_new n)\<rparr>))"

definition phys_allocate_frames :: "usize \<Rightarrow> phys \<Rightarrow> ((bitmap_error + frame_range) \<times> phys) outcome" where
  "phys_allocate_frames count = with_allocator (\<lambda>bm. allocate_frames bm count)"

definition allocate_frame :: "phys \<Rightarrow> ((bitmap_error + frame) \<times> phys) outcome" where
  "allocate_frame p =
     obind (phys_allocate_frames 1 p) (\<lambda>(r, p).
       Done (case r of Inr f \<Rightarrow> Inr (get_first_frame f) | Inl e \<Rightarrow> Inl e, p))"

definition phys_allocate_range :: "frame_range \<Rightarrow> phys \<Rightarrow> ((bitmap_error + unit) \<times> phys) outcome" where
  "phys_allocate_range rng = with_allocator (\<lambda>bm. allocate_range bm rng)"

definition phys_free_range :: "frame_range \<Rightarrow> phys \<Rightarrow> ((bitmap_error + unit) \<times> phys) outcome" where
  "phys_free_range rng = with_allocator (\<lambda>bm. free_range bm rng)"

text \<open>
  \<^verbatim>\<open>get_frame_for_copy_on_write\<close> holds the lock of the reference counts while it takes and
  drops the lock of the bitmap; the two are different locks.
\<close>

definition get_frame_for_copy_on_write :: "physical_address \<Rightarrow> phys \<Rightarrow> ((bitmap_error + frame) \<times> phys) outcome" where
  "get_frame_for_copy_on_write prev p =
     (case REF_COUNT p of
        None \<Rightarrow> Panic
      | Some rc \<Rightarrow>
          obind (current_count_at_address rc prev) (\<lambda>current_count.
            if current_count > 1
            then obind (allocate_frame p) (\<lambda>(new_frame, p).
                   case new_frame of
                     Inr f \<Rightarrow> obind (reference_frame rc f) (\<lambda>(_, rc).
                              obind (release_frame_at_address rc prev) (\<lambda>(_, rc).
                                Done (Inr f, p\<lparr>REF_COUNT := Some rc\<rparr>)))
                   | Inl e \<Rightarrow> Done (Inl e, p))
            else Done (Inr (frame_new (pa_usize prev)), p)))"

definition phys_reference_frame_at_address :: "physical_address \<Rightarrow> phys \<Rightarrow> (u8 \<times> phys) outcome" where
  "phys_reference_frame_at_address addr = with_refcount (\<lambda>rc. reference_frame_at_address rc addr)"

section \<open>Specification\<close>

text \<open>A bitmap as a set of taken frames, and its well-formedness.\<close>

definition bs_bit :: "u8 list \<Rightarrow> nat \<Rightarrow> bool" where
  "bs_bit bs k = bit (bs ! (k div 8)) (k mod 8)"

definition frame_used :: "frame_bitmap \<Rightarrow> nat \<Rightarrow> bool" where
  "frame_used bm = bs_bit (bitmap bm)"

definition bm_wf :: "frame_bitmap \<Rightarrow> bool" where
  "bm_wf bm \<longleftrightarrow> length (bitmap bm) = (unat (frame_count bm) + 7) div 8 \<and> unat (frame_count bm) \<le> 2 ^ 20"

definition run_free :: "frame_bitmap \<Rightarrow> nat \<Rightarrow> nat \<Rightarrow> bool" where
  "run_free bm s n \<longleftrightarrow> (\<forall>k \<in> {s ..< s + n}. \<not> frame_used bm k)"

definition range_frames :: "frame_range \<Rightarrow> nat set" where
  "range_frames r = {unat (get_first_frame_index r) .. unat (get_last_frame_index r)}"

text \<open>The range of \<open>n\<close> frames starting at frame \<open>s\<close>.\<close>

definition run_range :: "nat \<Rightarrow> nat \<Rightarrow> frame_range" where
  "run_range s n = frame_range_new (of_nat (s * 4096)) (of_nat (n * 4096))"

section \<open>Single bits\<close>

lemma div_mod_8_eq: "(j :: nat) div 8 = k div 8 \<Longrightarrow> j mod 8 = k mod 8 \<Longrightarrow> j = k"
  by (metis div_mult_mod_eq)

lemma frame_byte_index [simp]: "unat (drop_bit 3 (frame :: usize)) = unat frame div 8"
  by (simp add: word_nat)

lemma set_frame_bit_ok:
  assumes "unat frame div 8 < length bs"
  obtains bs' where "set_frame_bit frame bs = Done bs'" "length bs' = length bs"
    "\<And>j. bs_bit bs' j = (bs_bit bs j \<or> j = unat frame)"
proof
  let ?i = "unat frame div 8"
  let ?bs' = "bs[?i := bs ! ?i OR push_bit (unat frame mod 8) 1]"
  show "set_frame_bit frame bs = Done ?bs'"
    using assms by (simp add: set_frame_bit_def Let_def word_nat)
  show "length ?bs' = length bs" by simp
  show "bs_bit ?bs' j = (bs_bit bs j \<or> j = unat frame)" for j
    using assms div_mod_8_eq [of j "unat frame"]
    by (auto simp: bs_bit_def nth_list_update bit_or_single)
qed

lemma clear_frame_bit_ok:
  assumes "unat frame div 8 < length bs"
  obtains bs' where "clear_frame_bit frame bs = Done bs'" "length bs' = length bs"
    "\<And>j. bs_bit bs' j = (bs_bit bs j \<and> j \<noteq> unat frame)"
proof
  let ?i = "unat frame div 8"
  let ?bs' = "bs[?i := bs ! ?i AND NOT (push_bit (unat frame mod 8) 1)]"
  show "clear_frame_bit frame bs = Done ?bs'"
    using assms by (simp add: clear_frame_bit_def Let_def word_nat)
  show "length ?bs' = length bs" by simp
  show "bs_bit ?bs' j = (bs_bit bs j \<and> j \<noteq> unat frame)" for j
    using assms div_mod_8_eq [of j "unat frame"]
    by (auto simp: bs_bit_def nth_list_update bit_and_not_single)
qed

lemma ofold_set_bits:
  assumes "\<And>f. f \<in> set frames \<Longrightarrow> unat f div 8 < length bs"
  shows "\<exists>bs'. ofold set_frame_bit frames bs = Done bs' \<and> length bs' = length bs
    \<and> (\<forall>j. bs_bit bs' j = (bs_bit bs j \<or> j \<in> unat ` set frames))"
  using assms
proof (induction frames arbitrary: bs)
  case (Cons f frames)
  obtain bs1 where 1: "set_frame_bit f bs = Done bs1" "length bs1 = length bs"
    "\<And>j. bs_bit bs1 j = (bs_bit bs j \<or> j = unat f)"
    using set_frame_bit_ok [of f bs] Cons.prems by (metis list.set_intros(1))
  obtain bs2 where 2: "ofold set_frame_bit frames bs1 = Done bs2" "length bs2 = length bs1"
    "\<And>j. bs_bit bs2 j = (bs_bit bs1 j \<or> j \<in> unat ` set frames)"
    using Cons.IH [of bs1] Cons.prems 1(2) by auto
  show ?case by (rule exI [of _ bs2]) (auto simp: 1 2)
qed simp

lemma ofold_clear_bits:
  assumes "\<And>f. f \<in> set frames \<Longrightarrow> unat f div 8 < length bs"
  shows "\<exists>bs'. ofold clear_frame_bit frames bs = Done bs' \<and> length bs' = length bs
    \<and> (\<forall>j. bs_bit bs' j = (bs_bit bs j \<and> j \<notin> unat ` set frames))"
  using assms
proof (induction frames arbitrary: bs)
  case (Cons f frames)
  obtain bs1 where 1: "clear_frame_bit f bs = Done bs1" "length bs1 = length bs"
    "\<And>j. bs_bit bs1 j = (bs_bit bs j \<and> j \<noteq> unat f)"
    using clear_frame_bit_ok [of f bs] Cons.prems by (metis list.set_intros(1))
  obtain bs2 where 2: "ofold clear_frame_bit frames bs1 = Done bs2" "length bs2 = length bs1"
    "\<And>j. bs_bit bs2 j = (bs_bit bs1 j \<and> j \<notin> unat ` set frames)"
    using Cons.IH [of bs1] Cons.prems 1(2) by auto
  show ?case by (rule exI [of _ bs2]) (auto simp: 1 2)
qed simp

lemma set_range_incl: "unat ` set (range_incl a b) = {unat a .. unat b}"
proof -
  have "unat ` set (range_incl a b) = (\<lambda>n. unat (of_nat n :: usize)) ` {unat a ..< Suc (unat b)}"
    by (simp add: range_incl_def image_image del: upt_Suc)
  also have "\<dots> = id ` {unat a ..< Suc (unat b)}"
    using unat_lt32 [of b] by (intro image_cong) (auto simp: unat_of_nat32)
  finally show ?thesis by (simp add: atLeastLessThanSuc_atLeastAtMost)
qed

lemma range_incl_bound:
  assumes "f \<in> set (range_incl a b)"
  shows "unat a \<le> unat f" "unat f \<le> unat b"
  using assms set_range_incl [of a b] by (force simp del: set_range_incl)+

section \<open>Allocating and freeing a range\<close>

lemma contains_range_iff:
  "contains_range bm r \<longleftrightarrow> unat (get_last_frame_index r) < unat (frame_count bm)"
  by (simp add: contains_range_def contains_frame_index_def word_less_nat_alt)

lemma bm_wf_index: "bm_wf bm \<Longrightarrow> k < unat (frame_count bm) \<Longrightarrow> k div 8 < length (bitmap bm)"
  by (auto simp: bm_wf_def)

lemma range_incl_in_map:
  assumes "bm_wf bm" "contains_range bm r"
    and "f \<in> set (range_incl (get_first_frame_index r) (get_last_frame_index r))"
  shows "unat f div 8 < length (bitmap bm)"
  using assms range_incl_bound [OF assms(3)] by (auto simp: contains_range_iff intro!: bm_wf_index)

lemma allocate_range_ok:
  assumes "bm_wf bm" "contains_range bm r"
  obtains bm' where "allocate_range bm r = Done (Inr (), bm')" "bm_wf bm'"
    "frame_count bm' = frame_count bm" "map_location bm' = map_location bm"
    "length (bitmap bm') = length (bitmap bm)"
    "\<And>k. frame_used bm' k = (frame_used bm k \<or> k \<in> range_frames r)"
proof -
  obtain bs where "ofold set_frame_bit (range_incl (get_first_frame_index r) (get_last_frame_index r))
        (bitmap bm) = Done bs" "length bs = length (bitmap bm)"
      "\<And>j. bs_bit bs j = (bs_bit (bitmap bm) j \<or> j \<in> range_frames r)"
    using ofold_set_bits [of "range_incl (get_first_frame_index r) (get_last_frame_index r)" "bitmap bm"]
      range_incl_in_map [OF assms]
    by (auto simp: set_range_incl range_frames_def)
  then show ?thesis
    using assms by (intro that [of "bm\<lparr>bitmap := bs\<rparr>"])
      (simp_all add: allocate_range_def frame_used_def bm_wf_def)
qed

lemma free_range_ok:
  assumes "bm_wf bm" "contains_range bm r"
  obtains bm' where "free_range bm r = Done (Inr (), bm')" "bm_wf bm'"
    "frame_count bm' = frame_count bm" "map_location bm' = map_location bm"
    "length (bitmap bm') = length (bitmap bm)"
    "\<And>k. frame_used bm' k = (frame_used bm k \<and> k \<notin> range_frames r)"
proof -
  obtain bs where "ofold clear_frame_bit (range_incl (get_first_frame_index r) (get_last_frame_index r))
        (bitmap bm) = Done bs" "length bs = length (bitmap bm)"
      "\<And>j. bs_bit bs j = (bs_bit (bitmap bm) j \<and> j \<notin> range_frames r)"
    using ofold_clear_bits [of "range_incl (get_first_frame_index r) (get_last_frame_index r)" "bitmap bm"]
      range_incl_in_map [OF assms]
    by (auto simp: set_range_incl range_frames_def)
  then show ?thesis
    using assms by (intro that [of "bm\<lparr>bitmap := bs\<rparr>"])
      (simp_all add: free_range_def frame_used_def bm_wf_def)
qed

lemma all_clear_iff:
  assumes "\<And>f. f \<in> set frames \<Longrightarrow> unat f div 8 < length bs"
  shows "all_clear bs frames = Done (\<forall>f \<in> set frames. \<not> bs_bit bs (unat f))"
  using assms
proof (induction frames)
  case (Cons f frames)
  have "(bs ! (unat f div 8) AND push_bit (unat (f AND 7)) 1 = 0) = (\<not> bs_bit bs (unat f))"
    by (simp add: and_bit_eq_0 bs_bit_def word_nat)
  then show ?case using Cons by simp
qed simp

lemma is_range_free_iff:
  assumes "bm_wf bm"
  shows "is_range_free bm r = Done (contains_range bm r \<and> (\<forall>k \<in> range_frames r. \<not> frame_used bm k))"
proof (cases "contains_range bm r")
  case True
  have "all_clear (bitmap bm) (range_incl (get_first_frame_index r) (get_last_frame_index r))
      = Done (\<forall>k \<in> unat ` set (range_incl (get_first_frame_index r) (get_last_frame_index r)).
                \<not> bs_bit (bitmap bm) k)"
    using all_clear_iff [OF range_incl_in_map [OF assms True]] by simp
  then show ?thesis
    using True by (simp add: is_range_free_def set_range_incl range_frames_def frame_used_def)
qed (simp add: is_range_free_def)

section \<open>The first-fit search\<close>

lemma unat_page_addr:
  assumes "t < 2 ^ 20"
  shows "unat (of_nat (t * 4096) :: usize) = t * 4096"
  using assms by (intro unat_of_nat32) simp

lemma run_range_indices:
  assumes "0 < n" "s + n \<le> 2 ^ 20"
  shows "unat (get_first_frame_index (run_range s n)) = s"
    "unat (get_last_frame_index (run_range s n)) = s + n - 1"
proof -
  have "unat (of_nat (s * 4096) :: usize) = s * 4096"
    using assms by (intro unat_page_addr) simp
  then show "unat (get_first_frame_index (run_range s n)) = s"
    by (simp add: get_first_frame_index_def run_range_def frame_range_new_def word_nat)
  have "(of_nat (s * 4096) + of_nat (n * 4096) - 1 :: usize) = of_nat ((s + n) * 4096 - 1)"
    using assms(1) by (simp add: of_nat_diff algebra_simps)
  moreover have "unat (of_nat ((s + n) * 4096 - 1) :: usize) = (s + n) * 4096 - 1"
    using assms by (intro unat_of_nat32) simp
  moreover have "((s + n) * 4096 - 1) div 4096 = s + n - 1"
    using assms(1) by (cases n) simp_all
  ultimately show "unat (get_last_frame_index (run_range s n)) = s + n - 1"
    by (simp add: get_last_frame_index_def run_range_def frame_range_new_def word_nat)
qed

lemma run_range_frames:
  assumes "0 < n" "s + n \<le> 2 ^ 20"
  shows "range_frames (run_range s n) = {s ..< s + n}"
  using assms run_range_indices [OF assms] by (auto simp: range_frames_def)

lemma shifted_run_range:
  "frame_range_new (push_bit 12 s) (push_bit 12 n) = run_range (unat s) (unat n)"
  by (simp add: run_range_def push_bit_eq_mult)

lemma find_free_from_spec:
  assumes wf: "bm_wf bm"
    and n: "0 < unat wanted"
    and ord: "unat s \<le> unat frame" "unat frame \<le> unat (frame_count bm)"
    and free: "run_free bm (unat s) (unat frame - unat s)"
    and rem: "unat frame - unat s < unat wanted"
      "unat remaining = unat wanted - (unat frame - unat s)"
    and nofit: "\<forall>t < unat s. \<not> run_free bm t (unat wanted)"
  shows "(find_free_from bm wanted frame remaining s = Done None
          \<and> (\<forall>t. t + unat wanted \<le> unat (frame_count bm) \<longrightarrow> \<not> run_free bm t (unat wanted)))
    \<or> (\<exists>t. find_free_from bm wanted frame remaining s = Done (Some (run_range t (unat wanted)))
          \<and> t + unat wanted \<le> unat (frame_count bm) \<and> run_free bm t (unat wanted)
          \<and> (\<forall>t' < t. \<not> run_free bm t' (unat wanted)))"
  using wf n ord free rem nofit
proof (induction bm wanted frame remaining s rule: find_free_from.induct)
  case (1 bm wanted frame remaining s)
  note wf = "1.prems"(1)
  show ?case
  proof (cases "frame < frame_count bm")
    case False
    then have eq: "unat frame = unat (frame_count bm)" using "1.prems" by (simp add: word_less_nat_alt)
    have "\<not> run_free bm t (unat wanted)" if "t + unat wanted \<le> unat (frame_count bm)" for t
      using "1.prems" that eq by (cases "t < unat s") auto
    then show ?thesis using False by (simp add: find_free_from.simps [of bm wanted frame])
  next
    case True
    then have lt: "unat frame < unat (frame_count bm)" by (simp add: word_less_nat_alt)
    have idx: "unat frame div 8 < length (bitmap bm)" using wf lt by (rule bm_wf_index)
    note suc = unat_Suc_below [OF True]
    let ?b = "bitmap bm ! (unat frame div 8)"
    have tst: "(?b AND push_bit (unat (frame AND 7)) 1 = 0) = (\<not> frame_used bm (unat frame))"
      by (simp add: and_bit_eq_0 frame_used_def bs_bit_def word_nat)
    show ?thesis
    proof (cases "frame_used bm (unat frame)")
      case used: True
      have eq: "find_free_from bm wanted frame remaining s
          = find_free_from bm wanted (frame + 1) wanted (frame + 1)"
        using True idx tst used by (subst find_free_from.simps) simp
      have "\<not> run_free bm t (unat wanted)" if "t < unat (frame + 1)" for t
      proof (cases "t < unat s")
        case False
        then have "unat frame \<in> {t ..< t + unat wanted}" using that suc "1.prems" by auto
        then show ?thesis using used by (auto simp: run_free_def)
      qed (use "1.prems" in simp)
      then show ?thesis unfolding eq
        by (intro "1.IH"(1) [OF True, of ?b]) (use True idx tst used "1.prems" suc lt in \<open>auto simp: run_free_def\<close>)
    next
      case unused: False
      have ext: "run_free bm (unat s) (Suc (unat frame) - unat s)"
        using "1.prems"(3,5) unused by (auto simp: run_free_def less_Suc_eq Suc_diff_le)
      show ?thesis
      proof (cases "remaining - 1 = 0")
        case last: True
        then have "remaining = 1" by simp
        then have run: "Suc (unat frame) - unat s = unat wanted" using "1.prems" by simp
        have "unat (frame + 1 - s) = unat wanted"
          using "1.prems" run suc by (subst unat_sub_le) auto
        then have "find_free_from bm wanted frame remaining s = Done (Some (run_range (unat s) (unat wanted)))"
          using True idx tst unused last by (subst find_free_from.simps) (simp add: shifted_run_range)
        then show ?thesis using ext run "1.prems" lt by auto
      next
        case more: False
        have eq: "find_free_from bm wanted frame remaining s
            = find_free_from bm wanted (frame + 1) (remaining - 1) s"
          using True idx tst unused more by (subst find_free_from.simps) simp
        have "remaining \<noteq> 0" using "1.prems" by (auto simp: unat_eq_0)
        then have "unat (remaining - 1) = unat remaining - 1" by (simp add: unat_minus_one)
        moreover have "unat remaining \<noteq> 1" using more by (metis diff_self unat_1 word_unat_eq_iff)
        ultimately show ?thesis unfolding eq
          by (intro "1.IH"(2) [OF True, of ?b]) (use True idx tst unused more ext "1.prems" suc lt in auto)
      qed
    qed
  qed
qed
lemma find_free_range_spec:
  assumes "bm_wf bm" "0 < unat wanted"
  shows "(find_free_range bm wanted = Done None
          \<and> (\<forall>t. t + unat wanted \<le> unat (frame_count bm) \<longrightarrow> \<not> run_free bm t (unat wanted)))
    \<or> (\<exists>t. find_free_range bm wanted = Done (Some (run_range t (unat wanted)))
          \<and> t + unat wanted \<le> unat (frame_count bm) \<and> run_free bm t (unat wanted)
          \<and> (\<forall>t' < t. \<not> run_free bm t' (unat wanted)))"
  unfolding find_free_range_def
  by (rule find_free_from_spec) (use assms in \<open>auto simp: run_free_def\<close>)

text \<open>A request for no frame at all never succeeds: \<^verbatim>\<open>remaining\<close> wraps and cannot reach zero.\<close>

lemma find_free_from_zero:
  assumes "bm_wf bm" "unat frame \<le> unat (frame_count bm)"
    and "remaining = 0 \<or> unat frame + unat remaining \<ge> 2 ^ 31"
  shows "find_free_from bm 0 frame remaining s = Done None"
  using assms
proof (induction bm "0 :: usize" frame remaining s rule: find_free_from.induct)
  case (1 bm frame remaining s)
  show ?case
  proof (cases "frame < frame_count bm")
    case True
    then have lt: "unat frame < unat (frame_count bm)" by (simp add: word_less_nat_alt)
    have idx: "unat frame div 8 < length (bitmap bm)" using "1.prems"(1) lt by (rule bm_wf_index)
    have fc: "unat (frame_count bm) \<le> 1048576" using "1.prems"(1) by (simp add: bm_wf_def)
    note suc = unat_Suc_below [OF True]
    let ?b = "bitmap bm ! (unat frame div 8)"
    have step: "unat (frame + 1) + unat (remaining - 1) \<ge> 2 ^ 31"
    proof (cases "remaining = 0")
      case False
      then have "unat (remaining - 1) = unat remaining - 1" by (simp add: unat_minus_one)
      then show ?thesis using "1.prems"(3) False suc by simp
    next
      case True
      have "unat (- 1 :: usize) = 4294967295" by (simp add: unsigned_minus_1_eq_mask mask_eq_exp_minus_1)
      then show ?thesis using True by simp
    qed
    have ne: "remaining - 1 \<noteq> 0"
    proof
      assume "remaining - 1 = 0"
      with step suc lt fc show False by simp
    qed
    show ?thesis
    proof (cases "?b AND push_bit (unat (frame AND 7)) 1 = 0")
      case False
      have "find_free_from bm 0 (frame + 1) 0 (frame + 1) = Done None"
        by (rule "1.hyps"(1) [OF True, of ?b]) (use False "1.prems" suc lt in auto)
      then show ?thesis using True idx False by (subst find_free_from.simps) simp
    next
      case z: True
      have "find_free_from bm 0 (frame + 1) (remaining - 1) s = Done None"
        by (rule "1.hyps"(2) [OF True, of ?b]) (use z ne "1.prems" suc lt step in auto)
      then show ?thesis using True idx z ne by (subst find_free_from.simps) simp
    qed
  qed (subst find_free_from.simps, simp)
qed

lemma allocate_frames_spec:
  assumes "bm_wf bm" "0 < unat n"
  shows "(allocate_frames bm n = Done (Inl NoAvailableSpace, bm)
          \<and> (\<forall>t. t + unat n \<le> unat (frame_count bm) \<longrightarrow> \<not> run_free bm t (unat n)))
    \<or> (\<exists>t bm'. allocate_frames bm n = Done (Inr (run_range t (unat n)), bm')
          \<and> t + unat n \<le> unat (frame_count bm) \<and> run_free bm t (unat n)
          \<and> (\<forall>t' < t. \<not> run_free bm t' (unat n))
          \<and> bm_wf bm' \<and> frame_count bm' = frame_count bm
          \<and> (\<forall>k. frame_used bm' k = (frame_used bm k \<or> k \<in> {t ..< t + unat n})))"
  using find_free_range_spec [OF assms]
proof
  assume "find_free_range bm n = Done None
    \<and> (\<forall>t. t + unat n \<le> unat (frame_count bm) \<longrightarrow> \<not> run_free bm t (unat n))"
  then show ?thesis by (simp add: allocate_frames_def)
next
  assume "\<exists>t. find_free_range bm n = Done (Some (run_range t (unat n)))
          \<and> t + unat n \<le> unat (frame_count bm) \<and> run_free bm t (unat n)
          \<and> (\<forall>t' < t. \<not> run_free bm t' (unat n))"
  then obtain t where t: "find_free_range bm n = Done (Some (run_range t (unat n)))"
    "t + unat n \<le> unat (frame_count bm)" "run_free bm t (unat n)"
    "\<forall>t' < t. \<not> run_free bm t' (unat n)" by auto
  have b: "t + unat n \<le> 2 ^ 20" using assms(1) t(2) by (simp add: bm_wf_def)
  have "contains_range bm (run_range t (unat n))"
    using run_range_indices(2) [OF assms(2) b] t(2) assms(2) by (simp add: contains_range_iff)
  then obtain bm' where bm': "allocate_range bm (run_range t (unat n)) = Done (Inr (), bm')" "bm_wf bm'"
    "frame_count bm' = frame_count bm"
    "\<And>k. frame_used bm' k = (frame_used bm k \<or> k \<in> range_frames (run_range t (unat n)))"
    using allocate_range_ok [OF assms(1)] by metis
  have "allocate_frames bm n = Done (Inr (run_range t (unat n)), bm')"
    using t(1) bm'(1) by (simp add: allocate_frames_def)
  moreover have "\<forall>k. frame_used bm' k = (frame_used bm k \<or> k \<in> {t ..< t + unat n})"
    using bm'(4) run_range_frames [OF assms(2) b] by simp
  ultimately show ?thesis using t(2-4) bm'(2,3) by blast
qed

section \<open>Counting the free frames\<close>

definition padded :: "frame_bitmap \<Rightarrow> bool" where
  "padded bm \<longleftrightarrow> (\<forall>k \<in> {unat (frame_count bm) ..< 8 * length (bitmap bm)}. frame_used bm k)"

definition free_frames :: "frame_bitmap \<Rightarrow> nat list" where
  "free_frames bm = filter (\<lambda>k. \<not> frame_used bm k) [0 ..< unat (frame_count bm)]"

lemma fold_count:
  "fold (\<lambda>j free. if P j then free + 1 else free) js (free :: 'a::len word)
     = free + of_nat (length (filter P js))"
  by (induction js arbitrary: free) (auto simp: algebra_simps)

lemma count_clear_bits_eq:
  "count_clear_bits b free = free + of_nat (length (filter (\<lambda>j. \<not> bit b j) [0 ..< 8]))"
  unfolding count_clear_bits_def by (subst fold_count) (simp add: and_bit_eq_0)

lemma filter_byte:
  assumes "a mod 8 = (0 :: nat)"
  shows "length (filter (\<lambda>k. \<not> bs_bit bs k) [a ..< a + 8])
     = length (filter (\<lambda>j. \<not> bit (bs ! (a div 8)) j) [0 ..< 8])"
proof -
  have "[a ..< a + 8] = map (\<lambda>j. a + j) [0 ..< 8]" by (simp add: map_add_upt add.commute)
  moreover have "bs_bit bs (a + j) = bit (bs ! (a div 8)) j" if "j < 8" for j
  proof -
    have "(a + j) div 8 = a div 8" "(a + j) mod 8 = j" using assms that by auto
    then show ?thesis by (simp add: bs_bit_def)
  qed
  moreover from this have "filter (\<lambda>j. \<not> bs_bit bs (a + j)) [0 ..< 8]
      = filter (\<lambda>j. \<not> bit (bs ! (a div 8)) j) [0 ..< 8]"
    by (intro filter_cong) auto
  ultimately show ?thesis by (simp add: filter_map comp_def)
qed

lemma byte_full:
  assumes "bs ! (k div 8) = 0xff"
  shows "bs_bit bs k"
proof -
  have "(0xff :: u8) = mask 8" by (simp add: mask_eq_exp_minus_1)
  moreover have "bit (mask 8 :: u8) (k mod 8)" by (simp add: bit_mask_iff)
  ultimately show ?thesis using assms by (simp only: bs_bit_def)
qed

lemma count_free_from_spec:
  assumes "bm_wf bm" "unat frame mod 8 = 0 \<or> bitmap bm ! (unat frame div 8) = 0xff"
    and "unat frame \<le> 8 * length (bitmap bm)"
    and "padded bm"
  shows "count_free_from bm frame free
     = Done (free + of_nat (length (filter (\<lambda>k. \<not> frame_used bm k) [unat frame ..< 8 * length (bitmap bm)])))"
  using assms
proof (induction bm frame free rule: count_free_from.induct)
  case (1 bm frame free)
  note wf = "1.prems"(1)
  let ?U = "8 * length (bitmap bm)"
  have U: "?U < unat (frame_count bm) + 8" "unat (frame_count bm) \<le> 1048576" "unat (frame_count bm) \<le> ?U"
    using wf by (auto simp: bm_wf_def)
  show ?case
  proof (cases "frame < frame_count bm")
    case False
    then have "\<forall>k \<in> set [unat frame ..< ?U]. frame_used bm k"
      using "1.prems"(4) by (auto simp: padded_def word_less_nat_alt)
    then have "filter (\<lambda>k. \<not> frame_used bm k) [unat frame ..< ?U] = []" by (simp add: filter_empty_conv)
    then show ?thesis using False by (simp add: count_free_from.simps [of bm frame])
  next
    case True
    then have lt: "unat frame < unat (frame_count bm)" by (simp add: word_less_nat_alt)
    have idx: "unat frame div 8 < length (bitmap bm)" using wf lt by (rule bm_wf_index)
    note suc = unat_Suc_below [OF True]
    let ?b = "bitmap bm ! (unat frame div 8)"
    show ?thesis
    proof (cases "?b = 0xff")
      case full: True
      have eq: "count_free_from bm frame free = count_free_from bm (frame + 1) free"
        using True idx full by (subst count_free_from.simps) simp
      have al: "unat (frame + 1) mod 8 = 0 \<or> bitmap bm ! (unat (frame + 1) div 8) = 0xff"
      proof (cases "Suc (unat frame) mod 8 = 0")
        case False
        then have "Suc (unat frame) div 8 = unat frame div 8" by (simp add: div_Suc)
        then show ?thesis using full suc by simp
      qed (simp add: suc)
      have "[unat frame ..< ?U] = unat frame # [unat (frame + 1) ..< ?U]"
        using lt U suc by (simp add: upt_conv_Cons)
      moreover have "frame_used bm (unat frame)"
        using full by (simp add: frame_used_def byte_full)
      moreover have "count_free_from bm (frame + 1) free = Done (free + of_nat (length
          (filter (\<lambda>k. \<not> frame_used bm k) [unat (frame + 1) ..< ?U])))"
        by (rule "1.IH"(2) [OF True, of ?b]) (use full al wf "1.prems" suc lt U in auto)
      ultimately show ?thesis by (simp add: eq)
    next
      case part: False
      have al: "unat frame mod 8 = 0" using "1.prems"(2) part by simp
      have 8: "unat (frame + 8) = unat frame + 8" using lt U(2) by (subst unat_add32) auto
      then have up: "frame < frame + 8" by (simp add: word_less_nat_alt)
      have eq: "count_free_from bm frame free = count_free_from bm (frame + 8) (count_clear_bits ?b free)"
        using True idx part up by (subst count_free_from.simps) simp
      have le: "unat frame + 8 \<le> ?U" using idx al by auto
      then have "[unat frame ..< ?U] = [unat frame ..< unat frame + 8] @ [unat frame + 8 ..< ?U]"
        using upt_add_eq_append [of "unat frame" "unat frame + 8" "?U - (unat frame + 8)"] by simp
      moreover have "count_free_from bm (frame + 8) (count_clear_bits ?b free)
          = Done (count_clear_bits ?b free + of_nat (length
              (filter (\<lambda>k. \<not> frame_used bm k) [unat (frame + 8) ..< ?U])))"
        by (rule "1.IH"(1) [OF True, of ?b]) (use part al wf "1.prems" 8 up le in auto)
      moreover note filter_byte [OF al, of "bitmap bm"]
      ultimately show ?thesis by (simp add: eq 8 count_clear_bits_eq frame_used_def add.assoc)
    qed
  qed
qed

lemma get_free_frame_count_spec:
  assumes "bm_wf bm" "padded bm"
  shows "get_free_frame_count bm = Done (of_nat (length (free_frames bm)))"
proof -
  let ?U = "8 * length (bitmap bm)" and ?n = "unat (frame_count bm)"
  have "?n \<le> ?U" using assms(1) by (auto simp: bm_wf_def)
  then have "[0 ..< ?U] = [0 ..< ?n] @ [?n ..< ?U]"
    using upt_add_eq_append [of 0 ?n "?U - ?n"] by simp
  moreover have "filter (\<lambda>k. \<not> frame_used bm k) [?n ..< ?U] = []"
    using assms(2) by (simp add: padded_def filter_empty_conv)
  ultimately have "filter (\<lambda>k. \<not> frame_used bm k) [0 ..< ?U] = free_frames bm"
    by (simp add: free_frames_def)
  then show ?thesis
    using count_free_from_spec [OF assms(1), of 0 0] assms(2) by (simp add: get_free_frame_count_def)
qed

section \<open>Reset and initialisation\<close>

lemma reset_from_spec:
  assumes "length bs = (unat count + 7) div 8" "unat count \<le> 2 ^ 20" "unat frame mod 8 = 0"
  shows "reset_from count frame bs
    = Done (take (unat frame div 8) bs @ replicate (length bs - unat frame div 8) 0xff)"
  using assms
proof (induction count frame bs rule: reset_from.induct)
  case (1 count frame bs)
  show ?case
  proof (cases "frame < count")
    case True
    let ?i = "unat frame div 8"
    have lt: "unat frame < unat count" using True by (simp add: word_less_nat_alt)
    then have i: "?i < length bs" using "1.prems" by auto
    have 8: "unat (frame + 8) = unat frame + 8" using lt "1.prems"(2) by (subst unat_add32) auto
    then have up: "frame < frame + 8" by (simp add: word_less_nat_alt)
    have d: "unat (frame + 8) div 8 = Suc ?i" using 8 by simp
    have "reset_from count (frame + 8) (bs[?i := 0xff])
      = Done (take (unat (frame + 8) div 8) (bs[?i := 0xff])
          @ replicate (length (bs[?i := 0xff]) - unat (frame + 8) div 8) 0xff)"
      by (rule "1.IH" [OF True up]) (use "1.prems" 8 in auto)
    moreover have "replicate (length bs - ?i) (0xff :: u8) = 0xff # replicate (length bs - Suc ?i) 0xff"
      using i by (simp flip: replicate_Suc add: Suc_diff_Suc)
    moreover have "take (Suc ?i) (bs[?i := 0xff]) = take ?i bs @ [0xff]"
      using i by (simp add: take_Suc_conv_app_nth)
    ultimately show ?thesis using True i up by (subst reset_from.simps) (simp add: d)
  next
    case False
    then have "length bs \<le> unat frame div 8" using "1.prems" by (auto simp: word_less_nat_alt)
    then show ?thesis using False by (subst reset_from.simps) simp
  qed
qed

lemma bitmap_reset_ok:
  assumes "bm_wf bm"
  obtains bm' where "bitmap_reset bm = Done bm'" "bm_wf bm'" "frame_count bm' = frame_count bm"
    "map_location bm' = map_location bm" "length (bitmap bm') = length (bitmap bm)"
    "\<And>k. k < 8 * length (bitmap bm) \<Longrightarrow> frame_used bm' k"
proof
  let ?bm' = "bm\<lparr>bitmap := replicate (length (bitmap bm)) 0xff\<rparr>"
  show "bitmap_reset bm = Done ?bm'"
    using assms reset_from_spec [of "bitmap bm" "frame_count bm" 0]
    by (simp add: bitmap_reset_def bm_wf_def)
  show "frame_used ?bm' k" if "k < 8 * length (bitmap bm)" for k
    using that by (simp add: frame_used_def byte_full)
qed (use assms in \<open>simp_all add: bm_wf_def\<close>)

definition entry_range :: "map_entry \<Rightarrow> frame_range" where
  "entry_range e = frame_range_new (ucast (base e AND 0xffffffff)) (ucast (entry_length e AND 0xffffffff))"

definition free_entries :: "map_entry list \<Rightarrow> map_entry list" where
  "free_entries es = filter (\<lambda>e. region_type e = REGION_TYPE_FREE) es"

lemma free_map_entries_spec:
  assumes "bm_wf bm" "\<forall>e \<in> set (free_entries es). contains_range bm (entry_range e)"
  shows "\<exists>bm'. free_map_entries es bm = Done (Inr (), bm') \<and> bm_wf bm' \<and> frame_count bm' = frame_count bm
    \<and> map_location bm' = map_location bm \<and> length (bitmap bm') = length (bitmap bm)
    \<and> (\<forall>k. frame_used bm' k = (frame_used bm k \<and> (\<forall>e \<in> set (free_entries es). k \<notin> range_frames (entry_range e))))"
  using assms
proof (induction es arbitrary: bm)
  case (Cons e es)
  show ?case
  proof (cases "region_type e = REGION_TYPE_FREE")
    case True
    then have "contains_range bm (entry_range e)" using Cons.prems(2) by (simp add: free_entries_def)
    then obtain bm1 where 1: "free_range bm (entry_range e) = Done (Inr (), bm1)" "bm_wf bm1"
      "frame_count bm1 = frame_count bm" "map_location bm1 = map_location bm"
      "length (bitmap bm1) = length (bitmap bm)"
      "\<And>k. frame_used bm1 k = (frame_used bm k \<and> k \<notin> range_frames (entry_range e))"
      using free_range_ok [OF Cons.prems(1)] by metis
    have "\<forall>e \<in> set (free_entries es). contains_range bm1 (entry_range e)"
      using Cons.prems(2) 1(3) by (simp add: free_entries_def contains_range_iff)
    from Cons.IH [OF 1(2) this] obtain bm2 where
      2: "free_map_entries es bm1 = Done (Inr (), bm2)" "bm_wf bm2" "frame_count bm2 = frame_count bm1"
      "map_location bm2 = map_location bm1" "length (bitmap bm2) = length (bitmap bm1)"
      "\<And>k. frame_used bm2 k = (frame_used bm1 k \<and> (\<forall>e \<in> set (free_entries es). k \<notin> range_frames (entry_range e)))"
      by metis
    have "free_map_entries (e # es) bm = Done (Inr (), bm2)"
      using True 1(1) 2(1) by (simp add: entry_range_def)
    then show ?thesis
      using True by (intro exI [of _ bm2]) (auto simp: 1 2 free_entries_def)
  next
    case False
    then show ?thesis using Cons by (simp add: free_entries_def)
  qed
qed (simp add: free_entries_def)

lemma initialize_from_memory_map_spec:
  assumes "bm_wf bm" "\<forall>e \<in> set (free_entries es). contains_range bm (entry_range e)"
  obtains bm' where "initialize_from_memory_map es bm = Done (Inr (), bm')" "bm_wf bm'"
    "frame_count bm' = frame_count bm" "map_location bm' = map_location bm"
    "length (bitmap bm') = length (bitmap bm)"
    "\<And>k. k < 8 * length (bitmap bm) \<Longrightarrow>
       frame_used bm' k = (\<forall>e \<in> set (free_entries es). k \<notin> range_frames (entry_range e))"
proof -
  obtain bm1 where 1: "bitmap_reset bm = Done bm1" "bm_wf bm1" "frame_count bm1 = frame_count bm"
    "map_location bm1 = map_location bm" "length (bitmap bm1) = length (bitmap bm)"
    "\<And>k. k < 8 * length (bitmap bm) \<Longrightarrow> frame_used bm1 k"
    using bitmap_reset_ok [OF assms(1)] by metis
  have "\<forall>e \<in> set (free_entries es). contains_range bm1 (entry_range e)"
    using assms(2) 1(3) by (simp add: contains_range_iff)
  from free_map_entries_spec [OF 1(2) this] show ?thesis
    using that 1 by (auto simp: initialize_from_memory_map_def)
qed

lemma at_location_wf:
  assumes "unat count \<le> 2 ^ 20"
  shows "bm_wf (at_location m start count)" "frame_count (at_location m start count) = count"
    "map_location (at_location m start count) = start"
    "length (bitmap (at_location m start count)) = (unat count + 7) div 8"
proof -
  have z: "count AND 7 = 0 \<longleftrightarrow> unat count mod 8 = 0"
    by (metis unat_and_7 unat_0 word_unat_eq_iff)
  have "unat (drop_bit 3 count + 1) = unat count div 8 + 1"
    using assms by (subst unat_add32) auto
  then show len: "length (bitmap (at_location m start count)) = (unat count + 7) div 8"
    by (simp add: at_location_def Let_def z) presburger
  then show "bm_wf (at_location m start count)"
    using assms by (simp add: bm_wf_def) (simp add: at_location_def Let_def)
qed (simp_all add: at_location_def Let_def)

text \<open>The physical memory manager right after boot.\<close>

definition boot_bitmap :: "memory \<Rightarrow> usize \<Rightarrow> map_entry list \<Rightarrow> frame_bitmap" where
  "boot_bitmap m location es = at_location m location (drop_bit 12 (memory_limit es))"

definition own_range :: "memory \<Rightarrow> usize \<Rightarrow> map_entry list \<Rightarrow> frame_range" where
  "own_range m location es =
     frame_range_new location (bitmap_size_in_frames (boot_bitmap m location es) * 0x1000)"

lemma boot_bitmap_wf:
  "bm_wf (boot_bitmap m location es)"
  "frame_count (boot_bitmap m location es) = drop_bit 12 (memory_limit es)"
  "map_location (boot_bitmap m location es) = location"
  using at_location_wf [of "drop_bit 12 (memory_limit es)"] unat_lt32 [of "memory_limit es"]
  by (simp_all add: boot_bitmap_def word_nat)

lemma bitmap_size_in_frames_cong:
  "frame_count a = frame_count b \<Longrightarrow> bitmap_size_in_frames a = bitmap_size_in_frames b"
  by (simp add: bitmap_size_in_frames_def)

lemma init_allocator_spec:
  assumes "location AND 0xfff = 0"
    and es: "es = load_entries_at_address m map_addr"
    and "\<forall>e \<in> set (free_entries es). contains_range (boot_bitmap m location es) (entry_range e)"
    and "contains_range (boot_bitmap m location es) (own_range m location es)"
  shows "\<exists>bm. init_allocator m location map_addr p = Done (p\<lparr>ALLOCATOR := Some bm\<rparr>)
    \<and> bm_wf bm \<and> padded bm \<and> frame_count bm = drop_bit 12 (memory_limit es) \<and> map_location bm = location
    \<and> (\<forall>k < unat (frame_count bm). \<not> frame_used bm k \<longleftrightarrow>
          (\<exists>e \<in> set (free_entries es). k \<in> range_frames (entry_range e))
          \<and> k \<notin> range_frames (own_range m location es))"
proof -
  let ?b0 = "boot_bitmap m location es"
  obtain b1 where 1: "initialize_from_memory_map es ?b0 = Done (Inr (), b1)" "bm_wf b1"
    "frame_count b1 = frame_count ?b0" "map_location b1 = map_location ?b0"
    "length (bitmap b1) = length (bitmap ?b0)"
    "\<And>k. k < 8 * length (bitmap ?b0) \<Longrightarrow>
       frame_used b1 k = (\<forall>e \<in> set (free_entries es). k \<notin> range_frames (entry_range e))"
    using initialize_from_memory_map_spec [OF boot_bitmap_wf(1) assms(3)] by metis
  have "contains_range b1 (own_range m location es)"
    using assms(4) 1(3) by (simp add: contains_range_iff)
  then obtain b2 where 2: "allocate_range b1 (own_range m location es) = Done (Inr (), b2)" "bm_wf b2"
    "frame_count b2 = frame_count b1" "map_location b2 = map_location b1"
    "length (bitmap b2) = length (bitmap b1)"
    "\<And>k. frame_used b2 k = (frame_used b1 k \<or> k \<in> range_frames (own_range m location es))"
    using allocate_range_ok [OF 1(2)] by metis
  have own: "own_range m location es = frame_range_new location (bitmap_size_in_frames b1 * 0x1000)"
    using bitmap_size_in_frames_cong [OF 1(3)] by (simp add: own_range_def)
  have "init_allocator m location map_addr p = Done (p\<lparr>ALLOCATOR := Some b2\<rparr>)"
    using assms(1) 1(1) 2(1) [unfolded own] by (simp add: init_allocator_def Let_def boot_bitmap_def es)
  moreover have len: "unat (frame_count ?b0) \<le> 8 * length (bitmap ?b0)"
    using boot_bitmap_wf(1) [of m location es] by (auto simp: bm_wf_def)
  moreover have "padded b2"
  proof -
    have "frame_used b1 k" if "unat (frame_count ?b0) \<le> k" "k < 8 * length (bitmap ?b0)" for k
      using that assms(3) by (fastforce simp: 1(6) contains_range_iff range_frames_def)
    then show ?thesis by (simp add: padded_def 1(3,5) 2(3,5,6))
  qed
  moreover have "\<not> frame_used b2 k \<longleftrightarrow> (\<exists>e \<in> set (free_entries es). k \<in> range_frames (entry_range e))
      \<and> k \<notin> range_frames (own_range m location es)" if "k < unat (frame_count b2)" for k
    using that len 1(3,6) 2(3,6) by simp
  ultimately show ?thesis
    using 1(3,4) 2(2-4) boot_bitmap_wf(2,3) [of m location es] by (intro exI [of _ b2]) simp
qed

section \<open>The frame-source interface\<close>

text \<open>
  What the page tables and the process code rely on: a successful allocation hands out
  frames that were free, and takes exactly those; a release gives back exactly the frames
  it names.  A client issues a sequence of requests; the ranges it holds are always
  pairwise disjoint.
\<close>

datatype frame_request = Take usize | Give nat

definition disjoint_ranges :: "frame_range list \<Rightarrow> bool" where
  "disjoint_ranges = sorted_wrt (\<lambda>a b. range_frames a \<inter> range_frames b = {})"

definition held_frames :: "frame_range list \<Rightarrow> nat set" where
  "held_frames rs = (\<Union>r \<in> set rs. range_frames r)"

definition held_ok :: "nat \<Rightarrow> (nat \<Rightarrow> bool) \<Rightarrow> frame_range list \<Rightarrow> bool" where
  "held_ok tot taken held \<longleftrightarrow> disjoint_ranges held \<and> (\<forall>k \<in> held_frames held. taken k)
     \<and> (\<forall>r \<in> set held. \<exists>t n. r = run_range t n \<and> 0 < n \<and> t + n \<le> tot)"

fun frame_run :: "('s \<Rightarrow> usize \<Rightarrow> ((bitmap_error + frame_range) \<times> 's) outcome)
    \<Rightarrow> ('s \<Rightarrow> frame_range \<Rightarrow> ((bitmap_error + unit) \<times> 's) outcome)
    \<Rightarrow> frame_request list \<Rightarrow> 's \<Rightarrow> frame_range list \<Rightarrow> ('s \<times> frame_range list) outcome" where
  "frame_run alloc release [] s held = Done (s, held)"
| "frame_run alloc release (Take n # reqs) s held =
     (if n = 0 then frame_run alloc release reqs s held
      else obind (alloc s n) (\<lambda>(r, s'). case r of
             Inr rng \<Rightarrow> frame_run alloc release reqs s' (rng # held)
           | Inl e \<Rightarrow> frame_run alloc release reqs s' held))"
| "frame_run alloc release (Give i # reqs) s held =
     (if i < length held
      then obind (release s (held ! i)) (\<lambda>(r, s').
             frame_run alloc release reqs s' (take i held @ drop (Suc i) held))
      else frame_run alloc release reqs s held)"

locale frame_source =
  fixes inv :: "'s \<Rightarrow> bool"
    and total :: "'s \<Rightarrow> nat"
    and used :: "'s \<Rightarrow> nat \<Rightarrow> bool"
    and alloc :: "'s \<Rightarrow> usize \<Rightarrow> ((bitmap_error + frame_range) \<times> 's) outcome"
    and release :: "'s \<Rightarrow> frame_range \<Rightarrow> ((bitmap_error + unit) \<times> 's) outcome"
  assumes small: "inv s \<Longrightarrow> total s \<le> 2 ^ 20"
    and alloc_law: "inv s \<Longrightarrow> 0 < unat n \<Longrightarrow>
      alloc s n = Done (Inl NoAvailableSpace, s)
        \<and> (\<forall>t. t + unat n \<le> total s \<longrightarrow> (\<exists>k \<in> {t ..< t + unat n}. used s k))
      \<or> (\<exists>t s'. alloc s n = Done (Inr (run_range t (unat n)), s') \<and> inv s' \<and> total s' = total s
           \<and> t + unat n \<le> total s \<and> (\<forall>k \<in> {t ..< t + unat n}. \<not> used s k)
           \<and> (\<forall>k. used s' k = (used s k \<or> k \<in> {t ..< t + unat n})))"
    and release_law: "inv s \<Longrightarrow> 0 < m \<Longrightarrow> t + m \<le> total s \<Longrightarrow>
      \<exists>s'. release s (run_range t m) = Done (Inr (), s') \<and> inv s' \<and> total s' = total s
         \<and> (\<forall>k. used s' k = (used s k \<and> k \<notin> {t ..< t + m}))"
begin

lemma frame_history:
  assumes "inv s" "held_ok (total s) (used s) held"
  shows "\<exists>s' held'. frame_run alloc release reqs s held = Done (s', held') \<and> inv s' \<and> total s' = total s
    \<and> held_ok (total s') (used s') held' \<and> (\<forall>k. (used s' k \<and> k \<notin> held_frames held') = (used s k \<and> k \<notin> held_frames held))"
  using assms
proof (induction reqs arbitrary: s held)
  case (Cons req reqs)
  show ?case
  proof (cases req)
    case (Take n)
    consider "n = 0" | "n \<noteq> 0" "alloc s n = Done (Inl NoAvailableSpace, s)"
      | t s' where "n \<noteq> 0" "alloc s n = Done (Inr (run_range t (unat n)), s')" "inv s'" "total s' = total s"
           "t + unat n \<le> total s" "\<forall>k \<in> {t ..< t + unat n}. \<not> used s k"
           "\<forall>k. used s' k = (used s k \<or> k \<in> {t ..< t + unat n})"
      using alloc_law [OF Cons.prems(1), of n] by (cases "n = 0") (auto simp: unat_gt_0)
    then show ?thesis
    proof cases
      case 3
      have n: "0 < unat n" using 3(1) by (simp add: unat_gt_0)
      have fr: "range_frames (run_range t (unat n)) = {t ..< t + unat n}"
        using n 3(5) small [OF Cons.prems(1)] by (intro run_range_frames) auto
      have "held_ok (total s') (used s') (run_range t (unat n) # held)"
        using Cons.prems(2) 3(4-7) n fr
        by (fastforce simp: held_ok_def disjoint_ranges_def held_frames_def)
      from Cons.IH [OF 3(3) this] obtain s2 held2 where
        2: "frame_run alloc release reqs s' (run_range t (unat n) # held) = Done (s2, held2)" "inv s2"
          "total s2 = total s'" "held_ok (total s2) (used s2) held2"
          "\<forall>k. (used s2 k \<and> k \<notin> held_frames held2)
             = (used s' k \<and> k \<notin> held_frames (run_range t (unat n) # held))" by metis
      have "(used s2 k \<and> k \<notin> held_frames held2) = (used s k \<and> k \<notin> held_frames held)" for k
        using 2(5) 3(6,7) fr by (auto simp: held_frames_def)
      then show ?thesis using Take 3(1,2,4) 2(1-4) by auto
    qed (use Cons Take in auto)
  next
    case (Give i)
    show ?thesis
    proof (cases "i < length held")
      case False
      then show ?thesis using Cons Give by simp
    next
      case True
      define rest where "rest = take i held @ drop (Suc i) held"
      have split: "held = take i held @ held ! i # drop (Suc i) held" using True by (rule id_take_nth_drop)
      obtain t n where r: "held ! i = run_range t n" "0 < n" "t + n \<le> total s"
        using Cons.prems(2) True by (metis held_ok_def nth_mem)
      have fr: "range_frames (held ! i) = {t ..< t + n}"
        using r small [OF Cons.prems(1)] by (simp add: run_range_frames)
      obtain s' where s': "release s (held ! i) = Done (Inr (), s')" "inv s'" "total s' = total s"
        "\<forall>k. used s' k = (used s k \<and> k \<notin> {t ..< t + n})"
        using release_law [OF Cons.prems(1) r(2,3)] r(1) by metis
      have parts: "held_frames held = held_frames rest \<union> range_frames (held ! i)"
        "disjoint_ranges rest \<and> held_frames rest \<inter> range_frames (held ! i) = {}"
        "set rest \<subseteq> set held"
      proof -
        show "held_frames held = held_frames rest \<union> range_frames (held ! i)"
          by (subst split) (auto simp: held_frames_def rest_def)
        have "disjoint_ranges (take i held @ held ! i # drop (Suc i) held)"
          using Cons.prems(2) split by (simp add: held_ok_def)
        then show "disjoint_ranges rest \<and> held_frames rest \<inter> range_frames (held ! i) = {}"
          unfolding disjoint_ranges_def rest_def held_frames_def
          by (fastforce simp: sorted_wrt_append)
        show "set rest \<subseteq> set held" by (auto simp: rest_def dest: in_set_takeD in_set_dropD)
      qed
      have "held_ok (total s') (used s') rest"
        using Cons.prems(2) parts s'(3,4) fr by (auto simp: held_ok_def)
      from Cons.IH [OF s'(2) this] obtain s2 held2 where
        2: "frame_run alloc release reqs s' rest = Done (s2, held2)" "inv s2" "total s2 = total s'"
          "held_ok (total s2) (used s2) held2"
          "\<forall>k. (used s2 k \<and> k \<notin> held_frames held2) = (used s' k \<and> k \<notin> held_frames rest)"
        by metis
      have "(used s2 k \<and> k \<notin> held_frames held2) = (used s k \<and> k \<notin> held_frames held)" for k
        using 2(5) s'(4) parts fr by auto
      then show ?thesis using Give True s'(1,3) 2(1-4) by (auto simp: rest_def)
    qed
  qed
qed auto

end

lemma bitmap_alloc_law:
  assumes "bm_wf s" "0 < unat n"
  shows "allocate_frames s n = Done (Inl NoAvailableSpace, s)
        \<and> (\<forall>t. t + unat n \<le> unat (frame_count s) \<longrightarrow> (\<exists>k \<in> {t ..< t + unat n}. frame_used s k))
      \<or> (\<exists>t s'. allocate_frames s n = Done (Inr (run_range t (unat n)), s') \<and> bm_wf s'
           \<and> unat (frame_count s') = unat (frame_count s)
           \<and> t + unat n \<le> unat (frame_count s) \<and> (\<forall>k \<in> {t ..< t + unat n}. \<not> frame_used s k)
           \<and> (\<forall>k. frame_used s' k = (frame_used s k \<or> k \<in> {t ..< t + unat n})))"
  using allocate_frames_spec [OF assms] unfolding run_free_def by metis

lemma bitmap_release_law:
  assumes "bm_wf s" "0 < m" "t + m \<le> unat (frame_count s)"
  shows "\<exists>s'. free_range s (run_range t m) = Done (Inr (), s') \<and> bm_wf s'
    \<and> unat (frame_count s') = unat (frame_count s)
    \<and> (\<forall>k. frame_used s' k = (frame_used s k \<and> k \<notin> {t ..< t + m}))"
proof -
  have b: "t + m \<le> 2 ^ 20" using assms by (simp add: bm_wf_def)
  have "contains_range s (run_range t m)"
    using run_range_indices(2) [OF assms(2) b] assms(2,3) by (simp add: contains_range_iff)
  from free_range_ok [OF assms(1) this] show ?thesis
    using run_range_frames [OF assms(2) b] by metis
qed

interpretation bmf: frame_source bm_wf "\<lambda>bm. unat (frame_count bm)" frame_used allocate_frames free_range
  using bitmap_alloc_law bitmap_release_law by unfold_locales (auto simp: bm_wf_def)

text \<open>The same contract for the global allocator behind its lock.\<close>

definition phys_wf :: "phys \<Rightarrow> bool" where
  "phys_wf p \<longleftrightarrow> (\<exists>bm. ALLOCATOR p = Some bm \<and> bm_wf bm)"

definition phys_total :: "phys \<Rightarrow> nat" where
  "phys_total p = (case ALLOCATOR p of None \<Rightarrow> 0 | Some bm \<Rightarrow> unat (frame_count bm))"

definition phys_used :: "phys \<Rightarrow> nat \<Rightarrow> bool" where
  "phys_used p k = (case ALLOCATOR p of None \<Rightarrow> False | Some bm \<Rightarrow> frame_used bm k)"

interpretation phf: frame_source phys_wf phys_total phys_used
  "\<lambda>p n. phys_allocate_frames n p" "\<lambda>p r. phys_free_range r p"
proof unfold_locales
  fix s assume "phys_wf s"
  then show "phys_total s \<le> 2 ^ 20" by (auto simp: phys_wf_def phys_total_def bm_wf_def)
next
  fix s and n :: usize
  assume "phys_wf s" and n: "0 < unat n"
  then obtain bm where bm: "ALLOCATOR s = Some bm" "bm_wf bm" by (auto simp: phys_wf_def)
  note eqs = phys_allocate_frames_def with_allocator_def phys_total_def phys_used_def phys_wf_def
  from bmf.alloc_law [OF bm(2) n]
  show "phys_allocate_frames n s = Done (Inl NoAvailableSpace, s)
        \<and> (\<forall>t. t + unat n \<le> phys_total s \<longrightarrow> (\<exists>k \<in> {t ..< t + unat n}. phys_used s k))
      \<or> (\<exists>t s'. phys_allocate_frames n s = Done (Inr (run_range t (unat n)), s') \<and> phys_wf s'
           \<and> phys_total s' = phys_total s
           \<and> t + unat n \<le> phys_total s \<and> (\<forall>k \<in> {t ..< t + unat n}. \<not> phys_used s k)
           \<and> (\<forall>k. phys_used s' k = (phys_used s k \<or> k \<in> {t ..< t + unat n})))"
  proof (elim disjE exE conjE)
    assume "allocate_frames bm n = Done (Inl NoAvailableSpace, bm)"
      "\<forall>t. t + unat n \<le> unat (frame_count bm) \<longrightarrow> (\<exists>k \<in> {t ..< t + unat n}. frame_used bm k)"
    then show ?thesis using bm by (intro disjI1) (simp add: eqs)
  next
    fix t bm'
    assume a: "allocate_frames bm n = Done (Inr (run_range t (unat n)), bm')" "bm_wf bm'"
      "unat (frame_count bm') = unat (frame_count bm)" "t + unat n \<le> unat (frame_count bm)"
      "\<forall>k \<in> {t ..< t + unat n}. \<not> frame_used bm k"
      "\<forall>k. frame_used bm' k = (frame_used bm k \<or> k \<in> {t ..< t + unat n})"
    then show ?thesis
      using bm by (intro disjI2 exI [of _ t] exI [of _ "s\<lparr>ALLOCATOR := Some bm'\<rparr>"]) (simp add: eqs)
  qed
next
  fix s m t
  assume "phys_wf s" and m: "0 < m" "t + m \<le> phys_total s"
  then obtain bm where bm: "ALLOCATOR s = Some bm" "bm_wf bm" by (auto simp: phys_wf_def)
  have "t + m \<le> unat (frame_count bm)" using m bm by (simp add: phys_total_def)
  from bmf.release_law [OF bm(2) m(1) this] obtain bm' where
    "free_range bm (run_range t m) = Done (Inr (), bm')" "bm_wf bm'"
    "unat (frame_count bm') = unat (frame_count bm)"
    "\<forall>k. frame_used bm' k = (frame_used bm k \<and> k \<notin> {t ..< t + m})" by metis
  then show "\<exists>s'. phys_free_range (run_range t m) s = Done (Inr (), s') \<and> phys_wf s'
      \<and> phys_total s' = phys_total s \<and> (\<forall>k. phys_used s' k = (phys_used s k \<and> k \<notin> {t ..< t + m}))"
    using bm by (intro exI [of _ "s\<lparr>ALLOCATOR := Some bm'\<rparr>"])
      (simp add: phys_free_range_def with_allocator_def phys_total_def phys_used_def phys_wf_def)
qed

lemma allocate_frame_spec:
  assumes "phys_wf p"
  shows "allocate_frame p = Done (Inl NoAvailableSpace, p) \<and> (\<forall>k < phys_total p. phys_used p k)
    \<or> (\<exists>t p'. allocate_frame p = Done (Inr (Frame (of_nat (t * 4096))), p') \<and> phys_wf p'
         \<and> phys_total p' = phys_total p \<and> REF_COUNT p' = REF_COUNT p \<and> t < phys_total p
         \<and> \<not> phys_used p t \<and> (\<forall>k. phys_used p' k = (phys_used p k \<or> k = t)))"
proof -
  from assms obtain bm where bm: "ALLOCATOR p = Some bm" "bm_wf bm" by (auto simp: phys_wf_def)
  have one: "0 < unat (1 :: usize)" by simp
  note eqs = allocate_frame_def phys_allocate_frames_def with_allocator_def phys_total_def
    phys_used_def phys_wf_def
  from bmf.alloc_law [OF bm(2) one] show ?thesis
  proof (elim disjE exE conjE)
    assume a: "allocate_frames bm 1 = Done (Inl NoAvailableSpace, bm)"
      "\<forall>t. t + unat (1 :: usize) \<le> unat (frame_count bm)
         \<longrightarrow> (\<exists>k \<in> {t ..< t + unat (1 :: usize)}. frame_used bm k)"
    have "\<forall>k < unat (frame_count bm). frame_used bm k"
    proof (intro allI impI)
      fix k assume "k < unat (frame_count bm)"
      then show "frame_used bm k" using spec [OF a(2), of k] by auto
    qed
    then show ?thesis using bm a(1) by (intro disjI1) (simp add: eqs)
  next
    fix t bm'
    assume a: "allocate_frames bm 1 = Done (Inr (run_range t (unat (1 :: usize))), bm')" "bm_wf bm'"
      "unat (frame_count bm') = unat (frame_count bm)" "t + unat (1 :: usize) \<le> unat (frame_count bm)"
      "\<forall>k \<in> {t ..< t + unat (1 :: usize)}. \<not> frame_used bm k"
      "\<forall>k. frame_used bm' k = (frame_used bm k \<or> k \<in> {t ..< t + unat (1 :: usize)})"
    have t: "t < 2 ^ 20" using a(4) bm(2) by (simp add: bm_wf_def)
    have "unat (of_nat (t * 4096) AND 0xfffff000 :: usize) = t * 4096"
      using unat_page_addr [OF t] by (simp add: word_nat)
    then have "get_first_frame (run_range t 1) = Frame (of_nat (t * 4096))"
      using unat_page_addr [OF t]
      by (simp add: get_first_frame_def run_range_def frame_range_new_def frame_new_def word_unat_eq_iff)
    then show ?thesis
      using bm a by (intro disjI2 exI [of _ t] exI [of _ "p\<lparr>ALLOCATOR := Some bm'\<rparr>"])
        (auto simp: eqs)
  qed
qed

section \<open>Clearing memory\<close>

lemma span_Suc_word: "span a (4 + n) = {a, a + 1, a + 2, a + 3} \<union> span (a + 4) n"
proof -
  have "{..<4 + n} = {0, 1, 2, 3} \<union> (\<lambda>i. 4 + i) ` {..<n}"
  proof (intro set_eqI iffI)
    fix i assume "i \<in> {..<4 + n}"
    then show "i \<in> {0, 1, 2, 3} \<union> (\<lambda>i. 4 + i) ` {..<n}"
      by (cases "i < 4") (auto simp: image_iff intro!: bexI [of _ "i - 4"])
  qed auto
  then show ?thesis by (simp add: span_def image_Un image_image add.assoc)
qed

lemma zero_words_spec: "zero_words n ptr m a = (if a \<in> span ptr (4 * n) then 0 else m a)"
proof (induction n arbitrary: ptr m)
  case 0
  then show ?case by (simp add: span_def)
next
  case (Suc n)
  have "store32 m ptr 0 a = (if a \<in> {ptr, ptr + 1, ptr + 2, ptr + 3} then 0 else m a)"
    by (simp add: store32_def)
  then show ?case using Suc span_Suc_word [of ptr "4 * n"] by auto
qed

section \<open>Copy-on-write\<close>

lemma refcount_ops:
  assumes "unat index < length (references rc)"
  shows "reference_frame_at_index rc index = Done (references rc ! unat index + 1,
      rc\<lparr>references := (references rc)[unat index := references rc ! unat index + 1]\<rparr>)"
    and "references rc ! unat index \<noteq> 0 \<Longrightarrow> release_frame_at_index rc index = Done (references rc ! unat index - 1,
      rc\<lparr>references := (references rc)[unat index := references rc ! unat index - 1]\<rparr>)"
    and "references rc ! unat index = 0 \<Longrightarrow> release_frame_at_index rc index = Done (0, rc)"
  using assms by (simp_all add: reference_frame_at_index_def release_frame_at_index_def Let_def)

lemma page_number: "unat (a div 0x1000 :: usize) = unat a div 4096"
  by (simp add: unat_div_distrib)

lemma cow_shared:
  assumes wf: "phys_wf p" and rc: "REF_COUNT p = Some rc" "length (references rc) = phys_total p"
    and i: "i = unat (pa_usize prev) div 4096" "i < phys_total p" "phys_used p i"
    and shared: "1 < references rc ! i"
    and al: "allocate_frame p = Done (Inr (Frame (of_nat (t * 4096))), p')" "REF_COUNT p' = REF_COUNT p"
      "t < phys_total p" "\<not> phys_used p t"
  shows "get_frame_for_copy_on_write prev p = Done (Inr (Frame (of_nat (t * 4096))),
    p'\<lparr>REF_COUNT := Some (rc\<lparr>references := (references rc)[t := references rc ! t + 1, i := references rc ! i - 1]\<rparr>)\<rparr>)"
proof -
  have ne: "t \<noteq> i" using i(3) al(4) by auto
  have nz: "references rc ! i \<noteq> 0" using shared by auto
  have "t < 2 ^ 20" using al(3) phf.small [OF wf] by simp
  then have t: "unat (of_nat (t * 4096) :: usize) div 4096 = t" by (simp only: unat_page_addr)
  let ?rc1 = "rc\<lparr>references := (references rc)[t := references rc ! t + 1]\<rparr>"
  have "reference_frame rc (Frame (of_nat (t * 4096))) = Done (references rc ! t + 1, ?rc1)"
    using refcount_ops(1) [of "of_nat (t * 4096) div 0x1000" rc] al(3) rc(2)
    by (simp del: of_nat_mult add: reference_frame_def reference_frame_at_address_def page_number t)
  moreover have "release_frame_at_address ?rc1 prev = Done (references rc ! i - 1,
      rc\<lparr>references := (references rc)[t := references rc ! t + 1, i := references rc ! i - 1]\<rparr>)"
    using refcount_ops(2) [of "pa_usize prev div 0x1000" ?rc1] i(1,2) rc(2) ne nz
    by (simp add: release_frame_at_address_def page_number)
  moreover have "current_count_at_address rc prev = Done (references rc ! i)"
    using i rc(2) by (simp add: current_count_at_address_def current_count_at_index_def page_number)
  ultimately show ?thesis
    using rc(1) shared al(1) by (simp add: get_frame_for_copy_on_write_def)
qed

lemma cow_sole:
  assumes "REF_COUNT p = Some rc" "unat (pa_usize prev) div 4096 < length (references rc)"
    and "references rc ! (unat (pa_usize prev) div 4096) \<le> 1"
  shows "get_frame_for_copy_on_write prev p = Done (Inr (frame_new (pa_usize prev)), p)"
  using assms
  by (simp add: get_frame_for_copy_on_write_def current_count_at_address_def current_count_at_index_def
      page_number leD)

lemma cow_full:
  assumes "REF_COUNT p = Some rc" "unat (pa_usize prev) div 4096 < length (references rc)"
    and "references rc ! (unat (pa_usize prev) div 4096) > 1"
    and "allocate_frame p = Done (Inl e, p)"
  shows "get_frame_for_copy_on_write prev p = Done (Inl e, p)"
  using assms
  by (simp add: get_frame_for_copy_on_write_def current_count_at_address_def current_count_at_index_def
      page_number)

lemma bs_eqI:
  assumes "length bs = length cs" "\<And>k. k < 8 * length bs \<Longrightarrow> bs_bit bs k = bs_bit cs k"
  shows "bs = cs"
proof (rule nth_equalityI)
  fix i assume i: "i < length bs"
  show "bs ! i = cs ! i"
  proof (rule bit_word_eqI)
    fix j assume "j < LENGTH(8)"
    then show "bit (bs ! i) j = bit (cs ! i) j"
      using assms(2) [of "8 * i + j"] i by (simp add: bs_bit_def)
  qed
qed (rule assms(1))

lemma allocate_range_location:
  "allocate_range bm r = Done (x, bm') \<Longrightarrow> map_location bm' = map_location bm"
  by (auto simp: allocate_range_def obind_Done_iff split: if_splits)

lemma allocate_frames_location:
  assumes "allocate_frames bm n = Done (r, bm')"
  shows "map_location bm' = map_location bm"
proof -
  obtain found where f: "find_free_range bm n = Done found"
    "(case found of None \<Rightarrow> Done (Inl NoAvailableSpace, bm)
      | Some rng \<Rightarrow> obind (allocate_range bm rng)
          (\<lambda>(r, bm'). case r of Inr _ \<Rightarrow> Done (Inr rng, bm') | Inl e \<Rightarrow> Done (Inl e, bm'))) = Done (r, bm')"
    using assms by (auto simp: allocate_frames_def obind_Done_iff)
  show ?thesis
  proof (cases found)
    case (Some rng)
    then obtain x bm1 where x: "allocate_range bm rng = Done (x, bm1)"
      "(case x of Inr _ \<Rightarrow> Done (Inr rng, bm1) | Inl e \<Rightarrow> Done (Inl e, bm1)) = Done (r, bm')"
      using f(2) by (auto simp: obind_Done_iff)
    then have "bm1 = bm'" by (cases x) auto
    then show ?thesis using allocate_range_location [OF x(1)] by simp
  qed (use f(2) in simp)
qed

section \<open>Properties\<close>

text \<open>C1: the frame allocator is a complete first-fit allocator.  On a well-formed bitmap a request
  for n > 0 frames never panics or loops; it either fails, and then there is no run of n free
  frames, and leaves the bitmap as it is, or it returns the range of the first such run, whose
  frames were free and are the only ones whose state changes.\<close>

theorem allocate_frames_first_fit:
  assumes "bm_wf bm" "0 < unat n"
  shows "(allocate_frames bm n = Done (Inl NoAvailableSpace, bm)
          \<and> (\<forall>t. t + unat n \<le> unat (frame_count bm) \<longrightarrow> \<not> run_free bm t (unat n)))
    \<or> (\<exists>t bm'. allocate_frames bm n = Done (Inr (run_range t (unat n)), bm')
          \<and> t + unat n \<le> unat (frame_count bm) \<and> run_free bm t (unat n)
          \<and> (\<forall>t' < t. \<not> run_free bm t' (unat n))
          \<and> bm_wf bm' \<and> frame_count bm' = frame_count bm
          \<and> (\<forall>k. frame_used bm' k = (frame_used bm k \<or> k \<in> {t ..< t + unat n})))"
  by (rule allocate_frames_spec [OF assms])

definition sample_bitmap :: frame_bitmap where
  "sample_bitmap = \<lparr>frame_count = 10, map_location = 0x1000, bitmap = [0x13, 0xfc]\<rparr>"

lemma sample_bitmap_wf: "bm_wf sample_bitmap" "padded sample_bitmap"
proof -
  show "bm_wf sample_bitmap" by (simp add: bm_wf_def sample_bitmap_def)
  have "{10 ..< 16 :: nat} = {10, 11, 12, 13, 14, 15}" by auto
  then show "padded sample_bitmap"
    by (simp add: padded_def sample_bitmap_def frame_used_def bs_bit_def)
qed

lemma sample_allocation:
  "allocate_frames sample_bitmap 3 = Done (Inr (run_range 5 3), sample_bitmap\<lparr>bitmap := [0xf3, 0xfc]\<rparr>)"
  by code_simp

theorem allocate_frames_first_fit_witness:
  "bm_wf sample_bitmap \<and> 5 + 3 \<le> unat (frame_count sample_bitmap) \<and> run_free sample_bitmap 5 3
     \<and> \<not> run_free sample_bitmap 2 3"
proof -
  have fc: "unat (frame_count sample_bitmap) = 10" by (simp add: sample_bitmap_def)
  obtain t where t: "run_range 5 3 = run_range t 3" "t + 3 \<le> 10" "run_free sample_bitmap t 3"
    "\<forall>t' < t. \<not> run_free sample_bitmap t' 3"
    using allocate_frames_first_fit [of sample_bitmap 3] sample_bitmap_wf(1) sample_allocation
    by (auto simp: fc)
  have "t = 5"
    using run_range_indices(1) [of 3 t] run_range_indices(1) [of 3 5] t(1,2) by simp
  then show ?thesis using t sample_bitmap_wf(1) fc by simp
qed

text \<open>C2: for every sequence of requests to the global frame allocator, each taking some frames or
  giving back a range held, the run completes without a panic; the ranges held at the end are
  pairwise disjoint, all their frames are marked taken, and every other frame is exactly as it was
  at the start.  So no frame is ever handed to two holders at once and none is lost.\<close>

theorem frames_never_shared:
  assumes "phys_wf p"
  shows "\<exists>p' held. frame_run (\<lambda>p n. phys_allocate_frames n p) (\<lambda>p r. phys_free_range r p) reqs p []
       = Done (p', held) \<and> phys_wf p' \<and> disjoint_ranges held
     \<and> (\<forall>k \<in> held_frames held. phys_used p' k)
     \<and> (\<forall>k. k \<notin> held_frames held \<longrightarrow> phys_used p' k = phys_used p k)
     \<and> (\<forall>k \<in> held_frames held. \<not> phys_used p k)"
proof -
  have "held_ok (phys_total p) (phys_used p) []"
    by (simp add: held_ok_def disjoint_ranges_def held_frames_def)
  from phf.frame_history [OF assms this, of reqs] obtain p' held where
    run: "frame_run (\<lambda>p n. phys_allocate_frames n p) (\<lambda>p r. phys_free_range r p) reqs p [] = Done (p', held)"
    and h: "phys_wf p'" "held_ok (phys_total p') (phys_used p') held"
      "\<forall>k. (phys_used p' k \<and> k \<notin> held_frames held) = (phys_used p k \<and> k \<notin> held_frames [])" by blast
  then show ?thesis
    by (intro exI [of _ p'] exI [of _ held]) (auto simp: held_ok_def held_frames_def)
qed

definition sample_phys :: phys where
  "sample_phys = \<lparr>ALLOCATOR = Some sample_bitmap,
     REF_COUNT = Some \<lparr>references = [2, 1, 0, 0, 1, 0, 0, 0, 0, 0]\<rparr>\<rparr>"

lemma sample_phys_wf: "phys_wf sample_phys" "phys_total sample_phys = 10"
  by (simp_all add: phys_wf_def phys_total_def sample_phys_def sample_bitmap_wf)
    (simp add: sample_bitmap_def)

theorem frames_never_shared_witness:
  "\<exists>p' held. frame_run (\<lambda>p n. phys_allocate_frames n p) (\<lambda>p r. phys_free_range r p)
       [Take 2, Take 3, Give 1, Take 1] sample_phys []
     = Done (p', held) \<and> phys_wf p' \<and> disjoint_ranges held"
  using frames_never_shared [OF sample_phys_wf(1), of "[Take 2, Take 3, Give 1, Take 1]"] by blast

text \<open>C27: booting.  When the bitmap's address is page aligned and every free entry of the BIOS memory
  map and the bitmap's own range lie below the highest entry's end, \<^verbatim>\<open>init_allocator\<close> installs a
  well-formed bitmap in which exactly the frames touched by a free entry and not by the bitmap
  itself are free.\<close>

theorem init_allocator_correct:
  assumes "location AND 0xfff = 0"
    and "es = load_entries_at_address m map_addr"
    and "\<forall>e \<in> set (free_entries es). contains_range (boot_bitmap m location es) (entry_range e)"
    and "contains_range (boot_bitmap m location es) (own_range m location es)"
  shows "\<exists>bm. init_allocator m location map_addr p = Done (p\<lparr>ALLOCATOR := Some bm\<rparr>)
    \<and> bm_wf bm \<and> padded bm \<and> frame_count bm = drop_bit 12 (memory_limit es) \<and> map_location bm = location
    \<and> (\<forall>k < unat (frame_count bm). \<not> frame_used bm k \<longleftrightarrow>
          (\<exists>e \<in> set (free_entries es). k \<in> range_frames (entry_range e))
          \<and> k \<notin> range_frames (own_range m location es))"
  by (rule init_allocator_spec [OF assms])

text \<open>A map with one reserved and one free entry: 16 frames, the upper twelve free.\<close>

definition sample_map_memory :: memory where
  "sample_map_memory a =
     (if a = 0 then 2
      else if a = 4 + 9 then 0x40 else if a = 4 + 16 then 2
      else if a = 28 + 1 then 0x40 else if a = 28 + 9 then 0xc0 else if a = 28 + 16 then 1
      else 0)"

lemma sample_map_entries:
  "load_entries_at_address sample_map_memory 0 =
     [\<lparr>base = 0, entry_length = 0x4000, region_type = 2, acpi = 0\<rparr>,
      \<lparr>base = 0x4000, entry_length = 0xc000, region_type = 1, acpi = 0\<rparr>]"
  by code_simp

theorem init_allocator_correct_witness:
  "\<exists>bm. init_allocator sample_map_memory 0x5000 0 \<lparr>ALLOCATOR = None, REF_COUNT = None\<rparr>
       = Done (\<lparr>ALLOCATOR = Some bm, REF_COUNT = None\<rparr>)
     \<and> bm_wf bm \<and> frame_count bm = 16"
proof -
  let ?es = "load_entries_at_address sample_map_memory 0"
  have lim: "memory_limit ?es = 0x10000"
    unfolding sample_map_entries by code_simp
  have fc: "frame_count (boot_bitmap sample_map_memory 0x5000 ?es) = 16"
    by (simp add: boot_bitmap_wf(2) lim)
  have fe: "free_entries ?es = [\<lparr>base = 0x4000, entry_length = 0xc000, region_type = 1, acpi = 0\<rparr>]"
    unfolding sample_map_entries by (simp add: free_entries_def REGION_TYPE_FREE_def)
  have "\<forall>e \<in> set (free_entries ?es). contains_range (boot_bitmap sample_map_memory 0x5000 ?es) (entry_range e)"
    unfolding fe by (simp add: contains_range_def contains_frame_index_def fc entry_range_def
        get_last_frame_index_def frame_range_new_def)
  moreover have "contains_range (boot_bitmap sample_map_memory 0x5000 ?es) (own_range sample_map_memory 0x5000 ?es)"
    by (simp add: contains_range_def contains_frame_index_def fc own_range_def
        bitmap_size_in_frames_def get_last_frame_index_def frame_range_new_def)
  ultimately show ?thesis
    using init_allocator_correct [of "0x5000" ?es sample_map_memory 0 "\<lparr>ALLOCATOR = None, REF_COUNT = None\<rparr>"]
    by (auto simp: lim)
qed

text \<open>On a bitmap whose trailing bits are set, as \<^verbatim>\<open>reset\<close> leaves them,
  \<^verbatim>\<open>get_free_frame_count\<close> returns the number of free frames.\<close>

theorem free_frame_count_correct:
  assumes "bm_wf bm" "padded bm"
  shows "\<exists>c. get_free_frame_count bm = Done c
     \<and> unat c = card {k. k < unat (frame_count bm) \<and> \<not> frame_used bm k}"
proof -
  have "distinct (free_frames bm)" by (simp add: free_frames_def)
  then have "length (free_frames bm) = card (set (free_frames bm))" by (rule distinct_card [symmetric])
  also have "set (free_frames bm) = {k. k < unat (frame_count bm) \<and> \<not> frame_used bm k}"
    by (auto simp: free_frames_def)
  finally have card: "length (free_frames bm) = card {k. k < unat (frame_count bm) \<and> \<not> frame_used bm k}" .
  have "length (free_frames bm) \<le> unat (frame_count bm)"
    unfolding free_frames_def by (rule order_trans [OF length_filter_le]) simp
  then have "unat (of_nat (length (free_frames bm)) :: usize) = length (free_frames bm)"
    using unat_lt32 [of "frame_count bm"] by (intro unat_of_nat32) simp
  then show ?thesis using get_free_frame_count_spec [OF assms] card by simp
qed

theorem free_frame_count_correct_witness:
  "\<exists>c. get_free_frame_count sample_bitmap = Done c
     \<and> unat c = card {k. k < unat (frame_count sample_bitmap) \<and> \<not> frame_used sample_bitmap k}"
  by (rule free_frame_count_correct [OF sample_bitmap_wf])

text \<open>C31: freeing the range an allocation returned restores the bitmap bit for bit.\<close>

theorem allocate_then_free:
  assumes "bm_wf bm" "0 < unat n" "allocate_frames bm n = Done (Inr r, bm')"
  shows "free_range bm' r = Done (Inr (), bm)"
proof -
  have "\<exists>t. r = run_range t (unat n) \<and> t + unat n \<le> unat (frame_count bm) \<and> run_free bm t (unat n)
      \<and> bm_wf bm' \<and> frame_count bm' = frame_count bm
      \<and> (\<forall>k. frame_used bm' k = (frame_used bm k \<or> k \<in> {t ..< t + unat n}))"
    using allocate_frames_spec [OF assms(1,2)] assms(3) by auto
  then obtain t where t: "r = run_range t (unat n)" "t + unat n \<le> unat (frame_count bm)"
    "run_free bm t (unat n)" "bm_wf bm'" "frame_count bm' = frame_count bm"
    "\<And>k. frame_used bm' k = (frame_used bm k \<or> k \<in> {t ..< t + unat n})" by auto
  have b: "t + unat n \<le> 2 ^ 20" using t(2) assms(1) by (simp add: bm_wf_def)
  have "contains_range bm' r"
    using run_range_indices(2) [OF assms(2) b] assms(2) t by (simp add: contains_range_iff)
  then obtain bm2 where 2: "free_range bm' r = Done (Inr (), bm2)" "frame_count bm2 = frame_count bm'"
    "map_location bm2 = map_location bm'" "length (bitmap bm2) = length (bitmap bm')"
    "\<And>k. frame_used bm2 k = (frame_used bm' k \<and> k \<notin> range_frames r)"
    using free_range_ok [OF t(4)] by metis
  have "frame_used bm2 k = frame_used bm k" for k
    using 2(5) t(6) t(3) run_range_frames [OF assms(2) b] t(1) by (auto simp: run_free_def)
  moreover have "length (bitmap bm2) = length (bitmap bm)"
    using 2(4) t(4,5) assms(1) by (simp add: bm_wf_def)
  ultimately have "bitmap bm2 = bitmap bm" by (intro bs_eqI) (simp_all add: frame_used_def)
  moreover have "map_location bm2 = map_location bm"
    using 2(3) allocate_frames_location [OF assms(3)] by simp
  ultimately have "bm2 = bm" using 2(2) t(5) by (cases bm; cases bm2) simp
  then show ?thesis using 2(1) by simp
qed

theorem allocate_then_free_witness:
  "free_range (sample_bitmap\<lparr>bitmap := [0xf3, 0xfc]\<rparr>) (run_range 5 3) = Done (Inr (), sample_bitmap)"
  by (rule allocate_then_free [OF sample_bitmap_wf(1) _ sample_allocation]) simp

text \<open>C30: copy-on-write.  For a frame that is taken and covered by the reference counts, a write
  keeps the frame when at most one page refers to it and changes nothing; when several do it
  hands out a frame that was free, moves one reference from the old frame to the new one and
  leaves every other count alone; and it fails without any change when no frame is free.\<close>

theorem copy_on_write_correct:
  assumes "phys_wf p" "REF_COUNT p = Some rc" "length (references rc) = phys_total p"
    and "i = unat (pa_usize prev) div 4096" "i < phys_total p" "phys_used p i"
  shows "(references rc ! i \<le> 1 \<longrightarrow>
           get_frame_for_copy_on_write prev p = Done (Inr (frame_new (pa_usize prev)), p))
    \<and> (references rc ! i > 1 \<longrightarrow> (\<forall>k < phys_total p. phys_used p k) \<longrightarrow>
           get_frame_for_copy_on_write prev p = Done (Inl NoAvailableSpace, p))
    \<and> (references rc ! i > 1 \<longrightarrow> (\<exists>k < phys_total p. \<not> phys_used p k) \<longrightarrow>
           (\<exists>t p'. get_frame_for_copy_on_write prev p = Done (Inr (Frame (of_nat (t * 4096))), p')
              \<and> t < phys_total p \<and> t \<noteq> i \<and> \<not> phys_used p t
              \<and> (\<forall>k. phys_used p' k = (phys_used p k \<or> k = t))
              \<and> REF_COUNT p' = Some (rc\<lparr>references :=
                    (references rc)[t := references rc ! t + 1, i := references rc ! i - 1]\<rparr>)))"
proof (intro conjI impI)
  assume "references rc ! i \<le> 1"
  then show "get_frame_for_copy_on_write prev p = Done (Inr (frame_new (pa_usize prev)), p)"
    using cow_sole assms by simp
next
  assume "references rc ! i > 1" "\<forall>k < phys_total p. phys_used p k"
  then show "get_frame_for_copy_on_write prev p = Done (Inl NoAvailableSpace, p)"
    using cow_full [of p rc prev] allocate_frame_spec [OF assms(1)] assms by auto
next
  assume sh: "references rc ! i > 1" and fr: "\<exists>k < phys_total p. \<not> phys_used p k"
  then obtain t p' where t: "allocate_frame p = Done (Inr (Frame (of_nat (t * 4096))), p')"
    "REF_COUNT p' = REF_COUNT p" "t < phys_total p" "\<not> phys_used p t"
    "\<forall>k. phys_used p' k = (phys_used p k \<or> k = t)"
    using allocate_frame_spec [OF assms(1)] by blast
  then show "\<exists>t p'. get_frame_for_copy_on_write prev p = Done (Inr (Frame (of_nat (t * 4096))), p')
              \<and> t < phys_total p \<and> t \<noteq> i \<and> \<not> phys_used p t
              \<and> (\<forall>k. phys_used p' k = (phys_used p k \<or> k = t))
              \<and> REF_COUNT p' = Some (rc\<lparr>references :=
                    (references rc)[t := references rc ! t + 1, i := references rc ! i - 1]\<rparr>)"
    using cow_shared [OF assms sh t(1-4)] assms(6)
    by (intro exI [of _ t] exI [of _ "p'\<lparr>REF_COUNT := Some (rc\<lparr>references :=
          (references rc)[t := references rc ! t + 1, i := references rc ! i - 1]\<rparr>)\<rparr>"])
      (auto simp: phys_used_def)
qed

theorem copy_on_write_correct_witness:
  "\<exists>t p'. get_frame_for_copy_on_write (PhysicalAddress 0x123) sample_phys
       = Done (Inr (Frame (of_nat (t * 4096))), p') \<and> t < 10 \<and> t \<noteq> 0 \<and> \<not> phys_used sample_phys t"
proof -
  have u: "phys_used sample_phys 0" "\<not> phys_used sample_phys 2"
    by (simp_all add: phys_used_def sample_phys_def sample_bitmap_def frame_used_def bs_bit_def)
  have ex: "\<exists>k < phys_total sample_phys. \<not> phys_used sample_phys k"
    using u(2) sample_phys_wf(2) by (intro exI [of _ 2]) simp
  let ?rc = "\<lparr>references = [2, 1, 0, 0, 1, 0, 0, 0, 0, 0]\<rparr>"
  have rc: "REF_COUNT sample_phys = Some ?rc" by (simp add: sample_phys_def)
  show ?thesis
    using copy_on_write_correct [OF sample_phys_wf(1) rc, of 0 "PhysicalAddress 0x123"] u(1) ex
    by (auto simp: sample_phys_wf(2))
qed

text \<open>C40: the bitmap reserves for itself enough frames to hold its own bytes exactly when the number
  of frames does not leave a remainder of 1 to 7 on division by 32768.  In the other cases the
  last byte of the table lies in a frame that may be handed out.\<close>

theorem own_size_covers_table:
  assumes "unat (frame_count bm) \<le> 2 ^ 20" "length (bitmap bm) = (unat (frame_count bm) + 7) div 8"
  shows "length (bitmap bm) \<le> 4096 * unat (bitmap_size_in_frames bm)
     \<longleftrightarrow> unat (frame_count bm) mod 32768 \<notin> {1 .. 7}"
proof -
  define n where "n = unat (frame_count bm)"
  have z: "drop_bit 3 (frame_count bm) AND 0xfff = 0 \<longleftrightarrow> (n div 8) mod 4096 = 0"
    by (metis n_def unat_and_fff frame_byte_index unat_0 word_unat_eq_iff)
  have d: "unat (drop_bit 12 (drop_bit 3 (frame_count bm))) = n div 8 div 4096"
    by (simp add: word_nat n_def)
  then have d1: "unat (drop_bit 12 (drop_bit 3 (frame_count bm)) + 1) = n div 8 div 4096 + 1"
    using assms(1) by (subst unat_add32) (auto simp: n_def)
  have size: "unat (bitmap_size_in_frames bm) = (if (n div 8) mod 4096 = 0 then n div 8 div 4096 else n div 8 div 4096 + 1)"
    unfolding bitmap_size_in_frames_def Let_def using z d d1 by simp
  obtain q r where n: "n = 32768 * q + r" and r: "r < 32768"
    by (metis div_mod_decomp mult.commute mod_less_divisor zero_less_numeral)
  have "n div 8 = 4096 * q + r div 8" "r div 8 < 4096" using n r by auto
  then have "n div 8 div 4096 = q" "(n div 8) mod 4096 = r div 8" by simp_all
  with size have "unat (bitmap_size_in_frames bm) = (if r div 8 = 0 then q else q + 1)" by simp
  moreover have "length (bitmap bm) = 4096 * q + (r + 7) div 8"
    using n assms(2) by (simp add: n_def [symmetric])
  moreover have "n mod 32768 = r" using n r by simp
  ultimately show ?thesis using r by (cases "r div 8 = 0") (auto simp: n_def [symmetric])
qed

theorem own_size_covers_table_witness:
  "\<not> length (bitmap \<lparr>frame_count = 32769, map_location = 0, bitmap = replicate 4097 0\<rparr>)
     \<le> 4096 * unat (bitmap_size_in_frames \<lparr>frame_count = 32769, map_location = 0, bitmap = replicate 4097 0\<rparr>)"
  using own_size_covers_table [of "\<lparr>frame_count = 32769, map_location = 0, bitmap = replicate 4097 0\<rparr>"]
  by simp

end
