(* ===== verification/HeapLists.thy ===== *)
theory HeapLists
  imports HeapAlloc
begin

text \<open>
  The kernel heap against abstract lists of blocks.  \<open>seg\<close> and \<open>chain\<close> relate memory to a list of
  free blocks in address order; the loops of \<^verbatim>\<open>merge_free_areas\<close>, \<^verbatim>\<open>alloc\<close> and \<^verbatim>\<open>dealloc\<close> are proved
  to compute the list functions \<open>join\<close>, \<open>find_fit\<close> and \<open>ins\<close>.  \<open>heap_ok\<close> is the invariant that
  ties allocator state, memory, free blocks and live allocations together, and the lemmas
  \<open>heap_alloc_spec\<close> and \<open>heap_dealloc_spec\<close> show that both operations keep it.
\<close>

section \<open>Specification: free blocks in memory\<close>

text \<open>\<open>seg m a bs z\<close>: following \<^verbatim>\<open>next\<close> from node \<open>a\<close> visits the free blocks \<open>bs\<close> and arrives at \<open>z\<close>.\<close>

fun seg :: "memory \<Rightarrow> nat \<Rightarrow> (nat \<times> nat) list \<Rightarrow> nat \<Rightarrow> bool" where
  "seg m a [] z \<longleftrightarrow> a = z"
| "seg m a ((b, s) # bs) z \<longleftrightarrow> a = b \<and> ld m b = MAGIC \<and> ld m (b + 4) = of_nat s
     \<and> seg m (unat (ld m (b + 8))) bs z"

text \<open>\<open>chain lo hi bs\<close>: word-aligned blocks in address order, without overlap, inside \<open>lo ..< hi\<close>.\<close>

fun chain :: "nat \<Rightarrow> nat \<Rightarrow> (nat \<times> nat) list \<Rightarrow> bool" where
  "chain lo hi [] \<longleftrightarrow> lo \<le> hi"
| "chain lo hi ((b, s) # bs) \<longleftrightarrow> lo \<le> b \<and> 4 dvd b \<and> 4 dvd s \<and> 12 \<le> s \<and> chain (b + s) hi bs"

definition block :: "nat \<times> nat \<Rightarrow> nat set" where
  "block p = {fst p ..< fst p + snd p}"

definition blocks :: "(nat \<times> nat) list \<Rightarrow> nat set" where
  "blocks bs = (\<Union>p \<in> set bs. block p)"

text \<open>The bounds of a heap: above address 0, below the end of the address space, under 2 GiB.\<close>

definition bounds :: "nat \<Rightarrow> nat \<Rightarrow> bool" where
  "bounds lo hi \<longleftrightarrow> 0 < lo \<and> hi < 2 ^ 32 \<and> hi - lo < 2 ^ 31"

text \<open>What \<^verbatim>\<open>merge_free_areas\<close> leaves: adjacent blocks joined.\<close>

fun join :: "(nat \<times> nat) list \<Rightarrow> (nat \<times> nat) list" where
  "join ((b, s) # (c, t) # bs) =
     (if b + s = c then join ((b, s + t) # bs) else (b, s) # join ((c, t) # bs))"
| "join bs = bs"

section \<open>Chains and segments\<close>

lemma chain_mono: "chain lo hi bs \<Longrightarrow> lo' \<le> lo \<Longrightarrow> chain lo' hi bs"
  by (cases bs) auto

lemma chain_le: "chain lo hi bs \<Longrightarrow> lo \<le> hi"
  by (induction bs arbitrary: lo) fastforce+

lemma chain_mem:
  "chain lo hi bs \<Longrightarrow> (b, s) \<in> set bs \<Longrightarrow> lo \<le> b \<and> 4 dvd b \<and> 4 dvd s \<and> 12 \<le> s \<and> b + s \<le> hi"
  by (induction bs arbitrary: lo) (fastforce dest: chain_le)+

lemma chain_append:
  "chain lo hi (xs @ ys) \<longleftrightarrow> (\<exists>mid. chain lo mid xs \<and> chain mid hi ys)"
proof (induction xs arbitrary: lo)
  case Nil
  then show ?case using chain_mono by auto
qed auto

lemma seg_append: "seg m a (xs @ ys) z \<longleftrightarrow> (\<exists>y. seg m a xs y \<and> seg m y ys z)"
  by (induction xs arbitrary: a) auto

lemma seg_cong:
  assumes "\<And>b s. (b, s) \<in> set bs \<Longrightarrow> ld m' b = ld m b \<and> ld m' (b + 4) = ld m (b + 4) \<and> ld m' (b + 8) = ld m (b + 8)"
  shows "seg m' a bs z = seg m a bs z"
  using assms
proof (induction bs arbitrary: a)
  case (Cons p bs)
  obtain b s where p: "p = (b, s)" by fastforce
  have "seg m' a' bs z = seg m a' bs z" for a' by (rule Cons.IH) (use Cons.prems in auto)
  moreover have "ld m' b = ld m b \<and> ld m' (b + 4) = ld m (b + 4) \<and> ld m' (b + 8) = ld m (b + 8)"
    using Cons.prems [of b s] p by simp
  ultimately show ?case by (simp add: p)
qed simp

lemma chain_block_disjoint:
  assumes "chain lo hi ((b, s) # bs)" "(c, t) \<in> set bs"
  shows "b + s \<le> c"
  using assms chain_mem by force

lemma small_sizes:
  assumes "bounds lo hi" "chain lo hi bs" "(b, s) \<in> set bs"
  shows "0 < b" "b + s < 4294967296" "s < 2147483648" "4 dvd b" "4 dvd s" "12 \<le> s"
proof -
  have c: "lo \<le> b \<and> 4 dvd b \<and> 4 dvd s \<and> 12 \<le> s \<and> b + s \<le> hi" by (rule chain_mem [OF assms(2,3)])
  have d: "0 < lo" "hi < 4294967296" "hi - lo < 2147483648" using assms(1) by (simp_all add: bounds_def)
  show "0 < b" "b + s < 4294967296" "4 dvd b" "4 dvd s" "12 \<le> s" using c d(1,2) by simp_all
  show "s < 2147483648" using c d(3) by linarith
qed

section \<open>Node fields at natural-number addresses\<close>

lemma and_7fffffff [simp]:
  assumes "s < 2147483648"
  shows "(of_nat s :: u32) AND 0x7fffffff = of_nat s"
proof -
  have "(0x7fffffff :: u32) = mask 31" by (simp add: mask_eq_exp_minus_1)
  moreover have "unat (of_nat s AND mask 31 :: u32) = s"
    using assms by (simp only: unat_and_mask) (simp add: unat_of_nat32)
  ultimately have "unat (of_nat s AND 0x7fffffff :: u32) = s" by (simp only:)
  then show ?thesis using assms by (simp add: word_unat_eq_iff unat_of_nat32)
qed

lemma node_ops_nat:
  "node_next m (of_nat b) = ld m (b + 8)"
  "node_is_valid m (of_nat b) = (ld m b = MAGIC)"
  "node_get_size m (of_nat b) = ld m (b + 4) AND 0x7fffffff"
  "node_set_next m (of_nat b) v = st m (b + 8) v"
  "node_set_size m (of_nat b) v = st m (b + 4) ((ld m (b + 4) AND 0x80000000) OR (v AND 0x7fffffff))"
  "node_init m (of_nat b) v = st (st (st m b MAGIC) (b + 4) (v AND 0x7fffffff)) (b + 8) 0"
  "mark_occupied m (of_nat b) = st m (b + 4) (ld m (b + 4) OR 0x80000000)"
  "mark_free m (of_nat b) = st m (b + 4) (ld m (b + 4) AND 0x7fffffff)"
  "node_is_free m (of_nat b) = (ld m (b + 4) AND 0x80000000 = 0)"
  by (simp_all add: node_next_def node_is_valid_def node_get_size_def node_set_next_def node_set_size_def
      node_init_def mark_occupied_def mark_free_def node_is_free_def ld_def st_def Let_def)

lemma top_bit_clear:
  assumes "s < 2147483648"
  shows "(of_nat s :: u32) AND 0x80000000 = 0"
proof -
  have "(of_nat s :: u32) AND 0x80000000 = (of_nat s AND 0x7fffffff) AND 0x80000000"
    using assms by simp
  also have "\<dots> = of_nat s AND (0x7fffffff AND 0x80000000)" by (simp only: and.assoc)
  also have "(0x7fffffff AND 0x80000000 :: u32) = 0" by simp
  finally show ?thesis by simp
qed

lemma seg_head:
  assumes "seg m a bs 0" "bounds lo hi" "chain lo hi bs"
  shows "(of_nat a :: usize) = 0 \<longleftrightarrow> bs = []" "a = 0 \<longleftrightarrow> bs = []" "a < 4294967296"
proof -
  have *: "(bs = [] \<and> a = 0) \<or> (bs \<noteq> [] \<and> 0 < a \<and> a < 4294967296)"
  proof (cases bs)
    case (Cons p bs')
    obtain b s where p: "p = (b, s)" by fastforce
    have "a = b" using assms(1) Cons p by simp
    then show ?thesis using small_sizes(1,2) [OF assms(2,3), of b s] Cons p by simp
  qed (use assms(1) in simp)
  then show "a = 0 \<longleftrightarrow> bs = []" "a < 4294967296" by auto
  have "unat (of_nat a :: usize) = a" using * by (intro unat_of_nat32) auto
  then show "(of_nat a :: usize) = 0 \<longleftrightarrow> bs = []" using * by (auto simp: word_unat_eq_iff)
qed

section \<open>Merging\<close>

lemma chain_join: "chain lo hi bs \<Longrightarrow> chain lo hi (join bs)"
proof (induction bs arbitrary: lo rule: join.induct)
  case (1 b s c t bs)
  then show ?case by (auto simp: add.assoc)
qed auto

lemma blocks_join: "chain lo hi bs \<Longrightarrow> blocks (join bs) = blocks bs"
proof (induction bs arbitrary: lo rule: join.induct)
  case (1 b s c t bs)
  show ?case
  proof (cases "b + s = c")
    case True
    then have "chain lo hi ((b, s + t) # bs)" using "1.prems" by (auto simp: add.assoc)
    then have "blocks (join ((b, s) # (c, t) # bs)) = blocks ((b, s + t) # bs)" using "1.IH"(1) [OF True, of lo] True by simp
    also have "\<dots> = blocks ((b, s) # (c, t) # bs)"
      using True by (auto simp: blocks_def block_def)
    finally show ?thesis .
  next
    case False
    have "chain (b + s) hi ((c, t) # bs)" using "1.prems" by auto
    from "1.IH"(2) [OF False this] show ?thesis using False by (simp add: blocks_def)
  qed
qed auto

lemma join_hd: "chain lo hi ((b, s) # bs) \<Longrightarrow> \<exists>t bs'. join ((b, s) # bs) = (b, t) # bs'"
proof (induction bs arbitrary: s)
  case (Cons y bs)
  obtain c t where y: "y = (c, t)" by fastforce
  show ?case
  proof (cases "b + s = c")
    case True
    then have "chain lo hi ((b, s + t) # bs)" using Cons.prems by (auto simp: y add.assoc)
    then show ?thesis using Cons.IH [of "s + t"] True by (simp add: y)
  qed (simp add: y)
qed simp

lemma join_no_adjacent:
  assumes "chain lo hi bs"
  shows "\<forall>(b, t) \<in> set (join bs). \<forall>(c, u) \<in> set (join bs). b + t \<noteq> c"
  using assms
proof (induction bs arbitrary: lo rule: join.induct)
  case (1 b s c t bs)
  show ?case
  proof (cases "b + s = c")
    case True
    then have "chain lo hi ((b, s + t) # bs)" using "1.prems" by (auto simp: add.assoc)
    then show ?thesis using "1.IH"(1) [OF True, of lo] True by simp
  next
    case False
    have ch: "chain (b + s) hi ((c, t) # bs)" using "1.prems" by simp
    obtain t' bs' where j: "join ((c, t) # bs) = (c, t') # bs'" using join_hd [OF ch] by blast
    have jc: "chain (b + s) hi ((c, t') # bs')" using chain_join [OF ch] j by simp
    have gt: "b + s < d \<and> b < d + v" if "(d, v) \<in> set ((c, t') # bs')" for d v
      using that jc False chain_mem [of "c + t'" hi bs' d v] by auto
    have ih: "d + v \<noteq> e" if "(d, v) \<in> set ((c, t') # bs')" "(e, w) \<in> set ((c, t') # bs')" for d v e w
      using "1.IH"(2) [OF False ch] that unfolding j by blast
    have "d + v \<noteq> e" if "(d, v) \<in> set ((b, s) # (c, t') # bs')" "(e, w) \<in> set ((b, s) # (c, t') # bs')" for d v e w
    proof (cases "(d, v) = (b, s)")
      case True
      then show ?thesis using that(2) gt [of e w] "1.prems" by (cases "(e, w) = (b, s)") auto
    next
      case False
      then show ?thesis using that ih [of d v e w] gt [of d v] by (cases "(e, w) = (b, s)") auto
    qed
    moreover have "join ((b, s) # (c, t) # bs) = (b, s) # (c, t') # bs'" using False j by simp
    ultimately show ?thesis by (simp only:) blast
  qed
qed auto

lemma ld_cong:
  assumes "\<And>i. i < 4 \<Longrightarrow> m' (of_nat (k + i)) = m (of_nat (k + i))"
  shows "ld m' k = ld m k"
  using assms [of 0] assms [of 1] assms [of 2] assms [of 3]
  by (simp add: ld_def load32_def add.commute)

lemma aligned_outside:
  assumes "4 dvd b" "4 dvd s" "4 dvd k" "k \<notin> {b ..< b + s}" "i < 4"
  shows "k + i \<notin> {b ..< b + (s :: nat)}"
proof -
  obtain x y z where "b = 4 * x" "s = 4 * y" "k = 4 * z" using assms(1-3) by (auto elim!: dvdE)
  then show ?thesis using assms(4,5) by auto
qed

lemma ld_frame:
  assumes "chain lo hi bs" "\<And>x. unat x \<notin> blocks bs \<Longrightarrow> m' x = m x"
    and "4 dvd k" "k < 4294967296" "k \<notin> blocks bs"
  shows "ld m' k = ld m k"
proof (rule ld_cong)
  fix i :: nat assume i: "i < 4"
  have "k + i < 4294967296" using assms(3,4) i by (auto elim!: dvdE)
  moreover have "k + i \<notin> blocks bs"
    using assms(5) aligned_outside [OF _ _ assms(3) _ i] chain_mem [OF assms(1)]
    by (fastforce simp: blocks_def block_def)
  ultimately show "m' (of_nat (k + i)) = m (of_nat (k + i))"
    using assms(2) by (simp add: unat_of_nat32 del: of_nat_add)
qed

lemma chain_header_outside:
  assumes "chain lo hi ((b, s) # bs)" "j < s"
  shows "b + j \<notin> blocks bs"
  using chain_block_disjoint [OF assms(1)] assms(2) by (fastforce simp: blocks_def block_def)

lemma of_nat32_eq: "a < 4294967296 \<Longrightarrow> b < 4294967296 \<Longrightarrow> ((of_nat a :: usize) = of_nat b) = (a = b)"
  by (metis unat_of_nat32)

lemma merge_from_spec:
  assumes "bounds lo hi" "chain lo hi bs" "seg m a bs 0"
  shows "\<exists>m'. merge_from (of_nat a) m = Some m' \<and> seg m' a (join bs) 0
    \<and> (\<forall>x. unat x \<notin> blocks bs \<longrightarrow> m' x = m x)"
  using assms
proof (induction bs arbitrary: lo a m rule: join.induct [case_names Two Nil One])
  case (Two b s c t bs)
  note sb = small_sizes [OF Two.prems(1,2), of b s, simplified]
  note sc = small_sizes [OF Two.prems(1,2), of c t, simplified]
  have a: "a = b" "ld m b = MAGIC" "ld m (b + 4) = of_nat s" "unat (ld m (b + 8)) = c"
    "ld m c = MAGIC" "ld m (c + 4) = of_nat t" "seg m (unat (ld m (c + 8))) bs 0"
    using Two.prems(3) by auto
  have bc: "b + s \<le> c" using Two.prems(2) by simp
  have nz: "(of_nat b :: usize) \<noteq> 0" using sb of_nat32_eq [of b 0] by simp
  have nx: "ld m (b + 8) = of_nat c" unfolding a(4) [symmetric] by simp
  have gs: "node_get_size m (of_nat b) = of_nat s" "node_get_size m (of_nat c) = of_nat t"
    using a sb sc by (simp_all add: node_ops_nat)
  have next_byte: "(of_nat b + of_nat s = (of_nat c :: usize)) = (b + s = c)"
    using of_nat32_eq [of "b + s" c] sb sc by simp
  show ?case
  proof (cases "b + s = c")
    case True
    have st: "s + t < 2147483648" using Two.prems(1,2) True sb sc chain_le [of "c + t" hi bs]
      by (auto simp: bounds_def)
    let ?m1 = "st m (b + 4) (of_nat (s + t))"
    let ?m2 = "st ?m1 (b + 8) (ld m (c + 8))"
    have f: "ld ?m2 k = ld m k" if "4 dvd k" "k < 4294967296" "k \<noteq> b + 4" "k \<noteq> b + 8" for k
      using that sb by (simp add: ld_st)
    have step: "merge_from (of_nat b) m = merge_from (of_nat b) ?m2"
      using nz nx gs True next_byte st sb sc a(3)
      by (subst merge_from.simps) (simp add: Let_def node_ops_nat top_bit_clear ld_st flip: of_nat_add)
    have "chain lo hi ((b, s + t) # bs)" using Two.prems(2) True by (auto simp: add.assoc)
    moreover have "seg ?m2 b ((b, s + t) # bs) 0"
    proof -
      have "seg ?m2 (unat (ld m (c + 8))) bs 0 = seg m (unat (ld m (c + 8))) bs 0"
      proof (rule seg_cong)
        fix d u assume d: "(d, u) \<in> set bs"
        note sd = small_sizes [OF Two.prems(1,2), of d u, simplified, OF disjI2 [OF disjI2 [OF d]]]
        have "c + t \<le> d" using chain_block_disjoint [of "b + s" hi c t bs d u] Two.prems(2) d by simp
        then show "ld ?m2 d = ld m d \<and> ld ?m2 (d + 4) = ld m (d + 4) \<and> ld ?m2 (d + 8) = ld m (d + 8)"
          using sd sb sc bc by (intro conjI f) auto
      qed
      then show ?thesis using a sb by (simp add: ld_st)
    qed
    ultimately obtain m' where m': "merge_from (of_nat b) ?m2 = Some m'" "seg m' b (join ((b, s + t) # bs)) 0"
      "\<forall>x. unat x \<notin> blocks ((b, s + t) # bs) \<longrightarrow> m' x = ?m2 x"
      using Two.IH(1) [OF True Two.prems(1)] by blast
    have "?m2 x = m x" if "unat x \<notin> blocks ((b, s) # (c, t) # bs)" for x
    proof -
      have "unat x \<notin> {b + 4 ..< b + 4 + 4}" "unat x \<notin> {b + 8 ..< b + 8 + 4}"
        using that sb(6) by (auto simp: blocks_def block_def)
      then show ?thesis using sb(2,6) by (simp add: st_other)
    qed
    moreover have "blocks ((b, s + t) # bs) = blocks ((b, s) # (c, t) # bs)"
      using True by (auto simp: blocks_def block_def)
    ultimately show ?thesis using m' step True a(1) by auto
  next
    case False
    have "merge_from (of_nat b) m = merge_from (of_nat c) m"
      using nz nx gs False next_byte by (subst merge_from.simps) (simp add: Let_def node_ops_nat)
    moreover have ch: "chain (b + s) hi ((c, t) # bs)" using Two.prems(2) by simp
    moreover have "bounds (b + s) hi" using Two.prems(1,2) by (auto simp: bounds_def)
    ultimately obtain m' where m': "merge_from (of_nat b) m = Some m'" "seg m' c (join ((c, t) # bs)) 0"
      "\<And>x. unat x \<notin> blocks ((c, t) # bs) \<Longrightarrow> m' x = m x"
      using Two.IH(2) [OF False, of "b + s" m c] a by auto
    have "ld m' (b + j) = ld m (b + j)" if "j = 0 \<or> j = 4 \<or> j = 8" for j
      using that sb by (intro ld_frame [OF ch m'(3)] chain_header_outside [OF Two.prems(2)]) auto
    from this [of 0] this [of 4] this [of 8]
    have "seg m' a (join ((b, s) # (c, t) # bs)) 0" using False a m'(2) by simp
    then show ?thesis using m' a(1) by (auto simp: blocks_def)
  qed
next
  case Nil
  then show ?case by (subst merge_from.simps) simp
next
  case (One v)
  obtain b s where v: "v = (b, s)" by fastforce
  note sb = small_sizes [OF One.prems(1,2), of b s, simplified v, simplified]
  have "(of_nat b + of_nat s :: usize) \<noteq> 0" "(of_nat b :: usize) \<noteq> 0"
    using of_nat32_eq [of "b + s" 0] of_nat32_eq [of b 0] sb by auto
  moreover have "ld m (b + 8) = 0" "ld m (b + 4) = of_nat s" "a = b"
    using One.prems(3) by (auto simp: v word_unat_eq_iff)
  ultimately have "merge_from (of_nat a) m = Some m"
    using sb by (subst merge_from.simps) (simp add: Let_def node_ops_nat merge_from.simps [of 0])
  then show ?case using One.prems(3) by (simp add: v)
qed

section \<open>Allocation\<close>

definition astart :: "nat \<Rightarrow> nat \<Rightarrow> nat" where
  "astart k b = (b + 12 + 2 ^ k - 1) div 2 ^ k * 2 ^ k"

fun find_fit :: "nat \<Rightarrow> nat \<Rightarrow> (nat \<times> nat) list
    \<Rightarrow> ((nat \<times> nat) list \<times> (nat \<times> nat) \<times> (nat \<times> nat) list) option" where
  "find_fit k n [] = None"
| "find_fit k n ((b, s) # bs) =
     (if astart k b + n \<le> b + s then Some ([], (b, s), bs)
      else map_option (\<lambda>(pre, x, post). ((b, s) # pre, x, post)) (find_fit k n bs))"

lemma astart_bounds:
  "b + 12 \<le> astart k b" "astart k b < b + 12 + 2 ^ k" "2 ^ k dvd astart k b"
  "4 dvd b \<Longrightarrow> 4 dvd astart k b"
proof -
  let ?x = "b + 12 + 2 ^ k - 1"
  have pos: "(0 :: nat) < 2 ^ k" by simp
  have eq: "astart k b = ?x - ?x mod 2 ^ k" by (simp add: astart_def minus_mod_eq_div_mult)
  have m: "?x mod 2 ^ k < 2 ^ k" using pos by simp
  show "b + 12 \<le> astart k b" unfolding eq using m pos by linarith
  have "astart k b \<le> ?x" by (simp add: eq)
  then show "astart k b < b + 12 + 2 ^ k" using pos by linarith
  show d: "2 ^ k dvd astart k b" by (simp add: astart_def)
  show "4 dvd astart k b" if "4 dvd b"
  proof (cases "k \<ge> 2")
    case True
    then have "(2 :: nat) ^ 2 dvd 2 ^ k" by (rule le_imp_power_dvd)
    then show ?thesis using d by (simp add: dvd_trans)
  next
    case False
    then have "k = 0 \<or> k = 1" by linarith
    then have "astart k b = b + 12" using that by (auto simp: astart_def elim!: dvdE) presburger
    then show ?thesis using that by simp
  qed
qed

lemma get_aligned_start_nat:
  assumes "b + 12 + 2 ^ k < 4294967296" "align = 2 ^ k"
  shows "get_aligned_start (of_nat b) align = of_nat (astart k b)"
proof -
  let ?x = "b + 12 + 2 ^ k - 1"
  have mask: "align - 1 = mask k" by (simp add: assms(2) mask_eq_exp_minus_1)
  have "of_nat b + 12 + (align - 1) = (of_nat ?x :: usize)"
    by (simp add: assms(2) of_nat_diff)
  then have "get_aligned_start (of_nat b) align = of_nat ?x AND NOT (mask k)"
    unfolding get_aligned_start_def Let_def mask by (simp only:)
  moreover have "unat (of_nat ?x AND NOT (mask k) :: usize) = ?x - ?x mod 2 ^ k"
  proof -
    have "unat (of_nat ?x :: usize) = ?x" using assms(1) by (intro unat_of_nat32) linarith
    then show ?thesis by (simp only: unat_and_not_mask)
  qed
  moreover have "?x - ?x mod 2 ^ k = astart k b"
    by (simp add: astart_def minus_mod_eq_div_mult)
  moreover have "astart k b < 4294967296" using astart_bounds(2) [of k b] assms(1) by linarith
  ultimately show ?thesis by (simp add: word_unat_eq_iff unat_of_nat32)
qed

lemma find_fit_Some:
  "find_fit k n bs = Some (pre, (b, s), post) \<Longrightarrow> bs = pre @ (b, s) # post \<and> astart k b + n \<le> b + s"
  by (induction bs arbitrary: pre) (auto split: if_splits)

lemma find_fit_first:
  "find_fit k n bs = Some (pre, x, post) \<Longrightarrow> (c, t) \<in> set pre \<Longrightarrow> c + t < astart k c + n"
  by (induction bs arbitrary: pre) (auto split: if_splits)

lemma find_fit_None:
  "find_fit k n bs = None \<Longrightarrow> (b, s) \<in> set bs \<Longrightarrow> b + s < astart k b + n"
  by (induction bs) (auto split: if_splits)

lemma alloc_from_spec:
  assumes "bounds lo hi" "chain lo hi bs" "seg m a bs 0"
    and lay: "layout_align lay = 2 ^ k" "hi + 16 + 2 ^ k + unat (layout_size lay) < 4294967296"
  shows "alloc_from h m lay prev (of_nat a) = Some
    (case find_fit k (unat (layout_size lay)) bs of
       None \<Rightarrow> Done (0, h, m)
     | Some (pre, (b, s), post) \<Rightarrow>
         take_node h m (if pre = [] then prev else of_nat (fst (last pre))) (of_nat b) (ld m (b + 8))
           (of_nat (astart k b)) (of_nat (astart k b + unat (layout_size lay))))"
  using assms(1-3)
proof (induction bs arbitrary: lo a prev)
  case Nil
  then show ?case by (subst alloc_from.simps) simp
next
  case (Cons p bs)
  obtain b s where p: "p = (b, s)" by fastforce
  let ?n = "unat (layout_size lay)"
  note sb = small_sizes [OF Cons.prems(1,2), of b s, unfolded p, simplified]
  have a: "a = b" "ld m (b + 4) = of_nat s" "seg m (unat (ld m (b + 8))) bs 0"
    using Cons.prems(3) by (auto simp: p)
  have le: "b + s \<le> hi" using Cons.prems(2) chain_le by (auto simp: p)
  have nz: "(of_nat b :: usize) \<noteq> 0" using sb of_nat32_eq [of b 0] by simp
  have b12: "b + 12 + 2 ^ k < 4294967296" using le lay(2) sb by linarith
  have st: "get_aligned_start (of_nat b) (layout_align lay) = of_nat (astart k b)"
    by (rule get_aligned_start_nat [OF b12 lay(1)])
  have e: "astart k b + ?n < 4294967296" using astart_bounds(2) [of k b] le sb lay(2) by linarith
  have "(of_nat (astart k b + ?n) \<le> (of_nat (b + s) :: usize)) = (astart k b + ?n \<le> b + s)"
    unfolding word_le_nat_alt using e sb by (simp only: unat_of_nat32)
  then have cmp: "(of_nat (astart k b) + layout_size lay \<le> of_nat b + node_get_size m (of_nat b))
      = (astart k b + ?n \<le> b + s)"
    using a(2) sb by (simp add: node_ops_nat)
  show ?case
  proof (cases "astart k b + ?n \<le> b + s")
    case True
    then show ?thesis
      using nz a(1) cmp st by (subst alloc_from.simps) (simp add: Let_def p node_ops_nat)
  next
    case False
    have "alloc_from h m lay prev (of_nat a) = alloc_from h m lay (of_nat b) (of_nat (unat (ld m (b + 8))))"
      using nz a(1) cmp st False by (subst alloc_from.simps) (simp add: Let_def node_ops_nat)
    also have "\<dots> = Some (case find_fit k ?n bs of None \<Rightarrow> Done (0, h, m)
        | Some (pre, (c, t), post) \<Rightarrow>
          take_node h m (if pre = [] then of_nat b else of_nat (fst (last pre))) (of_nat c) (ld m (c + 8))
            (of_nat (astart k c)) (of_nat (astart k c + ?n)))"
    proof (rule Cons.IH)
      show "bounds (b + s) hi" using Cons.prems(1,2) by (auto simp: bounds_def p)
      show "chain (b + s) hi bs" using Cons.prems(2) by (simp add: p)
    qed (rule a(3))
    finally show ?thesis using False by (auto simp: p split: option.splits)
  qed
qed

lemma occupied_size:
  assumes "s < 2147483648"
  shows "((of_nat s :: u32) OR 0x80000000) AND 0x7fffffff = of_nat s"
    "((of_nat s :: u32) OR 0x80000000) AND 0x80000000 = 0x80000000"
proof -
  have "((of_nat s :: u32) OR 0x80000000) AND 0x7fffffff
      = (of_nat s AND 0x7fffffff) OR (0x80000000 AND 0x7fffffff)" by (simp only: bit.conj_disj_distrib2)
  then show "((of_nat s :: u32) OR 0x80000000) AND 0x7fffffff = of_nat s" using assms by simp
  have "((of_nat s :: u32) OR 0x80000000) AND 0x80000000
      = (of_nat s AND 0x80000000) OR (0x80000000 AND 0x80000000)" by (simp only: bit.conj_disj_distrib2)
  then show "((of_nat s :: u32) OR 0x80000000) AND 0x80000000 = 0x80000000"
    using assms by (simp add: top_bit_clear)
qed

text \<open>The memory after a block has been taken: whole, or split at \<open>t\<close>.\<close>

definition taken :: "memory \<Rightarrow> nat \<Rightarrow> nat \<Rightarrow> nat \<Rightarrow> memory" where
  "taken m b s p = st (st m (b + 4) (of_nat s OR 0x80000000)) (p - 4) (of_nat (p - b - 8))"

definition split_at :: "memory \<Rightarrow> nat \<Rightarrow> nat \<Rightarrow> nat \<Rightarrow> u32 \<Rightarrow> nat option \<Rightarrow> memory" where
  "split_at m b s t nxt prev =
     (let m = st (st (st m t MAGIC) (t + 4) (of_nat (b + s - t))) (t + 8) 0;
          m = st m (t + 8) nxt;
          m = (case prev of None \<Rightarrow> m | Some q \<Rightarrow> st m (q + 8) (of_nat t))
      in st m (b + 4) (0x80000000 OR of_nat (t - b)))"

lemma round_up_4: "x \<le> (x + 3) div 4 * (4 :: nat)" "(x + 3) div 4 * (4 :: nat) \<le> x + 3" "4 dvd (x + 3) div 4 * (4 :: nat)"
  by auto

lemma trailing_start_nat:
  assumes "e + 3 < 4294967296"
  shows "(of_nat e + 3 :: usize) AND NOT 3 = of_nat ((e + 3) div 4 * 4)"
proof -
  have three: "(3 :: usize) = mask 2" by (simp add: mask_eq_exp_minus_1)
  have "unat (of_nat (e + 3) AND NOT (mask 2) :: usize) = (e + 3) - (e + 3) mod 4"
    using assms by (simp only: unat_and_not_mask) (simp add: unat_of_nat32 del: of_nat_add)
  then have "unat ((of_nat e + 3 :: usize) AND NOT 3) = (e + 3) div 4 * 4"
    by (simp only: three [symmetric]) (simp add: minus_mod_eq_div_mult)
  moreover have "(e + 3) div 4 * 4 < 4294967296" using assms by linarith
  ultimately show ?thesis by (simp only: word_unat_eq_iff unat_of_nat32)
qed

lemma take_node_spec:
  assumes b: "4 dvd b" "0 < b" "b + s < 4294967296" "s < 2147483648" "ld m (b + 4) = of_nat s"
    and p: "4 dvd p" "b + 12 \<le> p" "p + n \<le> b + s" and e: "e = p + n"
    and prev: "pq = None \<and> prev = 0 \<or> (\<exists>q. pq = Some q \<and> prev = of_nat q \<and> 0 < q \<and> 4 dvd q \<and> q + 12 \<le> b)"
    and t: "t = (e + 3) div 4 * 4"
  shows "take_node h m prev (of_nat b) nxt (of_nat p) (of_nat e) =
    (if e + 16 < b + s
     then Done (of_nat p, if pq = None then h\<lparr>first_free := of_nat t\<rparr> else h,
                split_at (taken m b s p) b s t nxt pq)
     else Done (of_nat p, h\<lparr>first_free := nxt\<rparr>, taken m b s p))"
proof -
  have size: "of_nat b + node_get_size m (of_nat b) = (of_nat (b + s) :: usize)"
    using b(4,5) by (simp add: node_ops_nat)
  have rem: "(of_nat (b + s) - of_nat e > (16 :: usize)) = (e + 16 < b + s)"
  proof -
    have "(of_nat (b + s) - of_nat e :: usize) = of_nat (b + s - e)"
      using p(3) e by (simp only: of_nat_diff)
    moreover have "unat (of_nat (b + s - e) :: usize) = b + s - e" using b(3) by (intro unat_of_nat32) linarith
    ultimately show ?thesis by (simp only: word_less_nat_alt) (simp, linarith)
  qed
  have pad: "(of_nat p - of_nat b - 8 :: usize) = of_nat (p - b - 8)"
    using p(2) by (simp add: of_nat_diff)
  have pad4: "\<not> (of_nat (p - b - 8) < (4 :: usize))"
  proof -
    have "unat (of_nat (p - b - 8) :: usize) = p - b - 8" using p b(3) by (intro unat_of_nat32) linarith
    then show ?thesis using p(2) by (simp only: word_less_nat_alt) simp
  qed
  have pad_at: "(of_nat b + 8 + of_nat (p - b - 8) - 4 :: usize) = of_nat (p - 4)"
    using p(2) by (simp add: of_nat_diff)
  have tk: "mark_padded (mark_occupied m (of_nat b)) (of_nat b) (of_nat p - of_nat b - 8) = Done (taken m b s p)"
    unfolding pad mark_padded_def Let_def pad_at using pad4
    by (simp add: node_ops_nat b(5) taken_def st_def)
  have ldb: "ld (taken m b s p) (b + 4) = of_nat s OR 0x80000000"
  proof -
    have "p - 4 \<noteq> b + 4" "4 dvd p - 4" "p - 4 < 4294967296" "b + 4 < 4294967296" using p b(3) by auto
    then show ?thesis using b by (simp add: taken_def ld_st)
  qed
  have size2: "of_nat b + node_get_size (taken m b s p) (of_nat b) = (of_nat (b + s) :: usize)"
    using b(4) ldb by (simp add: node_ops_nat occupied_size)
  show ?thesis
  proof (cases "e + 16 < b + s")
    case False
    then show ?thesis
      unfolding take_node_def Let_def size rem tk by simp
  next
    case True
    have ts: "(of_nat e + 3 :: usize) AND NOT 3 = of_nat t"
      using True b(3) t by (simp only: trailing_start_nat)
    have tb: "e \<le> t" "t \<le> e + 3" "4 dvd t" using round_up_4 [of e] by (simp_all add: t)
    have ns: "(of_nat (b + s) - of_nat t :: usize) = of_nat (b + s - t)"
      using True tb by (simp only: of_nat_diff)
    have small: "b + s - t < 2147483648" "t - b < 2147483648" using tb True b(4) p e by linarith+
    have tmb: "(of_nat t - of_nat b :: usize) = of_nat (t - b)" using tb p e by (simp only: of_nat_diff)
    let ?m2 = "st (st (st (st (taken m b s p) t MAGIC) (t + 4) (of_nat (b + s - t))) (t + 8) 0) (t + 8) nxt"
    have new: "node_set_next (node_init (taken m b s p) (of_nat t) (of_nat (b + s - t))) (of_nat t) nxt = ?m2"
      using small by (simp add: node_ops_nat)
    have tl: "4 dvd t + 4" "4 dvd t + 8" "t + 8 < 4294967296" using tb True b(3) by auto
    have ld2: "ld ?m2 (b + 4) = of_nat s OR 0x80000000"
      using ldb b tb tl p e by (simp add: ld_st)
    show ?thesis
    proof (cases pq)
      case None
      then have "prev = 0" using prev by simp
      moreover have "node_set_size ?m2 (of_nat b) (of_nat (t - b)) = split_at (taken m b s p) b s t nxt pq"
        using ld2 small None by (simp add: node_ops_nat occupied_size b(4) split_at_def)
      ultimately show ?thesis
        using True None unfolding take_node_def Let_def size rem tk obind.simps size2 ts ns new tmb by simp
    next
      case (Some q)
      then have q: "prev = of_nat q" "0 < q" "4 dvd q" "q + 12 \<le> b" using prev by auto
      have "prev \<noteq> 0" using q b(3) of_nat32_eq [of q 0] by auto
      moreover have "ld (st ?m2 (q + 8) (of_nat t)) (b + 4) = of_nat s OR 0x80000000"
        using ld2 q b p by (subst ld_st) auto
      moreover from this have "node_set_size (st ?m2 (q + 8) (of_nat t)) (of_nat b) (of_nat (t - b))
          = split_at (taken m b s p) b s t nxt pq"
        using small Some by (simp add: node_ops_nat occupied_size b(4) split_at_def)
      moreover have "node_set_next ?m2 prev (of_nat t) = st ?m2 (q + 8) (of_nat t)"
        by (simp add: q(1) node_ops_nat)
      ultimately show ?thesis
        using True Some unfolding take_node_def Let_def size rem tk obind.simps size2 ts ns new tmb by simp
    qed
  qed
qed

section \<open>The heap invariant\<close>

text \<open>A live allocation: node address, node size, pointer handed out, bytes asked for.\<close>

type_synonym live = "nat \<times> nat \<times> nat \<times> nat"

fun live_block :: "live \<Rightarrow> nat \<times> nat" where
  "live_block (a, s, p, n) = (a, s)"

fun live_ok :: "memory \<Rightarrow> live \<Rightarrow> bool" where
  "live_ok m (a, s, p, n) \<longleftrightarrow> 4 dvd a \<and> 4 dvd s \<and> 4 dvd p \<and> a + 12 \<le> p \<and> p + n \<le> a + s
     \<and> ld m a = MAGIC \<and> ld m (a + 4) = of_nat s OR 0x80000000 \<and> ld m (p - 4) = of_nat (p - a - 8)"

definition heap_ok :: "nat \<Rightarrow> nat \<Rightarrow> list_allocator \<Rightarrow> memory \<Rightarrow> (nat \<times> nat) list \<Rightarrow> live list \<Rightarrow> bool" where
  "heap_ok lo hi h m bs lv \<longleftrightarrow> bounds lo hi \<and> unat (la_start h) = lo \<and> unat (la_start h) + unat (la_size h) = hi
     \<and> chain lo hi bs \<and> seg m (unat (first_free h)) bs 0
     \<and> (\<forall>l \<in> set lv. live_ok m l \<and> block (live_block l) \<subseteq> {lo ..< hi} \<and> block (live_block l) \<inter> blocks bs = {})
     \<and> sorted_wrt (\<lambda>k l. block (live_block k) \<inter> block (live_block l) = {}) lv"

lemma live_ok_frame:
  assumes "live_ok m l" "block (live_block l) \<subseteq> {lo ..< hi}" "hi < 4294967296"
    and "\<And>x. unat x \<in> block (live_block l) \<Longrightarrow> m' x = m x"
  shows "live_ok m' l"
proof -
  obtain a s p n where l: "l = (a, s, p, n)" by (metis prod_cases4)
  have ok: "4 dvd a" "4 dvd s" "4 dvd p" "a + 12 \<le> p" "p + n \<le> a + s" using assms(1) by (auto simp: l)
  have "a + s - 1 \<in> block (live_block l)" using ok by (auto simp: l block_def)
  then have "a + s - 1 < hi" using assms(2) by auto
  then have top: "a + s < 4294967297" using assms(3) by linarith
  have "ld m' k = ld m k" if "a \<le> k" "k + 4 \<le> a + s" for k
  proof (rule ld_cong)
    fix i :: nat assume "i < 4"
    then have "unat (of_nat (k + i) :: usize) = k + i" using that top by (intro unat_of_nat32) linarith
    then show "m' (of_nat (k + i)) = m (of_nat (k + i))"
      using assms(4) [of "of_nat (k + i)"] that \<open>i < 4\<close> by (simp add: l block_def)
  qed
  from this [of a] this [of "a + 4"] this [of "p - 4"] show ?thesis
    using assms(1) ok by (auto simp: l)
qed

text \<open>Every write of an allocation lies in the block taken, but for the predecessor's \<^verbatim>\<open>next\<close>.\<close>

lemma taken_other:
  assumes "b + 12 \<le> p" "p \<le> b + s" "b + s < 4294967296" "unat x \<notin> {b ..< b + s}"
  shows "taken m b s p x = m x"
proof -
  have "unat x \<notin> {b + 4 ..< b + 4 + 4}" "unat x \<notin> {p - 4 ..< p - 4 + 4}" using assms by auto
  moreover have "b + 4 + 4 \<le> 4294967296" "p - 4 + 4 \<le> 4294967296" using assms by linarith+
  ultimately show ?thesis by (simp only: taken_def st_other not_False_eq_True)
qed

lemma split_at_other:
  assumes "b + 12 \<le> t" "t + 12 \<le> b + s" "b + s < 4294967296" "unat x \<notin> {b ..< b + s}"
    and "\<And>q. prev = Some q \<Longrightarrow> q + 12 \<le> b \<and> unat x \<notin> {q ..< q + 12}"
  shows "split_at m b s t nxt prev x = m x"
proof -
  have "unat x \<notin> {b + 4 ..< b + 4 + 4}" "unat x \<notin> {t ..< t + 4}" "unat x \<notin> {t + 4 ..< t + 4 + 4}"
    "unat x \<notin> {t + 8 ..< t + 8 + 4}" using assms by auto
  moreover have "b + 4 + 4 \<le> 4294967296" "t + 4 \<le> 4294967296" "t + 4 + 4 \<le> 4294967296" "t + 8 + 4 \<le> 4294967296"
    using assms by linarith+
  moreover have "st M (q + 8) v x = M x" if "prev = Some q" for q M v
    using assms(5) [OF that] assms(1,2,3) by (intro st_other) auto
  ultimately show ?thesis by (cases prev) (simp_all add: split_at_def st_other Let_def)
qed

lemma split_at_words:
  assumes al: "4 dvd b" "4 dvd t" "b + 12 \<le> t" "t + 12 \<le> b + s" "b + s < 4294967296"
    and q: "\<forall>q. prev = Some q \<longrightarrow> q + 12 \<le> b \<and> 4 dvd q"
  shows "ld (split_at m b s t nxt prev) t = MAGIC"
    "ld (split_at m b s t nxt prev) (t + 4) = of_nat (b + s - t)"
    "ld (split_at m b s t nxt prev) (t + 8) = nxt"
    "ld (split_at m b s t nxt prev) (b + 4) = 0x80000000 OR of_nat (t - b)"
    "prev = Some q' \<Longrightarrow> ld (split_at m b s t nxt prev) (q' + 8) = of_nat t"
    "\<lbrakk>4 dvd k; k < 4294967296; k \<noteq> t; k \<noteq> t + 4; k \<noteq> t + 8; k \<noteq> b + 4;
      \<And>q. prev = Some q \<Longrightarrow> k \<noteq> q + 8\<rbrakk> \<Longrightarrow> ld (split_at m b s t nxt prev) k = ld m k"
proof -
  have lim: "t < 4294967296" "t + 4 < 4294967296" "t + 8 < 4294967296" "b + 4 < 4294967296"
    "4 dvd t + 4" "4 dvd t + 8" "4 dvd b + 4" using al by auto
  have ql: "q + 8 < 4294967296 \<and> 4 dvd q + 8 \<and> q + 8 < b \<and> q + 8 < t" if "prev = Some q" for q
    using q that al by auto
  show "ld (split_at m b s t nxt prev) t = MAGIC"
    "ld (split_at m b s t nxt prev) (t + 4) = of_nat (b + s - t)"
    "ld (split_at m b s t nxt prev) (t + 8) = nxt"
    "ld (split_at m b s t nxt prev) (b + 4) = 0x80000000 OR of_nat (t - b)"
    using al lim ql by (cases prev; fastforce simp: split_at_def Let_def ld_st)+
  show "prev = Some q' \<Longrightarrow> ld (split_at m b s t nxt prev) (q' + 8) = of_nat t"
    using al lim ql [of q'] by (simp add: split_at_def Let_def ld_st)
  show "ld (split_at m b s t nxt prev) k = ld m k"
    if "4 dvd k" "k < 4294967296" "k \<noteq> t" "k \<noteq> t + 4" "k \<noteq> t + 8" "k \<noteq> b + 4"
      "\<And>q. prev = Some q \<Longrightarrow> k \<noteq> q + 8"
    using al lim ql that by (cases prev) (simp_all add: split_at_def Let_def ld_st)
qed

lemma taken_words:
  assumes "4 dvd b" "4 dvd p" "b + 12 \<le> p" "p \<le> b + s" "b + s < 4294967296"
  shows "ld (taken m b s p) (b + 4) = of_nat s OR 0x80000000"
    "ld (taken m b s p) (p - 4) = of_nat (p - b - 8)"
    "\<lbrakk>4 dvd k; k < 4294967296; k \<noteq> b + 4; k \<noteq> p - 4\<rbrakk> \<Longrightarrow> ld (taken m b s p) k = ld m k"
proof -
  have lim: "b + 4 < 4294967296" "p - 4 < 4294967296" "4 dvd b + 4" "4 dvd p - 4" "p - 4 \<noteq> b + 4"
    using assms by auto
  then show "ld (taken m b s p) (b + 4) = of_nat s OR 0x80000000"
    "ld (taken m b s p) (p - 4) = of_nat (p - b - 8)"
    "\<lbrakk>4 dvd k; k < 4294967296; k \<noteq> b + 4; k \<noteq> p - 4\<rbrakk> \<Longrightarrow> ld (taken m b s p) k = ld m k"
    unfolding taken_def by (auto simp only: ld_st if_False if_True simp_thms split: if_splits)
qed

lemma blocks_in_bounds:
  assumes "chain lo hi bs"
  shows "blocks bs \<subseteq> {lo ..< hi}"
proof
  fix x assume "x \<in> blocks bs"
  then obtain c v where "(c, v) \<in> set bs" "c \<le> x" "x < c + v" by (auto simp: blocks_def block_def)
  then show "x \<in> {lo ..< hi}" using chain_mem [OF assms, of c v] by auto
qed

lemma heap_ok_extend:
  assumes ok: "heap_ok lo hi h m bs lv"
    and h': "la_start h' = la_start h" "la_size h' = la_size h"
    and bs': "chain lo hi bs'" "seg m' (unat (first_free h')) bs' 0" "blocks bs' \<subseteq> blocks bs"
    and new: "live_ok m' (b, s', p, n)" "{b ..< b + s'} \<subseteq> blocks bs" "{b ..< b + s'} \<inter> blocks bs' = {}"
    and frame: "\<And>x. unat x \<notin> blocks bs \<Longrightarrow> m' x = m x"
  shows "heap_ok lo hi h' m' bs' ((b, s', p, n) # lv)"
proof -
  note o = ok [unfolded heap_ok_def]
  have hi: "hi < 4294967296" using o by (simp add: bounds_def)
  have "live_ok m' l" if "l \<in> set lv" for l
  proof (rule live_ok_frame)
    show "live_ok m l" "block (live_block l) \<subseteq> {lo ..< hi}" using o that by auto
    show "m' x = m x" if "unat x \<in> block (live_block l)" for x
      using frame o that \<open>l \<in> set lv\<close> by blast
  qed (rule hi)
  moreover have "block (b, s') \<subseteq> {lo ..< hi}"
    using new(2) blocks_in_bounds o by (fastforce simp: block_def)
  moreover have "block (b, s') \<inter> block (live_block l) = {}" if "l \<in> set lv" for l
    using new(2) o that by (fastforce simp: block_def)
  moreover have "block (b, s') \<inter> blocks bs' = {}" using new(3) by (simp add: block_def)
  moreover have "block (live_block l) \<inter> blocks bs' = {}" if "l \<in> set lv" for l
    using o that bs'(3) by blast
  ultimately show ?thesis
    using o h' bs'(1,2) new(1) unfolding heap_ok_def by auto
qed

lemma chain_before:
  assumes "chain lo hi (pre @ (b, s) # post)" "(q, u) \<in> set pre"
  shows "q + u \<le> b"
proof -
  obtain mid where "chain lo mid pre" "mid \<le> b" using assms(1) by (auto simp: chain_append)
  then show ?thesis using chain_mem [of lo mid pre q u] assms(2) by auto
qed

lemma chain_after:
  assumes "chain lo hi (pre @ (b, s) # post)" "(q, u) \<in> set post"
  shows "b + s \<le> q"
proof -
  obtain mid where "chain mid hi ((b, s) # post)" using assms(1) by (auto simp: chain_append)
  then show ?thesis using assms(2) by (rule chain_block_disjoint)
qed

lemma blocks_split: "blocks (pre @ (b, s) # post) = blocks pre \<union> {b ..< b + s} \<union> blocks post"
  by (auto simp: blocks_def block_def)

text \<open>Re-pointing the last node of a prefix.\<close>

lemma seg_redirect:
  assumes "chain lo hi bs" "seg m a bs z" "bs \<noteq> []"
    and "ld F (fst (last bs) + 8) = of_nat t" "t < 4294967296"
    and "\<And>k. 4 dvd k \<Longrightarrow> k \<in> blocks bs \<Longrightarrow> k \<noteq> fst (last bs) + 8 \<Longrightarrow> ld F k = ld m k"
  shows "seg F a bs t"
proof -
  obtain pre q u where pre: "bs = pre @ [(q, u)]" using assms(3) by (metis prod.collapse rev_exhaust)
  obtain y where y: "seg m a pre y" "seg m y [(q, u)] z" using assms(2) by (auto simp: pre seg_append)
  have hd: "ld F (c + j) = ld m (c + j)" if "(c, v) \<in> set bs" "j = 0 \<or> j = 4 \<or> j = 8" "c + j \<noteq> q + 8" for c v j
  proof (rule assms(6))
    have cv: "4 dvd c" "12 \<le> v" using chain_mem [OF assms(1) that(1)] by auto
    show "4 dvd c + j" using cv that(2) by auto
    show "c + j \<in> blocks bs" using cv that(1,2) by (force simp: blocks_def block_def)
    show "c + j \<noteq> fst (last bs) + 8" using that(3) by (simp add: pre)
  qed
  have "seg F a pre y = seg m a pre y"
  proof (rule seg_cong)
    fix c v assume c: "(c, v) \<in> set pre"
    have "c + v \<le> q" using chain_before [of lo hi pre q u "[]"] assms(1) c by (simp add: pre)
    moreover have "12 \<le> v" using chain_mem [OF assms(1), of c v] c by (simp add: pre)
    ultimately show "ld F c = ld m c \<and> ld F (c + 4) = ld m (c + 4) \<and> ld F (c + 8) = ld m (c + 8)"
      using hd [of c v 0] hd [of c v 4] hd [of c v 8] c by (simp add: pre)
  qed
  moreover have "ld F q = ld m q" "ld F (q + 4) = ld m (q + 4)"
    using hd [of q u 0] hd [of q u 4] by (simp_all add: pre)
  moreover have "ld F (q + 8) = of_nat t" using assms(4) by (simp add: pre)
  ultimately show ?thesis using y assms(5) by (auto simp: pre seg_append unat_of_nat32)
qed

definition prev_of :: "(nat \<times> nat) list \<Rightarrow> nat option" where
  "prev_of pre = (if pre = [] then None else Some (fst (last pre)))"

text \<open>The situation when \<^verbatim>\<open>alloc\<close> splits the block \<open>(b, s)\<close> at \<open>t\<close>, leaving memory \<open>F\<close>.\<close>

definition split_case :: "nat \<Rightarrow> nat \<Rightarrow> memory \<Rightarrow> (nat \<times> nat) list \<Rightarrow> nat \<Rightarrow> nat \<Rightarrow> (nat \<times> nat) list
    \<Rightarrow> nat \<Rightarrow> nat \<Rightarrow> nat \<Rightarrow> memory \<Rightarrow> bool" where
  "split_case lo hi m pre b s post p n t F \<longleftrightarrow> bounds lo hi \<and> chain lo hi (pre @ (b, s) # post)
     \<and> 4 dvd p \<and> b + 12 \<le> p \<and> p + n + 16 < b + s \<and> t = (p + n + 3) div 4 * 4
     \<and> F = split_at (taken m b s p) b s t (ld m (b + 8)) (prev_of pre)"

lemma split_case_bounds:
  assumes "split_case lo hi m pre b s post p n t F"
  shows "hi < 4294967296" "0 < b" "b + s < 4294967296" "s < 2147483648" "4 dvd b" "4 dvd s" "12 \<le> s"
    "p + n \<le> t" "t \<le> p + n + 3" "4 dvd t" "b + 12 \<le> t" "t + 12 \<le> b + s" "t < 4294967296"
    "4 dvd p" "b + 12 \<le> p" "p \<le> b + s"
    "chain lo hi (pre @ (b, s) # post)"
proof -
  note c = assms [unfolded split_case_def]
  show ch: "chain lo hi (pre @ (b, s) # post)" and p: "4 dvd p" "b + 12 \<le> p" using c by auto
  show sb: "0 < b" "b + s < 4294967296" "s < 2147483648" "4 dvd b" "4 dvd s" "12 \<le> s"
    using small_sizes [OF _ ch, of b s] c by auto
  show tb: "p + n \<le> t" "t \<le> p + n + 3" "4 dvd t" using round_up_4 [of "p + n"] c by simp_all
  have p3: "p + n + 16 < b + s" using c by simp
  then show "b + 12 \<le> t" "t + 12 \<le> b + s" "t < 4294967296" "p \<le> b + s" using tb p sb by linarith+
  show "hi < 4294967296" using c by (simp add: bounds_def)
qed

lemma split_case_prev:
  assumes "split_case lo hi m pre b s post p n t F"
  shows "\<forall>q. prev_of pre = Some q \<longrightarrow> q + 12 \<le> b \<and> 4 dvd q"
    and "prev_of pre = Some q \<Longrightarrow> {q ..< q + 12} \<subseteq> blocks pre"
proof -
  note ch = split_case_bounds(17) [OF assms]
  have mem: "(q, snd (last pre)) \<in> set pre" if "prev_of pre = Some q" for q
    using that by (auto simp: prev_of_def split: if_splits)
  have *: "q + 12 \<le> b \<and> 4 dvd q \<and> {q ..< q + 12} \<subseteq> blocks pre" if "prev_of pre = Some q" for q
  proof -
    have "12 \<le> snd (last pre)" "4 dvd q" using chain_mem [OF ch, of q "snd (last pre)"] mem [OF that] by auto
    moreover have "{q ..< q + snd (last pre)} \<subseteq> blocks pre"
      using mem [OF that] by (auto simp: blocks_def block_def)
    ultimately show ?thesis using chain_before [OF ch mem [OF that]] by auto
  qed
  show "\<forall>q. prev_of pre = Some q \<longrightarrow> q + 12 \<le> b \<and> 4 dvd q" using * by blast
  show "prev_of pre = Some q \<Longrightarrow> {q ..< q + 12} \<subseteq> blocks pre" using * by blast
qed

lemma split_case_words:
  assumes "split_case lo hi m pre b s post p n t F"
  shows "ld F t = MAGIC" "ld F (t + 4) = of_nat (b + s - t)" "ld F (t + 8) = ld m (b + 8)"
    "ld F (b + 4) = of_nat (t - b) OR 0x80000000" "ld F (p - 4) = of_nat (p - b - 8)"
    "prev_of pre = Some q \<Longrightarrow> ld F (q + 8) = of_nat t"
    "\<lbrakk>4 dvd k; k < 4294967296; k \<notin> {b + 4 ..< b + s}; \<And>q. prev_of pre = Some q \<Longrightarrow> k \<noteq> q + 8\<rbrakk>
     \<Longrightarrow> ld F k = ld m k"
proof -
  note sb = split_case_bounds [OF assms]
  note pv = split_case_prev(1) [OF assms]
  have F: "F = split_at (taken m b s p) b s t (ld m (b + 8)) (prev_of pre)" using assms by (simp add: split_case_def)
  note sw = split_at_words [OF sb(5,10,11,12,3) pv, where m = "taken m b s p" and nxt = "ld m (b + 8)", folded F]
  note tw = taken_words [OF sb(5,14,15,16,3), where m = m]
  show "ld F t = MAGIC" "ld F (t + 4) = of_nat (b + s - t)" "ld F (t + 8) = ld m (b + 8)"
    "prev_of pre = Some q \<Longrightarrow> ld F (q + 8) = of_nat t" using sw(1-3,5) by auto
  show "ld F (b + 4) = of_nat (t - b) OR 0x80000000" using sw(4) by (simp add: or.commute)
  have "p - 4 \<noteq> q + 8" if "prev_of pre = Some q" for q using pv that sb(15) by auto
  then have "ld F (p - 4) = ld (taken m b s p) (p - 4)" using sb by (intro sw(6)) auto
  then show "ld F (p - 4) = of_nat (p - b - 8)" using tw(2) by simp
  show "ld F k = ld m k" if "4 dvd k" "k < 4294967296" "k \<notin> {b + 4 ..< b + s}"
    "\<And>q. prev_of pre = Some q \<Longrightarrow> k \<noteq> q + 8"
  proof -
    have "k \<noteq> t" "k \<noteq> t + 4" "k \<noteq> t + 8" "k \<noteq> b + 4" "k \<noteq> p - 4" using that(3) sb by auto
    then show ?thesis using sw(6) [where k = k] tw(3) [where k = k] that by simp
  qed
qed

lemma split_case_frame:
  assumes "split_case lo hi m pre b s post p n t F" "unat x \<notin> blocks (pre @ (b, s) # post)"
  shows "F x = m x"
proof -
  note sb = split_case_bounds [OF assms(1)]
  have x: "unat x \<notin> {b ..< b + s}" "unat x \<notin> blocks pre" using assms(2) by (auto simp: blocks_split)
  have "split_at (taken m b s p) b s t (ld m (b + 8)) (prev_of pre) x = taken m b s p x"
  proof (rule split_at_other [OF sb(11,12,3) x(1)])
    fix q assume "prev_of pre = Some q"
    then show "q + 12 \<le> b \<and> unat x \<notin> {q ..< q + 12}"
      using split_case_prev [OF assms(1)] x(2) by blast
  qed
  then show ?thesis using taken_other [OF sb(15,16,3) x(1)] assms(1) by (simp add: split_case_def)
qed

lemma split_case_post:
  assumes "split_case lo hi m pre b s post p n t F" "seg m a post 0"
  shows "seg F a post 0"
proof -
  note sb = split_case_bounds [OF assms(1)]
  have "seg F a post 0 = seg m a post 0"
  proof (rule seg_cong)
    fix c v assume c: "(c, v) \<in> set post"
    have cb: "b + s \<le> c" by (rule chain_after [OF sb(17) c])
    have cv: "4 dvd c" "12 \<le> v" "c + v \<le> hi" using chain_mem [OF sb(17), of c v] c by auto
    have "ld F (c + j) = ld m (c + j)" if "j = 0 \<or> j = 4 \<or> j = 8" for j
    proof (rule split_case_words(7) [OF assms(1)])
      show "4 dvd c + j" "c + j < 4294967296" "c + j \<notin> {b + 4 ..< b + s}" using that cb cv sb(1) by auto
      show "c + j \<noteq> q + 8" if "prev_of pre = Some q" for q
        using split_case_prev(1) [OF assms(1)] that cb by fastforce
    qed
    from this [of 0] this [of 4] this [of 8]
    show "ld F c = ld m c \<and> ld F (c + 4) = ld m (c + 4) \<and> ld F (c + 8) = ld m (c + 8)" by simp
  qed
  then show ?thesis using assms(2) by simp
qed

lemma split_case_pre:
  assumes "split_case lo hi m pre b s post p n t F" "seg m a pre b" "pre \<noteq> []"
  shows "seg F a pre t"
proof -
  note sb = split_case_bounds [OF assms(1)]
  obtain mid where mid: "chain lo mid pre" using sb(17) by (auto simp: chain_append)
  show ?thesis
  proof (rule seg_redirect [OF mid assms(2,3)])
    have pq: "prev_of pre = Some (fst (last pre))" using assms(3) by (simp add: prev_of_def)
    show "t < 4294967296" by (rule sb(13))
    show "ld F (fst (last pre) + 8) = of_nat t" by (rule split_case_words(6) [OF assms(1) pq])
    fix k assume k: "4 dvd k" "k \<in> blocks pre" "k \<noteq> fst (last pre) + 8"
    then obtain c v where c: "(c, v) \<in> set pre" "k < c + v" by (auto simp: blocks_def block_def)
    have "c + v \<le> b" by (rule chain_before [OF sb(17) c(1)])
    then show "ld F k = ld m k" using k c pq sb(3) by (intro split_case_words(7) [OF assms(1)]) auto
  qed
qed

lemma split_case_live:
  assumes "split_case lo hi m pre b s post p n t F" "ld m b = MAGIC"
  shows "live_ok F (b, t - b, p, n)"
proof -
  note sb = split_case_bounds [OF assms(1)]
  have "ld F b = ld m b"
  proof (rule split_case_words(7) [OF assms(1)])
    show "b \<noteq> q + 8" if "prev_of pre = Some q" for q
      using split_case_prev(1) [OF assms(1)] that by fastforce
  qed (use sb in auto)
  then show ?thesis using sb assms(2) split_case_words(4,5) [OF assms(1)] by auto
qed

lemma alloc_split:
  assumes ok: "heap_ok lo hi h m bs lv" and bs: "bs = pre @ (b, s) # post"
    and p: "4 dvd p" "b + 12 \<le> p" "p + n + 16 < b + s" and t: "t = (p + n + 3) div 4 * 4"
    and F: "F = split_at (taken m b s p) b s t (ld m (b + 8)) (prev_of pre)"
    and h': "h' = (if prev_of pre = None then h\<lparr>first_free := of_nat t\<rparr> else h)"
  shows "heap_ok lo hi h' F (pre @ (t, b + s - t) # post) ((b, t - b, p, n) # lv)"
    and "\<And>x. unat x \<notin> blocks bs \<Longrightarrow> F x = m x"
proof -
  note o = ok [unfolded heap_ok_def]
  have sc: "split_case lo hi m pre b s post p n t F" using o bs p t F by (simp add: split_case_def)
  note sb = split_case_bounds [OF sc]
  show frame: "F x = m x" if "unat x \<notin> blocks bs" for x using split_case_frame [OF sc] that bs by simp
  have y: "seg m (unat (first_free h)) pre b" "ld m b = MAGIC" "seg m (unat (ld m (b + 8))) post 0"
    using o bs by (auto simp: seg_append)
  obtain mid where mid: "chain lo mid pre" "chain mid hi ((b, s) # post)"
    using sb(17) by (auto simp: chain_append)
  then have "chain mid hi ((t, b + s - t) # post)" using sb by auto
  then have chain': "chain lo hi (pre @ (t, b + s - t) # post)" using mid(1) by (auto simp: chain_append)
  have "seg F t ((t, b + s - t) # post) 0"
    using split_case_words(1-3) [OF sc] split_case_post [OF sc y(3)] by simp
  moreover have "seg F (unat (first_free h')) pre t"
    using split_case_pre [OF sc y(1)] sb(13) by (cases "pre = []") (simp_all add: h' prev_of_def unat_of_nat32)
  ultimately have seg': "seg F (unat (first_free h')) (pre @ (t, b + s - t) # post) 0"
    by (auto simp: seg_append)
  show "heap_ok lo hi h' F (pre @ (t, b + s - t) # post) ((b, t - b, p, n) # lv)"
  proof (rule heap_ok_extend [OF ok _ _ chain' seg' _ split_case_live [OF sc y(2)] _ _ frame])
    show "la_start h' = la_start h" "la_size h' = la_size h" by (auto simp: h')
    show "blocks (pre @ (t, b + s - t) # post) \<subseteq> blocks bs" "{b ..< b + (t - b)} \<subseteq> blocks bs"
      using sb by (auto simp: bs blocks_split)
    have "{b ..< b + s} \<inter> blocks pre = {}" using chain_before [OF sb(17)] by (fastforce simp: blocks_def block_def)
    moreover have "{b ..< b + s} \<inter> blocks post = {}" using chain_after [OF sb(17)] by (fastforce simp: blocks_def block_def)
    ultimately show "{b ..< b + (t - b)} \<inter> blocks (pre @ (t, b + s - t) # post) = {}"
      using sb unfolding blocks_split by fastforce
  qed
qed

lemma alloc_whole:
  assumes ok: "heap_ok lo hi h m bs lv" and bs: "bs = pre @ (b, s) # post"
    and p: "4 dvd p" "b + 12 \<le> p" "p + n \<le> b + s"
  shows "heap_ok lo hi (h\<lparr>first_free := ld m (b + 8)\<rparr>) (taken m b s p) post ((b, s, p, n) # lv)"
    and "\<And>x. unat x \<notin> blocks bs \<Longrightarrow> taken m b s p x = m x"
proof -
  note o = ok [unfolded heap_ok_def]
  have ch: "chain lo hi (pre @ (b, s) # post)" using o bs by simp
  have sb: "0 < b" "b + s < 4294967296" "s < 2147483648" "4 dvd b" "4 dvd s" "12 \<le> s"
    using small_sizes [OF _ ch, of b s] o by auto
  have ple: "p \<le> b + s" using p(3) by linarith
  note tw = taken_words [OF sb(4) p(1,2) ple sb(2), where m = m]
  show frame: "taken m b s p x = m x" if "unat x \<notin> blocks bs" for x
    using that taken_other [OF p(2) ple sb(2)] by (simp add: bs blocks_split)
  obtain y where "seg m y ((b, s) # post) 0" using o bs by (auto simp: seg_append)
  then have y2: "ld m b = MAGIC" "seg m (unat (ld m (b + 8))) post 0" by auto
  have "seg (taken m b s p) (unat (ld m (b + 8))) post 0 = seg m (unat (ld m (b + 8))) post 0"
  proof (rule seg_cong)
    fix c v assume c: "(c, v) \<in> set post"
    have cb: "b + s \<le> c" by (rule chain_after [OF ch c])
    have cv: "4 dvd c" "12 \<le> v" "c + v \<le> hi" using chain_mem [OF ch, of c v] c by auto
    have hi: "hi < 4294967296" using o by (simp add: bounds_def)
    have "ld (taken m b s p) (c + j) = ld m (c + j)" if "j = 0 \<or> j = 4 \<or> j = 8" for j
      using that cb cv hi p sb(6) by (intro tw(3)) auto
    from this [of 0] this [of 4] this [of 8]
    show "ld (taken m b s p) c = ld m c \<and> ld (taken m b s p) (c + 4) = ld m (c + 4)
        \<and> ld (taken m b s p) (c + 8) = ld m (c + 8)" by simp
  qed
  then have seg': "seg (taken m b s p) (unat (first_free (h\<lparr>first_free := ld m (b + 8)\<rparr>))) post 0"
    using y2(2) by simp
  have "ld (taken m b s p) b = MAGIC" using tw(3) [of b] y2(1) sb p by auto
  then have live': "live_ok (taken m b s p) (b, s, p, n)" using tw(1,2) p sb by simp
  have post: "chain lo hi post"
  proof -
    obtain mid where "chain lo mid pre" "chain mid hi ((b, s) # post)" using ch by (auto simp: chain_append)
    then have "lo \<le> b + s" "chain (b + s) hi post" using chain_le [of lo mid pre] by auto
    then show ?thesis using chain_mono by blast
  qed
  show "heap_ok lo hi (h\<lparr>first_free := ld m (b + 8)\<rparr>) (taken m b s p) post ((b, s, p, n) # lv)"
  proof (rule heap_ok_extend [OF ok _ _ post seg' _ live' _ _ frame])
    show "blocks post \<subseteq> blocks bs" "{b ..< b + s} \<subseteq> blocks bs" by (auto simp: bs blocks_split)
    show "{b ..< b + s} \<inter> blocks post = {}" using chain_after [OF ch] by (fastforce simp: blocks_def block_def)
  qed simp_all
qed

text \<open>
  The outcome of \<^verbatim>\<open>alloc\<close>: the block it takes, what remains free, the new live allocation.  When
  the block is not split every free block before it is dropped from the list.
\<close>

definition alloc_result :: "nat \<Rightarrow> nat \<Rightarrow> (nat \<times> nat) list \<Rightarrow> ((nat \<times> nat) list \<times> live) option" where
  "alloc_result k n bs =
     (case find_fit k n bs of
        None \<Rightarrow> None
      | Some (pre, (b, s), post) \<Rightarrow>
          let p = astart k b; t = (p + n + 3) div 4 * 4
          in if p + n + 16 < b + s then Some (pre @ (t, b + s - t) # post, (b, t - b, p, n))
             else Some (post, (b, s, p, n)))"

lemma heap_alloc_spec:
  assumes ok: "heap_ok lo hi h m bs lv"
    and lay: "layout_align lay = 2 ^ k" "hi + 16 + 2 ^ k + unat (layout_size lay) < 4294967296"
    and n: "n = unat (layout_size lay)"
  shows "case alloc_result k n bs of
      None \<Rightarrow> heap_alloc h m lay = Done (0, h, m)
    | Some (bs', (b, s, p, n')) \<Rightarrow> \<exists>h' m'. heap_alloc h m lay = Done (of_nat p, h', m')
        \<and> heap_ok lo hi h' m' bs' ((b, s, p, n') # lv) \<and> (\<forall>x. unat x \<notin> blocks bs \<longrightarrow> m' x = m x)"
proof -
  note o = ok [unfolded heap_ok_def]
  have ff: "of_nat (unat (first_free h)) = first_free h" by simp
  have run: "alloc_from h m lay 0 (first_free h) = Some (case find_fit k n bs of
       None \<Rightarrow> Done (0, h, m)
     | Some (pre, (b, s), post) \<Rightarrow>
         take_node h m (if pre = [] then 0 else of_nat (fst (last pre))) (of_nat b) (ld m (b + 8))
           (of_nat (astart k b)) (of_nat (astart k b + n)))"
    using alloc_from_spec [OF _ _ _ lay, of lo bs m "unat (first_free h)" h 0] o unfolding ff n by blast
  show ?thesis
  proof (cases "find_fit k n bs")
    case None
    then show ?thesis using run by (simp add: alloc_result_def heap_alloc_def of_loop_def)
  next
    case (Some r)
    obtain pre b s post where r: "r = (pre, (b, s), post)" by (metis prod.exhaust)
    have fit: "bs = pre @ (b, s) # post" "astart k b + n \<le> b + s"
      using find_fit_Some [of k n bs pre b s post] Some r by auto
    have ch: "chain lo hi (pre @ (b, s) # post)" using o fit by simp
    have sb: "0 < b" "b + s < 4294967296" "s < 2147483648" "4 dvd b" "4 dvd s" "12 \<le> s"
      using small_sizes [OF _ ch, of b s] o by auto
    let ?p = "astart k b"
    let ?t = "(?p + n + 3) div 4 * 4"
    note ps = astart_bounds(4) [OF sb(4), of k] astart_bounds(1) [of b k]
    have lb: "ld m (b + 4) = of_nat s"
      using o fit by (auto simp: seg_append)
    have pq: "prev_of pre = None \<and> (if pre = [] then 0 else of_nat (fst (last pre))) = (0 :: usize) \<or>
      (\<exists>q. prev_of pre = Some q \<and> (if pre = [] then 0 else of_nat (fst (last pre))) = (of_nat q :: usize)
         \<and> 0 < q \<and> 4 dvd q \<and> q + 12 \<le> b)"
    proof (cases "pre = []")
      case False
      then have mem: "(fst (last pre), snd (last pre)) \<in> set pre" by simp
      have "lo \<le> fst (last pre) \<and> 4 dvd fst (last pre) \<and> 12 \<le> snd (last pre)"
        using chain_mem [OF ch, of "fst (last pre)" "snd (last pre)"] mem by auto
      then show ?thesis using False chain_before [OF ch mem] o by (simp add: prev_of_def bounds_def)
    qed (simp add: prev_of_def)
    note tk = take_node_spec [OF sb(4,1,2,3) lb ps fit(2) refl pq refl, where h = h and nxt = "ld m (b + 8)"]
    have hrun: "heap_alloc h m lay = (if ?p + n + 16 < b + s
       then Done (of_nat ?p, if prev_of pre = None then h\<lparr>first_free := of_nat ?t\<rparr> else h,
                split_at (taken m b s ?p) b s ?t (ld m (b + 8)) (prev_of pre))
       else Done (of_nat ?p, h\<lparr>first_free := ld m (b + 8)\<rparr>, taken m b s ?p))"
      using run Some r tk by (simp add: heap_alloc_def of_loop_def)
    show ?thesis
    proof (cases "?p + n + 16 < b + s")
      case True
      then show ?thesis
        using Some r hrun alloc_split [OF ok fit(1) ps True refl refl refl]
        by (simp add: alloc_result_def Let_def)
    next
      case False
      then show ?thesis
        using Some r hrun alloc_whole [OF ok fit(1) ps fit(2)]
        by (simp add: alloc_result_def Let_def)
    qed
  qed
qed

section \<open>Deallocation\<close>

fun ins :: "nat \<times> nat \<Rightarrow> (nat \<times> nat) list \<Rightarrow> (nat \<times> nat) list" where
  "ins x [] = [x]"
| "ins x (y # ys) = (if fst x < fst y then x # y # ys else y # ins x ys)"

text \<open>With an empty free list the freed block is not linked anywhere.\<close>

definition dealloc_result :: "nat \<times> nat \<Rightarrow> (nat \<times> nat) list \<Rightarrow> (nat \<times> nat) list" where
  "dealloc_result x bs = (if bs = [] then [] else join (ins x bs))"

lemma blocks_ins: "blocks (ins x bs) = block x \<union> blocks bs"
  by (induction bs) (auto simp: blocks_def)

lemma blocks_Cons: "blocks ((c, v) # bs) = {c ..< c + v} \<union> blocks bs"
  by (simp add: blocks_def block_def)

lemma intervals_apart:
  assumes "{a ..< a + s} \<inter> {c ..< c + v} = {}" "0 < s" "0 < (v :: nat)"
  shows "a + s \<le> c \<or> c + v \<le> a"
proof (rule ccontr)
  assume "\<not> ?thesis"
  then have "max a c \<in> {a ..< a + s} \<inter> {c ..< c + v}" using assms(2,3) by auto
  then show False using assms(1) by blast
qed

lemma chain_ins:
  assumes "chain lo hi bs" "4 dvd a" "4 dvd s" "12 \<le> s" "lo \<le> a" "a + s \<le> hi"
    and "{a ..< a + s} \<inter> blocks bs = {}"
  shows "chain lo hi (ins (a, s) bs)"
  using assms
proof (induction bs arbitrary: lo)
  case (Cons y ys)
  obtain c v where y: "y = (c, v)" by fastforce
  have "{a ..< a + s} \<inter> ({c ..< c + v} \<union> blocks ys) = {}" "12 \<le> v"
    using Cons.prems(1,7) by (simp_all add: y blocks_Cons)
  then have c: "12 \<le> v" "{a ..< a + s} \<inter> {c ..< c + v} = {}" "{a ..< a + s} \<inter> blocks ys = {}"
    by blast+
  then have "a + s \<le> c \<or> c + v \<le> a" using Cons.prems(4) by (intro intervals_apart) auto
  then show ?case
    using Cons c y by (cases "a < c") auto
qed auto

lemma insert_step:
  assumes "bounds lo hi" "chain lo hi ((c, v) # bs)" "seg m c ((c, v) # bs) 0"
    and a: "c < a" "4 dvd a" "4 dvd s" "12 \<le> s" "a + s \<le> hi" "{a ..< a + s} \<inter> blocks ((c, v) # bs) = {}"
      "ld m a = MAGIC" "ld m (a + 4) = of_nat s"
    and nx: "bs = [] \<or> a < fst (hd bs)"
  shows "\<exists>m'. insert_from m (of_nat a) (of_nat c) = Some m' \<and> seg m' c ((c, v) # (a, s) # bs) 0
    \<and> (\<forall>x. unat x \<notin> {a ..< a + s} \<union> blocks ((c, v) # bs) \<longrightarrow> m' x = m x)"
proof -
  have hi: "hi < 4294967296" "0 < lo" using assms(1) by (simp_all add: bounds_def)
  have cv: "0 < c" "c + v < 4294967296" "4 dvd c" "4 dvd v" "12 \<le> v"
    using small_sizes [OF assms(1,2), of c v] by auto
  have sg: "ld m c = MAGIC" "ld m (c + 4) = of_nat v" "seg m (unat (ld m (c + 8))) bs 0" using assms(3) by auto
  have "{a ..< a + s} \<inter> {c ..< c + v} = {}" using a(6) unfolding blocks_Cons by blast
  then have ca: "c + v \<le> a" using intervals_apart [of a s c v] a(1,4) cv(5) by auto
  let ?nx = "ld m (c + 8)"
  let ?m = "st (st m (c + 8) (of_nat a)) (a + 8) ?nx"
  have d: "bs = [] \<and> unat ?nx = 0 \<or> (\<exists>w bs'. bs = (unat ?nx, w) # bs' \<and> a < unat ?nx)"
    using sg(3) nx by (cases bs) auto
  have ac: "(of_nat c :: usize) < of_nat a" "(of_nat c :: usize) \<noteq> 0" 
    using a(1,5) hi cv of_nat32_eq [of c 0] by (auto simp: word_less_nat_alt unat_of_nat32)
  have cmp: "of_nat a < ?nx \<or> ?nx = 0"
    using d a(5) hi by (auto simp: word_less_nat_alt unat_of_nat32 word_unat_eq_iff)
  have run: "insert_from m (of_nat a) (of_nat c) = Some ?m"
    using ac cmp by (subst insert_from.simps) (auto simp: Let_def node_ops_nat)
  have lims: "4 dvd c + 8" "c + 8 < 4294967296" "4 dvd a + 8" "a + 8 < 4294967296" using cv a hi by auto
  have keep: "ld ?m k = ld m k" if "4 dvd k" "k < 4294967296" "k \<noteq> c + 8" "k \<noteq> a + 8" for k
    using that lims by (simp add: ld_st)
  have w: "ld ?m c = MAGIC" "ld ?m (c + 4) = of_nat v" "ld ?m a = MAGIC" "ld ?m (a + 4) = of_nat s"
    using keep [of c] keep [of "c + 4"] keep [of a] keep [of "a + 4"] sg a(2,4,5,7,8) cv ca hi by auto
  have w8: "ld ?m (c + 8) = of_nat a" "ld ?m (a + 8) = ?nx" using lims a(1) by (simp_all add: ld_st)
  have "seg ?m (unat ?nx) bs 0 = seg m (unat ?nx) bs 0"
  proof (rule seg_cong)
    fix e u assume e: "(e, u) \<in> set bs"
    have mem: "c + v \<le> e" "4 dvd e" "12 \<le> u" "e + u \<le> hi"
      using chain_block_disjoint [OF assms(2) e] chain_mem [OF assms(2), of e u] e by auto
    have "{e ..< e + u} \<subseteq> blocks ((c, v) # bs)" using e by (auto simp: blocks_def block_def)
    then have "{a ..< a + s} \<inter> {e ..< e + u} = {}" using a(6) by blast
    then have "a + 8 < e \<or> e + u \<le> a" using intervals_apart [of a s e u] a(4) mem(3) by auto
    then show "ld ?m e = ld m e \<and> ld ?m (e + 4) = ld m (e + 4) \<and> ld ?m (e + 8) = ld m (e + 8)"
      using mem cv(5) hi by (intro conjI keep) auto
  qed
  then have "seg ?m c ((c, v) # (a, s) # bs) 0"
    using w w8 sg(3) a(5) hi by (simp add: unat_of_nat32)
  moreover have "?m x = m x" if "unat x \<notin> {a ..< a + s} \<union> blocks ((c, v) # bs)" for x
  proof -
    have "unat x \<notin> {c + 8 ..< c + 8 + 4}" "unat x \<notin> {a + 8 ..< a + 8 + 4}"
      using that cv(5) a(4) by (auto simp: blocks_def block_def)
    moreover have "c + 8 + 4 \<le> 4294967296" "a + 8 + 4 \<le> 4294967296" using cv a(4,5) hi by linarith+
    ultimately show ?thesis by (simp only: st_other not_False_eq_True)
  qed
  ultimately show ?thesis using run by blast
qed

lemma insert_from_spec:
  assumes "bounds lo hi" "chain lo hi ((c, v) # bs)" "seg m c ((c, v) # bs) 0"
    and a: "c < a" "4 dvd a" "4 dvd s" "12 \<le> s" "a + s \<le> hi" "{a ..< a + s} \<inter> blocks ((c, v) # bs) = {}"
      "ld m a = MAGIC" "ld m (a + 4) = of_nat s"
  shows "\<exists>m'. insert_from m (of_nat a) (of_nat c) = Some m' \<and> seg m' c (ins (a, s) ((c, v) # bs)) 0
    \<and> (\<forall>x. unat x \<notin> {a ..< a + s} \<union> blocks ((c, v) # bs) \<longrightarrow> m' x = m x)"
  using assms
proof (induction bs arbitrary: lo c v)
  case Nil
  then show ?case using insert_step [of lo hi c v "[]" m a s] by simp
next
  case (Cons y bs)
  obtain d w where y: "y = (d, w)" by fastforce
  show ?case
  proof (cases "a < d")
    case True
    then show ?thesis using insert_step [OF Cons.prems] Cons.prems(4) by (simp add: y)
  next
    case False
    have hi: "hi < 4294967296" using Cons.prems(1) by (simp add: bounds_def)
    have cv: "0 < c" "c + v < 4294967296" "4 dvd c" "4 dvd v" "12 \<le> v"
      using small_sizes [OF Cons.prems(1,2), of c v] by auto
    have dw: "0 < d" "d + w < 4294967296" "4 dvd d" "12 \<le> w" "c + v \<le> d"
      using small_sizes [OF Cons.prems(1,2), of d w] Cons.prems(2) by (auto simp: y)
    have ch: "chain (c + v) hi ((d, w) # bs)" using Cons.prems(2) by (simp add: y)
    have disj: "{a ..< a + s} \<inter> {c ..< c + v} = {}" "{a ..< a + s} \<inter> blocks ((d, w) # bs) = {}"
      using Cons.prems(9) unfolding blocks_Cons y by blast+
    have "{a ..< a + s} \<inter> {d ..< d + w} = {}" using disj(2) unfolding blocks_Cons by blast
    then have da: "d < a" "c + v \<le> a" using intervals_apart [of a s d w] intervals_apart [OF disj(1)] False Cons.prems(4,7) dw(4) cv(5)
      by auto
    have sg: "ld m c = MAGIC" "ld m (c + 4) = of_nat v" "unat (ld m (c + 8)) = d" "seg m d ((d, w) # bs) 0"
      using Cons.prems(3) by (auto simp: y)
    have nx: "ld m (c + 8) = of_nat d" unfolding sg(3) [symmetric] by simp
    have "\<not> (of_nat a < (of_nat d :: usize) \<or> (of_nat d :: usize) = 0)" "(of_nat c :: usize) \<noteq> 0"
      using False dw(1,2) cv(1,2) Cons.prems(8) hi of_nat32_eq [of d 0] of_nat32_eq [of c 0]
      by (auto simp: word_less_nat_alt unat_of_nat32)
    then have step: "insert_from m (of_nat a) (of_nat c) = insert_from m (of_nat a) (of_nat d)"
      by (subst insert_from.simps) (auto simp: Let_def node_ops_nat nx)
    have "bounds (c + v) hi" using Cons.prems(1,2) by (auto simp: bounds_def)
    from Cons.IH [OF this ch sg(4) da(1) Cons.prems(5-8) disj(2) Cons.prems(10,11)]
    obtain m' where m': "insert_from m (of_nat a) (of_nat d) = Some m'" "seg m' d (ins (a, s) ((d, w) # bs)) 0"
      "\<And>x. unat x \<notin> {a ..< a + s} \<union> blocks ((d, w) # bs) \<Longrightarrow> m' x = m x" by blast
    have ch2: "chain (c + v) hi (ins (a, s) ((d, w) # bs))"
      using chain_ins [OF ch Cons.prems(5-7) da(2) Cons.prems(8) disj(2)] .
    have bl: "blocks (ins (a, s) ((d, w) # bs)) = {a ..< a + s} \<union> blocks ((d, w) # bs)"
      by (simp only: blocks_ins block_def fst_conv snd_conv)
    have "ld m' (c + j) = ld m (c + j)" if "j = 0 \<or> j = 4 \<or> j = 8" for j
    proof (rule ld_frame [OF ch2])
      show "m' x = m x" if "unat x \<notin> blocks (ins (a, s) ((d, w) # bs))" for x using m'(3) that bl by simp
      show "c + j \<notin> blocks (ins (a, s) ((d, w) # bs))"
        using blocks_in_bounds [OF ch2] that cv(5) by auto
    qed (use that cv in auto)
    from this [of 0] this [of 4] this [of 8]
    have "seg m' c (ins (a, s) ((c, v) # y # bs)) 0"
      using sg m'(2) Cons.prems(4) by (simp add: y)
    moreover have "m' x = m x" if "unat x \<notin> {a ..< a + s} \<union> blocks ((c, v) # y # bs)" for x
      using m'(3) that by (simp add: blocks_Cons y)
    ultimately show ?thesis using m'(1) step by auto
  qed
qed

text \<open>Finding the node of a live allocation from its pointer.\<close>

lemma live_header:
  assumes "heap_ok lo hi h m bs lv" "(a, s, p, n) \<in> set lv"
  shows "4 dvd a" "4 dvd s" "12 \<le> s" "lo \<le> a" "a + s \<le> hi" "hi < 4294967296" "s < 2147483648"
    "a + 12 \<le> p" "p + n \<le> a + s" "{a ..< a + s} \<inter> blocks bs = {}"
    "ld m a = MAGIC" "ld m (a + 4) = of_nat s OR 0x80000000"
    "find_node_from_allocated_pointer m (of_nat p) = of_nat a"
proof -
  note o = assms(1) [unfolded heap_ok_def]
  have lv: "live_ok m (a, s, p, n)" "block (a, s) \<subseteq> {lo ..< hi}" "block (a, s) \<inter> blocks bs = {}"
    using o assms(2) by (metis live_block.simps)+
  then show l: "4 dvd a" "4 dvd s" "a + 12 \<le> p" "p + n \<le> a + s" "ld m a = MAGIC"
    "ld m (a + 4) = of_nat s OR 0x80000000" "{a ..< a + s} \<inter> blocks bs = {}"
    by (auto simp: block_def)
  show s: "12 \<le> s" using l by linarith
  have "a \<in> block (a, s)" "a + s - 1 \<in> block (a, s)" using s by (auto simp: block_def)
  then have "a \<in> {lo ..< hi}" "a + s - 1 \<in> {lo ..< hi}" using lv(2) by blast+
  then show b: "lo \<le> a" "a + s \<le> hi" by auto
  show hi: "hi < 4294967296" using o by (simp add: bounds_def)
  have "hi - lo < 2147483648" using o by (simp add: bounds_def)
  then show "s < 2147483648" using b by linarith
  have pad: "ld m (p - 4) = of_nat (p - a - 8)" using lv(1) by simp
  have "(of_nat p - 4 :: usize) = of_nat (p - 4)" using l(3) by (simp add: of_nat_diff)
  then have "load32 m (of_nat p - 4) = of_nat (p - a - 8)" using pad by (simp add: ld_def)
  moreover have "(of_nat p - of_nat (p - a - 8) - 8 :: usize) = of_nat a"
    using l(3) by (simp add: of_nat_diff)
  ultimately show "find_node_from_allocated_pointer m (of_nat p) = of_nat a"
    by (simp add: find_node_from_allocated_pointer_def Let_def)
qed

text \<open>Linking the freed node into the list, before any merging.\<close>

lemma link_freed:
  assumes "bounds lo hi" "chain lo hi bs" "seg m (unat (first_free h)) bs 0" "bs \<noteq> []"
    and a: "4 dvd a" "4 dvd s" "12 \<le> s" "lo \<le> a" "a + s \<le> hi" "{a ..< a + s} \<inter> blocks bs = {}"
      "ld m a = MAGIC" "ld m (a + 4) = of_nat s"
  shows "\<exists>h' m'. (if of_nat a < first_free h
       then Done (h\<lparr>first_free := of_nat a\<rparr>, node_set_next m (of_nat a) (first_free h))
       else obind (of_loop (insert_from m (of_nat a) (first_free h))) (\<lambda>m. Done (h, m))) = Done (h', m')
    \<and> la_start h' = la_start h \<and> la_size h' = la_size h
    \<and> seg m' (unat (first_free h')) (ins (a, s) bs) 0
    \<and> (\<forall>x. unat x \<notin> {a ..< a + s} \<union> blocks bs \<longrightarrow> m' x = m x)"
proof -
  obtain c v rest where bs: "bs = (c, v) # rest" using assms(4) by (metis neq_Nil_conv prod.exhaust)
  have ff: "unat (first_free h) = c" using assms(3) by (simp add: bs)
  then have ffw: "first_free h = of_nat c" by (simp flip: ff)
  have hi: "hi < 4294967296" using assms(1) by (simp add: bounds_def)
  have cv: "c + v < 4294967296" "12 \<le> v" "4 dvd c" using small_sizes [OF assms(1,2), of c v] by (auto simp: bs)
  have lt: "(of_nat a < first_free h) = (a < c)"
    using a(3,5) hi cv by (simp add: ffw word_less_nat_alt unat_of_nat32)
  show ?thesis
  proof (cases "a < c")
    case True
    let ?m = "st m (a + 8) (of_nat c)"
    have lim: "4 dvd a + 8" "a + 8 < 4294967296" "a + 8 + 4 \<le> 4294967296" using a hi by auto
    have "seg ?m c bs 0 = seg m c bs 0"
    proof (rule seg_cong)
      fix e u assume e: "(e, u) \<in> set bs"
      have mem: "4 dvd e" "12 \<le> u" "e + u \<le> hi" using chain_mem [OF assms(2) e] by auto
      have "{e ..< e + u} \<subseteq> blocks bs" using e by (auto simp: blocks_def block_def)
      then have "{a ..< a + s} \<inter> {e ..< e + u} = {}" using a(6) by blast
      then have "a + 8 < e \<or> e + u \<le> a" using intervals_apart [of a s e u] a(3) mem(2) by auto
      then show "ld ?m e = ld m e \<and> ld ?m (e + 4) = ld m (e + 4) \<and> ld ?m (e + 8) = ld m (e + 8)"
        using mem lim hi by (auto simp: ld_st)
    qed
    then have "seg ?m a ((a, s) # bs) 0"
      using assms(3) a(1,7,8) lim cv by (simp add: ff ld_st unat_of_nat32)
    then have sg: "seg ?m (unat (first_free (h\<lparr>first_free := of_nat a\<rparr>))) (ins (a, s) bs) 0"
      using True a(5) hi a(3) by (simp add: bs unat_of_nat32)
    have "?m x = m x" if "unat x \<notin> {a ..< a + s} \<union> blocks bs" for x
      using that a(3) lim(3) by (intro st_other) auto
    moreover have "node_set_next m (of_nat a) (first_free h) = ?m" by (simp add: node_ops_nat ffw)
    ultimately show ?thesis
      using True lt sg by (intro exI [of _ "h\<lparr>first_free := of_nat a\<rparr>"] exI [of _ ?m]) simp
  next
    case False
    have "{a ..< a + s} \<inter> {c ..< c + v} = {}" using a(6) unfolding bs blocks_Cons by blast
    then have "c \<noteq> a" using intervals_apart [of a s c v] a(3) cv(2) by auto
    then have "c < a" using False by simp
    moreover have "seg m c ((c, v) # rest) 0" using assms(3) ff by (simp add: bs)
    ultimately obtain m' where m': "insert_from m (of_nat a) (of_nat c) = Some m'" "seg m' c (ins (a, s) bs) 0"
      "\<forall>x. unat x \<notin> {a ..< a + s} \<union> blocks bs \<longrightarrow> m' x = m x"
      using insert_from_spec [of lo hi c v rest m a s] assms(1,2) a unfolding bs by auto
    then show ?thesis using False lt ff by (simp add: ffw of_loop_def)
  qed
qed

lemma heap_ok_remove:
  assumes ok: "heap_ok lo hi h m bs (l1 @ l # l2)"
    and h': "la_start h' = la_start h" "la_size h' = la_size h"
    and bs': "chain lo hi bs'" "seg m' (unat (first_free h')) bs' 0" "blocks bs' \<subseteq> block (live_block l) \<union> blocks bs"
    and frame: "\<And>x. unat x \<notin> block (live_block l) \<union> blocks bs \<Longrightarrow> m' x = m x"
  shows "heap_ok lo hi h' m' bs' (l1 @ l2)"
proof -
  note o = ok [unfolded heap_ok_def]
  have hi: "hi < 4294967296" using o by (simp add: bounds_def)
  have apart: "block (live_block k) \<inter> block (live_block l) = {}" if "k \<in> set (l1 @ l2)" for k
    using o that by (auto simp: sorted_wrt_append)
  have "live_ok m' k" if "k \<in> set (l1 @ l2)" for k
  proof (rule live_ok_frame)
    show "live_ok m k" "block (live_block k) \<subseteq> {lo ..< hi}" using o that by auto
    show "m' x = m x" if "unat x \<in> block (live_block k)" for x
      using frame o that apart [OF \<open>k \<in> set (l1 @ l2)\<close>] \<open>k \<in> set (l1 @ l2)\<close> by (intro frame) auto
  qed (rule hi)
  moreover have "block (live_block k) \<inter> blocks bs' = {}" if "k \<in> set (l1 @ l2)" for k
  proof -
    have "block (live_block k) \<inter> blocks bs = {}" using o that by auto
    then show ?thesis using bs'(3) apart [OF that] by blast
  qed
  moreover have "block (live_block k) \<subseteq> {lo ..< hi}" if "k \<in> set (l1 @ l2)" for k
    using o that by auto
  moreover have "sorted_wrt (\<lambda>k l. block (live_block k) \<inter> block (live_block l) = {}) (l1 @ l2)"
    using o by (auto simp: sorted_wrt_append)
  moreover have "bounds lo hi" "unat (la_start h) = lo" "unat (la_start h) + unat (la_size h) = hi"
    using o by blast+
  ultimately show ?thesis
    using h' bs'(1,2) unfolding heap_ok_def by (intro conjI ballI) simp_all
qed

lemma heap_dealloc_spec:
  assumes ok: "heap_ok lo hi h m bs (l1 @ (a, s, p, n) # l2)"
  shows "\<exists>h' m'. heap_dealloc h m (of_nat p) = Done (h', m')
    \<and> heap_ok lo hi h' m' (dealloc_result (a, s) bs) (l1 @ l2)
    \<and> (\<forall>x. unat x \<notin> {a ..< a + s} \<union> blocks bs \<longrightarrow> m' x = m x)"
proof -
  note o = ok [unfolded heap_ok_def]
  have mem: "(a, s, p, n) \<in> set (l1 @ (a, s, p, n) # l2)" by simp
  note l = live_header [OF ok mem]
  have hs: "unat (la_start h) = lo" "unat (la_start h + la_size h) = hi"
    using o l(6) by (auto simp: unat_add32)
  have inb: "\<not> (of_nat p < la_start h \<or> of_nat p > la_start h + la_size h)"
    using l hs by (simp add: word_less_nat_alt unat_of_nat32)
  have valid: "node_is_valid m (of_nat a)" "\<not> node_is_free m (of_nat a)"
    using l(11,12) occupied_size(2) [OF l(7)] by (simp_all add: node_ops_nat)
  let ?m1 = "st m (a + 4) (of_nat s)"
  have m1: "mark_free m (of_nat a) = ?m1"
    using l(12) occupied_size(1) [OF l(7)] by (simp add: node_ops_nat)
  have lim: "4 dvd a + 4" "a + 4 < 4294967296" "a + 4 + 4 \<le> 4294967296" using l by auto
  have f1: "?m1 x = m x" if "unat x \<notin> {a ..< a + s}" for x
    using that l(3) lim(3) by (intro st_other) auto
  have sg1: "seg ?m1 (unat (first_free h)) bs 0"
  proof -
    have "seg ?m1 (unat (first_free h)) bs 0 = seg m (unat (first_free h)) bs 0"
    proof (rule seg_cong)
      fix e u assume e: "(e, u) \<in> set bs"
      have mem: "4 dvd e" "12 \<le> u" "e + u \<le> hi" using chain_mem [of lo hi bs e u] o e by auto
      have "{e ..< e + u} \<subseteq> blocks bs" using e by (auto simp: blocks_def block_def)
      then have "{a ..< a + s} \<inter> {e ..< e + u} = {}" using l(10) by blast
      then have "a + 8 < e \<or> e + u \<le> a" using intervals_apart [of a s e u] l(3) mem(2) by auto
      then show "ld ?m1 e = ld m e \<and> ld ?m1 (e + 4) = ld m (e + 4) \<and> ld ?m1 (e + 8) = ld m (e + 8)"
        using mem lim l(6) by (auto simp: ld_st)
    qed
    then show ?thesis using o by simp
  qed
  have w1: "ld ?m1 a = MAGIC" "ld ?m1 (a + 4) = of_nat s" using l(1,11) lim by (simp_all add: ld_st)
  have blk: "block (live_block (a, s, p, n)) = {a ..< a + s}" by (simp add: block_def)
  show ?thesis
  proof (cases "bs = []")
    case True
    then have ff: "first_free h = 0" using o by (simp add: word_unat_eq_iff)
    have "heap_dealloc h m (of_nat p) = Done (h, ?m1)"
      using inb valid by (simp add: heap_dealloc_def l(13) m1 ff of_loop_def insert_from.simps [of _ _ 0]
          merge_free_areas_def merge_from.simps [of 0])
    moreover have "heap_ok lo hi h ?m1 (dealloc_result (a, s) bs) (l1 @ l2)"
      by (rule heap_ok_remove [OF ok]) (use True o sg1 f1 blk in \<open>auto simp: dealloc_result_def blocks_def\<close>)
    ultimately show ?thesis using f1 by auto
  next
    case False
    have bd: "bounds lo hi" "chain lo hi bs" using o by auto
    from link_freed [OF bd sg1 False l(1-5,10) w1]
    obtain h2 m2 where 2: "(if of_nat a < first_free h
         then Done (h\<lparr>first_free := of_nat a\<rparr>, node_set_next ?m1 (of_nat a) (first_free h))
         else obind (of_loop (insert_from ?m1 (of_nat a) (first_free h))) (\<lambda>m. Done (h, m))) = Done (h2, m2)"
      "la_start h2 = la_start h" "la_size h2 = la_size h" "seg m2 (unat (first_free h2)) (ins (a, s) bs) 0"
      "\<And>x. unat x \<notin> {a ..< a + s} \<union> blocks bs \<Longrightarrow> m2 x = ?m1 x" by blast
    have ch2: "chain lo hi (ins (a, s) bs)" by (rule chain_ins [OF bd(2) l(1-5,10)])
    from merge_from_spec [OF bd(1) ch2 2(4)]
    obtain m3 where 3: "merge_free_areas h2 m2 = Some m3" "seg m3 (unat (first_free h2)) (join (ins (a, s) bs)) 0"
      "\<And>x. unat x \<notin> blocks (ins (a, s) bs) \<Longrightarrow> m3 x = m2 x"
      by (auto simp: merge_free_areas_def)
    have bl: "blocks (ins (a, s) bs) = {a ..< a + s} \<union> blocks bs"
      by (simp only: blocks_ins block_def fst_conv snd_conv)
    have frame: "m3 x = m x" if "unat x \<notin> {a ..< a + s} \<union> blocks bs" for x
      using 3(3) [of x] 2(5) [of x] f1 [of x] that bl by auto
    have "heap_dealloc h m (of_nat p) = Done (h2, m3)"
      using inb valid 2(1) 3(1) by (simp add: heap_dealloc_def l(13) m1 of_loop_def Let_def)
    moreover have "heap_ok lo hi h2 m3 (dealloc_result (a, s) bs) (l1 @ l2)"
      by (rule heap_ok_remove [OF ok 2(2,3)])
        (use False chain_join [OF ch2] 3(2) blocks_join [OF ch2] bl frame blk in \<open>auto simp: dealloc_result_def\<close>)
    ultimately show ?thesis using frame by auto
  qed
qed

end
