(* ===== verification/HeapCorrect.thy ===== *)
theory HeapCorrect
  imports HeapLists
begin

text \<open>
  The kernel heap as its clients see it.  The locale \<open>heap_store\<close> is the contract every user of
  \<^verbatim>\<open>alloc::\<close> types relies on: what a client wrote into a block it holds stays there.  It is
  interpreted on the list allocator.  The theory also covers a fresh heap and \<^verbatim>\<open>expand_size\<close>,
  and states the properties of the component.
\<close>

lemma live_apart:
  assumes "sorted_wrt (\<lambda>k l. block (live_block k) \<inter> block (live_block l) = {}) lv"
    "k \<in> set lv" "l \<in> set lv" "k \<noteq> l"
  shows "block (live_block k) \<inter> block (live_block l) = {}"
  using assms by (induction lv) auto

section \<open>The heap interface\<close>

text \<open>
  A client allocates, frees and writes to what it holds.  It remembers, for every pointer it
  holds, the bytes it expects to find there: those present when the block was handed out,
  updated by its own writes.
\<close>

datatype heap_op = HAlloc layout | HFree nat | HWrite nat nat u8

type_synonym held = "(usize \<times> u8 list) list"

fun heap_run :: "('h \<Rightarrow> memory \<Rightarrow> layout \<Rightarrow> (usize \<times> 'h \<times> memory) outcome)
    \<Rightarrow> ('h \<Rightarrow> memory \<Rightarrow> usize \<Rightarrow> ('h \<times> memory) outcome)
    \<Rightarrow> heap_op list \<Rightarrow> 'h \<Rightarrow> memory \<Rightarrow> held \<Rightarrow> ('h \<times> memory \<times> held) outcome" where
  "heap_run al de [] h m hs = Done (h, m, hs)"
| "heap_run al de (HAlloc lay # ops) h m hs =
     obind (al h m lay) (\<lambda>(p, h, m).
       heap_run al de ops h m
         (if p = 0 then hs else (p, map (\<lambda>i. m (p + of_nat i)) [0 ..< unat (layout_size lay)]) # hs))"
| "heap_run al de (HFree i # ops) h m hs =
     (if i < length hs
      then obind (de h m (fst (hs ! i))) (\<lambda>(h, m). heap_run al de ops h m (take i hs @ drop (Suc i) hs))
      else heap_run al de ops h m hs)"
| "heap_run al de (HWrite i off v # ops) h m hs =
     (if i < length hs \<and> off < length (snd (hs ! i))
      then heap_run al de ops h (m(fst (hs ! i) + of_nat off := v))
             (hs[i := (fst (hs ! i), (snd (hs ! i))[off := v])])
      else heap_run al de ops h m hs)"

fun alloc_layouts :: "heap_op list \<Rightarrow> layout list" where
  "alloc_layouts [] = []"
| "alloc_layouts (HAlloc lay # ops) = lay # alloc_layouts ops"
| "alloc_layouts (op # ops) = alloc_layouts ops"

fun live_data :: "live \<Rightarrow> nat set" where
  "live_data (a, s, p, n) = {p ..< p + n}"

text \<open>The pointers held and the live allocations agree, and memory holds the expected bytes.\<close>

definition agrees :: "memory \<Rightarrow> live \<Rightarrow> usize \<times> u8 list \<Rightarrow> bool" where
  "agrees m l e = (case l of (a, s, p, n) \<Rightarrow> fst e = of_nat p \<and> length (snd e) = n \<and> p + n < 4294967296
     \<and> (\<forall>i < n. m (of_nat (p + i)) = snd e ! i))"

lemma agrees_frame:
  assumes "agrees m l e" "\<And>x. unat x \<in> live_data l \<Longrightarrow> m' x = m x"
  shows "agrees m' l e"
proof -
  obtain a s p n where l: "l = (a, s, p, n)" by (metis prod_cases4)
  have "unat (of_nat (p + i) :: usize) = p + i" if "i < n" for i
    using assms(1) that by (intro unat_of_nat32) (auto simp: agrees_def l)
  then show ?thesis using assms by (auto simp: agrees_def l)
qed

lemma agrees_all_frame:
  assumes "list_all2 (agrees m) lv hs" "\<forall>l \<in> set lv. \<forall>x. unat x \<in> live_data l \<longrightarrow> m' x = m x"
  shows "list_all2 (agrees m') lv hs"
  using assms by (induction rule: list_all2_induct) (auto intro: agrees_frame)

lemma agrees_disjoint:
  assumes "list_all2 (agrees m) lv hs" "sorted_wrt (\<lambda>k l. live_data k \<inter> live_data l = {}) lv"
  shows "sorted_wrt (\<lambda>(p, cs) (q, ds). {unat p ..< unat p + length cs} \<inter> {unat q ..< unat q + length ds} = {}) hs"
proof -
  have eq: "live_data l = {unat (fst e) ..< unat (fst e) + length (snd e)}" if "agrees m l e" for l e
    using that by (auto simp: agrees_def unat_of_nat32 split: prod.splits)
  have "live_data (lv ! i) = {unat (fst (hs ! i)) ..< unat (fst (hs ! i)) + length (snd (hs ! i))}"
    if "i < length hs" for i
    using assms(1) that by (intro eq) (simp add: list_all2_conv_all_nth)
  then show ?thesis
    using assms(2) list_all2_lengthD [OF assms(1)] by (auto simp: sorted_wrt_iff_nth_less split_beta)
qed

locale heap_store =
  fixes inv :: "'h \<Rightarrow> memory \<Rightarrow> live list \<Rightarrow> bool"
    and layout_fine :: "layout \<Rightarrow> bool"
    and al :: "'h \<Rightarrow> memory \<Rightarrow> layout \<Rightarrow> (usize \<times> 'h \<times> memory) outcome"
    and de :: "'h \<Rightarrow> memory \<Rightarrow> usize \<Rightarrow> ('h \<times> memory) outcome"
  assumes alloc_law: "inv h m lv \<Longrightarrow> layout_fine lay \<Longrightarrow> al h m lay = Done (0, h, m) \<or>
      (\<exists>a s p h' m'. al h m lay = Done (of_nat p, h', m') \<and> 0 < p
         \<and> inv h' m' ((a, s, p, unat (layout_size lay)) # lv)
         \<and> (\<forall>l \<in> set lv. \<forall>x. unat x \<in> live_data l \<longrightarrow> m' x = m x))"
    and dealloc_law: "inv h m (l1 @ (a, s, p, n) # l2) \<Longrightarrow>
      \<exists>h' m'. de h m (of_nat p) = Done (h', m') \<and> inv h' m' (l1 @ l2)
         \<and> (\<forall>l \<in> set (l1 @ l2). \<forall>x. unat x \<in> live_data l \<longrightarrow> m' x = m x)"
    and write_law: "inv h m lv \<Longrightarrow> (a, s, p, n) \<in> set lv \<Longrightarrow> i < n \<Longrightarrow> inv h (m(of_nat (p + i) := v)) lv"
    and apart: "inv h m lv \<Longrightarrow> sorted_wrt (\<lambda>k l. live_data k \<inter> live_data l = {}) lv"
    and in_range: "inv h m lv \<Longrightarrow> (a, s, p, n) \<in> set lv \<Longrightarrow> p + n < 4294967296"
begin

lemma heap_isolation:
  assumes "inv h m lv" "list_all2 (agrees m) lv hs" "\<forall>lay \<in> set (alloc_layouts ops). layout_fine lay"
  shows "\<exists>h' m' hs' lv'. heap_run al de ops h m hs = Done (h', m', hs') \<and> inv h' m' lv'
    \<and> list_all2 (agrees m') lv' hs'"
  using assms
proof (induction ops arbitrary: h m lv hs)
  case Nil
  then show ?case by auto
next
  case (Cons op ops)
  show ?case
  proof (cases op)
    case (HAlloc lay)
    have fine: "layout_fine lay" "\<forall>lay \<in> set (alloc_layouts ops). layout_fine lay"
      using Cons.prems(3) HAlloc by auto
    from alloc_law [OF Cons.prems(1) fine(1)] show ?thesis
    proof (elim disjE exE conjE)
      assume "al h m lay = Done (0, h, m)"
      then show ?thesis using Cons.IH [OF Cons.prems(1,2) fine(2)] HAlloc by simp
    next
      fix a s p h' m'
      assume a: "al h m lay = Done (of_nat p, h', m')" "0 < p"
        "inv h' m' ((a, s, p, unat (layout_size lay)) # lv)"
        "\<forall>l \<in> set lv. \<forall>x. unat x \<in> live_data l \<longrightarrow> m' x = m x"
      let ?n = "unat (layout_size lay)"
      let ?e = "(of_nat p :: usize, map (\<lambda>i. m' (of_nat p + of_nat i)) [0 ..< ?n])"
      have "p + ?n < 4294967296" using in_range [OF a(3)] by auto
      then have e: "agrees m' (a, s, p, ?n) ?e" by (simp add: agrees_def)
      have "list_all2 (agrees m') lv hs"
        using agrees_all_frame [OF Cons.prems(2) a(4)] .
      then have "list_all2 (agrees m') ((a, s, p, ?n) # lv) (?e # hs)" using e by simp
      from Cons.IH [OF a(3) this fine(2)] show ?thesis
        using a(1,2) \<open>p + ?n < 4294967296\<close> of_nat32_eq [of p 0] HAlloc by simp
    qed
  next
    case (HFree i)
    have fine: "\<forall>lay \<in> set (alloc_layouts ops). layout_fine lay" using Cons.prems(3) HFree by simp
    show ?thesis
    proof (cases "i < length hs")
      case True
      have len: "length lv = length hs" using Cons.prems(2) by (rule list_all2_lengthD)
      obtain a s p n where li: "lv ! i = (a, s, p, n)" by (metis prod_cases4)
      have "lv = take i lv @ (a, s, p, n) # drop (Suc i) lv"
        using True len li id_take_nth_drop [of i lv] by simp
      then obtain h' m' where d: "de h m (of_nat p) = Done (h', m')" "inv h' m' (take i lv @ drop (Suc i) lv)"
        "\<forall>l \<in> set (take i lv @ drop (Suc i) lv). \<forall>x. unat x \<in> live_data l \<longrightarrow> m' x = m x"
        using dealloc_law [of h m "take i lv" a s p n "drop (Suc i) lv"] Cons.prems(1) by auto
      have fst: "fst (hs ! i) = of_nat p"
        using Cons.prems(2) True len li by (auto simp: list_all2_conv_all_nth agrees_def)
      have "list_all2 (agrees m) (take i lv @ drop (Suc i) lv) (take i hs @ drop (Suc i) hs)"
        using Cons.prems(2) by (intro list_all2_appendI list_all2_takeI list_all2_dropI)
      then have "list_all2 (agrees m') (take i lv @ drop (Suc i) lv) (take i hs @ drop (Suc i) hs)"
        using agrees_all_frame d(3) by blast
      from Cons.IH [OF d(2) this fine] show ?thesis using HFree True d(1) fst by simp
    qed (use Cons HFree in simp)
  next
    case (HWrite i off v)
    have fine: "\<forall>lay \<in> set (alloc_layouts ops). layout_fine lay" using Cons.prems(3) HWrite by simp
    show ?thesis
    proof (cases "i < length hs \<and> off < length (snd (hs ! i))")
      case True
      have len: "length lv = length hs" using Cons.prems(2) by (rule list_all2_lengthD)
      obtain a s p n where li: "lv ! i = (a, s, p, n)" by (metis prod_cases4)
      have ag: "agrees m (a, s, p, n) (hs ! i)"
        using Cons.prems(2) True len li by (auto simp: list_all2_conv_all_nth)
      then have e: "fst (hs ! i) = of_nat p" "length (snd (hs ! i)) = n" "p + n < 4294967296" "off < n"
        using True by (auto simp: agrees_def)
      let ?m = "m(of_nat (p + off) := v)"
      let ?hs = "hs[i := (fst (hs ! i), (snd (hs ! i))[off := v])]"
      have mem: "(a, s, p, n) \<in> set lv" using True len li by (metis nth_mem)
      have inv': "inv h ?m lv" by (rule write_law [OF Cons.prems(1) mem e(4)])
      have "agrees ?m (lv ! j) (?hs ! j)" if j: "j < length lv" for j
      proof (cases "j = i")
        case True
        have "((of_nat (p + k) :: usize) = of_nat (p + off)) = (k = off)" if "k < n" for k
          using that e(3,4) of_nat32_eq [of "p + k" "p + off"] by simp
        then show ?thesis
          using ag e \<open>i < length hs \<and> off < length (snd (hs ! i))\<close> True li
          by (auto simp: agrees_def nth_list_update)
      next
        case False
        have agj: "agrees m (lv ! j) (hs ! j)" using Cons.prems(2) j by (simp add: list_all2_conv_all_nth)
        have "live_data (lv ! j) \<inter> live_data (lv ! i) = {}"
        proof (cases "j < i")
          case True
          then show ?thesis using sorted_wrt_nth_less [OF apart [OF Cons.prems(1)], of j i] 
              \<open>i < length hs \<and> off < length (snd (hs ! i))\<close> len by simp
        next
          case False
          then show ?thesis using sorted_wrt_nth_less [OF apart [OF Cons.prems(1)], of i j] \<open>j \<noteq> i\<close> j by auto
        qed
        moreover have "p + off \<in> live_data (lv ! i)" using e(4) li by simp
        ultimately have "unat (of_nat (p + off) :: usize) \<notin> live_data (lv ! j)"
          using e(3,4) by (simp add: unat_of_nat32 del: of_nat_add) blast
        then have "agrees ?m (lv ! j) (hs ! j)" using agj by (intro agrees_frame [OF agj]) auto
        then show ?thesis using False by simp
      qed
      then have "list_all2 (agrees ?m) lv ?hs" using len by (simp add: list_all2_conv_all_nth)
      from Cons.IH [OF inv' this fine] show ?thesis using HWrite True e(1) by (simp add: fun_upd_def)
    qed (use Cons HWrite in auto)
  qed
qed

end

definition heap_inv :: "nat \<Rightarrow> nat \<Rightarrow> list_allocator \<Rightarrow> memory \<Rightarrow> live list \<Rightarrow> bool" where
  "heap_inv lo hi h m lv \<longleftrightarrow> (\<exists>bs. heap_ok lo hi h m bs lv)"

definition layout_fits :: "nat \<Rightarrow> layout \<Rightarrow> bool" where
  "layout_fits hi lay \<longleftrightarrow> (\<exists>k. layout_align lay = 2 ^ k \<and> hi + 16 + 2 ^ k + unat (layout_size lay) < 4294967296)"

lemma heap_ok_write:
  assumes ok: "heap_ok lo hi h m bs lv" and l: "(a, s, p, n) \<in> set lv" and i: "i < n"
  shows "heap_ok lo hi h (m(of_nat (p + i) := v)) bs lv"
proof -
  note o = ok [unfolded heap_ok_def]
  note hd = live_header [OF ok l]
  let ?m = "m(of_nat (p + i) := v)"
  have x: "unat (of_nat (p + i) :: usize) = p + i" using hd i by (intro unat_of_nat32) linarith
  have frame: "?m y = m y" if "unat y \<noteq> p + i" for y using that x by auto
  have "p + i \<in> {a ..< a + s}" using hd(8,9) i by auto
  then have free: "p + i \<notin> blocks bs" using hd(10) by blast
  have "seg ?m (unat (first_free h)) bs 0 = seg m (unat (first_free h)) bs 0"
  proof (rule seg_cong)
    fix e u assume e: "(e, u) \<in> set bs"
    have mem: "12 \<le> u" "e + u \<le> hi" using chain_mem [of lo hi bs e u] o e by auto
    have "ld ?m (e + j) = ld m (e + j)" if j: "j = 0 \<or> j = 4 \<or> j = 8" for j
    proof (rule ld_cong)
      fix r :: nat assume r: "r < 4"
      have "e + j + r \<in> blocks bs" using e mem j r by (force simp: blocks_def block_def)
      moreover have "unat (of_nat (e + j + r) :: usize) = e + j + r"
        using mem j r hd(6) by (intro unat_of_nat32) auto
      ultimately show "?m (of_nat (e + j + r)) = m (of_nat (e + j + r))" using free by (intro frame) metis
    qed
    from this [of 0] this [of 4] this [of 8]
    show "ld ?m e = ld m e \<and> ld ?m (e + 4) = ld m (e + 4) \<and> ld ?m (e + 8) = ld m (e + 8)" by simp
  qed
  moreover have "live_ok ?m k" if k: "k \<in> set lv" for k
  proof (cases "k = (a, s, p, n)")
    case True
    have "ld ?m j = ld m j" if "j + 4 \<le> p" for j
    proof (rule ld_cong)
      fix r :: nat assume "r < 4"
      then have "unat (of_nat (j + r) :: usize) = j + r" using that hd by (intro unat_of_nat32) linarith
      then show "?m (of_nat (j + r)) = m (of_nat (j + r))" using that \<open>r < 4\<close> by (intro frame) simp
    qed
    from this [of a] this [of "a + 4"] this [of "p - 4"] show ?thesis
      using o k True hd(8) by (auto simp del: fun_upd_apply)
  next
    case False
    show ?thesis
    proof (rule live_ok_frame)
      show "live_ok m k" "block (live_block k) \<subseteq> {lo ..< hi}" using o k by auto
      have "block (live_block k) \<inter> block (a, s) = {}"
        using o k l False live_apart [of lv k "(a, s, p, n)"] by auto
      moreover have "p + i \<in> block (a, s)" using hd i by (auto simp: block_def)
      ultimately show "?m y = m y" if "unat y \<in> block (live_block k)" for y
        using that by (intro frame) auto
    qed (use hd(6) in simp)
  qed
  ultimately show ?thesis using o unfolding heap_ok_def by blast
qed

lemma live_data_in_block:
  assumes "heap_ok lo hi h m bs lv" "l \<in> set lv"
  shows "live_data l \<subseteq> block (live_block l)"
proof -
  obtain a s p n where l: "l = (a, s, p, n)" by (metis prod_cases4)
  show ?thesis using live_header(8,9) [OF assms(1), of a s p n] assms(2) by (auto simp: l block_def)
qed

interpretation hp: heap_store "heap_inv lo hi" "layout_fits hi" heap_alloc heap_dealloc for lo hi
proof unfold_locales
  fix h m lv lay
  assume "heap_inv lo hi h m lv" "layout_fits hi lay"
  then obtain bs k where ok: "heap_ok lo hi h m bs lv"
    and lay: "layout_align lay = 2 ^ k" "hi + 16 + 2 ^ k + unat (layout_size lay) < 4294967296"
    by (auto simp: heap_inv_def layout_fits_def)
  note spec = heap_alloc_spec [OF ok lay refl]
  show "heap_alloc h m lay = Done (0, h, m) \<or>
      (\<exists>a s p h' m'. heap_alloc h m lay = Done (of_nat p, h', m') \<and> 0 < p
         \<and> heap_inv lo hi h' m' ((a, s, p, unat (layout_size lay)) # lv)
         \<and> (\<forall>l \<in> set lv. \<forall>x. unat x \<in> live_data l \<longrightarrow> m' x = m x))"
  proof (cases "alloc_result k (unat (layout_size lay)) bs")
    case None
    then show ?thesis using spec by simp
  next
    case (Some r)
    obtain bs' b s p n where r: "r = (bs', b, s, p, n)" by (metis prod_cases5)
    have n: "n = unat (layout_size lay)"
      using Some by (auto simp: alloc_result_def r Let_def split: option.splits prod.splits if_splits)
    obtain h' m' where h': "heap_alloc h m lay = Done (of_nat p, h', m')"
      "heap_ok lo hi h' m' bs' ((b, s, p, n) # lv)" "\<forall>x. unat x \<notin> blocks bs \<longrightarrow> m' x = m x"
      using spec Some r by auto
    have "m' x = m x" if "l \<in> set lv" "unat x \<in> live_data l" for l x
    proof -
      have "unat x \<in> block (live_block l)" using live_data_in_block [OF ok that(1)] that(2) by blast
      then have "unat x \<notin> blocks bs" using ok that(1) unfolding heap_ok_def by blast
      then show ?thesis using h'(3) by simp
    qed
    moreover have "0 < p" using live_header(8) [OF h'(2), of b s p n] by simp
    ultimately show ?thesis
      using h'(1,2) n unfolding heap_inv_def
      by (intro disjI2 exI [of _ b] exI [of _ s] exI [of _ p] exI [of _ h'] exI [of _ m']) blast
  qed
next
  fix h m l1 a s p n l2
  assume "heap_inv lo hi h m (l1 @ (a, s, p, n) # l2)"
  then obtain bs where ok: "heap_ok lo hi h m bs (l1 @ (a, s, p, n) # l2)" by (auto simp: heap_inv_def)
  obtain h' m' where d: "heap_dealloc h m (of_nat p) = Done (h', m')"
    "heap_ok lo hi h' m' (dealloc_result (a, s) bs) (l1 @ l2)"
    "\<forall>x. unat x \<notin> {a ..< a + s} \<union> blocks bs \<longrightarrow> m' x = m x"
    using heap_dealloc_spec [OF ok] by blast
  have "m' x = m x" if "l \<in> set (l1 @ l2)" "unat x \<in> live_data l" for l x
  proof -
    have x: "unat x \<in> block (live_block l)" using live_data_in_block [OF ok, of l] that by auto
    then have "unat x \<notin> blocks bs" using ok that(1) unfolding heap_ok_def by fastforce
    moreover have "block (live_block l) \<inter> block (live_block (a, s, p, n)) = {}"
      using ok that(1) unfolding heap_ok_def by (auto simp: sorted_wrt_append)
    moreover have "block (live_block (a, s, p, n)) = {a ..< a + s}" by (simp add: block_def)
    ultimately show ?thesis using d(3) x by blast
  qed
  then show "\<exists>h' m'. heap_dealloc h m (of_nat p) = Done (h', m') \<and> heap_inv lo hi h' m' (l1 @ l2)
         \<and> (\<forall>l \<in> set (l1 @ l2). \<forall>x. unat x \<in> live_data l \<longrightarrow> m' x = m x)"
    using d(1,2) by (auto simp: heap_inv_def)
next
  fix h m lv a s p n i v
  assume "heap_inv lo hi h m lv" "(a, s, p, n) \<in> set lv" "i < n"
  then show "heap_inv lo hi h (m(of_nat (p + i) := v)) lv"
    using heap_ok_write unfolding heap_inv_def by blast
next
  fix h m lv
  assume "heap_inv lo hi h m lv"
  then obtain bs where ok: "heap_ok lo hi h m bs lv" by (auto simp: heap_inv_def)
  then have "sorted_wrt (\<lambda>k l. block (live_block k) \<inter> block (live_block l) = {}) lv" by (simp add: heap_ok_def)
  moreover have "live_data k \<inter> live_data l = {}"
    if "k \<in> set lv" "l \<in> set lv" "block (live_block k) \<inter> block (live_block l) = {}" for k l
    using live_data_in_block [OF ok that(1)] live_data_in_block [OF ok that(2)] that(3) by blast
  ultimately show "sorted_wrt (\<lambda>k l. live_data k \<inter> live_data l = {}) lv"
    by (rule sorted_wrt_mono_rel [rotated]) 
next
  fix h m lv a s p n
  assume "heap_inv lo hi h m lv" "(a, s, p, n) \<in> set lv"
  then obtain bs where "heap_ok lo hi h m bs lv" by (auto simp: heap_inv_def)
  from live_header [OF this \<open>(a, s, p, n) \<in> set lv\<close>] show "p + n < 4294967296" by linarith
qed

section \<open>A fresh heap, and growing it\<close>

lemma fresh_ok:
  assumes "4 dvd unat start" "0 < unat start" "4 dvd unat size'" "12 \<le> unat size'"
    and "unat start + unat size' < 4294967296" "unat size' < 2147483648"
    and "la_new m start size' = (h, m')"
  shows "heap_ok (unat start) (unat start + unat size') h m' [(unat start, unat size')] []"
proof -
  let ?a = "unat start" and ?s = "unat size'"
  have m': "m' = st (st (st m ?a MAGIC) (?a + 4) (of_nat ?s)) (?a + 8) 0"
    and h: "h = \<lparr>la_start = start, la_size = size', first_free = start\<rparr>"
    using assms(7) and_7fffffff [OF assms(6)] node_ops_nat(6) [of m ?a size'] by (simp_all add: la_new_def)
  have lim: "4 dvd ?a + 4" "4 dvd ?a + 8" "?a + 4 < 4294967296" "?a + 8 < 4294967296" "?a < 4294967296"
    using assms by auto
  have "seg m' ?a [(?a, ?s)] 0" using assms(1) lim by (simp add: m' ld_st)
  then show ?thesis using assms h by (simp add: heap_ok_def bounds_def)
qed

lemma last_free_from_spec:
  assumes "bounds lo hi" "chain lo hi bs" "seg m a bs 0" "bs \<noteq> []"
  shows "last_free_from m f (of_nat a) = Some (of_nat (fst (last bs)))"
  using assms
proof (induction bs arbitrary: lo a)
  case (Cons p bs)
  obtain b s where p: "p = (b, s)" by fastforce
  have sb: "0 < b" "b + s < 4294967296" using small_sizes [OF Cons.prems(1,2), of b s] by (auto simp: p)
  have nz: "(of_nat b :: usize) \<noteq> 0" using sb of_nat32_eq [of b 0] by simp
  have sg: "a = b" "seg m (unat (ld m (b + 8))) bs 0" using Cons.prems(3) by (auto simp: p)
  show ?case
  proof (cases "bs = []")
    case True
    then have "ld m (b + 8) = 0" using sg(2) by (simp add: word_unat_eq_iff)
    then show ?thesis using nz True sg(1) by (subst last_free_from.simps) (simp add: p node_ops_nat)
  next
    case False
    have ch: "chain (b + s) hi bs" "bounds (b + s) hi" using Cons.prems(1,2) by (auto simp: p bounds_def)
    have "ld m (b + 8) \<noteq> 0" using seg_head(2) [OF sg(2) ch(2,1)] False by (simp add: word_unat_eq_iff)
    moreover have "last_free_from m f (of_nat (unat (ld m (b + 8)))) = Some (of_nat (fst (last bs)))"
      by (rule Cons.IH [OF ch(2,1) sg(2) False])
    ultimately show ?thesis using nz False sg(1) by (subst last_free_from.simps) (simp add: node_ops_nat)
  qed
qed simp

lemma chain_extend:
  assumes "chain lo hi bs" "4 dvd hi" "4 dvd g" "12 \<le> g"
  shows "chain lo (hi + g) (bs @ [(hi, g)])"
  using assms by (auto simp: chain_append)

lemma heap_ok_grow:
  assumes ok: "heap_ok lo hi h m bs lv"
    and sz: "unat size' = unat (la_size h) + g" "bounds lo (hi + g)"
    and bs': "chain lo (hi + g) bs'" "seg m' (unat (first_free h)) bs' 0" "blocks bs' = blocks bs \<union> {hi ..< hi + g}"
    and frame: "\<And>x. unat x \<notin> blocks bs \<union> {hi ..< hi + g} \<Longrightarrow> m' x = m x"
  shows "heap_ok lo (hi + g) (h\<lparr>la_size := size'\<rparr>) m' bs' lv"
proof -
  note o = ok [unfolded heap_ok_def]
  have apart: "block (live_block k) \<inter> {hi ..< hi + g} = {}" if "k \<in> set lv" for k
    using o that by fastforce
  have "live_ok m' k" if "k \<in> set lv" for k
  proof (rule live_ok_frame)
    show "live_ok m k" "block (live_block k) \<subseteq> {lo ..< hi}" using o that by auto
    show "hi < 4294967296" using o by (simp add: bounds_def)
    show "m' x = m x" if "unat x \<in> block (live_block k)" for x
      using frame [of x] o that apart [OF \<open>k \<in> set lv\<close>] \<open>k \<in> set lv\<close> by blast
  qed
  moreover have "block (live_block k) \<inter> blocks bs' = {}" if "k \<in> set lv" for k
    using o that apart [OF that] bs'(3) by (simp add: Int_Un_distrib)
  moreover have "block (live_block k) \<subseteq> {lo ..< hi + g}" if "k \<in> set lv" for k
    using o that by fastforce
  ultimately show ?thesis using o sz bs'(1,2) unfolding heap_ok_def by simp
qed

lemma expand_size_spec:
  assumes ok: "heap_ok lo hi h m bs lv" and ne: "bs \<noteq> []"
    and g: "unat size' = unat (la_size h) + g" "4 dvd hi" "4 dvd g" "12 \<le> g" "bounds lo (hi + g)"
  shows "\<exists>m'. expand_size h m size' = Done (h\<lparr>la_size := size'\<rparr>, m')
    \<and> heap_ok lo (hi + g) (h\<lparr>la_size := size'\<rparr>) m' (join (bs @ [(hi, g)])) lv
    \<and> (\<forall>x. unat x \<notin> blocks bs \<union> {hi ..< hi + g} \<longrightarrow> m' x = m x)"
proof -
  note o = ok [unfolded heap_ok_def]
  have hi: "hi + g < 4294967296" "g < 2147483648" "hi < 4294967296"
    using g(5) o chain_le [of lo hi bs] by (auto simp: bounds_def)
  have addr: "la_start h + la_size h = of_nat hi"
    using o hi by (simp add: word_unat_eq_iff unat_add32 unat_of_nat32)
  have ws: "(of_nat g :: usize) = size' - la_size h"
    using g(1) hi by (simp add: word_unat_eq_iff unat_of_nat32 unat_sub_le)
  let ?m1 = "st (st (st m hi MAGIC) (hi + 4) (of_nat g)) (hi + 8) 0"
  have init: "node_init m (of_nat hi) (size' - la_size h) = ?m1"
    using and_7fffffff [OF hi(2)] by (simp add: node_ops_nat ws [symmetric])
  have lim: "4 dvd hi + 4" "4 dvd hi + 8" "hi + 4 < 4294967296" "hi + 8 < 4294967296" using g hi by auto
  have f1: "?m1 x = m x" if "unat x \<notin> {hi ..< hi + g}" for x
  proof -
    have "unat x \<notin> {hi ..< hi + 4}" "unat x \<notin> {hi + 4 ..< hi + 4 + 4}" "unat x \<notin> {hi + 8 ..< hi + 8 + 4}"
      using that g(4) by auto
    moreover have "hi + 4 \<le> 4294967296" "hi + 4 + 4 \<le> 4294967296" "hi + 8 + 4 \<le> 4294967296" using g(4) hi by linarith+
    ultimately show ?thesis by (simp only: st_other not_False_eq_True)
  qed
  have out: "{hi ..< hi + g} \<inter> blocks bs = {}" using blocks_in_bounds [of lo hi bs] o by fastforce
  have w1: "ld ?m1 hi = MAGIC" "ld ?m1 (hi + 4) = of_nat g" "ld ?m1 (hi + 8) = 0"
    using lim g(2) hi by (simp_all add: ld_st)
  have sg1: "seg ?m1 (unat (first_free h)) bs 0"
  proof -
    have "seg ?m1 (unat (first_free h)) bs 0 = seg m (unat (first_free h)) bs 0"
    proof (rule seg_cong)
      fix e u assume e: "(e, u) \<in> set bs"
      have "12 \<le> u" "e + u \<le> hi" "4 dvd e" using chain_mem [of lo hi bs e u] o e by auto
      then show "ld ?m1 e = ld m e \<and> ld ?m1 (e + 4) = ld m (e + 4) \<and> ld ?m1 (e + 8) = ld m (e + 8)"
        using lim g(2) hi by (simp add: ld_st)
    qed
    then show ?thesis using o by simp
  qed
  let ?q = "fst (last bs)"
  let ?m2 = "st ?m1 (?q + 8) (of_nat hi)"
  have mem: "(?q, snd (last bs)) \<in> set bs" using ne by simp
  have q: "4 dvd ?q" "12 \<le> snd (last bs)" "?q + snd (last bs) \<le> hi" "lo \<le> ?q"
    using chain_mem [of lo hi bs ?q "snd (last bs)"] o mem by auto
  have "get_last_free_node h ?m1 = Some (of_nat ?q)"
    using last_free_from_spec [of lo hi bs ?m1 "unat (first_free h)" "first_free h"] o sg1 ne
    by (simp add: get_last_free_node_def)
  moreover have "node_set_next ?m1 (of_nat ?q) (of_nat hi) = ?m2" by (simp add: node_ops_nat)
  moreover have ch2: "chain lo (hi + g) (bs @ [(hi, g)])" using chain_extend o g by blast
  moreover have sg2: "seg ?m2 (unat (first_free h)) (bs @ [(hi, g)]) 0"
  proof -
    have keep: "ld ?m2 k = ld ?m1 k" if "4 dvd k" "k < 4294967296" "k \<noteq> ?q + 8" for k
      using that q hi by (simp add: ld_st)
    have "seg ?m2 (unat (first_free h)) bs hi"
    proof (rule seg_redirect [OF _ sg1 ne])
      show "chain lo hi bs" using o by simp
      show "ld ?m2 (?q + 8) = of_nat hi" using q hi by (simp add: ld_st)
      show "ld ?m2 k = ld ?m1 k" if "4 dvd k" "k \<in> blocks bs" "k \<noteq> ?q + 8" for k
        using keep that blocks_in_bounds [of lo hi bs] o hi by auto
    qed (rule hi(3))
    moreover have "ld ?m2 hi = MAGIC" "ld ?m2 (hi + 4) = of_nat g" "ld ?m2 (hi + 8) = 0"
      using w1 keep [of hi] keep [of "hi + 4"] keep [of "hi + 8"] g(2) lim hi q by auto
    ultimately show ?thesis by (auto simp: seg_append)
  qed
  ultimately obtain m3 where m3: "expand_size h m size' = Done (h\<lparr>la_size := size'\<rparr>, m3)"
    "seg m3 (unat (first_free h)) (join (bs @ [(hi, g)])) 0"
    "\<And>x. unat x \<notin> blocks (bs @ [(hi, g)]) \<Longrightarrow> m3 x = ?m2 x"
    using merge_from_spec [OF g(5) ch2 sg2] g(1)
    by (auto simp: expand_size_def Let_def addr init of_loop_def merge_free_areas_def word_less_nat_alt)
  have bl: "blocks (bs @ [(hi, g)]) = blocks bs \<union> {hi ..< hi + g}" by (auto simp: blocks_def block_def)
  have qb: "{?q ..< ?q + 12} \<subseteq> blocks bs" using mem q(2) by (force simp: blocks_def block_def)
  have frame: "m3 x = m x" if x: "unat x \<notin> blocks bs \<union> {hi ..< hi + g}" for x
  proof -
    have "{?q + 8 ..< ?q + 8 + 4} \<subseteq> {?q ..< ?q + 12}" by auto
    then have "unat x \<notin> {?q + 8 ..< ?q + 8 + 4}" using x qb by blast
    moreover have "?q + 8 + 4 \<le> 4294967296" using q hi by linarith
    ultimately have "?m2 x = ?m1 x" by (rule st_other [rotated])
    then show ?thesis using m3(3) [of x] f1 [of x] x bl by simp
  qed
  have "heap_ok lo (hi + g) (h\<lparr>la_size := size'\<rparr>) m3 (join (bs @ [(hi, g)])) lv"
    using heap_ok_grow [OF ok] m3(2) chain_join [OF ch2] blocks_join [OF ch2] bl frame g out by auto
  then show ?thesis using m3(1) frame by blast
qed

section \<open>Properties\<close>

text \<open>The bytes the allocator keeps for itself: the header of every free block, and of every live one all that
  lies in front of the client's bytes.\<close>

definition header_bytes :: "(nat \<times> nat) list \<Rightarrow> live list \<Rightarrow> nat set" where
  "header_bytes bs lv = (\<Union>(b, s) \<in> set bs. {b ..< b + 12}) \<union> (\<Union>(a, s, p, n) \<in> set lv. {a ..< p})"

lemma live_data_placed:
  assumes ok: "heap_ok lo hi h m bs lv" and l: "l \<in> set lv"
  shows "live_data l \<subseteq> {lo ..< hi}" and "live_data l \<inter> header_bytes bs lv = {}"
proof -
  obtain a s p n where e: "l = (a, s, p, n)" by (metis prod_cases4)
  note hd = live_header [OF ok l [unfolded e]]
  show "live_data l \<subseteq> {lo ..< hi}" using hd(4,5,8,9) by (auto simp: e)
  have "live_data l \<inter> {b ..< b + 12} = {}" if b: "(b, t) \<in> set bs" for b t
  proof -
    have "12 \<le> t" using chain_mem [of lo hi bs b t] ok b by (auto simp: heap_ok_def)
    then have "{b ..< b + 12} \<subseteq> blocks bs" using b by (force simp: blocks_def block_def)
    moreover have "live_data l \<subseteq> {a ..< a + s}" using hd(8,9) by (auto simp: e)
    ultimately show ?thesis using hd(10) by blast
  qed
  moreover have "live_data l \<inter> {a' ..< p'} = {}" if k: "(a', s', p', n') \<in> set lv" for a' s' p' n'
  proof (cases "(a', s', p', n') = l")
    case False
    have "{a' ..< p'} \<subseteq> block (a', s')" using live_header(9) [OF ok k] by (auto simp: block_def)
    moreover have "block (live_block (a', s', p', n')) \<inter> block (live_block l) = {}"
      using ok k l False live_apart unfolding heap_ok_def by blast
    ultimately show ?thesis using live_data_in_block [OF ok l] by auto
  qed (auto simp: e)
  ultimately show "live_data l \<inter> header_bytes bs lv = {}" unfolding header_bytes_def by blast
qed

lemma agrees_data:
  "agrees m l (p, cs) \<Longrightarrow> live_data l = {unat p ..< unat p + length cs}"
  "agrees m (a, s, q, n) (p, cs) \<Longrightarrow> p = of_nat q \<and> length cs = n"
  "agrees m l (p, cs) \<Longrightarrow> i < length cs \<Longrightarrow> m (p + of_nat i) = cs ! i"
  by (auto simp: agrees_def unat_of_nat32 split: prod.splits)

text \<open>C3: isolation.  A client that only allocates (with layouts that fit below the end of the address
  space), frees what it holds and writes inside what it holds never makes the heap panic or hang.  At any point
  the heap is consistent, with free blocks \<open>bs\<close> and live blocks \<open>lv\<close> that are the ones the client holds; every
  block it holds contains exactly the bytes it expects there, lies inside the heap and is disjoint from every
  header of the allocator, and the blocks are pairwise disjoint.\<close>

theorem heap_isolates_clients:
  assumes "la_new m0 start size' = (h, m)"
    and "4 dvd unat start" "0 < unat start" "4 dvd unat size'" "12 \<le> unat size'"
    and "unat start + unat size' < 4294967296" "unat size' < 2147483648"
    and "\<forall>lay \<in> set (alloc_layouts ops). layout_fits (unat start + unat size') lay"
  shows "\<exists>h' m' hs bs lv. heap_run heap_alloc heap_dealloc ops h m [] = Done (h', m', hs)
    \<and> heap_ok (unat start) (unat start + unat size') h' m' bs lv
    \<and> list_all2 (\<lambda>(a, s, q, n) (p, cs). p = of_nat q \<and> length cs = n) lv hs
    \<and> (\<forall>(p, cs) \<in> set hs. (\<forall>i < length cs. m' (p + of_nat i) = cs ! i)
         \<and> {unat p ..< unat p + length cs} \<subseteq> {unat start ..< unat start + unat size'}
         \<and> {unat p ..< unat p + length cs} \<inter> header_bytes bs lv = {})
    \<and> sorted_wrt (\<lambda>(p, cs) (q, ds). {unat p ..< unat p + length cs} \<inter> {unat q ..< unat q + length ds} = {}) hs"
proof -
  let ?lo = "unat start" and ?hi = "unat start + unat size'"
  have "heap_inv ?lo ?hi h m []" using fresh_ok [OF assms(2-7,1)] by (auto simp: heap_inv_def)
  from hp.heap_isolation [OF this _ assms(8), of "[]"] obtain h' m' hs lv where
    run: "heap_run heap_alloc heap_dealloc ops h m [] = Done (h', m', hs)"
    and inv: "heap_inv ?lo ?hi h' m' lv" and ag: "list_all2 (agrees m') lv hs"
    by auto
  from inv obtain bs where ok: "heap_ok ?lo ?hi h' m' bs lv" by (auto simp: heap_inv_def)
  have "(\<forall>i < length cs. m' (p + of_nat i) = cs ! i) \<and> {unat p ..< unat p + length cs} \<subseteq> {?lo ..< ?hi}
      \<and> {unat p ..< unat p + length cs} \<inter> header_bytes bs lv = {}" if held: "(p, cs) \<in> set hs" for p cs
  proof -
    obtain j where j: "j < length hs" "hs ! j = (p, cs)" using held by (metis in_set_conv_nth)
    then have a: "agrees m' (lv ! j) (p, cs)" using ag by (metis list_all2_conv_all_nth)
    have "lv ! j \<in> set lv" using j(1) list_all2_lengthD [OF ag] by simp
    from live_data_placed [OF ok this] agrees_data(3) [OF a] show ?thesis unfolding agrees_data(1) [OF a] by blast
  qed
  moreover have "list_all2 (\<lambda>(a, s, q, n) (p, cs). p = of_nat q \<and> length cs = n) lv hs"
    by (rule list_all2_mono [OF ag]) (auto dest: agrees_data(2))
  moreover have "sorted_wrt (\<lambda>(p, cs) (q, ds). {unat p ..< unat p + length cs} \<inter> {unat q ..< unat q + length ds} = {}) hs"
    using agrees_disjoint [OF ag hp.apart [OF inv]] .
  ultimately show ?thesis using run ok by blast
qed

lemma sample_layouts:
  "layout_fits 0x401000 \<lparr>layout_size = 24, layout_align = 8\<rparr>"
  "layout_fits 0x401000 \<lparr>layout_size = 10, layout_align = 1\<rparr>"
  by (auto simp: layout_fits_def intro: exI [of _ 3] exI [of _ 0])

theorem heap_isolates_clients_witness:
  "\<exists>h' m' hs. heap_run heap_alloc heap_dealloc
     [HAlloc \<lparr>layout_size = 24, layout_align = 8\<rparr>, HAlloc \<lparr>layout_size = 10, layout_align = 1\<rparr>, HWrite 0 3 7, HFree 1]
     (fst (la_new (\<lambda>_. 0) 0x400000 0x1000)) (snd (la_new (\<lambda>_. 0) 0x400000 0x1000)) [] = Done (h', m', hs)
   \<and> list_all (\<lambda>(p, cs). {unat p ..< unat p + length cs} \<subseteq> {0x400000 ..< 0x401000}) hs"
  using heap_isolates_clients [of "\<lambda>_. 0" "0x400000" "0x1000" "fst (la_new (\<lambda>_. 0) 0x400000 0x1000)"
      "snd (la_new (\<lambda>_. 0) 0x400000 0x1000)"
      "[HAlloc \<lparr>layout_size = 24, layout_align = 8\<rparr>, HAlloc \<lparr>layout_size = 10, layout_align = 1\<rparr>, HWrite 0 3 7, HFree 1]"]
    sample_layouts by (auto simp: list_all_iff)

text \<open>C28: \<^verbatim>\<open>alloc\<close> is first fit.  On a consistent heap it returns null, changing nothing, exactly when no free
  block can hold the request.  Otherwise it takes the first block of the free list that can, and returns the
  least address aligned as asked that leaves room for the header.  When more than 16 bytes remain the block is split at
  the next word, and its rest takes its place in the list; otherwise it is handed out whole, and the list goes on
  with its successor: the free blocks in front of it are lost.  The heap stays consistent, and no byte outside
  the free blocks changes.\<close>

theorem alloc_correct:
  assumes ok: "heap_ok lo hi h m bs lv"
    and lay: "layout_align lay = 2 ^ k" "hi + 16 + 2 ^ k + unat (layout_size lay) < 4294967296"
    and n: "n = unat (layout_size lay)"
  shows "(heap_alloc h m lay = Done (0, h, m) \<and> (\<forall>(b, s) \<in> set bs. b + s < astart k b + n))
    \<or> (\<exists>pre b s post p h' m' bs' s'. bs = pre @ (b, s) # post
        \<and> (\<forall>(c, t) \<in> set pre. c + t < astart k c + n) \<and> astart k b + n \<le> b + s
        \<and> heap_alloc h m lay = Done (of_nat p, h', m') \<and> p = astart k b
        \<and> 2 ^ k dvd p \<and> b + 12 \<le> p \<and> p < b + 12 + 2 ^ k
        \<and> (bs', s') = (let t = (p + n + 3) div 4 * 4
             in if p + n + 16 < b + s then (pre @ (t, b + s - t) # post, t - b) else (post, s))
        \<and> p + n \<le> b + s' \<and> s' \<le> s \<and> heap_ok lo hi h' m' bs' ((b, s', p, n) # lv)
        \<and> (\<forall>x. unat x \<notin> blocks bs \<longrightarrow> m' x = m x))"
proof (cases "find_fit k n bs")
  case None
  then show ?thesis
    using heap_alloc_spec [OF ok lay n] find_fit_None [OF None] by (auto simp: alloc_result_def)
next
  case (Some r)
  obtain pre b s post where r: "r = (pre, (b, s), post)" by (metis prod.exhaust)
  have fit: "bs = pre @ (b, s) # post" "astart k b + n \<le> b + s" using find_fit_Some Some r by auto
  have pre: "\<forall>(c, t) \<in> set pre. c + t < astart k c + n" using find_fit_first Some r by blast
  let ?p = "astart k b"
  let ?t = "(?p + n + 3) div 4 * 4"
  define bs' s' where "bs' = (if ?p + n + 16 < b + s then pre @ (?t, b + s - ?t) # post else post)"
    and "s' = (if ?p + n + 16 < b + s then ?t - b else s)"
  have "alloc_result k n bs = Some (bs', (b, s', ?p, n))"
    using Some by (simp add: alloc_result_def r Let_def bs'_def s'_def)
  then obtain h' m' where h': "heap_alloc h m lay = Done (of_nat ?p, h', m')"
    "heap_ok lo hi h' m' bs' ((b, s', ?p, n) # lv)" "\<forall>x. unat x \<notin> blocks bs \<longrightarrow> m' x = m x"
    using heap_alloc_spec [OF ok lay n] by auto
  have "?p + n \<le> ?t" "?t \<le> ?p + n + 3" using round_up_4 [of "?p + n"] by simp_all
  then have size: "?p + n \<le> b + s'" "s' \<le> s" using fit astart_bounds(1) [of b k] by (auto simp: s'_def)
  have rest: "(bs', s') = (let t = ?t in if ?p + n + 16 < b + s then (pre @ (t, b + s - t) # post, t - b) else (post, s))"
    by (simp add: bs'_def s'_def Let_def)
  show ?thesis
    by (intro disjI2 exI [of _ pre] exI [of _ b] exI [of _ s] exI [of _ post] exI [of _ ?p] exI [of _ h'] exI [of _ m']
        exI [of _ bs'] exI [of _ s'] conjI refl fit pre h' size rest astart_bounds)
qed

lemma sample_fresh:
  "heap_ok 0x400000 0x401000 (fst (la_new (\<lambda>_. 0) 0x400000 0x1000)) (snd (la_new (\<lambda>_. 0) 0x400000 0x1000))
     [(0x400000, 0x1000)] []"
  using fresh_ok [of "0x400000" "0x1000" "\<lambda>_. 0"] by simp

theorem alloc_correct_witness:
  "\<exists>h' m'. heap_alloc (fst (la_new (\<lambda>_. 0) 0x400000 0x1000)) (snd (la_new (\<lambda>_. 0) 0x400000 0x1000))
     \<lparr>layout_size = 24, layout_align = 8\<rparr> = Done (0x400010, h', m')
   \<and> heap_ok 0x400000 0x401000 h' m' [(0x400028, 0xfd8)] [(0x400000, 0x28, 0x400010, 24)]"
proof -
  have a: "astart 3 0x400000 = 0x400010" by (simp add: astart_def)
  let ?h = "fst (la_new (\<lambda>_. 0) 0x400000 0x1000)" and ?m = "snd (la_new (\<lambda>_. 0) 0x400000 0x1000)"
  have lay: "layout_align \<lparr>layout_size = 24, layout_align = 8\<rparr> = 2 ^ 3"
    "0x401000 + 16 + 2 ^ 3 + unat (layout_size \<lparr>layout_size = 24, layout_align = 8\<rparr>) < 4294967296"
    "24 = unat (layout_size \<lparr>layout_size = 24, layout_align = 8\<rparr>)" by simp_all
  from alloc_correct [OF sample_fresh lay] show ?thesis
  proof (elim disjE exE conjE)
    fix pre b s post p h' m' bs' s'
    assume r: "[(0x400000, 0x1000)] = pre @ (b, s) # post" "p = astart 3 b"
      "heap_alloc ?h ?m \<lparr>layout_size = 24, layout_align = 8\<rparr> = Done (of_nat p, h', m')"
      "(bs', s') = (let t = (p + 24 + 3) div 4 * 4 in if p + 24 + 16 < b + s then (pre @ (t, b + s - t) # post, t - b) else (post, s))"
      "heap_ok 0x400000 0x401000 h' m' bs' [(b, s', p, 24)]"
    have e: "pre = []" "b = 0x400000" "s = 0x1000" "post = []" using r(1) by (auto simp: Cons_eq_append_conv)
    have p: "p = 0x400010" using r(2) a e(2) by simp
    have "bs' = [(0x400028, 0xfd8)]" "s' = 0x28" using r(4) by (simp_all add: e p Let_def)
    then show ?thesis using r(3,5) by (intro exI [of _ h'] exI [of _ m']) (simp add: e p)
  qed (use a in simp_all)
qed

text \<open>C29: \<^verbatim>\<open>dealloc\<close>.  Freeing a live allocation by its pointer succeeds, keeps the heap consistent
  and changes no byte outside the free blocks and the freed one; afterwards the free blocks cover
  exactly the old ones and the freed block, adjacent blocks being merged, unless the free list was
  empty: then the freed block is lost.\<close>

theorem dealloc_correct:
  assumes "heap_ok lo hi h m bs (l1 @ (a, s, p, n) # l2)"
  shows "\<exists>h' m' bs'. heap_dealloc h m (of_nat p) = Done (h', m') \<and> heap_ok lo hi h' m' bs' (l1 @ l2)
    \<and> (\<forall>x. unat x \<notin> {a ..< a + s} \<union> blocks bs \<longrightarrow> m' x = m x)
    \<and> blocks bs' = (if bs = [] then {} else {a ..< a + s} \<union> blocks bs)
    \<and> (\<forall>(b, t) \<in> set bs'. \<forall>(c, u) \<in> set bs'. b + t \<noteq> c)"
proof -
  have mem: "(a, s, p, n) \<in> set (l1 @ (a, s, p, n) # l2)" by simp
  note l = live_header [OF assms mem]
  have ch: "chain lo hi bs" using assms by (simp add: heap_ok_def)
  have ch2: "chain lo hi (ins (a, s) bs)" by (rule chain_ins [OF ch l(1-5,10)])
  have "blocks (join (ins (a, s) bs)) = {a ..< a + s} \<union> blocks bs"
    using blocks_join [OF ch2] by (simp only: blocks_ins block_def fst_conv snd_conv)
  moreover have "\<forall>(b, t) \<in> set (join (ins (a, s) bs)). \<forall>(c, u) \<in> set (join (ins (a, s) bs)). b + t \<noteq> c"
    by (rule join_no_adjacent [OF ch2])
  moreover obtain h' m' where "heap_dealloc h m (of_nat p) = Done (h', m')"
    "heap_ok lo hi h' m' (dealloc_result (a, s) bs) (l1 @ l2)"
    "\<forall>x. unat x \<notin> {a ..< a + s} \<union> blocks bs \<longrightarrow> m' x = m x"
    using heap_dealloc_spec [OF assms] by blast
  ultimately show ?thesis
    by (intro exI [of _ h'] exI [of _ m'] exI [of _ "dealloc_result (a, s) bs"])
      (simp add: dealloc_result_def blocks_def)
qed

lemma sample_one_live:
  "\<exists>h m. heap_ok 0x400000 0x401000 h m [(0x400028, 0xfd8)] [(0x400000, 40, 0x400010, 24)]"
proof -
  have "alloc_result 3 24 [(0x400000, 0x1000)] = Some ([(0x400028, 0xfd8)], (0x400000, 40, 0x400010, 24))"
    by (simp add: alloc_result_def astart_def Let_def)
  moreover have "layout_align \<lparr>layout_size = 24, layout_align = 8\<rparr> = 2 ^ 3"
    "0x401000 + 16 + 2 ^ 3 + unat (layout_size \<lparr>layout_size = 24, layout_align = 8\<rparr>) < 4294967296"
    "24 = unat (layout_size \<lparr>layout_size = 24, layout_align = 8\<rparr>)" by simp_all
  note heap_alloc_spec [OF sample_fresh this]
  ultimately show ?thesis by (simp only: option.case prod.case) blast
qed

theorem dealloc_correct_witness:
  "\<exists>h m h' m' bs'. heap_dealloc h m 0x400010 = Done (h', m') \<and> heap_ok 0x400000 0x401000 h' m' bs' []
     \<and> blocks bs' = {0x400000 ..< 0x401000}"
proof -
  obtain h m where ok: "heap_ok 0x400000 0x401000 h m [(0x400028, 0xfd8)] ([] @ (0x400000, 40, 0x400010, 24) # [])"
    using sample_one_live by auto
  have "{0x400000 ..< 0x400028} \<union> blocks [(0x400028, 0xfd8)] = {0x400000 ..< (0x401000 :: nat)}"
    by (auto simp: blocks_def block_def)
  then show ?thesis using dealloc_correct [OF ok] by auto
qed


definition two_blocks :: memory where
  "two_blocks = st (st (st (st (st (st (\<lambda>_. 0) 0x1000 MAGIC) 0x1004 16) 0x1008 0x1020) 0x1020 MAGIC) 0x1024 36) 0x1028 0"

lemma two_blocks_ok:
  "heap_ok 0x1000 0x1100 \<lparr>la_start = 0x1000, la_size = 0x100, first_free = 0x1000\<rparr> two_blocks
     [(0x1000, 16), (0x1020, 36)] []"
proof -
  have "ld two_blocks 0x1000 = MAGIC" "ld two_blocks 0x1004 = 16" "ld two_blocks 0x1008 = 0x1020"
    "ld two_blocks 0x1020 = MAGIC" "ld two_blocks 0x1024 = 36" "ld two_blocks 0x1028 = 0"
    by (simp_all add: two_blocks_def ld_st)
  then show ?thesis by (simp add: heap_ok_def bounds_def)
qed


text \<open>Growing the heap.  With at least one free block, \<^verbatim>\<open>expand_size\<close> appends the new space to the
  free list and merges it with a free block it touches; the heap stays consistent over the larger
  range and live allocations are untouched.\<close>

theorem expand_size_correct:
  assumes "heap_ok lo hi h m bs lv" "bs \<noteq> []"
    and "unat size' = unat (la_size h) + g" "4 dvd hi" "4 dvd g" "12 \<le> g" "bounds lo (hi + g)"
  shows "\<exists>m' bs'. expand_size h m size' = Done (h\<lparr>la_size := size'\<rparr>, m')
    \<and> heap_ok lo (hi + g) (h\<lparr>la_size := size'\<rparr>) m' bs' lv \<and> blocks bs' = blocks bs \<union> {hi ..< hi + g}"
proof -
  have ch: "chain lo (hi + g) (bs @ [(hi, g)])"
    using chain_extend assms(1,4-6) unfolding heap_ok_def by blast
  have "blocks (join (bs @ [(hi, g)])) = blocks bs \<union> {hi ..< hi + g}"
    using blocks_join [OF ch] by (auto simp: blocks_def block_def)
  then show ?thesis using expand_size_spec [OF assms] by blast
qed

theorem expand_size_correct_witness:
  "\<exists>m' bs'. expand_size \<lparr>la_start = 0x1000, la_size = 0x100, first_free = 0x1000\<rparr> two_blocks 0x200
      = Done (\<lparr>la_start = 0x1000, la_size = 0x200, first_free = 0x1000\<rparr>, m')
    \<and> blocks bs' = blocks [(0x1000, 16), (0x1020, 36)] \<union> {0x1100 ..< 0x1200}"
  using expand_size_correct [OF two_blocks_ok, of "0x200" "0x100"] by (auto simp: bounds_def)

end
