(* ===== verification/Files.thy ===== *)
theory Files
  imports Collections
begin

text \<open>
  File handles and positions: \<^verbatim>\<open>files/handle.rs\<close> (handle types, the handle allocator and
  the per-process handle map), \<^verbatim>\<open>files/cursor.rs\<close> (seeking), \<^verbatim>\<open>files/filename.rs\<close> (splitting
  a path at the drive separator), \<^verbatim>\<open>files/ioctl.rs\<close> and \<^verbatim>\<open>files/stat.rs\<close> (file locations
  with a saturating offset).

  The handle map is shown to be a finite map that hands out the least free number below
  4096, and the bit tests of \<^verbatim>\<open>FileLocation::offset\<close> to compute a clamped sum.
\<close>

section \<open>Handles\<close>

datatype local_handle = LocalHandle u32
datatype file_handle = FileHandle u32

fun lh_u32 :: "local_handle \<Rightarrow> u32" where
  "lh_u32 (LocalHandle h) = h"

fun fh_u32 :: "file_handle \<Rightarrow> u32" where
  "fh_u32 (FileHandle h) = h"

text \<open>\<^verbatim>\<open>impl Ord for LocalHandle\<close>: the order of the numbers, used as the key order of B-tree maps.\<close>

datatype ordering = Less | Equal | Greater

definition lh_cmp :: "local_handle \<Rightarrow> local_handle \<Rightarrow> ordering" where
  "lh_cmp a b = (if lh_u32 a < lh_u32 b then Less else if lh_u32 a = lh_u32 b then Equal else Greater)"

lemma lh_cmp_iff:
  "lh_cmp a b = Less \<longleftrightarrow> lh_u32 a < lh_u32 b"
  "lh_cmp a b = Greater \<longleftrightarrow> lh_u32 b < lh_u32 a"
  by (auto simp: lh_cmp_def)

instantiation local_handle :: linorder
begin

definition less_eq_local_handle :: "local_handle \<Rightarrow> local_handle \<Rightarrow> bool" where
  "less_eq_local_handle a b \<longleftrightarrow> lh_cmp a b \<noteq> Greater"

definition less_local_handle :: "local_handle \<Rightarrow> local_handle \<Rightarrow> bool" where
  "less_local_handle a b \<longleftrightarrow> lh_cmp a b = Less"

instance
proof
  fix x y z :: local_handle
  show "x \<le> y \<Longrightarrow> y \<le> x \<Longrightarrow> x = y"
    by (cases x; cases y) (simp add: less_eq_local_handle_def lh_cmp_iff)
qed (auto simp: less_eq_local_handle_def less_local_handle_def lh_cmp_iff)

end

record handle_allocator =
  next_id :: u32

definition handle_allocator_new :: handle_allocator where
  "handle_allocator_new = \<lparr>next_id = 1\<rparr>"

text \<open>\<^verbatim>\<open>get_next\<close> fetches and increments; the counter is a 32-bit atomic that wraps.\<close>

definition ha_get_next :: "handle_allocator \<Rightarrow> u32 \<times> handle_allocator" where
  "ha_get_next a = (next_id a, a\<lparr>next_id := next_id a + 1\<rparr>)"

datatype drive_handle_pair = DriveHandlePair usize local_handle

definition MAX_OPEN_FILES :: nat where "MAX_OPEN_FILES = 4096"

record file_handle_map =
  fhm_map :: "drive_handle_pair option list"

definition fhm_new :: file_handle_map where
  "fhm_new = \<lparr>fhm_map = []\<rparr>"

definition get_next_available_handle :: "file_handle_map \<Rightarrow> file_handle option \<times> file_handle_map" where
  "get_next_available_handle f =
     (case first_none (fhm_map f) 0 of
        Some index \<Rightarrow> (Some (FileHandle (of_nat index)), f)
      | None \<Rightarrow> if length (fhm_map f) < MAX_OPEN_FILES
                then (Some (FileHandle (of_nat (length (fhm_map f)))), f\<lparr>fhm_map := fhm_map f @ [None]\<rparr>)
                else (None, f))"

text \<open>The \<^verbatim>\<open>while\<close> loop pads the vector with \<^verbatim>\<open>None\<close> until the handle is an index of it.\<close>

definition set_handle_directly ::
  "file_handle_map \<Rightarrow> file_handle \<Rightarrow> usize \<Rightarrow> local_handle \<Rightarrow> drive_handle_pair option \<times> file_handle_map" where
  "set_handle_directly f handle drive local =
     (let pair = DriveHandlePair drive local;
          i = unat (fh_u32 handle);
          padded = fhm_map f @ replicate (Suc i - length (fhm_map f)) None
      in (padded ! i, f\<lparr>fhm_map := padded[i := Some pair]\<rparr>))"

definition open_handle :: "file_handle_map \<Rightarrow> usize \<Rightarrow> local_handle \<Rightarrow> file_handle option \<times> file_handle_map" where
  "open_handle f drive local =
     (case get_next_available_handle f of
        (None, f) \<Rightarrow> (None, f)
      | (Some handle, f) \<Rightarrow> (Some handle, snd (set_handle_directly f handle drive local)))"

definition get_drive_and_handle :: "file_handle_map \<Rightarrow> file_handle \<Rightarrow> drive_handle_pair option" where
  "get_drive_and_handle f handle =
     (case nth_opt (fhm_map f) (unat (fh_u32 handle)) of Some pair \<Rightarrow> pair | None \<Rightarrow> None)"

definition close_handle :: "file_handle_map \<Rightarrow> file_handle \<Rightarrow> drive_handle_pair option \<times> file_handle_map" where
  "close_handle f handle =
     (case nth_opt (fhm_map f) (unat (fh_u32 handle)) of
        Some prev \<Rightarrow> (prev, f\<lparr>fhm_map := (fhm_map f)[unat (fh_u32 handle) := None]\<rparr>)
      | None \<Rightarrow> (None, f))"

definition references_drive_and_handle :: "file_handle_map \<Rightarrow> usize \<Rightarrow> local_handle \<Rightarrow> bool" where
  "references_drive_and_handle f drive local =
     list_ex (\<lambda>item. case item of Some pair \<Rightarrow> pair = DriveHandlePair drive local | None \<Rightarrow> False) (fhm_map f)"

text \<open>The iterator over the open handles, run to its end from position \<open>cur\<close>.\<close>

fun fhm_iter_from :: "drive_handle_pair option list \<Rightarrow> nat \<Rightarrow> (file_handle \<times> drive_handle_pair) list" where
  "fhm_iter_from [] cur = []"
| "fhm_iter_from (item # items) cur =
     (case item of Some pair \<Rightarrow> (FileHandle (of_nat cur), pair) # fhm_iter_from items (Suc cur)
      | None \<Rightarrow> fhm_iter_from items (Suc cur))"

definition fhm_iter :: "file_handle_map \<Rightarrow> (file_handle \<times> drive_handle_pair) list" where
  "fhm_iter f = fhm_iter_from (fhm_map f) 0"

section \<open>Positions\<close>

datatype seek_method = Absolute usize | Relative "32 word"

text \<open>\<^verbatim>\<open>isize::saturating_add\<close> on 32 bits.\<close>

definition saturating_add_signed :: "usize \<Rightarrow> usize \<Rightarrow> usize" where
  "saturating_add_signed a b =
     (let s = sint a + sint b
      in if s > 0x7fffffff then 0x7fffffff else if s < - 0x80000000 then 0x80000000 else word_of_int s)"

fun from_current_position :: "seek_method \<Rightarrow> usize \<Rightarrow> usize" where
  "from_current_position (Absolute pos) current = pos"
| "from_current_position (Relative off) current = saturating_add_signed current off"

datatype file_location = FileLocation u32

fun floc_u32 :: "file_location \<Rightarrow> u32" where
  "floc_u32 (FileLocation l) = l"

definition floc_offset :: "file_location \<Rightarrow> 32 word \<Rightarrow> file_location" where
  "floc_offset l udelta =
     (let sum = floc_u32 l + udelta
      in FileLocation
          (if (floc_u32 l XOR udelta) AND 0x80000000 \<noteq> 0
           then if (sum XOR udelta) AND 0x80000000 = 0
                then if sum AND 0x80000000 = 0 then 0xffffffff else 0
                else sum
           else sum))"

section \<open>Paths\<close>

text \<open>
  \<^verbatim>\<open>raw.splitn(2, ':')\<close> yields the text before the first colon and, if there is a colon,
  the text behind it; the first item always exists.
\<close>

fun split_colon :: "string \<Rightarrow> string \<times> string option" where
  "split_colon [] = ([], None)"
| "split_colon (c # cs) =
     (if c = CHR '':'' then ([], Some cs)
      else case split_colon cs of (d, p) \<Rightarrow> (c # d, p))"

definition string_to_drive_and_path :: "string \<Rightarrow> string \<times> string" where
  "string_to_drive_and_path raw =
     (case split_colon raw of
        (drive, None) \<Rightarrow> ([], drive)
      | (drive, Some p) \<Rightarrow> (drive, p))"

definition FIONREAD :: u32 where
  "FIONREAD = 0x40000000 OR push_bit 16 4 OR push_bit 6 0x66 OR 0xff"

section \<open>The handle map as a finite map\<close>

definition fhm_ok :: "file_handle_map \<Rightarrow> bool" where
  "fhm_ok f \<longleftrightarrow> length (fhm_map f) < 4294967296"

lemma unat_handle:
  assumes "i < 4294967296"
  shows "unat (fh_u32 (FileHandle (of_nat i))) = i"
  using assms by (simp add: unat_of_nat32)

lemma fh_eq_iff: "(h = k) = (unat (fh_u32 h) = unat (fh_u32 k))"
  by (cases h; cases k) (simp add: word_unat_eq_iff)

lemma set_handle_directly_spec:
  assumes "set_handle_directly f h d l = (prev, f')"
  shows "prev = get_drive_and_handle f h"
    and "get_drive_and_handle f' k = (if k = h then Some (DriveHandlePair d l) else get_drive_and_handle f k)"
    and "length (fhm_map f') = max (length (fhm_map f)) (Suc (unat (fh_u32 h)))"
  using assms
  by (auto simp: set_handle_directly_def Let_def get_drive_and_handle_def nth_opt_def nth_append
      nth_list_update fh_eq_iff)

definition fresh_handle :: "file_handle_map \<Rightarrow> file_handle \<Rightarrow> bool" where
  "fresh_handle f h \<longleftrightarrow> get_drive_and_handle f h = None \<and> unat (fh_u32 h) < max 4096 (length (fhm_map f))
     \<and> (\<forall>k. unat (fh_u32 k) < unat (fh_u32 h) \<longrightarrow> get_drive_and_handle f k \<noteq> None)"

lemma fresh_handleI:
  assumes "i \<le> length (fhm_map f)" "i < length (fhm_map f) \<Longrightarrow> fhm_map f ! i = None"
    and "\<And>k. k < i \<Longrightarrow> fhm_map f ! k \<noteq> None" "i < max 4096 (length (fhm_map f))" "fhm_ok f"
  shows "fresh_handle f (FileHandle (of_nat i))"
proof -
  have i: "unat (fh_u32 (FileHandle (of_nat i))) = i"
    using assms(1,5) by (intro unat_handle) (simp add: fhm_ok_def)
  have "get_drive_and_handle f (FileHandle (of_nat i)) = None"
    unfolding get_drive_and_handle_def i using assms(2) by (simp add: nth_opt_def)
  moreover have "get_drive_and_handle f k \<noteq> None" if "unat (fh_u32 k) < i" for k
    using that assms(1,3) by (simp add: get_drive_and_handle_def nth_opt_def)
  ultimately show ?thesis unfolding fresh_handle_def i using assms(4) by blast
qed

lemma get_next_available_handle_spec:
  assumes "get_next_available_handle f = (r, f')" "fhm_ok f"
  shows "\<And>k. get_drive_and_handle f' k = get_drive_and_handle f k" "fhm_ok f'"
    and "length (fhm_map f') \<le> max 4096 (length (fhm_map f))"
    and "\<And>h. r = Some h \<Longrightarrow> fresh_handle f h"
    and "r = None \<Longrightarrow> 4096 \<le> length (fhm_map f) \<and> None \<notin> set (fhm_map f) \<and> f' = f"
proof -
  note eq = assms(1) [unfolded get_next_available_handle_def MAX_OPEN_FILES_def]
  have "(\<forall>k. get_drive_and_handle f' k = get_drive_and_handle f k) \<and> fhm_ok f'
    \<and> length (fhm_map f') \<le> max 4096 (length (fhm_map f)) \<and> (\<forall>h. r = Some h \<longrightarrow> fresh_handle f h)
    \<and> (r = None \<longrightarrow> 4096 \<le> length (fhm_map f) \<and> None \<notin> set (fhm_map f) \<and> f' = f)"
  proof (cases "first_none (fhm_map f) 0")
    case (Some i)
    note n = first_none_0 [OF Some]
    have "fresh_handle f (FileHandle (of_nat i))"
      using n assms(2) by (intro fresh_handleI) simp_all
    moreover have "r = Some (FileHandle (of_nat i))" "f' = f" using eq Some by simp_all
    ultimately show ?thesis using assms(2) by simp
  next
    case None
    then have full: "None \<notin> set (fhm_map f)" by (simp add: first_none_None_iff)
    show ?thesis
    proof (cases "length (fhm_map f) < 4096")
      case True
      have "fresh_handle f (FileHandle (of_nat (length (fhm_map f))))"
        using full True assms(2) by (intro fresh_handleI) (simp_all add: in_set_conv_nth)
      moreover have "r = Some (FileHandle (of_nat (length (fhm_map f))))"
        "f' = f\<lparr>fhm_map := fhm_map f @ [None]\<rparr>" using eq None True by simp_all
      ultimately show ?thesis using True
        by (simp add: get_drive_and_handle_def nth_opt_def nth_append fhm_ok_def)
    next
      case False
      then show ?thesis using eq None full assms(2) by simp
    qed
  qed
  then show "\<And>k. get_drive_and_handle f' k = get_drive_and_handle f k" "fhm_ok f'"
    and "length (fhm_map f') \<le> max 4096 (length (fhm_map f))"
    and "\<And>h. r = Some h \<Longrightarrow> fresh_handle f h"
    and "r = None \<Longrightarrow> 4096 \<le> length (fhm_map f) \<and> None \<notin> set (fhm_map f) \<and> f' = f"
    by blast+
qed

lemma open_handle_Some:
  assumes "open_handle f d l = (Some h, f')" "fhm_ok f"
  shows "get_drive_and_handle f h = None"
    and "unat (fh_u32 k) < unat (fh_u32 h) \<Longrightarrow> get_drive_and_handle f k \<noteq> None"
    and "get_drive_and_handle f' k = (if k = h then Some (DriveHandlePair d l) else get_drive_and_handle f k)"
    and "length (fhm_map f') \<le> max 4096 (length (fhm_map f))"
proof -
  obtain g where g: "get_next_available_handle f = (Some h, g)"
    "f' = snd (set_handle_directly g h d l)"
    using assms(1) by (auto simp: open_handle_def split: prod.splits option.splits)
  note n = get_next_available_handle_spec [OF g(1) assms(2)]
  obtain p where p: "set_handle_directly g h d l = (p, f')"
    using g(2) by (metis prod.collapse)
  note s = set_handle_directly_spec [OF p]
  have fresh: "fresh_handle f h" using n(4) by simp
  show "get_drive_and_handle f h = None"
    and "unat (fh_u32 k) < unat (fh_u32 h) \<Longrightarrow> get_drive_and_handle f k \<noteq> None"
    using fresh by (simp_all add: fresh_handle_def)
  show "get_drive_and_handle f' k = (if k = h then Some (DriveHandlePair d l) else get_drive_and_handle f k)"
    using n(1) s(2) by simp
  show "length (fhm_map f') \<le> max 4096 (length (fhm_map f))"
    using n(3) s(3) fresh by (simp add: fresh_handle_def)
qed

lemma open_handle_None:
  assumes "open_handle f d l = (None, f')" "fhm_ok f"
  shows "f' = f" "4096 \<le> length (fhm_map f)" "None \<notin> set (fhm_map f)"
proof -
  have "get_next_available_handle f = (None, f')"
    using assms(1) by (auto simp: open_handle_def split: prod.splits option.splits)
  from get_next_available_handle_spec(5) [OF this assms(2)]
  show "f' = f" "4096 \<le> length (fhm_map f)" "None \<notin> set (fhm_map f)" by simp_all
qed

lemma close_handle_spec:
  "fst (close_handle f h) = get_drive_and_handle f h"
  "get_drive_and_handle (snd (close_handle f h)) k = (if k = h then None else get_drive_and_handle f k)"
  "length (fhm_map (snd (close_handle f h))) = length (fhm_map f)"
  by (auto simp: close_handle_def get_drive_and_handle_def nth_opt_def fh_eq_iff split: option.splits)

lemma references_iff:
  assumes "fhm_ok f"
  shows "references_drive_and_handle f d l \<longleftrightarrow> (\<exists>h. get_drive_and_handle f h = Some (DriveHandlePair d l))"
proof
  assume "references_drive_and_handle f d l"
  then obtain i where i: "i < length (fhm_map f)" "fhm_map f ! i = Some (DriveHandlePair d l)"
    by (auto simp: references_drive_and_handle_def list_ex_iff in_set_conv_nth split: option.splits)
  then have "get_drive_and_handle f (FileHandle (of_nat i)) = Some (DriveHandlePair d l)"
    using assms by (simp add: get_drive_and_handle_def nth_opt_def unat_of_nat32 fhm_ok_def)
  then show "\<exists>h. get_drive_and_handle f h = Some (DriveHandlePair d l)" ..
next
  assume "\<exists>h. get_drive_and_handle f h = Some (DriveHandlePair d l)"
  then obtain i where "i < length (fhm_map f)" "fhm_map f ! i = Some (DriveHandlePair d l)"
    by (auto simp: get_drive_and_handle_def nth_opt_def split: if_splits)
  then have "Some (DriveHandlePair d l) \<in> set (fhm_map f)" by (metis nth_mem)
  then show "references_drive_and_handle f d l"
    unfolding references_drive_and_handle_def list_ex_iff by (intro bexI) simp_all
qed

lemma fhm_iter_from_mem:
  assumes "cur + length items < 4294967296"
  shows "(h, p) \<in> set (fhm_iter_from items cur)
    \<longleftrightarrow> cur \<le> unat (fh_u32 h) \<and> unat (fh_u32 h) < cur + length items \<and> items ! (unat (fh_u32 h) - cur) = Some p"
  using assms
proof (induction items cur rule: fhm_iter_from.induct)
  case (2 item items cur)
  have cur: "h = FileHandle (of_nat cur) \<longleftrightarrow> unat (fh_u32 h) = cur"
    using 2 by (simp add: fh_eq_iff unat_of_nat32)
  consider "unat (fh_u32 h) < cur" | "unat (fh_u32 h) = cur" | "Suc cur \<le> unat (fh_u32 h)" by linarith
  then show ?case
    using 2 cur by cases (auto split: option.splits simp: nth_Cons' Suc_diff_le)
qed simp

section \<open>Saturating offsets\<close>

lemma sint_cases:
  fixes w :: "32 word"
  shows "sint w = (if uint w < 2147483648 then uint w else uint w - 4294967296)"
proof -
  have "0 \<le> uint w" "uint w < 4294967296" using uint_lt2p [of w] by simp_all
  moreover have "(uint w + 2147483648) mod 4294967296 = uint w - 2147483648" if "2147483648 \<le> uint w"
    using mod_add_self2 [of "uint w - 2147483648" 4294967296] calculation that
    by (simp add: mod_pos_pos_trivial add.commute)
  ultimately show ?thesis
    by (auto simp: sint_uint signed_take_bit_eq_take_bit_shift take_bit_eq_mod)
qed
lemma top_bit:
  fixes x :: "32 word"
  shows "(x AND 0x80000000 = 0) \<longleftrightarrow> uint x < 2147483648"
proof -
  have "(x AND 0x80000000 = 0) \<longleftrightarrow> \<not> bit x 31"
    using and_bit_eq_0 [of x 31] by simp
  then show ?thesis using bit_last_iff [of x] sint_cases [of x] uint_lt2p [of x] by auto
qed

lemma uint_add_wrap:
  fixes x y :: "32 word"
  shows "uint (x + y) = (if uint x + uint y < 4294967296 then uint x + uint y else uint x + uint y - 4294967296)"
  using uint_plus_if_size [of x y] by (simp add: word_size)

lemma xor_top_bit:
  fixes x y :: "32 word"
  shows "((x XOR y) AND 0x80000000 = 0) = ((uint x < 2147483648) = (uint y < 2147483648))"
proof -
  have "(z AND 0x80000000 = 0) = (\<not> bit z 31)" for z :: "32 word"
    using and_bit_eq_0 [of z 31] by simp
  then show ?thesis unfolding top_bit [symmetric] by (auto simp: bit_xor_iff)
qed

lemma split_colon_eq:
  "split_colon raw = (takeWhile (\<lambda>c. c \<noteq> CHR '':'') raw,
     if CHR '':'' \<in> set raw then Some (tl (dropWhile (\<lambda>c. c \<noteq> CHR '':'') raw)) else None)"
  by (induction raw) auto

lemma drive_path_roundtrip:
  assumes "CHR '':'' \<notin> set d"
  shows "string_to_drive_and_path (d @ CHR '':'' # p) = (d, p)" "string_to_drive_and_path d = ([], d)"
proof -
  have "takeWhile (\<lambda>c. c \<noteq> CHR '':'') (d @ CHR '':'' # p) = d"
    "dropWhile (\<lambda>c. c \<noteq> CHR '':'') (d @ CHR '':'' # p) = CHR '':'' # p"
    "takeWhile (\<lambda>c. c \<noteq> CHR '':'') d = d"
    using assms by (auto simp: takeWhile_append dropWhile_append takeWhile_eq_all_conv)
  then show "string_to_drive_and_path (d @ CHR '':'' # p) = (d, p)" "string_to_drive_and_path d = ([], d)"
    using assms by (simp_all add: string_to_drive_and_path_def split_colon_eq)
qed

section \<open>Properties\<close>

text \<open>C35: the handle map of a process is a finite map that chooses its own keys.  Opening fails only
  when 4096 handles are in use and then changes nothing; otherwise it returns the least handle not
  in use and adds that entry only.  Closing returns and clears one entry, so closing what was opened
  restores the map.\<close>

theorem handle_map_correct:
  assumes "fhm_ok f" "open_handle f drive local = (r, f')"
  shows "(case r of
            None \<Rightarrow> f' = f \<and> 4096 \<le> length (fhm_map f) \<and> None \<notin> set (fhm_map f)
          | Some h \<Rightarrow> get_drive_and_handle f h = None
              \<and> (\<forall>k. unat (fh_u32 k) < unat (fh_u32 h) \<longrightarrow> get_drive_and_handle f k \<noteq> None)
              \<and> (\<forall>k. get_drive_and_handle f' k =
                     (if k = h then Some (DriveHandlePair drive local) else get_drive_and_handle f k))
              \<and> length (fhm_map f') \<le> max 4096 (length (fhm_map f))
              \<and> references_drive_and_handle f' drive local
              \<and> fst (close_handle f' h) = Some (DriveHandlePair drive local)
              \<and> (\<forall>k. get_drive_and_handle (snd (close_handle f' h)) k = get_drive_and_handle f k))"
proof (cases r)
  case None
  show ?thesis using open_handle_None [OF assms(2) [unfolded None] assms(1)] None by simp
next
  case (Some h)
  note o = open_handle_Some [OF assms(2) [unfolded Some] assms(1)]
  have "fhm_ok f'" using o(4) assms(1) by (simp add: fhm_ok_def)
  then have "references_drive_and_handle f' drive local" using o(3) by (auto simp: references_iff)
  then show ?thesis using o by (simp add: Some close_handle_spec)
qed

theorem handle_map_correct_witness:
  "fst (open_handle \<lparr>fhm_map = [Some (DriveHandlePair 2 (LocalHandle 9)), None, Some (DriveHandlePair 0 (LocalHandle 1))]\<rparr>
      3 (LocalHandle 5)) = Some (FileHandle 1)
   \<and> get_drive_and_handle \<lparr>fhm_map = [Some (DriveHandlePair 2 (LocalHandle 9)), None, Some (DriveHandlePair 0 (LocalHandle 1))]\<rparr>
      (FileHandle 1) = None"
proof -
  let ?f = "\<lparr>fhm_map = [Some (DriveHandlePair 2 (LocalHandle 9)), None, Some (DriveHandlePair 0 (LocalHandle 1))]\<rparr>"
  have run: "open_handle ?f 3 (LocalHandle 5) = (Some (FileHandle 1),
      \<lparr>fhm_map = [Some (DriveHandlePair 2 (LocalHandle 9)), Some (DriveHandlePair 3 (LocalHandle 5)),
                Some (DriveHandlePair 0 (LocalHandle 1))]\<rparr>)"
    by code_simp
  have ok: "fhm_ok ?f" by (simp add: fhm_ok_def)
  show ?thesis using handle_map_correct [OF ok run] run by simp
qed

text \<open>The sign tests of \<^verbatim>\<open>FileLocation::offset\<close> compute the sum of an unsigned position and a
  signed distance, clamped to the positions a 32-bit location can hold.\<close>

theorem file_location_saturates:
  "uint (floc_u32 (floc_offset l delta)) = max 0 (min 4294967295 (uint (floc_u32 l) + sint delta))"
proof -
  obtain a where a: "uint (floc_u32 l) = a" "0 \<le> a" "a < 4294967296"
    using uint_lt2p [of "floc_u32 l"] by simp
  obtain d where d: "uint delta = d" "0 \<le> d" "d < 4294967296"
    using uint_lt2p [of delta] by simp
  show ?thesis
    unfolding floc_offset_def Let_def floc_u32.simps unfolding xor_top_bit unfolding top_bit sint_cases
    using a d by (auto simp: uint_add_wrap max_def min_def)
qed

text \<open>A relative seek.  Below the 2 GiB mark a seek whose target stays between 0 and 2 GiB lands
  exactly there and one that passes 2 GiB stops at the last position below; but a seek to before
  the start of the file is not clamped at 0: it yields a position of 2 GiB or more.\<close>

theorem relative_seek_correct:
  assumes "uint current < 2147483648"
  shows "uint (from_current_position (Relative off) current) =
    (if uint current + sint off < 0 then uint current + sint off + 4294967296
     else if 2147483648 \<le> uint current + sint off then 2147483647
     else uint current + sint off)"
proof -
  obtain s where s: "sint current + sint off = s" "uint current + sint off = s"
    using assms by (simp add: sint_cases)
  have "- 2147483648 \<le> sint off" using sint_ge [of off] by simp
  then have lo: "- 2147483648 \<le> s" using s(2) uint_ge_0 [of current] by linarith
  have "from_current_position (Relative off) current = (if 2147483647 < s then 0x7fffffff else word_of_int s)"
    using lo unfolding from_current_position.simps saturating_add_signed_def s(1) Let_def by simp
  moreover have "uint (word_of_int s :: usize) = (if s < 0 then s + 4294967296 else s)" if "s < 2147483648"
  proof (cases "s < 0")
    case True
    have "s mod 4294967296 = (s + 4294967296) mod 4294967296" by (rule mod_add_self2 [symmetric])
    also have "\<dots> = s + 4294967296" using True lo by (intro mod_pos_pos_trivial) linarith+
    finally show ?thesis using True by (simp add: uint_word_of_int)
  next
    case False
    then show ?thesis using that by (simp add: uint_word_of_int mod_pos_pos_trivial)
  qed
  ultimately show ?thesis unfolding s(2) by simp
qed

theorem relative_seek_correct_witness:
  "uint (from_current_position (Relative (- 5)) 3) = 4294967294
   \<and> uint (from_current_position (Relative 7) 3) = 10"
  using relative_seek_correct [of 3 "- 5"] relative_seek_correct [of 3 7] by simp

end
