(* ===== verification/Regions.thy ===== *)
theory Regions
  imports Files FrameAlloc
begin

text \<open>
  Virtual memory regions (\<^verbatim>\<open>memory/virt/region.rs\<close>) and the parts of \<^verbatim>\<open>process/memory.rs\<close>
  that do not touch page tables: the kernel heap region, the regions of a process, the program
  break, and memory mappings, including the contiguous ones for DMA.

  A process's regions are a record; the two global variables \<^verbatim>\<open>KERNEL_HEAP\<close> and
  \<^verbatim>\<open>KERNEL_MEMMAP\<close> form a second one.  Shown here: the region of the program heap always covers
  every byte below the break, and the regions for kernel DMA buffers never overlap.
\<close>

section \<open>Regions\<close>

datatype expansion_direction = Before | After | NoExpansion

datatype memory_region_type =
    MemMapped usize local_handle usize
  | Direct frame_range
  | Anonymous expansion_direction
  | DMA frame_range

datatype permissions = ReadOnly | ReadWrite | CopyOnWrite

record region =
  rg_start :: virtual_address
  rg_size :: usize
  backed_by :: memory_region_type
  rg_permissions :: permissions

definition region_new :: "virtual_address \<Rightarrow> usize \<Rightarrow> memory_region_type \<Rightarrow> permissions \<Rightarrow> region" where
  "region_new start sz backed perms =
     \<lparr>rg_start = start, rg_size = sz, backed_by = backed, rg_permissions = perms\<rparr>"

definition region_empty :: region where
  "region_empty = \<lparr>rg_start = VirtualAddress 0, rg_size = 0, backed_by = Anonymous NoExpansion,
     rg_permissions = ReadOnly\<rparr>"

definition region_contains :: "region \<Rightarrow> virtual_address \<Rightarrow> bool" where
  "region_contains r addr \<longleftrightarrow>
     va_usize addr \<ge> va_usize (rg_start r) \<and> va_usize addr < va_usize (rg_start r) + rg_size r"

definition region_expand :: "region \<Rightarrow> usize \<Rightarrow> usize \<times> region" where
  "region_expand r new_frame_count =
     (let expansion_size = new_frame_count * 0x1000;
          r' = (case backed_by r of
                  Anonymous After \<Rightarrow> r\<lparr>rg_size := rg_size r + expansion_size\<rparr>
                | Anonymous Before \<Rightarrow>
                    if va_usize (rg_start r) \<ge> expansion_size
                    then r\<lparr>rg_start := VirtualAddress (va_usize (rg_start r) - expansion_size),
                           rg_size := rg_size r + expansion_size\<rparr>
                    else r
                | _ \<Rightarrow> r)
      in (rg_size r', r'))"

definition copy_with_permissions :: "region \<Rightarrow> permissions \<Rightarrow> region" where
  "copy_with_permissions r perms =
     \<lparr>rg_start = rg_start r, rg_size = rg_size r, backed_by = backed_by r, rg_permissions = perms\<rparr>"

definition copy_for_new_process :: "region \<Rightarrow> region" where
  "copy_for_new_process r = copy_with_permissions r (rg_permissions r)"

text \<open>\<^verbatim>\<open>Ord\<close> and \<^verbatim>\<open>PartialEq\<close> of a region compare the starting addresses only.\<close>

definition region_cmp :: "region \<Rightarrow> region \<Rightarrow> int" where
  "region_cmp r r' =
     (let a = va_usize (rg_start r); b = va_usize (rg_start r') in if a < b then - 1 else if a = b then 0 else 1)"

section \<open>Kernel-wide regions\<close>

definition STACK_START :: usize where "STACK_START = 0xffbf0000"
definition STACK_SIZE :: usize where "STACK_SIZE = 0xffbff000 - STACK_START"
definition INITIAL_HEAP_SIZE :: usize where "INITIAL_HEAP_SIZE = 64"

record kernel_regions =
  KERNEL_HEAP :: region
  KERNEL_MEMMAP :: "region list"

definition kernel_regions_initial :: kernel_regions where
  "kernel_regions_initial =
     \<lparr>KERNEL_HEAP = region_new (VirtualAddress 0) (INITIAL_HEAP_SIZE * 0x1000) (Anonymous After) ReadOnly,
      KERNEL_MEMMAP = []\<rparr>"

definition expand_kernel_heap :: "kernel_regions \<Rightarrow> usize \<Rightarrow> usize \<times> kernel_regions" where
  "expand_kernel_heap k min_space_needed =
     (let frames_needed = min_space_needed div 0x1000;
          frames_needed = (if frames_needed < INITIAL_HEAP_SIZE then INITIAL_HEAP_SIZE else frames_needed);
          (new_size, heap) = region_expand (KERNEL_HEAP k) frames_needed
      in (new_size, k\<lparr>KERNEL_HEAP := heap\<rparr>))"

section \<open>The regions of a process\<close>

record memory_regions =
  kernel_stack_region :: region
  kernel_exec_region :: region
  heap_region :: region
  stack_region :: region
  execution_regions :: "region list"

definition regions_initial :: "virtual_address \<Rightarrow> kernel_regions \<Rightarrow> memory_regions \<times> kernel_regions" where
  "regions_initial heap_start k =
     (\<lparr>kernel_stack_region = region_new (VirtualAddress STACK_START) STACK_SIZE (Anonymous NoExpansion) ReadWrite,
       kernel_exec_region = region_new (VirtualAddress 0xc0000000) 0x400000 (Anonymous NoExpansion) CopyOnWrite,
       heap_region = region_empty,
       stack_region = region_new (VirtualAddress (0xc0000000 - 0x2000)) 0x2000 (Anonymous Before) ReadWrite,
       execution_regions = [region_new (VirtualAddress 0) 0x400000 (Anonymous NoExpansion) CopyOnWrite]\<rparr>,
      k\<lparr>KERNEL_HEAP := (KERNEL_HEAP k)\<lparr>rg_start := heap_start\<rparr>\<rparr>)"

definition regions_fork :: "memory_regions \<Rightarrow> memory_regions" where
  "regions_fork r =
     \<lparr>kernel_stack_region = copy_with_permissions (kernel_stack_region r) ReadWrite,
      kernel_exec_region = copy_for_new_process (kernel_exec_region r),
      heap_region = copy_for_new_process (heap_region r),
      stack_region = copy_for_new_process (stack_region r),
      execution_regions = map copy_for_new_process (execution_regions r)\<rparr>"

definition get_range_containing_address ::
  "memory_regions \<Rightarrow> kernel_regions \<Rightarrow> virtual_address \<Rightarrow> region option" where
  "get_range_containing_address r k addr =
     (if region_contains (KERNEL_HEAP k) addr then Some (KERNEL_HEAP k)
      else if region_contains (kernel_stack_region r) addr then Some (kernel_stack_region r)
      else if region_contains (kernel_exec_region r) addr then Some (kernel_exec_region r)
      else case find (\<lambda>g. region_contains g addr) (KERNEL_MEMMAP k) of
        Some g \<Rightarrow> Some g
      | None \<Rightarrow>
          if region_contains (heap_region r) addr then Some (heap_region r)
          else if region_contains (stack_region r) addr then Some (stack_region r)
          else find (\<lambda>g. region_contains g addr) (execution_regions r))"

text \<open>
  The memory of one process as \<^verbatim>\<open>ProcessState\<close> keeps it: its regions and the program break,
  each behind its own lock.
\<close>

record process_memory =
  pm_regions :: memory_regions
  pm_heap_break :: virtual_address

definition start_heap :: "virtual_address \<Rightarrow> process_memory \<Rightarrow> process_memory" where
  "start_heap addr pm =
     pm\<lparr>pm_regions := (pm_regions pm)\<lparr>heap_region := (heap_region (pm_regions pm))\<lparr>rg_start := addr\<rparr>\<rparr>\<rparr>"

definition set_heap_break :: "virtual_address \<Rightarrow> process_memory \<Rightarrow> (unit + virtual_address) \<times> process_memory" where
  "set_heap_break addr pm =
     (let heap_break = pm_heap_break pm
      in if addr = heap_break then (Inr heap_break, pm)
         else if va_usize heap_break AND 0xfffff000 \<noteq> va_usize addr AND 0xfffff000 \<or> va_usize heap_break = 0
         then let rs = pm_regions pm; start = rg_start (heap_region rs)
              in if va_usize addr < va_usize start then (Inl (), pm)
                 else let new_size = va_usize addr - va_usize start;
                          page_rounded_size = (new_size + 0x1000) AND 0xfffff000
                      in (Inr heap_break,
                          pm\<lparr>pm_regions := rs\<lparr>heap_region := (heap_region rs)\<lparr>rg_size := page_rounded_size\<rparr>\<rparr>,
                             pm_heap_break := addr\<rparr>)
         else (Inr heap_break, pm\<lparr>pm_heap_break := addr\<rparr>))"

text \<open>\<^verbatim>\<open>overflowing_add\<close> on \<^verbatim>\<open>isize\<close>: the wrapped sum and whether the exact one does not fit.\<close>

definition move_heap_break :: "32 word \<Rightarrow> process_memory \<Rightarrow> (unit + virtual_address) \<times> process_memory" where
  "move_heap_break delta pm =
     (let heap_break = va_usize (pm_heap_break pm);
          new_break = heap_break + delta;
          overflow = (sint new_break \<noteq> sint heap_break + sint delta)
      in if overflow \<or> sint new_break < 0 then (Inl (), pm)
         else set_heap_break (VirtualAddress new_break) pm)"

text \<open>The rounding the mapping calls share.\<close>

definition region_length_of :: "usize \<Rightarrow> usize" where
  "region_length_of len = (if len AND 0xfff \<noteq> 0 then (len + 0x1000) AND 0xfffff000 else len)"

definition push_execution_region :: "region \<Rightarrow> process_memory \<Rightarrow> process_memory" where
  "push_execution_region g pm =
     pm\<lparr>pm_regions := (pm_regions pm)\<lparr>execution_regions := execution_regions (pm_regions pm) @ [g]\<rparr>\<rparr>"

definition mmap :: "virtual_address \<Rightarrow> usize \<Rightarrow> usize \<Rightarrow> local_handle \<Rightarrow> process_memory \<Rightarrow> process_memory" where
  "mmap start len drive_number handle =
     push_execution_region (region_new start (region_length_of len) (MemMapped drive_number handle len) ReadWrite)"

definition anonymous_map :: "virtual_address \<Rightarrow> usize \<Rightarrow> process_memory \<Rightarrow> process_memory" where
  "anonymous_map start len =
     push_execution_region (region_new start (region_length_of len) (Anonymous NoExpansion) ReadWrite)"

definition mmap_dma_region ::
  "virtual_address \<Rightarrow> usize \<Rightarrow> phys \<Rightarrow> ((physical_address \<times> region) \<times> phys) outcome" where
  "mmap_dma_region virt len p =
     (let frame_count = drop_bit 12 len + (if len AND 0xfff > 0 then 1 else 0)
      in obind (phys_allocate_frames frame_count p) (\<lambda>(r, p).
         obind (unwrap r) (\<lambda>rng.
           let pa = get_starting_address rng;
               rng' = frame_range_new (pa_usize pa) len
           in Done ((pa, region_new virt (region_length_of len) (DMA rng') ReadWrite), p))))"

definition mmap_dma ::
  "virtual_address \<Rightarrow> usize \<Rightarrow> process_memory \<Rightarrow> phys \<Rightarrow> (physical_address \<times> process_memory \<times> phys) outcome" where
  "mmap_dma virt len pm p =
     obind (mmap_dma_region virt len p) (\<lambda>((pa, g), p). Done (pa, push_execution_region g pm, p))"

definition last_occupied :: "region list \<Rightarrow> usize" where
  "last_occupied gs =
     fold (\<lambda>g last. if va_usize (rg_start g) < last then va_usize (rg_start g) else last) gs STACK_START"

definition kernel_mmap_dma ::
  "usize \<Rightarrow> kernel_regions \<Rightarrow> phys \<Rightarrow> ((physical_address \<times> virtual_address) \<times> kernel_regions \<times> phys) outcome" where
  "kernel_mmap_dma len k p =
     (let new_region_start = VirtualAddress ((last_occupied (KERNEL_MEMMAP k) - len) AND 0xfffff000)
      in obind (mmap_dma_region new_region_start len p) (\<lambda>((pa, g), p).
           Done ((pa, new_region_start), k\<lparr>KERNEL_MEMMAP := KERNEL_MEMMAP k @ [g]\<rparr>, p)))"

section \<open>Regions as sets of addresses\<close>

definition region_bytes :: "region \<Rightarrow> nat set" where
  "region_bytes r = {unat (va_usize (rg_start r)) ..< unat (va_usize (rg_start r)) + unat (rg_size r)}"

definition no_wrap :: "region \<Rightarrow> bool" where
  "no_wrap r \<longleftrightarrow> unat (va_usize (rg_start r)) + unat (rg_size r) < 4294967296"

lemma region_contains_iff:
  assumes "no_wrap r"
  shows "region_contains r a \<longleftrightarrow> unat (va_usize a) \<in> region_bytes r"
  using assms
  by (auto simp: region_contains_def region_bytes_def no_wrap_def word_le_nat_alt word_less_nat_alt unat_add32)


definition all_regions :: "memory_regions \<Rightarrow> kernel_regions \<Rightarrow> region list" where
  "all_regions r k = KERNEL_HEAP k # kernel_stack_region r # kernel_exec_region r
     # KERNEL_MEMMAP k @ heap_region r # stack_region r # execution_regions r"

lemma find_append: "find P (xs @ ys) = (case find P xs of None \<Rightarrow> find P ys | Some x \<Rightarrow> Some x)"
  by (induction xs) auto

lemma get_range_is_first_match:
  "get_range_containing_address r k addr = find (\<lambda>g. region_contains g addr) (all_regions r k)"
  by (simp add: get_range_containing_address_def all_regions_def find_append split: option.splits)

section \<open>Rounding\<close>

lemma div_4096_bounds: "n div 4096 * 4096 \<le> n" "n < n div 4096 * 4096 + (4096 :: nat)"
  using div_mult_mod_eq [of n 4096] mod_less_divisor [of 4096 n] by linarith+

lemma ceil_div_4096: "(n + 4095) div 4096 = n div 4096 + (if n mod 4096 = 0 then 0 else 1 :: nat)"
proof -
  obtain q r where qr: "n = 4096 * q + r" "r < 4096" "n div 4096 = q" "n mod 4096 = r"
    by (metis mult_div_mod_eq mod_less_divisor zero_less_numeral)
  have "(4096 * q + r + 4095) div 4096 = (if r = 0 then q else Suc q)"
    using qr(2) by (intro div_nat_eqI) auto
  then show ?thesis unfolding qr(3,4) by (simp add: qr(1))
qed

lemma sub_div_4096:
  assumes "4096 * q \<le> (n :: nat)"
  shows "(n - 4096 * q) div 4096 = n div 4096 - q"
  using div_mult_self2 [of 4096 "n - 4096 * q" q] assms by simp

lemma unat_round_up_page:
  fixes n :: usize
  assumes "unat n + 4096 < 4294967296"
  shows "unat ((n + 0x1000) AND 0xfffff000) = unat n div 4096 * 4096 + 4096"
proof -
  have "unat (n + 0x1000) = unat n + 4096" using assms by (subst unat_add32) simp_all
  then show ?thesis unfolding unat_page_base by (simp add: minus_mod_eq_div_mult [symmetric])
qed

lemma unat_region_length_of:
  assumes "unat len + 4096 < 4294967296"
  shows "unat (region_length_of len) = (unat len + 4095) div 4096 * 4096"
proof (cases "unat len mod 4096 = 0")
  case True
  then have "len AND 0xfff = 0" by (simp add: word_unat_eq_iff word_nat)
  then show ?thesis using True by (auto simp: region_length_of_def)
next
  case False
  then have "len AND 0xfff \<noteq> 0" by (auto simp: word_unat_eq_iff word_nat)
  moreover have "(unat len + 4095) div 4096 * 4096 = unat len div 4096 * 4096 + 4096"
    using False by (simp add: ceil_div_4096)
  ultimately show ?thesis using assms by (simp add: region_length_of_def unat_round_up_page)
qed

lemma page_frames:
  "unat (drop_bit 12 len + (if (len :: usize) AND 0xfff > 0 then 1 else 0)) = (unat len + 4095) div 4096"
proof -
  have d: "unat (drop_bit 12 len) = unat len div 4096" by (simp add: word_nat)
  have "(len AND 0xfff > 0) = (unat len mod 4096 \<noteq> 0)"
    by (simp add: word_less_nat_alt unat_and_fff)
  moreover have "unat (drop_bit 12 len + 1) = unat len div 4096 + 1"
    using unat_lt32 [of len] d by (subst unat_add32) simp_all
  moreover have "(unat len + 4095) div 4096 = unat len div 4096 + (if unat len mod 4096 = 0 then 0 else 1)"
    by (simp add: ceil_div_4096)
  ultimately show ?thesis using d by simp
qed

section \<open>The program break\<close>

text \<open>The heap region ends at the page boundary behind the break.\<close>

definition brk_ok :: "process_memory \<Rightarrow> bool" where
  "brk_ok pm \<longleftrightarrow>
     (let s = unat (va_usize (rg_start (heap_region (pm_regions pm))));
          z = unat (rg_size (heap_region (pm_regions pm)));
          b = unat (va_usize (pm_heap_break pm))
      in 4096 dvd s \<and> (b \<noteq> 0 \<longrightarrow> s \<le> b \<and> b + 4096 < 4294967296 \<and> z = (b - s) div 4096 * 4096 + 4096))"

lemma same_page_iff:
  fixes a b :: usize
  shows "(a AND 0xfffff000 = b AND 0xfffff000) = (unat a div 4096 = unat b div 4096)"
proof -
  have "(a AND 0xfffff000 = b AND 0xfffff000) = (unat a div 4096 * 4096 = unat b div 4096 * 4096)"
    by (simp add: word_unat_eq_iff unat_page_base minus_mod_eq_div_mult)
  then show ?thesis by simp
qed

lemma same_page_offset:
  fixes a b s :: nat
  assumes "4096 dvd s" "a div 4096 = b div 4096" "s \<le> a"
  shows "s \<le> b" "(b - s) div 4096 = (a - s) div 4096"
proof -
  obtain q where s: "s = 4096 * q" using assms(1) by blast
  have "q \<le> a div 4096" using assms(3) s by (simp add: less_eq_div_iff_mult_less_eq)
  then have "q \<le> b div 4096" using assms(2) by simp
  then show "s \<le> b" using s by (metis le_trans mult.commute mult_le_mono2 div_times_less_eq_dividend)
  then show "(b - s) div 4096 = (a - s) div 4096" using assms(2,3) s by (simp add: sub_div_4096)
qed

lemma set_heap_break_spec:
  assumes "brk_ok pm" "unat (va_usize addr) + 4096 < 4294967296"
    and "set_heap_break addr pm = (r, pm')"
  shows "(r = Inl () \<and> pm' = pm \<and> va_usize addr < va_usize (rg_start (heap_region (pm_regions pm))) \<and> addr \<noteq> pm_heap_break pm)
    \<or> (r = Inr (pm_heap_break pm) \<and> pm_heap_break pm' = addr \<and> brk_ok pm'
       \<and> (va_usize addr < va_usize (rg_start (heap_region (pm_regions pm))) \<longrightarrow> addr = pm_heap_break pm)
       \<and> (\<exists>z. pm_regions pm' = (pm_regions pm)\<lparr>heap_region := (heap_region (pm_regions pm))\<lparr>rg_size := z\<rparr>\<rparr>))"
proof -
  let ?h = "heap_region (pm_regions pm)" and ?b = "pm_heap_break pm"
  let ?s = "unat (va_usize (rg_start ?h))" and ?a = "unat (va_usize addr)"
  note ok = assms(1) [unfolded brk_ok_def Let_def]
  have eq: "addr = ?b \<longleftrightarrow> va_usize addr = va_usize ?b" by (cases addr; cases ?b) simp
  consider (same) "addr = ?b"
    | (below) "addr \<noteq> ?b" "?a < ?s" "unat (va_usize ?b) div 4096 \<noteq> ?a div 4096 \<or> va_usize ?b = 0"
    | (move) "addr \<noteq> ?b" "?s \<le> ?a" "unat (va_usize ?b) div 4096 \<noteq> ?a div 4096 \<or> va_usize ?b = 0"
    | (page) "addr \<noteq> ?b" "unat (va_usize ?b) div 4096 = ?a div 4096" "va_usize ?b \<noteq> 0"
    by linarith
  then show ?thesis
  proof cases
    case same
    have "pm_regions pm = (pm_regions pm)\<lparr>heap_region := ?h\<lparr>rg_size := rg_size ?h\<rparr>\<rparr>" by simp
    then have "\<exists>z. pm_regions pm = (pm_regions pm)\<lparr>heap_region := ?h\<lparr>rg_size := z\<rparr>\<rparr>" by blast
    then show ?thesis using assms(1,3) same by (auto simp: set_heap_break_def Let_def)
  next
    case below
    then have "va_usize addr < va_usize (rg_start ?h)" by (simp add: word_less_nat_alt)
    then show ?thesis
      using assms(3) below by (auto simp: set_heap_break_def Let_def same_page_iff)
  next
    case move
    let ?n = "va_usize addr - va_usize (rg_start ?h)"
    have n: "unat ?n = ?a - ?s" using move(2) by (intro unat_sub_le)
    have z: "unat ((?n + 0x1000) AND 0xfffff000) = (?a - ?s) div 4096 * 4096 + 4096"
      using n assms(2) by (subst unat_round_up_page) simp_all
    have nl: "\<not> va_usize addr < va_usize (rg_start ?h)" using move(2) by (simp add: word_less_nat_alt)
    let ?pm = "pm\<lparr>pm_regions := (pm_regions pm)\<lparr>heap_region := ?h\<lparr>rg_size := (?n + 0x1000) AND 0xfffff000\<rparr>\<rparr>,
        pm_heap_break := addr\<rparr>"
    have run: "r = Inr ?b" "pm' = ?pm"
      using assms(3) move nl by (auto simp: set_heap_break_def Let_def same_page_iff)
    have "brk_ok ?pm" using ok z move(2) assms(2) by (simp add: brk_ok_def Let_def)
    then show ?thesis using run nl by auto
  next
    case page
    have b0: "unat (va_usize ?b) \<noteq> 0" using page(3) by (simp add: unat_eq_0)
    note off = same_page_offset [of ?s "unat (va_usize ?b)" ?a]
    have s: "?s \<le> ?a" "(?a - ?s) div 4096 = (unat (va_usize ?b) - ?s) div 4096"
      using off ok page(2) b0 by auto
    have run: "r = Inr ?b" "pm' = pm\<lparr>pm_heap_break := addr\<rparr>"
      using assms(3) page by (auto simp: set_heap_break_def Let_def same_page_iff)
    have "brk_ok (pm\<lparr>pm_heap_break := addr\<rparr>)"
      using ok s b0 assms(2) by (simp add: brk_ok_def Let_def)
    moreover have "\<not> va_usize addr < va_usize (rg_start ?h)" using s(1) by (simp add: word_less_nat_alt)
    moreover have "pm_regions pm = (pm_regions pm)\<lparr>heap_region := ?h\<lparr>rg_size := rg_size ?h\<rparr>\<rparr>" by simp
    then have "\<exists>z. pm_regions pm = (pm_regions pm)\<lparr>heap_region := ?h\<lparr>rg_size := z\<rparr>\<rparr>" by blast
    ultimately show ?thesis using run by simp
  qed
qed

lemma brk_ok_covers:
  assumes "brk_ok pm" "pm_heap_break pm \<noteq> VirtualAddress 0"
  shows "{unat (va_usize (rg_start (heap_region (pm_regions pm)))) ..< unat (va_usize (pm_heap_break pm))}
    \<subseteq> region_bytes (heap_region (pm_regions pm))"
proof -
  have "unat (va_usize (pm_heap_break pm)) \<noteq> 0"
    using assms(2) by (cases "pm_heap_break pm") (simp add: unat_eq_0)
  then show ?thesis
    using assms(1) div_4096_bounds(2) [of "unat (va_usize (pm_heap_break pm)) - unat (va_usize (rg_start (heap_region (pm_regions pm))))"]
    by (auto simp: brk_ok_def Let_def region_bytes_def)
qed

lemma move_heap_break_eq:
  assumes "uint (va_usize (pm_heap_break pm)) < 2147483648"
  shows "move_heap_break delta pm =
    (if 0 \<le> uint (va_usize (pm_heap_break pm)) + sint delta
        \<and> uint (va_usize (pm_heap_break pm)) + sint delta < 2147483648
     then set_heap_break (VirtualAddress (va_usize (pm_heap_break pm) + delta)) pm else (Inl (), pm))"
proof -
  obtain b where b: "uint (va_usize (pm_heap_break pm)) = b" "sint (va_usize (pm_heap_break pm)) = b"
    "0 \<le> b" "b < 2147483648"
    using assms by (simp add: sint_cases)
  obtain d where d: "uint delta = d" "sint delta = (if d < 2147483648 then d else d - 4294967296)"
    "0 \<le> d" "d < 4294967296"
    using uint_lt2p [of delta] by (simp add: sint_cases)
  have "uint (va_usize (pm_heap_break pm) + delta) = (if b + d < 4294967296 then b + d else b + d - 4294967296)"
    using b d by (simp add: uint_add_wrap)
  then have "sint (va_usize (pm_heap_break pm) + delta) =
      (if b + d < 2147483648 then b + d else if b + d < 4294967296 then b + d - 4294967296
       else b + d - 4294967296)"
    using b d by (simp add: sint_cases)
  then show ?thesis
    unfolding move_heap_break_def Let_def b d(2) using b(3,4) d(3,4) by (auto split: if_splits)
qed

section \<open>Kernel DMA buffers\<close>

definition dma_ok :: "kernel_regions \<Rightarrow> bool" where
  "dma_ok k \<longleftrightarrow>
     (\<forall>g \<in> set (KERNEL_MEMMAP k). 4096 dvd unat (va_usize (rg_start g))
        \<and> unat (va_usize (rg_start g)) + unat (rg_size g) \<le> unat STACK_START)
     \<and> sorted_wrt (\<lambda>g h. region_bytes g \<inter> region_bytes h = {}) (KERNEL_MEMMAP k)"

lemma last_occupied_fold:
  fixes gs :: "region list"
  defines "step \<equiv> \<lambda>g last. if va_usize (rg_start g) < last then va_usize (rg_start g) else last"
  shows "fold step gs l \<le> l \<and> (\<forall>g \<in> set gs. fold step gs l \<le> va_usize (rg_start g))
    \<and> fold step gs l \<in> insert l ((\<lambda>g. va_usize (rg_start g)) ` set gs)"
proof (induction gs arbitrary: l)
  case (Cons g gs)
  have "step g l \<le> l" "step g l \<le> va_usize (rg_start g)" "step g l \<in> {l, va_usize (rg_start g)}"
    by (auto simp: step_def)
  then show ?case using Cons.IH [of "step g l"] by (auto intro: order_trans)
qed simp

lemma last_occupied_spec:
  assumes "dma_ok k"
  shows "4096 dvd unat (last_occupied (KERNEL_MEMMAP k))"
    and "unat (last_occupied (KERNEL_MEMMAP k)) \<le> unat STACK_START"
    and "g \<in> set (KERNEL_MEMMAP k) \<Longrightarrow> unat (last_occupied (KERNEL_MEMMAP k)) \<le> unat (va_usize (rg_start g))"
proof -
  note f = last_occupied_fold [of "KERNEL_MEMMAP k" STACK_START, folded last_occupied_def]
  show "unat (last_occupied (KERNEL_MEMMAP k)) \<le> unat STACK_START"
    and "g \<in> set (KERNEL_MEMMAP k) \<Longrightarrow> unat (last_occupied (KERNEL_MEMMAP k)) \<le> unat (va_usize (rg_start g))"
    using f by (simp_all add: word_le_nat_alt)
  have "4096 dvd unat STACK_START" by (simp add: STACK_START_def)
  then show "4096 dvd unat (last_occupied (KERNEL_MEMMAP k))"
    using f assms by (auto simp: dma_ok_def)
qed

lemma round_down_start:
  fixes l len :: usize
  assumes "4096 dvd unat l" "(unat len + 4095) div 4096 * 4096 \<le> unat l"
  shows "unat ((l - len) AND 0xfffff000) + (unat len + 4095) div 4096 * 4096 = unat l"
proof -
  obtain q where l: "unat l = 4096 * q" using assms(1) by blast
  obtain m where m: "m = (unat len + 4095) div 4096" by simp
  have len: "unat len \<le> 4096 * m" "4096 * m < unat len + 4096"
    using div_4096_bounds [of "unat len + 4095"] m by simp_all
  have "unat (l - len) = unat l - unat len" using len(1) assms(2) m by (intro unat_sub_le) simp
  moreover have "(4096 * q - unat len) div 4096 = q - m"
    using len assms(2) l m by (intro div_nat_eqI) (simp_all add: algebra_simps)
  ultimately have "unat ((l - len) AND 0xfffff000) = (q - m) * 4096"
    by (simp add: unat_page_base l minus_mod_eq_div_mult)
  then show ?thesis using assms(2) l unfolding m [symmetric] by (simp add: algebra_simps)
qed

lemma mmap_dma_region_spec:
  assumes "phys_wf p" "0 < unat len"
  shows "mmap_dma_region virt len p = Panic
      \<and> (\<forall>t. t + (unat len + 4095) div 4096 \<le> phys_total p
           \<longrightarrow> (\<exists>f \<in> {t ..< t + (unat len + 4095) div 4096}. phys_used p f))
    \<or> (\<exists>t p'. mmap_dma_region virt len p = Done ((PhysicalAddress (of_nat (t * 4096)),
           region_new virt (region_length_of len) (DMA (frame_range_new (of_nat (t * 4096)) len)) ReadWrite), p')
         \<and> phys_wf p' \<and> t + (unat len + 4095) div 4096 \<le> phys_total p
         \<and> (\<forall>f \<in> {t ..< t + (unat len + 4095) div 4096}. \<not> phys_used p f)
         \<and> (\<forall>f. phys_used p' f = (phys_used p f \<or> f \<in> {t ..< t + (unat len + 4095) div 4096})))"
proof -
  let ?n = "drop_bit 12 len + (if len AND 0xfff > 0 then 1 else 0) :: usize"
  have n: "unat ?n = (unat len + 4095) div 4096" by (rule page_frames)
  have "4096 \<le> unat len + 4095" using assms(2) by simp
  then have pos: "0 < unat ?n" unfolding n using div_greater_zero_iff [of "unat len + 4095" 4096] by simp
  from phf.alloc_law [OF assms(1) pos] show ?thesis
  proof (elim disjE exE conjE)
    assume "phys_allocate_frames ?n p = Done (Inl NoAvailableSpace, p)"
      "\<forall>t. t + unat ?n \<le> phys_total p \<longrightarrow> (\<exists>f \<in> {t ..< t + unat ?n}. phys_used p f)"
    then show ?thesis unfolding n by (simp add: mmap_dma_region_def Let_def)
  next
    fix t p'
    assume a: "phys_allocate_frames ?n p = Done (Inr (run_range t (unat ?n)), p')" "phys_wf p'"
      "phys_total p' = phys_total p" "t + unat ?n \<le> phys_total p"
      "\<forall>k \<in> {t ..< t + unat ?n}. \<not> phys_used p k"
      "\<forall>k. phys_used p' k = (phys_used p k \<or> k \<in> {t ..< t + unat ?n})"
    have "get_starting_address (run_range t (unat ?n)) = PhysicalAddress (of_nat (t * 4096))"
      by (simp add: get_starting_address_def run_range_def frame_range_new_def)
    then have "mmap_dma_region virt len p = Done ((PhysicalAddress (of_nat (t * 4096)),
        region_new virt (region_length_of len) (DMA (frame_range_new (of_nat (t * 4096)) len)) ReadWrite), p')"
      using a(1) by (simp add: mmap_dma_region_def Let_def)
    then show ?thesis using a(2,4,5,6) unfolding n by blast
  qed
qed

section \<open>Properties\<close>

text \<open>C32: the program break.  Moving the break fails exactly when the new break would lie below the start
  of the heap, and then changes nothing.  Otherwise it returns the old break and stores the new one,
  and resizes the heap region, changing no other region, so that the region still ends at the page
  boundary behind the break and covers every byte below it.\<close>

theorem set_heap_break_correct:
  assumes "brk_ok pm" "unat (va_usize addr) + 4096 < 4294967296"
    and "set_heap_break addr pm = (r, pm')"
    and "start = rg_start (heap_region (pm_regions pm))"
  shows "if va_usize addr < va_usize start \<and> addr \<noteq> pm_heap_break pm then r = Inl () \<and> pm' = pm
    else r = Inr (pm_heap_break pm) \<and> pm_heap_break pm' = addr \<and> brk_ok pm'
      \<and> (\<exists>z. pm_regions pm' = (pm_regions pm)\<lparr>heap_region := (heap_region (pm_regions pm))\<lparr>rg_size := z\<rparr>\<rparr>)
      \<and> {unat (va_usize start) ..< unat (va_usize addr)} \<subseteq> region_bytes (heap_region (pm_regions pm'))"
proof (cases "va_usize addr < va_usize start \<and> addr \<noteq> pm_heap_break pm")
  case True
  then show ?thesis using set_heap_break_spec [OF assms(1-3)] assms(4) by auto
next
  case False
  then have new: "r = Inr (pm_heap_break pm)" "pm_heap_break pm' = addr" "brk_ok pm'"
    "\<exists>z. pm_regions pm' = (pm_regions pm)\<lparr>heap_region := (heap_region (pm_regions pm))\<lparr>rg_size := z\<rparr>\<rparr>"
    using set_heap_break_spec [OF assms(1-3)] assms(4) by auto
  then have start: "rg_start (heap_region (pm_regions pm')) = start" using assms(4) by auto
  have "{unat (va_usize start) ..< unat (va_usize addr)} \<subseteq> region_bytes (heap_region (pm_regions pm'))"
    using brk_ok_covers [OF new(3)] new(2) start by (cases "addr = VirtualAddress 0") simp_all
  then show ?thesis using False new by simp
qed

definition sample_memory :: process_memory where
  "sample_memory =
     start_heap (VirtualAddress 0x8000)
       \<lparr>pm_regions = fst (regions_initial (VirtualAddress 0xc0400000) kernel_regions_initial),
        pm_heap_break = VirtualAddress 0\<rparr>"

theorem set_heap_break_correct_witness:
  "fst (set_heap_break (VirtualAddress 0x9234) sample_memory) = Inr (VirtualAddress 0)
   \<and> {unat (0x8000 :: usize) ..< unat (0x9234 :: usize)}
      \<subseteq> region_bytes (heap_region (pm_regions (snd (set_heap_break (VirtualAddress 0x9234) sample_memory))))"
proof -
  have ok: "brk_ok sample_memory"
    by (simp add: sample_memory_def brk_ok_def start_heap_def regions_initial_def region_empty_def)
  have start: "VirtualAddress 0x8000 = rg_start (heap_region (pm_regions sample_memory))"
    by (simp add: sample_memory_def start_heap_def)
  have br: "pm_heap_break sample_memory = VirtualAddress 0" by (simp add: sample_memory_def start_heap_def)
  have addr: "unat (va_usize (VirtualAddress 0x9234)) + 4096 < 4294967296" by simp
  have "\<not> (va_usize (VirtualAddress 0x9234) < va_usize (VirtualAddress 0x8000)
      \<and> VirtualAddress 0x9234 \<noteq> pm_heap_break sample_memory)" by simp
  then show ?thesis
    using set_heap_break_correct [OF ok addr prod.collapse [symmetric] start] br by simp
qed

text \<open>C33: DMA buffers of the kernel.  A call panics exactly when no contiguous run of frames of the size needed is
  free.  Otherwise it places a new region of whole pages directly below all earlier ones and backs it by a run of
  frames that were free and are now taken, the physical address it returns being that of the first; the region
  records these frames and can be read and written; the regions stay page-aligned, below the kernel stack and pairwise
  disjoint.\<close>

theorem kernel_mmap_dma_correct:
  assumes "dma_ok k" "phys_wf p" "0 < unat len"
    and "(unat len + 4095) div 4096 * 4096 \<le> unat (last_occupied (KERNEL_MEMMAP k))"
    and "n = (unat len + 4095) div 4096"
  shows "if \<exists>t. t + n \<le> phys_total p \<and> (\<forall>f \<in> {t ..< t + n}. \<not> phys_used p f)
    then \<exists>t va g k' p'. kernel_mmap_dma len k p = Done ((PhysicalAddress (of_nat (t * 4096)), va), k', p')
         \<and> k' = k\<lparr>KERNEL_MEMMAP := KERNEL_MEMMAP k @ [g]\<rparr> \<and> dma_ok k' \<and> phys_wf p'
         \<and> rg_start g = va \<and> unat (rg_size g) = n * 4096 \<and> rg_permissions g = ReadWrite
         \<and> backed_by g = DMA (frame_range_new (of_nat (t * 4096)) len)
         \<and> unat (va_usize va) + unat (rg_size g) = unat (last_occupied (KERNEL_MEMMAP k))
         \<and> t + n \<le> phys_total p \<and> (\<forall>f \<in> {t ..< t + n}. \<not> phys_used p f)
         \<and> (\<forall>f. phys_used p' f = (phys_used p f \<or> f \<in> {t ..< t + n}))
    else kernel_mmap_dma len k p = Panic"
proof -
  let ?l = "last_occupied (KERNEL_MEMMAP k)"
  let ?va = "VirtualAddress ((?l - len) AND 0xfffff000)"
  note lo = last_occupied_spec [OF assms(1)]
  have "unat ?l \<le> 4290707456" using lo(2) by (simp add: STACK_START_def)
  moreover have "unat len \<le> (unat len + 4095) div 4096 * 4096"
    using div_4096_bounds(2) [of "unat len + 4095"] by simp
  ultimately have len: "unat len + 4096 < 4294967296" using assms(4) by linarith
  note va = round_down_start [OF lo(1) assms(4)]
  from mmap_dma_region_spec [OF assms(2,3), of ?va] show ?thesis
  proof (elim disjE exE conjE)
    assume "mmap_dma_region ?va len p = Panic"
      "\<forall>t. t + (unat len + 4095) div 4096 \<le> phys_total p
        \<longrightarrow> (\<exists>f \<in> {t ..< t + (unat len + 4095) div 4096}. phys_used p f)"
    then have "kernel_mmap_dma len k p = Panic" "\<not> (\<exists>t. t + n \<le> phys_total p \<and> (\<forall>f \<in> {t ..< t + n}. \<not> phys_used p f))"
      unfolding assms(5) by (simp add: kernel_mmap_dma_def Let_def, blast)
    then show ?thesis by simp
  next
    fix t p'
    let ?g = "region_new ?va (region_length_of len) (DMA (frame_range_new (of_nat (t * 4096)) len)) ReadWrite"
    let ?k = "k\<lparr>KERNEL_MEMMAP := KERNEL_MEMMAP k @ [?g]\<rparr>"
    assume a: "mmap_dma_region ?va len p = Done ((PhysicalAddress (of_nat (t * 4096)), ?g), p')" "phys_wf p'"
      "t + (unat len + 4095) div 4096 \<le> phys_total p"
      "\<forall>f \<in> {t ..< t + (unat len + 4095) div 4096}. \<not> phys_used p f"
      "\<forall>f. phys_used p' f = (phys_used p f \<or> f \<in> {t ..< t + (unat len + 4095) div 4096})"
    have g: "rg_start ?g = ?va" "unat (rg_size ?g) = (unat len + 4095) div 4096 * 4096" "rg_permissions ?g = ReadWrite"
      "backed_by ?g = DMA (frame_range_new (of_nat (t * 4096)) len)"
      using unat_region_length_of [OF len] by (simp_all add: region_new_def)
    have "4096 dvd unat (va_usize ?va)" by (simp add: unat_page_base dvd_minus_mod)
    moreover have "region_bytes h \<inter> region_bytes ?g = {}" if "h \<in> set (KERNEL_MEMMAP k)" for h
      using lo(3) [OF that] va g by (auto simp: region_bytes_def)
    ultimately have "dma_ok ?k"
      using assms(1) lo(2) va g by (auto simp: dma_ok_def sorted_wrt_append)
    moreover have "kernel_mmap_dma len k p = Done ((PhysicalAddress (of_nat (t * 4096)), ?va), ?k, p')"
      using a(1) by (simp add: kernel_mmap_dma_def Let_def)
    moreover have "\<exists>t. t + n \<le> phys_total p \<and> (\<forall>f \<in> {t ..< t + n}. \<not> phys_used p f)"
      using a(3,4) unfolding assms(5) by blast
    ultimately show ?thesis using a(2-5) g va unfolding assms(5)
      by (simp only: if_True) (intro exI [of _ t] exI [of _ ?va] exI [of _ ?g] exI [of _ ?k] exI [of _ p'] conjI; simp)
  qed
qed

theorem kernel_mmap_dma_correct_witness:
  "\<exists>t va g k' p'. kernel_mmap_dma 0x1800 kernel_regions_initial sample_phys
        = Done ((PhysicalAddress (of_nat (t * 4096)), va), k', p')
      \<and> KERNEL_MEMMAP k' = [g] \<and> backed_by g = DMA (frame_range_new (of_nat (t * 4096)) 0x1800)
      \<and> unat (va_usize va) + 8192 = 4290707456 \<and> dma_ok k' \<and> \<not> phys_used sample_phys (Suc t) \<and> phys_used p' (Suc t)"
proof -
  have ok: "dma_ok kernel_regions_initial" "last_occupied (KERNEL_MEMMAP kernel_regions_initial) = STACK_START"
    by (simp_all add: dma_ok_def kernel_regions_initial_def last_occupied_def)
  have len: "0 < unat (0x1800 :: usize)"
    "(unat (0x1800 :: usize) + 4095) div 4096 * 4096 \<le> unat (last_occupied (KERNEL_MEMMAP kernel_regions_initial))"
    "2 = (unat (0x1800 :: usize) + 4095) div 4096"
    unfolding ok(2) by (simp_all add: STACK_START_def)
  have u: "\<not> phys_used sample_phys 2" "\<not> phys_used sample_phys 3"
    by (simp_all add: phys_used_def sample_phys_def sample_bitmap_def frame_used_def bs_bit_def bit_iff_odd_drop_bit drop_bit_eq_div)
  then have "\<exists>t. t + 2 \<le> phys_total sample_phys \<and> (\<forall>f \<in> {t ..< t + 2}. \<not> phys_used sample_phys f)"
    by (intro exI [of _ 2]) (auto simp: sample_phys_wf(2) less_Suc_eq numeral_eq_Suc)
  with kernel_mmap_dma_correct [OF ok(1) sample_phys_wf(1) len] obtain t va g k' p' where
    "kernel_mmap_dma 0x1800 kernel_regions_initial sample_phys = Done ((PhysicalAddress (of_nat (t * 4096)), va), k', p')"
    "k' = kernel_regions_initial\<lparr>KERNEL_MEMMAP := KERNEL_MEMMAP kernel_regions_initial @ [g]\<rparr>" "dma_ok k'"
    "unat (rg_size g) = 2 * 4096" "backed_by g = DMA (frame_range_new (of_nat (t * 4096)) 0x1800)"
    "unat (va_usize va) + unat (rg_size g) = unat STACK_START"
    "\<forall>f \<in> {t ..< t + 2}. \<not> phys_used sample_phys f" "\<forall>f. phys_used p' f = (phys_used sample_phys f \<or> f \<in> {t ..< t + 2})"
    unfolding ok(2) by auto
  then show ?thesis
    by (intro exI [of _ t] exI [of _ va] exI [of _ g] exI [of _ k'] exI [of _ p'])
      (auto simp: kernel_regions_initial_def STACK_START_def)
qed

end
