(* ===== verification/KernelHeap.thy ===== *)
theory KernelHeap
  imports HeapCorrect Regions
begin

text \<open>
  The global allocator of \<^verbatim>\<open>memory/heap/mod.rs\<close>: the list allocator behind a lock, which grows
  the kernel heap region (\<^verbatim>\<open>expand_kernel_heap\<close>) and retries once when a request does not fit.
  The lock is only taken by the two entry points and neither calls the other.
\<close>

section \<open>Model\<close>

record kernel_heap =
  kh_allocator :: list_allocator
  kh_memory :: memory
  kh_regions :: kernel_regions

definition heap_init_allocator :: "virtual_address \<Rightarrow> usize \<Rightarrow> kernel_heap \<Rightarrow> kernel_heap" where
  "heap_init_allocator location sz kh =
     (case la_new (kh_memory kh) (va_usize location) sz of (h, m) \<Rightarrow> kh\<lparr>kh_allocator := h, kh_memory := m\<rparr>)"

definition global_alloc :: "layout \<Rightarrow> kernel_heap \<Rightarrow> (usize \<times> kernel_heap) outcome" where
  "global_alloc lay kh =
     obind (heap_alloc (kh_allocator kh) (kh_memory kh) lay) (\<lambda>(ptr, h, m).
       if ptr = 0
       then let space_needed = layout_size lay;
                (new_size, k) = expand_kernel_heap (kh_regions kh) space_needed
            in obind (expand_size h m new_size) (\<lambda>(h, m).
               obind (heap_alloc h m lay) (\<lambda>(ptr, h, m).
                 Done (ptr, kh\<lparr>kh_allocator := h, kh_memory := m, kh_regions := k\<rparr>)))
       else Done (ptr, kh\<lparr>kh_allocator := h, kh_memory := m\<rparr>))"

definition global_dealloc :: "usize \<Rightarrow> kernel_heap \<Rightarrow> kernel_heap outcome" where
  "global_dealloc ptr kh =
     obind (heap_dealloc (kh_allocator kh) (kh_memory kh) ptr) (\<lambda>(h, m).
       Done (kh\<lparr>kh_allocator := h, kh_memory := m\<rparr>))"

section \<open>Growing on demand\<close>

text \<open>The heap region and the allocator agree on the size of the heap.\<close>

definition kheap_ok :: "nat \<Rightarrow> nat \<Rightarrow> kernel_heap \<Rightarrow> (nat \<times> nat) list \<Rightarrow> live list \<Rightarrow> bool" where
  "kheap_ok lo hi kh bs lv \<longleftrightarrow> heap_ok lo hi (kh_allocator kh) (kh_memory kh) bs lv \<and> 4 dvd hi
     \<and> backed_by (KERNEL_HEAP (kh_regions kh)) = Anonymous After
     \<and> rg_size (KERNEL_HEAP (kh_regions kh)) = la_size (kh_allocator kh)"

text \<open>Bytes added for a request of \<open>n\<close> bytes: whole pages rounded down, but at least 64 of them.\<close>

definition growth :: "nat \<Rightarrow> nat" where
  "growth n = max 64 (n div 4096) * 4096"

lemma expand_kernel_heap_eq:
  assumes "backed_by (KERNEL_HEAP k) = Anonymous After"
  shows "expand_kernel_heap k n = (rg_size (KERNEL_HEAP k) + of_nat (growth (unat n)),
    k\<lparr>KERNEL_HEAP := (KERNEL_HEAP k)\<lparr>rg_size := rg_size (KERNEL_HEAP k) + of_nat (growth (unat n))\<rparr>\<rparr>)"
proof -
  let ?f = "if n div 0x1000 < INITIAL_HEAP_SIZE then INITIAL_HEAP_SIZE else n div 0x1000 :: usize"
  have "unat ?f = max 64 (unat n div 4096)"
    by (auto simp: INITIAL_HEAP_SIZE_def word_less_nat_alt unat_div max_def)
  then have "of_nat (unat ?f) = (of_nat (max 64 (unat n div 4096)) :: usize)" by (rule arg_cong)
  then have "?f = of_nat (max 64 (unat n div 4096))" by simp
  then have "?f * 0x1000 = of_nat (growth (unat n))" by (simp add: growth_def)
  then show ?thesis using assms
    unfolding expand_kernel_heap_def region_expand_def Let_def by simp
qed

lemma join_contains:
  "(c, t) \<in> set bs \<Longrightarrow> \<exists>b s. (b, s) \<in> set (join bs) \<and> b \<le> c \<and> c + t \<le> b + s"
proof (induction bs arbitrary: c t rule: join.induct)
  case (1 b s c' t' bs)
  show ?case
  proof (cases "b + s = c'")
    case True
    consider "(c, t) = (b, s)" | "(c, t) = (c', t')" | "(c, t) \<in> set bs" using "1.prems" by auto
    then obtain e u where e: "(e, u) \<in> set ((b, s + t') # bs)" "e \<le> c" "c + t \<le> e + u"
    proof cases
      case 1
      then show ?thesis using that [of b "s + t'"] True by simp
    next
      case 2
      then show ?thesis using that [of b "s + t'"] True by simp
    next
      case 3
      then show ?thesis using that [of c t] by simp
    qed
    from "1.IH"(1) [OF True e(1)] e(2,3) True show ?thesis by fastforce
  next
    case False
    then show ?thesis using "1.prems" "1.IH"(2) [OF False, of c t] by fastforce
  qed
qed auto

lemma alloc_fits:
  assumes "heap_ok lo hi h m bs lv" "layout_align lay = 2 ^ k"
    and "hi + 16 + 2 ^ k + unat (layout_size lay) < 4294967296"
    and "(b, s) \<in> set bs" "astart k b + unat (layout_size lay) \<le> b + s"
  shows "\<exists>p h' m' bs' a s'. heap_alloc h m lay = Done (of_nat p, h', m') \<and> 0 < p \<and> p < 4294967296
    \<and> heap_ok lo hi h' m' bs' ((a, s', p, unat (layout_size lay)) # lv) \<and> la_size h' = la_size h"
proof -
  let ?n = "unat (layout_size lay)"
  have "find_fit k ?n bs \<noteq> None" using find_fit_None [of k ?n bs b s] assms(4,5) by linarith
  then obtain pre c u post where f: "find_fit k ?n bs = Some (pre, (c, u), post)" by fastforce
  then obtain bs' a s' where r: "alloc_result k ?n bs = Some (bs', a, s', astart k c, ?n)"
    by (cases "astart k c + ?n + 16 < c + u") (simp_all add: alloc_result_def Let_def)
  have mem: "(c, u) \<in> set bs" "astart k c + ?n \<le> c + u" using find_fit_Some [OF f] by simp_all
  have "lo \<le> c \<and> c + u \<le> hi" using chain_mem [OF _ mem(1)] assms(1) unfolding heap_ok_def by blast
  then have p: "astart k c < 4294967296" "0 < astart k c"
    using mem(2) assms(3) astart_bounds(1) [of c k] by linarith+
  from heap_alloc_spec [OF assms(1-3) refl] r obtain h' m' where
    h': "heap_alloc h m lay = Done (of_nat (astart k c), h', m')"
      "heap_ok lo hi h' m' bs' ((a, s', astart k c, ?n) # lv)" by auto
  moreover have "la_size h' = la_size h"
    using h'(2) assms(1) by (simp add: heap_ok_def word_unat_eq_iff)
  ultimately show ?thesis using p by blast
qed

lemma global_alloc_retry:
  assumes "kheap_ok lo hi kh bs lv" "bs \<noteq> []"
    and "heap_alloc (kh_allocator kh) (kh_memory kh) lay = Done (0, kh_allocator kh, kh_memory kh)"
    and "g = growth (unat (layout_size lay))" "bounds lo (hi + g)"
  shows "\<exists>h1 m1 k1. heap_ok lo (hi + g) h1 m1 (join (bs @ [(hi, g)])) lv
    \<and> rg_size (KERNEL_HEAP k1) = la_size h1 \<and> backed_by (KERNEL_HEAP k1) = Anonymous After
    \<and> global_alloc lay kh = obind (heap_alloc h1 m1 lay)
        (\<lambda>(ptr, h, m). Done (ptr, kh\<lparr>kh_allocator := h, kh_memory := m, kh_regions := k1\<rparr>))"
proof -
  let ?h = "kh_allocator kh" and ?m = "kh_memory kh" and ?k = "kh_regions kh"
  have ok: "heap_ok lo hi ?h ?m bs lv" "4 dvd hi" "backed_by (KERNEL_HEAP ?k) = Anonymous After"
    "rg_size (KERNEL_HEAP ?k) = la_size ?h"
    using assms(1) by (simp_all add: kheap_ok_def)
  let ?z = "la_size ?h + of_nat g"
  have g: "4 dvd g" "12 \<le> g" by (auto simp: assms(4) growth_def intro!: dvd_mult)
  have "unat (la_size ?h) + g < 4294967296"
    using ok(1) assms(5) by (auto simp: heap_ok_def bounds_def)
  then have z: "unat ?z = unat (la_size ?h) + g"
    by (subst unat_add32) (simp_all add: unat_of_nat32)
  from expand_size_spec [OF ok(1) assms(2) z ok(2) g assms(5)] obtain m1 where
    m1: "expand_size ?h ?m ?z = Done (?h\<lparr>la_size := ?z\<rparr>, m1)"
      "heap_ok lo (hi + g) (?h\<lparr>la_size := ?z\<rparr>) m1 (join (bs @ [(hi, g)])) lv" by blast
  let ?k1 = "?k\<lparr>KERNEL_HEAP := (KERNEL_HEAP ?k)\<lparr>rg_size := ?z\<rparr>\<rparr>"
  have "expand_kernel_heap ?k (layout_size lay) = (?z, ?k1)"
    using expand_kernel_heap_eq [OF ok(3)] ok(4) assms(4) by simp
  then have "global_alloc lay kh = obind (heap_alloc (?h\<lparr>la_size := ?z\<rparr>) m1 lay)
      (\<lambda>(ptr, h, m). Done (ptr, kh\<lparr>kh_allocator := h, kh_memory := m, kh_regions := ?k1\<rparr>))"
    using assms(3) m1(1) by (simp add: global_alloc_def Let_def)
  then show ?thesis using m1(2) ok(3) by (intro exI [of _ "?h\<lparr>la_size := ?z\<rparr>"] exI [of _ m1] exI [of _ ?k1]) simp
qed

section \<open>Properties\<close>

text \<open>C34: the kernel heap grows on demand.  As long as the free list is not empty and the address space
  leaves room, a request that fits into 64 pages together with its header and alignment padding is
  always satisfied: the pointer is not null, points to the requested number of bytes, and the heap,
  grown if necessary, is consistent and its region matches its size.\<close>

theorem global_alloc_succeeds:
  assumes "kheap_ok lo hi kh bs lv" "bs \<noteq> []" "layout_align lay = 2 ^ k"
    and "12 + 2 ^ k + unat (layout_size lay) \<le> 262144"
    and "hi + 262144 + 16 + 2 ^ k + unat (layout_size lay) < 4294967296" "bounds lo (hi + 262144)"
  shows "\<exists>p kh' hi' bs' a s. global_alloc lay kh = Done (of_nat p, kh') \<and> 0 < p \<and> p < 4294967296
    \<and> hi \<le> hi' \<and> kheap_ok lo hi' kh' bs' ((a, s, p, unat (layout_size lay)) # lv)"
proof -
  let ?n = "unat (layout_size lay)" and ?h = "kh_allocator kh" and ?m = "kh_memory kh"
  have ok: "heap_ok lo hi ?h ?m bs lv" "4 dvd hi" using assms(1) by (simp_all add: kheap_ok_def)
  have room: "hi + 16 + 2 ^ k + ?n < 4294967296" using assms(5) by linarith
  show ?thesis
  proof (cases "find_fit k ?n bs")
    case (Some f)
    then obtain pre b s post where "find_fit k ?n bs = Some (pre, (b, s), post)" by (cases f) auto
    then have "(b, s) \<in> set bs" "astart k b + ?n \<le> b + s" using find_fit_Some by fastforce+
    from alloc_fits [OF ok(1) assms(3) room this] obtain p h' m' bs' a s' where
      a: "heap_alloc ?h ?m lay = Done (of_nat p, h', m')" "0 < p" "p < 4294967296"
        "heap_ok lo hi h' m' bs' ((a, s', p, ?n) # lv)" "la_size h' = la_size ?h" by blast
    have "(of_nat p :: usize) \<noteq> 0" using a(2,3) by (metis unat_of_nat32 unat_0 less_numeral_extra(3))
    then have "global_alloc lay kh = Done (of_nat p, kh\<lparr>kh_allocator := h', kh_memory := m'\<rparr>)"
      using a(1) by (simp add: global_alloc_def)
    moreover have "kheap_ok lo hi (kh\<lparr>kh_allocator := h', kh_memory := m'\<rparr>) bs' ((a, s', p, ?n) # lv)"
      using assms(1) a(4,5) by (simp add: kheap_ok_def)
    ultimately show ?thesis using a(2,3) by blast
  next
    case None
    have g: "growth ?n = 262144" using assms(4) by (simp add: growth_def max_def div_le_mono)
    have fail: "heap_alloc ?h ?m lay = Done (0, ?h, ?m)"
      using heap_alloc_spec [OF ok(1) assms(3) room refl] None by (simp add: alloc_result_def)
    from global_alloc_retry [OF assms(1,2) fail g [symmetric] assms(6)] obtain h1 m1 k1 where
      r: "heap_ok lo (hi + 262144) h1 m1 (join (bs @ [(hi, 262144)])) lv"
        "rg_size (KERNEL_HEAP k1) = la_size h1" "backed_by (KERNEL_HEAP k1) = Anonymous After"
        "global_alloc lay kh = obind (heap_alloc h1 m1 lay)
          (\<lambda>(ptr, h, m). Done (ptr, kh\<lparr>kh_allocator := h, kh_memory := m, kh_regions := k1\<rparr>))" by blast
    obtain b s where b: "(b, s) \<in> set (join (bs @ [(hi, 262144)]))" "b \<le> hi" "hi + 262144 \<le> b + s"
      using join_contains [of hi 262144 "bs @ [(hi, 262144)]"] by auto
    have "astart k b + ?n \<le> b + s" using b(2,3) assms(4) astart_bounds(2) [of k b] by linarith
    from alloc_fits [OF r(1) assms(3,5) b(1) this] obtain p h' m' bs' a s' where
      a: "heap_alloc h1 m1 lay = Done (of_nat p, h', m')" "0 < p" "p < 4294967296"
        "heap_ok lo (hi + 262144) h' m' bs' ((a, s', p, ?n) # lv)" "la_size h' = la_size h1" by blast
    let ?kh = "kh\<lparr>kh_allocator := h', kh_memory := m', kh_regions := k1\<rparr>"
    have "kheap_ok lo (hi + 262144) ?kh bs' ((a, s', p, ?n) # lv)"
      using r(2,3) a(4,5) ok(2) by (simp add: kheap_ok_def)
    moreover have "global_alloc lay kh = Done (of_nat p, ?kh)" using r(4) a(1) by simp
    moreover have "hi \<le> hi + 262144" by simp
    ultimately show ?thesis using a(2,3) by blast
  qed
qed

definition sample_kheap :: kernel_heap where
  "sample_kheap =
     \<lparr>kh_allocator = \<lparr>la_start = 0x1000, la_size = 0x100, first_free = 0x1000\<rparr>, kh_memory = two_blocks,
      kh_regions = \<lparr>KERNEL_HEAP = region_new (VirtualAddress 0x1000) 0x100 (Anonymous After) ReadOnly,
                    KERNEL_MEMMAP = []\<rparr>\<rparr>"

lemma sample_kheap_ok: "kheap_ok 0x1000 0x1100 sample_kheap [(0x1000, 16), (0x1020, 36)] []"
  using two_blocks_ok by (simp add: kheap_ok_def sample_kheap_def region_new_def)

theorem global_alloc_succeeds_witness:
  "\<exists>p kh'. global_alloc \<lparr>layout_size = 0x3000, layout_align = 8\<rparr> sample_kheap = Done (of_nat p, kh') \<and> 0 < p"
proof -
  have "\<exists>p kh' hi' bs' a s. global_alloc \<lparr>layout_size = 0x3000, layout_align = 8\<rparr> sample_kheap = Done (of_nat p, kh')
      \<and> 0 < p \<and> p < 4294967296 \<and> 0x1100 \<le> hi'
      \<and> kheap_ok 0x1000 hi' kh' bs' [(a, s, p, unat (layout_size \<lparr>layout_size = 0x3000, layout_align = 8\<rparr>))]"
    by (rule global_alloc_succeeds [OF sample_kheap_ok, where k = 3]) (simp_all add: bounds_def)
  then show ?thesis by blast
qed

text \<open>C38: large requests.  The growth is the request rounded down to whole pages, so when the only free
  block does not reach the end of the heap, a request of 256 KiB or more that does not fit is refused
  even after the heap has grown for it: the call returns null, and leaves a consistent heap that is larger by
  that many bytes, its region too, with all of them as one free block at its end.\<close>

theorem global_alloc_large_fails:
  assumes "kheap_ok lo hi kh [(b, s)] lv" "b + s < hi" "layout_align lay = 2 ^ k"
    and "262144 \<le> unat (layout_size lay)" "s \<le> unat (layout_size lay)"
    and "hi + growth (unat (layout_size lay)) + 16 + 2 ^ k + unat (layout_size lay) < 4294967296"
    and "bounds lo (hi + growth (unat (layout_size lay)))"
  shows "\<exists>kh' g. global_alloc lay kh = Done (0, kh') \<and> g = unat (layout_size lay) div 4096 * 4096
    \<and> kheap_ok lo (hi + g) kh' [(b, s), (hi, g)] lv
    \<and> unat (rg_size (KERNEL_HEAP (kh_regions kh'))) = unat (rg_size (KERNEL_HEAP (kh_regions kh))) + g"
proof -
  let ?n = "unat (layout_size lay)" and ?h = "kh_allocator kh" and ?m = "kh_memory kh"
  have ok: "heap_ok lo hi ?h ?m [(b, s)] lv" using assms(1) by (simp add: kheap_ok_def)
  have room: "hi + 16 + 2 ^ k + ?n < 4294967296" using assms(6) by linarith
  have "64 \<le> ?n div 4096" using div_le_mono [OF assms(4), of 4096] by simp
  then have gr: "growth ?n = ?n div 4096 * 4096" by (simp add: growth_def max_def)
  then have g: "growth ?n \<le> ?n" using div_4096_bounds(1) [of ?n] by simp
  have no_fit: "find_fit k ?n [(b, s)] = None" "find_fit k ?n [(b, s), (hi, growth ?n)] = None"
    using astart_bounds(1) [of b k] astart_bounds(1) [of hi k] assms(5) g by auto
  have fail: "heap_alloc ?h ?m lay = Done (0, ?h, ?m)"
    using heap_alloc_spec [OF ok assms(3) room refl] no_fit(1) by (simp add: alloc_result_def)
  from global_alloc_retry [OF assms(1) _ fail refl assms(7)] obtain h1 m1 k1 where
    r: "heap_ok lo (hi + growth ?n) h1 m1 (join ([(b, s)] @ [(hi, growth ?n)])) lv"
      "rg_size (KERNEL_HEAP k1) = la_size h1" "backed_by (KERNEL_HEAP k1) = Anonymous After"
      "global_alloc lay kh = obind (heap_alloc h1 m1 lay)
        (\<lambda>(ptr, h, m). Done (ptr, kh\<lparr>kh_allocator := h, kh_memory := m, kh_regions := k1\<rparr>))" by blast
  have j: "join ([(b, s)] @ [(hi, growth ?n)]) = [(b, s), (hi, growth ?n)]" using assms(2) by simp
  then have "heap_alloc h1 m1 lay = Done (0, h1, m1)"
    using heap_alloc_spec [OF r(1) assms(3,6) refl] no_fit(2) by (simp add: alloc_result_def)
  then have "global_alloc lay kh = Done (0, kh\<lparr>kh_allocator := h1, kh_memory := m1, kh_regions := k1\<rparr>)" using r(4) by simp
  moreover have "4 dvd hi + growth ?n" using assms(1) gr by (simp add: kheap_ok_def)
  then have "kheap_ok lo (hi + growth ?n) (kh\<lparr>kh_allocator := h1, kh_memory := m1, kh_regions := k1\<rparr>) [(b, s), (hi, growth ?n)] lv"
    using r(1) [unfolded j] r(2,3) by (simp add: kheap_ok_def)
  moreover have "unat (la_size h1) = unat (la_size ?h) + growth ?n" using r(1) ok by (auto simp: heap_ok_def)
  ultimately show ?thesis using r(2) assms(1) unfolding gr [symmetric]
    by (intro exI [of _ "kh\<lparr>kh_allocator := h1, kh_memory := m1, kh_regions := k1\<rparr>"] exI [of _ "growth ?n"]) (simp add: kheap_ok_def)
qed

definition one_block :: memory where
  "one_block = st (st (st (\<lambda>_. 0) 0x1000 MAGIC) 0x1004 16) 0x1008 0"

theorem global_alloc_large_fails_witness:
  "\<exists>kh'. global_alloc \<lparr>layout_size = 0x40800, layout_align = 4\<rparr> (sample_kheap\<lparr>kh_memory := one_block\<rparr>) = Done (0, kh')
     \<and> kheap_ok 0x1000 0x41100 kh' [(0x1000, 16), (0x1100, 0x40000)] []"
proof -
  have "ld one_block 0x1000 = MAGIC" "ld one_block 0x1004 = 16" "ld one_block 0x1008 = 0"
    by (simp_all add: one_block_def ld_st)
  then have "heap_ok 0x1000 0x1100 \<lparr>la_start = 0x1000, la_size = 0x100, first_free = 0x1000\<rparr> one_block [(0x1000, 16)] []"
    by (simp add: heap_ok_def bounds_def)
  then have ok: "kheap_ok 0x1000 0x1100 (sample_kheap\<lparr>kh_memory := one_block\<rparr>) [(0x1000, 16)] []"
    by (simp add: kheap_ok_def sample_kheap_def region_new_def)
  have g: "growth 0x40800 = 0x40000" by (simp add: growth_def)
  from global_alloc_large_fails [OF ok, of "\<lparr>layout_size = 0x40800, layout_align = 4\<rparr>" 2] g
  show ?thesis by (auto simp: bounds_def)
qed

end
