(* ===== verification/Paging.thy ===== *)
theory Paging
  imports Regions
begin

text \<open>
  Page tables: \<^verbatim>\<open>memory/virt/page_entry.rs\<close>, \<^verbatim>\<open>page_table.rs\<close>, \<^verbatim>\<open>page_directory.rs\<close>
  and the boot-time directory of \<^verbatim>\<open>memory/virt/mod.rs\<close>.

  The machine is physical memory, the paging control registers and the frame allocator.  Every
  access the kernel makes through a pointer goes through \<open>translate\<close>, the two-level walk the
  processor performs, so the recursive mapping of the directory onto its own last entry and the
  temporary page below it are derived from the contents of memory, not assumed.  An access to an
  unmapped address is a page fault in the kernel, modelled as a panic.  The translation cache is
  not part of the state: translations are always looked up in memory, which makes
  \<^verbatim>\<open>invalidate_page\<close> the identity.
\<close>

section \<open>Page table entries\<close>

definition ENTRY_ACCESSED :: u32 where "ENTRY_ACCESSED = push_bit 5 1"
definition ENTRY_USER_ACCESS :: u32 where "ENTRY_USER_ACCESS = push_bit 2 1"
definition ENTRY_WRITE_ACCESS :: u32 where "ENTRY_WRITE_ACCESS = push_bit 1 1"
definition ENTRY_PRESENT :: u32 where "ENTRY_PRESENT = 1"

type_synonym page_table_entry = u32

definition pte_get_address :: "page_table_entry \<Rightarrow> physical_address" where
  "pte_get_address e = PhysicalAddress (e AND 0xfffff000)"

definition pte_set_address :: "physical_address \<Rightarrow> page_table_entry \<Rightarrow> page_table_entry" where
  "pte_set_address addr e = (let addr_bits = pa_usize addr AND 0xfffff000 in (e AND 0xfff) OR addr_bits)"

definition has_been_accessed :: "page_table_entry \<Rightarrow> bool" where
  "has_been_accessed e \<longleftrightarrow> e AND ENTRY_ACCESSED = ENTRY_ACCESSED"

definition set_user_access :: "page_table_entry \<Rightarrow> page_table_entry" where
  "set_user_access e = e OR ENTRY_USER_ACCESS"

definition clear_user_access :: "page_table_entry \<Rightarrow> page_table_entry" where
  "clear_user_access e = e AND NOT ENTRY_USER_ACCESS"

definition is_user_access_granted :: "page_table_entry \<Rightarrow> bool" where
  "is_user_access_granted e \<longleftrightarrow> e AND ENTRY_USER_ACCESS = ENTRY_USER_ACCESS"

definition set_write_access :: "page_table_entry \<Rightarrow> page_table_entry" where
  "set_write_access e = e OR ENTRY_WRITE_ACCESS"

definition clear_write_access :: "page_table_entry \<Rightarrow> page_table_entry" where
  "clear_write_access e = e AND NOT ENTRY_WRITE_ACCESS"

definition is_write_access_granted :: "page_table_entry \<Rightarrow> bool" where
  "is_write_access_granted e \<longleftrightarrow> e AND ENTRY_WRITE_ACCESS = ENTRY_WRITE_ACCESS"

definition set_present :: "page_table_entry \<Rightarrow> page_table_entry" where
  "set_present e = e OR ENTRY_PRESENT"

definition clear_present :: "page_table_entry \<Rightarrow> page_table_entry" where
  "clear_present e = e AND NOT ENTRY_PRESENT"

definition is_present :: "page_table_entry \<Rightarrow> bool" where
  "is_present e \<longleftrightarrow> e AND ENTRY_PRESENT = ENTRY_PRESENT"

definition set_flags :: "u32 \<Rightarrow> page_table_entry \<Rightarrow> page_table_entry" where
  "set_flags flags e = (e AND 0xffe0) OR (flags AND 0x1f)"

definition get_flags :: "page_table_entry \<Rightarrow> u32" where
  "get_flags e = e AND 0x1f"

section \<open>The machine\<close>

record machine =
  ram :: memory
  paging :: bool
  cr3 :: usize
  frames :: phys

text \<open>The walk of the processor: directory entry, table entry, byte offset.\<close>

definition translate :: "machine \<Rightarrow> usize \<Rightarrow> usize \<Rightarrow> usize option" where
  "translate s root v =
     (if \<not> paging s then Some v
      else let pde = load32 (ram s) ((root AND 0xfffff000) + 4 * drop_bit 22 v)
           in if \<not> is_present pde then None
              else let pte = load32 (ram s) ((pde AND 0xfffff000) + 4 * (drop_bit 12 v AND 0x3ff))
                   in if \<not> is_present pte then None
                      else Some ((pte AND 0xfffff000) + (v AND 0xfff)))"

definition vread32 :: "machine \<Rightarrow> usize \<Rightarrow> u32 outcome" where
  "vread32 s v = (case translate s (cr3 s) v of None \<Rightarrow> Panic | Some a \<Rightarrow> Done (load32 (ram s) a))"

definition vwrite32 :: "usize \<Rightarrow> u32 \<Rightarrow> machine \<Rightarrow> machine outcome" where
  "vwrite32 v x s =
     (case translate s (cr3 s) v of None \<Rightarrow> Panic | Some a \<Rightarrow> Done (s\<lparr>ram := store32 (ram s) a x\<rparr>))"

definition take_frame :: "machine \<Rightarrow> (frame \<times> machine) outcome" where
  "take_frame s =
     obind (allocate_frame (frames s)) (\<lambda>(r, p).
     obind (unwrap r) (\<lambda>f. Done (f, s\<lparr>frames := p\<rparr>)))"

section \<open>Page tables\<close>

text \<open>
  \<^verbatim>\<open>PageTable::at_address(a)\<close> views 1024 entries at \<open>a\<close>; \<^verbatim>\<open>get\<close> reads one and
  \<^verbatim>\<open>get_mut(i).op()\<close> reads, modifies and writes it.
\<close>

definition table_get :: "virtual_address \<Rightarrow> usize \<Rightarrow> machine \<Rightarrow> page_table_entry outcome" where
  "table_get tbl index s = vread32 s (va_usize tbl + 4 * (index AND 0x3ff))"

definition table_get_mut ::
  "virtual_address \<Rightarrow> usize \<Rightarrow> (page_table_entry \<Rightarrow> page_table_entry) \<Rightarrow> machine \<Rightarrow> machine outcome" where
  "table_get_mut tbl index op s =
     (let a = va_usize tbl + 4 * (index AND 0x3ff)
      in obind (vread32 s a) (\<lambda>e. vwrite32 a (op e) s))"

definition table_zero :: "virtual_address \<Rightarrow> machine \<Rightarrow> machine outcome" where
  "table_zero tbl = ofold (\<lambda>index. vwrite32 (va_usize tbl + 4 * of_nat index) 0) [0 ..< 1024]"

record page_table_reference =
  ptr_address :: physical_address

definition ptr_new :: "physical_address \<Rightarrow> page_table_reference" where
  "ptr_new a = \<lparr>ptr_address = a\<rparr>"

definition set_current_pagedir :: "physical_address \<Rightarrow> machine \<Rightarrow> machine" where
  "set_current_pagedir addr s = s\<lparr>cr3 := pa_usize addr\<rparr>"

definition get_current_pagedir :: "machine \<Rightarrow> physical_address" where
  "get_current_pagedir s = PhysicalAddress (cr3 s)"

definition ptr_current :: "machine \<Rightarrow> page_table_reference" where
  "ptr_current s = \<lparr>ptr_address = get_current_pagedir s\<rparr>"

definition make_active :: "page_table_reference \<Rightarrow> machine \<Rightarrow> machine" where
  "make_active r s = set_current_pagedir (ptr_address r) s"

definition is_active :: "page_table_reference \<Rightarrow> machine \<Rightarrow> bool" where
  "is_active r s \<longleftrightarrow> ptr_address r = get_current_pagedir s"

section \<open>Page directories\<close>

datatype permission_flags = PermissionFlags u8

fun pf_u8 :: "permission_flags \<Rightarrow> u8" where
  "pf_u8 (PermissionFlags f) = f"

definition USER_ACCESS :: u8 where "USER_ACCESS = 1"
definition WRITE_ACCESS :: u8 where "WRITE_ACCESS = 2"

definition get_temporary_page_address :: virtual_address where
  "get_temporary_page_address = VirtualAddress 0xffbff000"

definition map_frame_to_temporary_page :: "frame \<Rightarrow> machine \<Rightarrow> machine outcome" where
  "map_frame_to_temporary_page f s =
     (let last_table = VirtualAddress 0xffffe000
      in obind (table_get_mut last_table 1023 (pte_set_address (get_address f)) s) (\<lambda>s.
         table_get_mut last_table 1023 set_present s))"

text \<open>Both \<^verbatim>\<open>map\<close> methods end with the same four updates of the table entry.\<close>

definition fill_entry ::
  "virtual_address \<Rightarrow> usize \<Rightarrow> physical_address \<Rightarrow> permission_flags \<Rightarrow> machine \<Rightarrow> machine outcome" where
  "fill_entry table table_index paddr flags s =
     obind (table_get_mut table table_index (pte_set_address paddr) s) (\<lambda>s.
     obind (table_get_mut table table_index set_present s) (\<lambda>s.
     obind (if pf_u8 flags AND WRITE_ACCESS \<noteq> 0 then table_get_mut table table_index set_write_access s
            else Done s) (\<lambda>s.
     if pf_u8 flags AND USER_ACCESS \<noteq> 0 then table_get_mut table table_index set_user_access s
     else Done s)))"

text \<open>The directory entry of a new table.\<close>

definition fill_dir_entry ::
  "virtual_address \<Rightarrow> usize \<Rightarrow> physical_address \<Rightarrow> machine \<Rightarrow> machine outcome" where
  "fill_dir_entry directory dir_index paddr s =
     obind (table_get_mut directory dir_index (pte_set_address paddr) s) (\<lambda>s.
     obind (table_get_mut directory dir_index set_present s) (\<lambda>s.
     if dir_index < 768
     then obind (table_get_mut directory dir_index set_user_access s) (\<lambda>s.
          table_get_mut directory dir_index set_write_access s)
     else Done s))"

definition current_map :: "frame \<Rightarrow> virtual_address \<Rightarrow> permission_flags \<Rightarrow> machine \<Rightarrow> machine outcome" where
  "current_map f vaddr flags s =
     (let paddr = get_address f;
          dir_index = get_page_directory_index vaddr;
          table_index = get_page_table_index vaddr;
          top_page = VirtualAddress 0xfffff000;
          table = VirtualAddress (0xffc00000 + dir_index * 0x1000)
      in obind (table_get top_page dir_index s) (\<lambda>entry.
           if \<not> is_present entry
           then obind (take_frame s) (\<lambda>(table_frame, s).
                obind (fill_dir_entry top_page dir_index (get_address table_frame) s) (\<lambda>s.
                obind (table_zero table s) (\<lambda>s.
                fill_entry table table_index paddr flags s)))
           else obind (table_get table table_index s) (\<lambda>_.
                fill_entry table table_index paddr flags s)))"

definition current_unmap :: "virtual_address \<Rightarrow> machine \<Rightarrow> machine outcome" where
  "current_unmap vaddr s =
     (let dir_index = get_page_directory_index vaddr;
          table_index = get_page_table_index vaddr;
          directory = VirtualAddress 0xfffff000
      in obind (table_get directory dir_index s) (\<lambda>entry.
           if \<not> is_present entry then Done s
           else let table = VirtualAddress (0xffc00000 + 0x1000 * dir_index)
                in obind (table_get table table_index s) (\<lambda>entry.
                     if \<not> is_present entry then Done s
                     else table_get_mut table table_index clear_present s)))"

definition alternate_map ::
  "physical_address \<Rightarrow> frame \<Rightarrow> virtual_address \<Rightarrow> permission_flags \<Rightarrow> machine \<Rightarrow> machine outcome" where
  "alternate_map directory_address f vaddr flags s =
     (let pagedir_frame = frame_new (pa_usize directory_address);
          dir_index = get_page_directory_index vaddr;
          table_index = get_page_table_index vaddr;
          temp = get_temporary_page_address
      in obind (map_frame_to_temporary_page pagedir_frame s) (\<lambda>s.
         obind (table_get temp dir_index s) (\<lambda>entry.
           if \<not> is_present entry
           then obind (take_frame s) (\<lambda>(table_frame, s).
                obind (fill_dir_entry temp dir_index (get_address table_frame) s) (\<lambda>s.
                obind (map_frame_to_temporary_page table_frame s) (\<lambda>s.
                obind (table_zero temp s) (\<lambda>s.
                fill_entry temp table_index (get_address f) flags s))))
           else obind (map_frame_to_temporary_page (frame_new (pa_usize (pte_get_address entry))) s) (\<lambda>s.
                obind (table_get temp table_index s) (\<lambda>_.
                fill_entry temp table_index (get_address f) flags s)))))"

section \<open>Loops over a region\<close>

text \<open>
  The loops visit the region's addresses page by page until one lies outside.  A region that
  ends in the last page of the address space makes the page address wrap to 0; the loop of a
  region that starts at 0 and ends there would not stop, hence \<open>partial_function\<close>.
\<close>

partial_function (option) region_loop ::
  "(virtual_address \<Rightarrow> machine \<Rightarrow> machine outcome) \<Rightarrow> region \<Rightarrow> virtual_address \<Rightarrow> machine \<Rightarrow> machine outcome option" where
  "region_loop body r page_start s =
     (if region_contains r page_start
      then case body page_start s of
             Done s \<Rightarrow> region_loop body r (va_offset page_start 0x1000) s
           | e \<Rightarrow> Some e
      else Some (Done s))"

definition for_region_pages ::
  "(virtual_address \<Rightarrow> machine \<Rightarrow> machine outcome) \<Rightarrow> region \<Rightarrow> machine \<Rightarrow> machine outcome" where
  "for_region_pages body r s = (case region_loop body r (rg_start r) s of None \<Rightarrow> Hang | Some x \<Rightarrow> x)"

definition unmap_region :: "region \<Rightarrow> machine \<Rightarrow> machine outcome" where
  "unmap_region = for_region_pages current_unmap"

text \<open>Reading the entry of a page of the current directory: \<^verbatim>\<open>None\<close> unless it is mapped.\<close>

definition current_entry :: "virtual_address \<Rightarrow> machine \<Rightarrow> page_table_entry option outcome" where
  "current_entry page s =
     (let directory_index = get_page_directory_index page;
          table_index = get_page_table_index page
      in obind (table_get (VirtualAddress 0xfffff000) directory_index s) (\<lambda>d.
           if is_present d
           then obind (table_get (VirtualAddress (0xffc00000 + 0x1000 * directory_index)) table_index s) (\<lambda>e.
                  Done (if is_present e then Some e else None))
           else Done None))"

definition copy_mapping_page :: "physical_address \<Rightarrow> virtual_address \<Rightarrow> machine \<Rightarrow> machine outcome" where
  "copy_mapping_page dir page s =
     obind (current_entry page s) (\<lambda>r. case r of
       None \<Rightarrow> Done s
     | Some e \<Rightarrow>
         let flags = (if is_user_access_granted e then USER_ACCESS else 0)
                     OR (if is_write_access_granted e then WRITE_ACCESS else 0)
         in alternate_map dir (frame_new (pa_usize (pte_get_address e))) page (PermissionFlags flags) s)"

fun copy_words :: "nat \<Rightarrow> usize \<Rightarrow> usize \<Rightarrow> machine \<Rightarrow> machine outcome" where
  "copy_words 0 from to s = Done s"
| "copy_words (Suc n) from to s =
     obind (vread32 s from) (\<lambda>x. obind (vwrite32 to x s) (copy_words n (from + 4) (to + 4)))"

definition copy_frames_page :: "physical_address \<Rightarrow> virtual_address \<Rightarrow> machine \<Rightarrow> machine outcome" where
  "copy_frames_page dir page s =
     obind (current_entry page s) (\<lambda>r. case r of
       None \<Rightarrow> Done s
     | Some e \<Rightarrow>
         obind (take_frame s) (\<lambda>(new_frame, s).
         obind (map_frame_to_temporary_page new_frame s) (\<lambda>s.
         obind (copy_words 1024 (va_usize page) (va_usize get_temporary_page_address) s) (\<lambda>s.
           let flags = WRITE_ACCESS OR (if va_usize page < 0xc0000000 then USER_ACCESS else 0)
           in alternate_map dir new_frame page (PermissionFlags flags) s))))"

definition copy_on_write_page :: "physical_address \<Rightarrow> virtual_address \<Rightarrow> machine \<Rightarrow> machine outcome" where
  "copy_on_write_page dir page s =
     obind (current_entry page s) (\<lambda>r. case r of
       None \<Rightarrow> Done s
     | Some e \<Rightarrow>
         let frame_paddr = pte_get_address e
         in obind (phys_reference_frame_at_address frame_paddr (frames s)) (\<lambda>(_, p).
            let s = s\<lparr>frames := p\<rparr>;
                flags = (if is_user_access_granted e then USER_ACCESS else 0);
                table = VirtualAddress (0xffc00000 + 0x1000 * get_page_directory_index page)
            in obind (table_get_mut table (get_page_table_index page) clear_write_access s) (\<lambda>s.
               alternate_map dir (frame_new (pa_usize frame_paddr)) page (PermissionFlags flags) s)))"

definition copy_mapping_directly :: "physical_address \<Rightarrow> region \<Rightarrow> machine \<Rightarrow> machine outcome" where
  "copy_mapping_directly dir = for_region_pages (copy_mapping_page dir)"

definition copy_frames :: "physical_address \<Rightarrow> region \<Rightarrow> machine \<Rightarrow> machine outcome" where
  "copy_frames dir = for_region_pages (copy_frames_page dir)"

definition map_with_copy_on_write :: "physical_address \<Rightarrow> region \<Rightarrow> machine \<Rightarrow> machine outcome" where
  "map_with_copy_on_write dir = for_region_pages (copy_on_write_page dir)"

text \<open>Only anonymous regions can be copied into another directory, the other kinds panic.\<close>

definition map_region :: "physical_address \<Rightarrow> region \<Rightarrow> machine \<Rightarrow> machine outcome" where
  "map_region dir r s =
     (case backed_by r of
        Direct _ \<Rightarrow> Panic
      | DMA _ \<Rightarrow> Panic
      | MemMapped _ _ _ \<Rightarrow> Panic
      | Anonymous _ \<Rightarrow>
          (case rg_permissions r of
             ReadOnly \<Rightarrow> copy_mapping_directly dir r s
           | ReadWrite \<Rightarrow> copy_frames dir r s
           | CopyOnWrite \<Rightarrow> map_with_copy_on_write dir r s))"

section \<open>The boot directory\<close>

definition create_initial_pagedir :: "machine \<Rightarrow> (page_table_reference \<times> machine) outcome" where
  "create_initial_pagedir s =
     obind (take_frame s) (\<lambda>(dir_frame, s).
     let s = s\<lparr>ram := frame_zero_memory dir_frame (ram s)\<rparr>;
         dir_address = get_address dir_frame;
         dir = VirtualAddress (pa_usize dir_address)
     in obind (take_frame s) (\<lambda>(last_table_frame, s).
        let s = s\<lparr>ram := frame_zero_memory last_table_frame (ram s)\<rparr>;
            last_table_address = get_address last_table_frame
        in obind (table_get_mut dir 1022 (pte_set_address last_table_address) s) (\<lambda>s.
           obind (table_get_mut dir 1022 set_present s) (\<lambda>s.
           obind (table_get_mut dir 1023 (pte_set_address dir_address) s) (\<lambda>s.
           obind (table_get_mut dir 1023 set_present s) (\<lambda>s.
             Done (ptr_new dir_address, s)))))))"

record kernel_data_bounds =
  ro_start :: physical_address
  rw_end :: physical_address
  stack_start :: physical_address

definition identity_entry :: "virtual_address \<Rightarrow> nat \<Rightarrow> machine \<Rightarrow> machine outcome" where
  "identity_entry table_zero' index s =
     obind (table_get_mut table_zero' (of_nat index) (pte_set_address (PhysicalAddress (0x1000 * of_nat index))) s) (\<lambda>s.
     obind (table_get_mut table_zero' (of_nat index) set_present s) (\<lambda>s.
     table_get_mut table_zero' (of_nat index) set_user_access s))"

definition map_kernel :: "page_table_reference \<Rightarrow> kernel_data_bounds \<Rightarrow> machine \<Rightarrow> machine outcome" where
  "map_kernel directory_ref bnds s =
     (let kernel_range = frame_range_new (pa_usize (ro_start bnds))
            (pa_usize (rw_end bnds) - pa_usize (ro_start bnds) - 1)
      in obind (phys_allocate_range kernel_range (frames s)) (\<lambda>(r, p).
         obind (unwrap r) (\<lambda>_.
         obind (take_frame (s\<lparr>frames := p\<rparr>)) (\<lambda>(table_zero_frame, s).
         let s = s\<lparr>ram := frame_zero_memory table_zero_frame (ram s)\<rparr>;
             dir = VirtualAddress (pa_usize (ptr_address directory_ref));
             zero_addr = get_address table_zero_frame
         in obind (table_get_mut dir 0 (pte_set_address zero_addr) s) (\<lambda>s.
            obind (table_get_mut dir 0 set_present s) (\<lambda>s.
            obind (ofold (identity_entry (VirtualAddress (pa_usize zero_addr))) [0 ..< 1024] s) (\<lambda>s.
            obind (table_get_mut dir 0x300 (pte_set_address zero_addr) s) (\<lambda>s.
            obind (table_get_mut dir 0x300 set_present s) (\<lambda>s.
            obind (table_get dir 1022 s) (\<lambda>e.
            let last_page = VirtualAddress (pa_usize (pte_get_address e))
            in obind (table_get_mut last_page 1022 (pte_set_address (stack_start bnds)) s) (\<lambda>s.
               table_get_mut last_page 1022 set_present s)))))))))))"

definition enable_paging :: "machine \<Rightarrow> machine" where
  "enable_paging s = s\<lparr>paging := True\<rparr>"

end
