(* ===== verification/PagingCorrect.thy ===== *)
theory PagingCorrect
  imports Paging
begin

text \<open>
  Correctness of the page directory operations.  Physical memory is read as an array of frames
  of 1024 entries; on that view the walk of the processor, the recursive mapping and the
  temporary page become equations, and each operation a small update.  The contract of an
  address space (\<open>page_space\<close>) is a locale, interpreted on the current directory and on a
  directory edited through the temporary page.
\<close>

section \<open>Memory as frames of entries\<close>

definition fno :: "page_table_entry \<Rightarrow> nat" where
  "fno e = unat e div 4096"

definition ent :: "machine \<Rightarrow> nat \<Rightarrow> nat \<Rightarrow> page_table_entry" where
  "ent s f i = ld (ram s) (4096 * f + 4 * i)"

definition put :: "machine \<Rightarrow> nat \<Rightarrow> nat \<Rightarrow> page_table_entry \<Rightarrow> machine" where
  "put s f i x = s\<lparr>ram := st (ram s) (4096 * f + 4 * i) x\<rparr>"

lemma fno_less [simp]: "fno e < 1048576"
  using unat_lt32 [of e] by (simp add: fno_def)

lemma put_simps [simp]:
  "paging (put s f i x) = paging s" "cr3 (put s f i x) = cr3 s" "frames (put s f i x) = frames s"
  by (simp_all add: put_def)

lemma ent_address:
  fixes f i g j :: nat
  assumes "i < 1024" "j < 1024"
  shows "4096 * f + 4 * i = 4096 * g + 4 * j \<longleftrightarrow> f = g \<and> i = j"
  using assms by (cases f g rule: linorder_cases) auto

lemma ent_put:
  assumes "f < 1048576" "i < 1024" "g < 1048576" "j < 1024"
  shows "ent (put s f i x) g j = (if g = f \<and> j = i then x else ent s g j)"
  using assms ent_address [of i j f g] by (auto simp: ent_def put_def ld_st)

lemma store32_store32: "store32 (store32 m a x) a y = store32 m a y"
  by (rule ext) (simp add: store32_def)

lemma put_put [simp]: "put (put s f i x) f i y = put s f i y"
  by (simp add: put_def st_def store32_store32)

section \<open>The walk\<close>

definition walk :: "machine \<Rightarrow> nat \<Rightarrow> nat \<Rightarrow> nat \<Rightarrow> page_table_entry option" where
  "walk s r d t =
     (if is_present (ent s r d) \<and> is_present (ent s (fno (ent s r d)) t)
      then Some (ent s (fno (ent s r d)) t) else None)"

lemma page_base_nat: "(x AND 0xfffff000 :: usize) = of_nat (4096 * (unat x div 4096))"
proof -
  have "unat x div 4096 * 4096 < 4294967296"
    using div_4096_bounds(1) [of "unat x"] unat_lt32 [of x] by linarith
  then have "unat (of_nat (4096 * (unat x div 4096)) :: usize) = 4096 * (unat x div 4096)"
    by (intro unat_of_nat32) simp
  then show ?thesis
    unfolding word_unat_eq_iff unat_page_base by (simp only: minus_mod_eq_mult_div)
qed

lemma entry_address:
  fixes root i :: usize
  assumes "unat i < 1024"
  shows "(root AND 0xfffff000) + 4 * i = of_nat (4096 * (unat root div 4096) + 4 * unat i)"
  by (simp add: page_base_nat)

lemma translate_walk:
  assumes "paging s"
  shows "translate s root v = map_option (\<lambda>e. of_nat (4096 * fno e + unat v mod 4096))
    (walk s (unat root div 4096) (unat v div 4194304) (unat v div 4096 mod 1024))"
proof -
  have d: "unat (drop_bit 22 v) = unat v div 4194304" "unat v div 4194304 < 1024"
    using unat_lt32 [of v] by (simp_all add: word_nat)
  have t: "unat (drop_bit 12 v AND 0x3ff) = unat v div 4096 mod 1024" by (simp add: word_nat)
  have o: "v AND 0xfff = of_nat (unat v mod 4096)"
    by (simp add: word_unat_eq_iff unat_and_fff unat_of_nat32)
  have pde: "load32 (ram s) ((root AND 0xfffff000) + 4 * drop_bit 22 v)
      = ent s (unat root div 4096) (unat v div 4194304)"
    using entry_address [of "drop_bit 22 v" root] d by (simp add: ent_def ld_def)
  have pte: "load32 (ram s) ((e AND 0xfffff000) + 4 * (drop_bit 12 v AND 0x3ff))
      = ent s (fno e) (unat v div 4096 mod 1024)" for e
    using entry_address [of "drop_bit 12 v AND 0x3ff" e] t by (simp add: ent_def ld_def fno_def)
  have addr: "(e AND 0xfffff000) + (v AND 0xfff) = of_nat (4096 * fno e + unat v mod 4096)" for e
    unfolding o page_base_nat fno_def by simp
  show ?thesis
    unfolding translate_def Let_def pde pte addr walk_def using assms by simp
qed

text \<open>The virtual address of the table that the walk reaches through entries \<open>d\<close> and \<open>t\<close>.\<close>

definition tva :: "nat \<Rightarrow> nat \<Rightarrow> virtual_address" where
  "tva d t = VirtualAddress (of_nat (4096 * (1024 * d + t)))"

lemma tva_consts:
  "VirtualAddress 0xfffff000 = tva 1023 1023" "VirtualAddress 0xffffe000 = tva 1023 1022"
  "get_temporary_page_address = tva 1022 1023"
  by (simp_all add: tva_def get_temporary_page_address_def)

lemma tva_window: "VirtualAddress (0xffc00000 + of_nat d * 0x1000) = tva 1023 d"
  by (simp add: tva_def)

lemma entry_vaddr:
  assumes "d < 1024" "t < 1024" "i < 1024"
  shows "unat (va_usize (tva d t) + 4 * (of_nat i AND 0x3ff)) = 4096 * (1024 * d + t) + 4 * i"
proof -
  have "unat (of_nat i AND 0x3ff :: usize) = i"
    using assms(3) by (simp add: word_nat unat_of_nat32)
  then have "(of_nat i AND 0x3ff :: usize) = of_nat i"
    using assms(3) by (simp add: word_unat_eq_iff unat_of_nat32)
  then have "va_usize (tva d t) + 4 * (of_nat i AND 0x3ff) = of_nat (4096 * (1024 * d + t) + 4 * i)"
    by (simp add: tva_def)
  then show ?thesis using assms unat_of_nat32 [of "4096 * (1024 * d + t) + 4 * i"] by simp
qed

lemma split_vaddr:
  fixes d t o' :: nat
  assumes "t < 1024" "o' < 4096"
  shows "(4096 * (1024 * d + t) + o') div 4194304 = d" "(4096 * (1024 * d + t) + o') div 4096 mod 1024 = t"
    "(4096 * (1024 * d + t) + o') mod 4096 = o'"
proof -
  have q: "(4096 * (1024 * d + t) + o') div 4096 = 1024 * d + t" using assms(2) by simp
  show "(4096 * (1024 * d + t) + o') div 4096 mod 1024 = t" unfolding q using assms(1) by simp
  show "(4096 * (1024 * d + t) + o') div 4194304 = d"
    using q assms(1) div_mult2_eq [of "4096 * (1024 * d + t) + o'" 4096 1024] by simp
  show "(4096 * (1024 * d + t) + o') mod 4096 = o'"
    using assms(2) mod_mult_self4 [of 4096 "1024 * d + t" o'] by simp
qed

abbreviation root_of :: "machine \<Rightarrow> nat" where
  "root_of s \<equiv> unat (cr3 s) div 4096"

lemma translate_table:
  assumes "paging s" "walk s (root_of s) d t = Some e" "d < 1024" "t < 1024" "i < 1024"
  shows "translate s (cr3 s) (va_usize (tva d t) + 4 * (of_nat i AND 0x3ff)) = Some (of_nat (4096 * fno e + 4 * i))"
  unfolding translate_walk [OF assms(1)] entry_vaddr [OF assms(3-5)]
  using split_vaddr [of t "4 * i" d] assms by simp

lemma table_get_spec:
  assumes "paging s" "walk s (root_of s) d t = Some e" "d < 1024" "t < 1024" "i < 1024"
  shows "table_get (tva d t) (of_nat i) s = Done (ent s (fno e) i)"
  using translate_table [OF assms] by (simp add: table_get_def vread32_def ent_def ld_def)

lemma table_get_mut_spec:
  assumes "paging s" "walk s (root_of s) d t = Some e" "d < 1024" "t < 1024" "i < 1024"
  shows "table_get_mut (tva d t) (of_nat i) f s = Done (put s (fno e) i (f (ent s (fno e) i)))"
  using translate_table [OF assms]
  by (simp add: table_get_mut_def vread32_def vwrite32_def ent_def ld_def put_def st_def)

text \<open>A write that misses the two entries of a walk leaves the walk alone.\<close>

lemma walk_put:
  assumes "f < 1048576" "i < 1024" "r < 1048576" "d < 1024" "t < 1024"
    and "\<not> (f = r \<and> i = d)" "\<not> (f = fno (ent s r d) \<and> i = t)"
  shows "walk (put s f i x) r d t = walk s r d t"
  using assms by (auto simp: walk_def ent_put)

section \<open>Entries\<close>

lemma fno_drop: "fno e = unat (drop_bit 12 e)"
  by (simp add: fno_def word_nat)

lemma fno_or: "fno (e OR x) = unat (drop_bit 12 e OR drop_bit 12 x)"
  by (simp add: fno_drop drop_bit_or)

lemma bit_single:
  assumes "k < LENGTH('a)"
  shows "bit (push_bit k 1 :: 'a::len word) n = (n = k)"
  using assms by (auto simp: bit_simps)

lemma and_single:
  assumes "k < LENGTH('a)"
  shows "(e AND push_bit k 1 = (push_bit k 1 :: 'a::len word)) = bit e k"
proof
  assume "e AND push_bit k 1 = (push_bit k 1 :: 'a word)"
  then have "bit (e AND push_bit k 1) k = bit (push_bit k 1 :: 'a word) k" by (rule arg_cong)
  then show "bit e k" unfolding bit_and_iff bit_single [OF assms] by blast
next
  assume "bit e k"
  then show "e AND push_bit k 1 = (push_bit k 1 :: 'a word)"
    by (intro bit_eqI) (auto simp only: bit_and_iff bit_single [OF assms])
qed

lemma is_present_bit: "is_present e = bit e 0"
  using and_single [of 0 e] by (simp add: is_present_def ENTRY_PRESENT_def)

lemma is_write_bit: "is_write_access_granted e = bit e 1"
  unfolding is_write_access_granted_def ENTRY_WRITE_ACCESS_def by (rule and_single) simp

lemma is_user_bit: "is_user_access_granted e = bit e 2"
  unfolding is_user_access_granted_def ENTRY_USER_ACCESS_def by (rule and_single) simp

lemmas entry_bits = is_present_bit is_write_bit is_user_bit

lemma bit_entry_ops:
  "bit (set_present e) n = (bit e n \<or> n = 0)"
  "bit (clear_present e) n = (bit e n \<and> n \<noteq> 0)"
  "bit (set_write_access e) n = (bit e n \<or> n = 1)"
  "bit (clear_write_access e) n = (bit e n \<and> n \<noteq> 1)"
  "bit (set_user_access e) n = (bit e n \<or> n = 2)"
  "bit (clear_user_access e) n = (bit e n \<and> n \<noteq> 2)"
proof -
  have b: "bit (push_bit 1 1 :: u32) n = (n = 1)" "bit (push_bit 2 1 :: u32) n = (n = 2)"
    by (rule bit_single, simp)+
  have one: "bit (1 :: u32) n = (n = 0)" by (simp add: bit_1_iff)
  show "bit (set_present e) n = (bit e n \<or> n = 0)" "bit (clear_present e) n = (bit e n \<and> n \<noteq> 0)"
    "bit (set_write_access e) n = (bit e n \<or> n = 1)" "bit (clear_write_access e) n = (bit e n \<and> n \<noteq> 1)"
    "bit (set_user_access e) n = (bit e n \<or> n = 2)" "bit (clear_user_access e) n = (bit e n \<and> n \<noteq> 2)"
    unfolding set_present_def clear_present_def set_write_access_def clear_write_access_def
      set_user_access_def clear_user_access_def ENTRY_PRESENT_def ENTRY_WRITE_ACCESS_def
      ENTRY_USER_ACCESS_def bit_or_iff bit_and_iff bit_not_iff b one
    by (auto dest: bit_imp_le_length)
qed

lemma bit_set_address: "bit (pte_set_address (PhysicalAddress a) e) n = (if n < 12 then bit e n else bit a n)"
proof -
  have m: "(0xfff :: u32) = mask 12" "(0xfffff000 :: u32) = NOT (mask 12)"
    by (simp_all add: mask_eq_exp_minus_1 not_eq_complement)
  show ?thesis
    unfolding pte_set_address_def Let_def pa_usize.simps m
    by (auto simp: bit_simps dest: bit_imp_le_length)
qed

lemma fno_cong:
  assumes "\<And>n. 12 \<le> n \<Longrightarrow> bit e n = bit e' n"
  shows "fno e = fno e'"
proof -
  have "drop_bit 12 e = drop_bit 12 e'"
    by (rule bit_eqI) (simp only: bit_drop_bit_eq comp_def assms le_add1)
  then show ?thesis by (simp add: fno_drop)
qed

lemma fno_ops [simp]:
  "fno (set_present e) = fno e" "fno (clear_present e) = fno e" "fno (set_write_access e) = fno e"
  "fno (clear_write_access e) = fno e" "fno (set_user_access e) = fno e" "fno (clear_user_access e) = fno e"
  by (rule fno_cong, simp add: bit_entry_ops)+

lemma fno_set_address [simp]: "fno (pte_set_address (PhysicalAddress a) e) = unat a div 4096"
proof -
  have "fno (pte_set_address (PhysicalAddress a) e) = fno a"
    by (rule fno_cong) (simp add: bit_set_address)
  then show ?thesis by (simp add: fno_def)
qed

text \<open>The entries the two fill operations store.\<close>

definition new_entry :: "physical_address \<Rightarrow> permission_flags \<Rightarrow> page_table_entry \<Rightarrow> page_table_entry" where
  "new_entry pa flags e =
     (let e = set_present (pte_set_address pa e);
          e = (if pf_u8 flags AND WRITE_ACCESS \<noteq> 0 then set_write_access e else e)
      in if pf_u8 flags AND USER_ACCESS \<noteq> 0 then set_user_access e else e)"

definition dir_entry :: "nat \<Rightarrow> physical_address \<Rightarrow> page_table_entry \<Rightarrow> page_table_entry" where
  "dir_entry d pa e =
     (let e = set_present (pte_set_address pa e)
      in if d < 768 then set_write_access (set_user_access e) else e)"

lemma new_entry_props:
  "is_present (new_entry (PhysicalAddress a) flags e)"
  "fno (new_entry (PhysicalAddress a) flags e) = unat a div 4096"
  "is_write_access_granted (new_entry (PhysicalAddress a) flags e)
     \<longleftrightarrow> pf_u8 flags AND WRITE_ACCESS \<noteq> 0 \<or> is_write_access_granted e"
  "is_user_access_granted (new_entry (PhysicalAddress a) flags e)
     \<longleftrightarrow> pf_u8 flags AND USER_ACCESS \<noteq> 0 \<or> is_user_access_granted e"
  by (simp_all add: new_entry_def Let_def entry_bits bit_entry_ops bit_set_address)

lemma dir_entry_props:
  "is_present (dir_entry d (PhysicalAddress a) e)" "fno (dir_entry d (PhysicalAddress a) e) = unat a div 4096"
  by (simp_all add: dir_entry_def Let_def entry_bits bit_entry_ops)

section \<open>Filling entries and clearing tables\<close>

lemma fill_entry_spec:
  assumes "paging s" "walk s (root_of s) d t = Some e" "d < 1024" "t < 1024" "i < 1024"
    and "\<not> (fno e = root_of s \<and> i = d)" "\<not> (fno e = fno (ent s (root_of s) d) \<and> i = t)"
  shows "fill_entry (tva d t) (of_nat i) pa flags s = Done (put s (fno e) i (new_entry pa flags (ent s (fno e) i)))"
proof -
  have r: "root_of s < 1048576" using unat_lt32 [of "cr3 s"] by simp
  have w: "walk (put s (fno e) i x) (root_of s) d t = Some e" for x
    using walk_put [of "fno e" i "root_of s" d t s x] assms r by simp
  have step: "table_get_mut (tva d t) (of_nat i) f (put s (fno e) i x) = Done (put s (fno e) i (f x))" for f x
    using table_get_mut_spec [of "put s (fno e) i x" d t e i f] assms w by (simp add: ent_put)
  show ?thesis
    unfolding fill_entry_def new_entry_def Let_def using table_get_mut_spec [OF assms(1-5)]
    by (simp add: step)
qed

lemma fill_dir_entry_spec:
  assumes "paging s" "walk s (root_of s) d t = Some e" "d < 1024" "t < 1024" "i < 1024"
    and "\<not> (fno e = root_of s \<and> i = d)" "\<not> (fno e = fno (ent s (root_of s) d) \<and> i = t)"
  shows "fill_dir_entry (tva d t) (of_nat i) pa s = Done (put s (fno e) i (dir_entry i pa (ent s (fno e) i)))"
proof -
  have r: "root_of s < 1048576" using unat_lt32 [of "cr3 s"] by simp
  have w: "walk (put s (fno e) i x) (root_of s) d t = Some e" for x
    using walk_put [of "fno e" i "root_of s" d t s x] assms r by simp
  have step: "table_get_mut (tva d t) (of_nat i) f (put s (fno e) i x) = Done (put s (fno e) i (f x))" for f x
    using table_get_mut_spec [of "put s (fno e) i x" d t e i f] assms w by (simp add: ent_put)
  have i: "(of_nat i < (768 :: usize)) = (i < 768)"
    using assms(5) by (simp add: word_less_nat_alt unat_of_nat32)
  show ?thesis
    unfolding fill_dir_entry_def dir_entry_def Let_def i using table_get_mut_spec [OF assms(1-5)]
    by (simp add: step)
qed

definition zeroed :: "machine \<Rightarrow> nat \<Rightarrow> nat \<Rightarrow> machine" where
  "zeroed s f n = fold (\<lambda>i s. put s f i 0) [0 ..< n] s"

lemma zeroed_simps:
  "zeroed s f 0 = s" "zeroed s f (Suc n) = put (zeroed s f n) f n 0"
  by (simp_all add: zeroed_def)

lemma zeroed_regs [simp]:
  "paging (zeroed s f n) = paging s" "cr3 (zeroed s f n) = cr3 s" "frames (zeroed s f n) = frames s"
  by (induction n) (simp_all add: zeroed_simps)

lemma ent_zeroed:
  assumes "f < 1048576" "n \<le> 1024" "g < 1048576" "j < 1024"
  shows "ent (zeroed s f n) g j = (if g = f \<and> j < n then 0 else ent s g j)"
  using assms by (induction n) (auto simp: zeroed_simps ent_put)

lemma table_zero_spec:
  assumes "paging s" "walk s (root_of s) d t = Some e" "d < 1024" "t < 1024"
    and "fno e \<noteq> root_of s" "fno e \<noteq> fno (ent s (root_of s) d)"
  shows "table_zero (tva d t) s = Done (zeroed s (fno e) 1024)"
proof -
  have r: "root_of s < 1048576" using unat_lt32 [of "cr3 s"] by simp
  have "ofold (\<lambda>index. vwrite32 (va_usize (tva d t) + 4 * of_nat index) 0) [0 ..< n] s = Done (zeroed s (fno e) n)"
    if "n \<le> 1024" for n
    using that
  proof (induction n)
    case (Suc n)
    let ?s = "zeroed s (fno e) n"
    have "walk ?s (root_of s) d t = Some e"
      using assms Suc.prems r by (simp add: walk_def ent_zeroed split: if_splits)
    then have "translate ?s (cr3 s) (va_usize (tva d t) + 4 * (of_nat n AND 0x3ff)) = Some (of_nat (4096 * fno e + 4 * n))"
      using translate_table [of ?s d t e n] assms Suc.prems by simp
    moreover have "(of_nat n AND 0x3ff :: usize) = of_nat n"
      using Suc.prems by (simp add: word_unat_eq_iff word_nat unat_of_nat32)
    ultimately have "vwrite32 (va_usize (tva d t) + 4 * of_nat n) 0 ?s = Done (put ?s (fno e) n 0)"
      by (simp add: vwrite32_def put_def st_def)
    then show ?case using Suc by (simp add: ofold_append zeroed_simps)
  qed (simp add: zeroed_simps)
  then show ?thesis by (simp add: table_zero_def)
qed

text \<open>Free frames; taking one lowers their number by one.\<close>

definition free_count :: "phys \<Rightarrow> nat" where
  "free_count p = card {k. k < phys_total p \<and> \<not> phys_used p k}"

lemma free_count_0: "\<forall>k < phys_total p. phys_used p k \<Longrightarrow> free_count p = 0"
  by (simp add: free_count_def)

lemma free_count_take:
  assumes "phys_total p' = phys_total p" "\<forall>j. phys_used p' j = (phys_used p j \<or> j = k)"
  shows "free_count p \<le> free_count p' + 1"
proof -
  have "{j. j < phys_total p \<and> \<not> phys_used p j} \<subseteq> insert k {j. j < phys_total p' \<and> \<not> phys_used p' j}"
    using assms by auto
  then have "free_count p \<le> card (insert k {j. j < phys_total p' \<and> \<not> phys_used p' j})"
    unfolding free_count_def by (intro card_mono) auto
  also have "\<dots> \<le> free_count p' + 1" unfolding free_count_def by (simp add: card_insert_if)
  finally show ?thesis .
qed

lemma free_count_pos: "k < phys_total p \<Longrightarrow> \<not> phys_used p k \<Longrightarrow> 0 < free_count p"
  unfolding free_count_def by (rule card_gt_0_iff [THEN iffD2]) auto

lemma take_frame_spec:
  assumes "phys_wf (frames s)"
  shows "take_frame s = Panic \<and> free_count (frames s) = 0
    \<or> (\<exists>k p. take_frame s = Done (Frame (of_nat (k * 4096)), s\<lparr>frames := p\<rparr>) \<and> phys_wf p \<and> k < 1048576
         \<and> phys_total p = phys_total (frames s) \<and> REF_COUNT p = REF_COUNT (frames s)
         \<and> \<not> phys_used (frames s) k \<and> (\<forall>j. phys_used p j = (phys_used (frames s) j \<or> j = k))
         \<and> free_count (frames s) \<le> free_count p + 1 \<and> k < phys_total (frames s))"
proof -
  have "phys_total (frames s) \<le> 2 ^ 20" by (rule phf.small [OF assms])
  then have small: "k < 1048576" if "k < phys_total (frames s)" for k using that by simp
  from allocate_frame_spec [OF assms] show ?thesis
  proof (elim disjE exE conjE)
    assume "allocate_frame (frames s) = Done (Inl NoAvailableSpace, frames s)"
      "\<forall>k < phys_total (frames s). phys_used (frames s) k"
    then show ?thesis by (simp add: take_frame_def free_count_0)
  next
    fix k p
    assume a: "allocate_frame (frames s) = Done (Inr (Frame (of_nat (k * 4096))), p)" "phys_wf p"
      "phys_total p = phys_total (frames s)" "REF_COUNT p = REF_COUNT (frames s)" "k < phys_total (frames s)"
      "\<not> phys_used (frames s) k" "\<forall>j. phys_used p j = (phys_used (frames s) j \<or> j = k)"
    have "take_frame s = Done (Frame (of_nat (k * 4096)), s\<lparr>frames := p\<rparr>)" using a(1) by (simp add: take_frame_def)
    then show ?thesis using a(2-7) small free_count_take [OF a(3,7)] by blast
  qed
qed

section \<open>Address spaces\<close>

text \<open>
  \<open>raw s r p\<close> is the entry a walk from directory \<open>r\<close> ends in for page number \<open>p\<close>, 0 where
  there is no table.  Page numbers from 1023 \<open>*\<close> 1024 on belong to the recursive window.
\<close>

definition raw :: "machine \<Rightarrow> nat \<Rightarrow> nat \<Rightarrow> page_table_entry" where
  "raw s r p = (if is_present (ent s r (p div 1024)) then ent s (fno (ent s r (p div 1024))) (p mod 1024) else 0)"

definition page_of :: "virtual_address \<Rightarrow> nat" where
  "page_of v = unat (va_usize v) div 4096"

lemma page_of_less: "page_of v < 1048576"
  using unat_lt32 [of "va_usize v"] by (simp add: page_of_def)

lemma is_present_0 [simp]: "\<not> is_present 0"
  by (simp add: is_present_def ENTRY_PRESENT_def)

lemma walk_raw: "walk s r (p div 1024) (p mod 1024) = (if is_present (raw s r p) then Some (raw s r p) else None)"
  by (simp add: walk_def raw_def)

lemma translate_raw:
  assumes "paging s"
  shows "translate s root v = (if is_present (raw s (unat root div 4096) (page_of (VirtualAddress v)))
    then Some (of_nat (4096 * fno (raw s (unat root div 4096) (page_of (VirtualAddress v))) + unat v mod 4096)) else None)"
proof -
  have "unat v div 4194304 = unat v div 4096 div 1024" by (simp add: div_mult2_eq [symmetric])
  then show ?thesis
    using walk_raw [of s "unat root div 4096" "unat v div 4096"] by (simp add: translate_walk [OF assms] page_of_def)
qed

lemma page_indices:
  "get_page_directory_index v = of_nat (page_of v div 1024)" "get_page_table_index v = of_nat (page_of v mod 1024)"
proof -
  have "page_of v div 1024 < 1024" using page_of_less [of v] by simp
  then show "get_page_directory_index v = of_nat (page_of v div 1024)"
    by (simp add: word_unat_eq_iff get_page_directory_index_def word_nat unat_of_nat32 page_of_def div_mult2_eq [symmetric])
  show "get_page_table_index v = of_nat (page_of v mod 1024)"
    by (simp add: word_unat_eq_iff get_page_table_index_def word_nat unat_of_nat32 page_of_def)
qed

definition tables :: "machine \<Rightarrow> nat \<Rightarrow> nat set" where
  "tables s r = {fno (ent s r d) | d. d < 1023 \<and> is_present (ent s r d)}"

text \<open>
  A directory \<open>r\<close> with a table tree: directory and tables are frames in use, no table is the
  directory, and the tables with index in \<open>D\<close> are shared with no other index.
\<close>

definition tree_ok :: "nat set \<Rightarrow> machine \<Rightarrow> nat \<Rightarrow> bool" where
  "tree_ok D s r \<longleftrightarrow> r < 1048576 \<and> D \<subseteq> {..< 1023} \<and> phys_used (frames s) r
     \<and> (\<forall>f \<in> tables s r. f \<noteq> r \<and> phys_used (frames s) f)
     \<and> (\<forall>d \<in> D. \<forall>d' < 1023. d \<noteq> d' \<longrightarrow> is_present (ent s r d) \<longrightarrow> is_present (ent s r d')
          \<longrightarrow> fno (ent s r d) \<noteq> fno (ent s r d'))"

text \<open>The directory in use, mapped into its own last entry.\<close>

definition current_ok :: "machine \<Rightarrow> nat \<Rightarrow> bool" where
  "current_ok s r \<longleftrightarrow> paging s \<and> unat (cr3 s) = 4096 * r \<and> phys_wf (frames s)
     \<and> is_present (ent s r 1023) \<and> fno (ent s r 1023) = r"

definition pd_ok :: "nat set \<Rightarrow> machine \<Rightarrow> nat \<Rightarrow> bool" where
  "pd_ok D s r \<longleftrightarrow> current_ok s r \<and> tree_ok D s r"

text \<open>What a mapping takes from the free frames: one for a table where there is none, nothing otherwise.\<close>

definition table_taken :: "machine \<Rightarrow> nat \<Rightarrow> nat \<Rightarrow> machine \<Rightarrow> bool" where
  "table_taken s r d s' \<longleftrightarrow>
     (if is_present (ent s r d) then frames s' = frames s
      else \<exists>k < phys_total (frames s). \<not> phys_used (frames s) k
             \<and> (\<forall>j. phys_used (frames s') j = (phys_used (frames s) j \<or> j = k)))"

text \<open>Storing an entry into the table of one page; a new table is empty before.\<close>

definition set_raw :: "nat set \<Rightarrow> nat \<Rightarrow> page_table_entry \<Rightarrow> nat \<Rightarrow> machine \<Rightarrow> machine \<Rightarrow> bool" where
  "set_raw D p e r s s' \<longleftrightarrow> tree_ok D s' r
     \<and> (\<forall>q < 1023 * 1024. raw s' r q = (if q = p then e else raw s r q))
     \<and> (\<forall>g < 1048576. g \<noteq> r \<longrightarrow> g \<notin> tables s' r \<longrightarrow> (\<forall>j < 1024. ent s' g j = ent s g j))
     \<and> (\<forall>f \<in> tables s' r. f \<in> tables s r \<or> \<not> phys_used (frames s) f)
     \<and> (\<forall>k. phys_used (frames s) k \<longrightarrow> phys_used (frames s') k)"

lemma raw_cong:
  assumes "ent s' r (q div 1024) = ent s r (q div 1024)"
    and "is_present (ent s r (q div 1024))
      \<Longrightarrow> ent s' (fno (ent s r (q div 1024))) (q mod 1024) = ent s (fno (ent s r (q div 1024))) (q mod 1024)"
  shows "raw s' r q = raw s r q"
  using assms by (simp add: raw_def)

lemma tables_cong:
  assumes "\<And>j. j < 1023 \<Longrightarrow> ent s' r j = ent s r j"
  shows "tables s' r = tables s r"
  unfolding tables_def
proof (intro Collect_cong ex_cong1)
  fix u d
  show "(u = fno (ent s' r d) \<and> d < 1023 \<and> is_present (ent s' r d)) =
      (u = fno (ent s r d) \<and> d < 1023 \<and> is_present (ent s r d))"
    using assms by (cases "d < 1023") simp_all
qed

lemma tree_ok_cong:
  assumes "tree_ok D s r" "\<And>j. j < 1023 \<Longrightarrow> ent s' r j = ent s r j"
    and "\<And>k. phys_used (frames s) k \<Longrightarrow> phys_used (frames s') k"
  shows "tree_ok D s' r"
proof -
  have "ent s' r d = ent s r d" if "d \<in> D" for d
    using assms(1,2) that by (auto simp: tree_ok_def)
  then show ?thesis
    using assms tables_cong [of s' r s, OF assms(2)] unfolding tree_ok_def by simp
qed

lemma page_split: "p = q \<longleftrightarrow> p div 1024 = q div 1024 \<and> p mod 1024 = q mod (1024 :: nat)"
  by (metis div_mult_mod_eq)

text \<open>Writing into an existing private table.\<close>

lemma set_raw_present:
  assumes ok: "tree_ok D s r" and d: "p div 1024 \<in> D" "is_present (ent s r (p div 1024))"
    and s': "frames s' = frames s"
      "\<And>g j. g < 1048576 \<Longrightarrow> j < 1024 \<Longrightarrow>
        ent s' g j = (if g = fno (ent s r (p div 1024)) \<and> j = p mod 1024 then e else ent s g j)"
  shows "set_raw D p e r s s'"
proof -
  let ?d = "p div 1024" and ?f = "fno (ent s r (p div 1024))"
  note o = ok [unfolded tree_ok_def]
  have d': "?d < 1023" using d(1) o by auto
  have f: "?f \<in> tables s r" using d d' by (auto simp: tables_def)
  then have fr: "?f \<noteq> r" using o by blast
  have r: "r < 1048576" using o by blast
  have dir: "ent s' r j = ent s r j" if "j < 1024" for j using s'(2) [OF r that] fr by simp
  have tab: "tables s' r = tables s r" by (rule tables_cong) (simp add: dir)
  have "raw s' r q = (if q = p then e else raw s r q)" if q: "q < 1023 * 1024" for q
  proof (cases "q = p")
    case True
    then show ?thesis using dir [of ?d] d d' s'(2) [of ?f "p mod 1024"] by (simp add: raw_def)
  next
    case False
    have q': "q div 1024 < 1023" using q by (simp add: less_mult_imp_div_less)
    have "raw s' r q = raw s r q"
    proof (rule raw_cong)
      show "ent s' r (q div 1024) = ent s r (q div 1024)" using dir q' by simp
      assume pr: "is_present (ent s r (q div 1024))"
      have "\<not> (fno (ent s r (q div 1024)) = ?f \<and> q mod 1024 = p mod 1024)"
        using False o d q' pr page_split [of q p] by metis
      then show "ent s' (fno (ent s r (q div 1024))) (q mod 1024) = ent s (fno (ent s r (q div 1024))) (q mod 1024)"
        using s'(2) [of "fno (ent s r (q div 1024))" "q mod 1024"] by auto
    qed
    then show ?thesis using False by simp
  qed
  moreover have "tree_ok D s' r"
    by (rule tree_ok_cong [OF ok]) (simp_all add: dir s'(1))
  moreover have "ent s' g j = ent s g j" if "g < 1048576" "g \<notin> tables s' r" "j < 1024" for g j
    using s'(2) [OF that(1,3)] that(2) f tab by auto
  ultimately show ?thesis unfolding set_raw_def using s'(1) tab by simp
qed

text \<open>Creating a table in an unused frame.\<close>

lemma set_raw_absent:
  assumes ok: "tree_ok D s r" and d: "p div 1024 < 1023" "\<not> is_present (ent s r (p div 1024))"
    and k: "k < 1048576" "\<not> phys_used (frames s) k"
    and x: "is_present x" "fno x = k"
    and used: "\<And>j. phys_used (frames s') j = (phys_used (frames s) j \<or> j = k)"
    and s': "\<And>g j. g < 1048576 \<Longrightarrow> j < 1024 \<Longrightarrow>
        ent s' g j = (if g = k then if j = p mod 1024 then e else 0
                      else if g = r \<and> j = p div 1024 then x else ent s g j)"
  shows "set_raw D p e r s s'"
proof -
  let ?d = "p div 1024"
  note o = ok [unfolded tree_ok_def]
  have r: "r < 1048576" "k \<noteq> r" using o k by auto
  have dir: "ent s' r j = (if j = ?d then x else ent s r j)" if "j < 1024" for j
    using s' [OF r(1) that] r(2) by simp
  have old: "fno (ent s r j) \<noteq> k" if "j < 1023" "is_present (ent s r j)" for j
    using o k(2) that by (auto simp: tables_def)
  have tab: "f \<in> tables s' r \<longleftrightarrow> f = k \<or> f \<in> tables s r" for f
  proof
    assume "f \<in> tables s' r"
    then show "f = k \<or> f \<in> tables s r" using dir x(2) by (auto simp: tables_def split: if_splits)
  next
    have "k \<in> tables s' r" using dir [of ?d] d x by (auto simp: tables_def intro!: exI [of _ ?d])
    moreover have "fno (ent s r j) \<in> tables s' r" if "j < 1023" "is_present (ent s r j)" for j
      using that d(2) dir [of j] by (auto simp: tables_def intro!: exI [of _ j])
    moreover assume "f = k \<or> f \<in> tables s r"
    ultimately show "f \<in> tables s' r" by (auto simp: tables_def)
  qed
  have "raw s' r q = (if q = p then e else raw s r q)" if q: "q < 1023 * 1024" for q
  proof -
    have q': "q div 1024 < 1023" using q by (simp add: less_mult_imp_div_less)
    consider "q = p" | "q \<noteq> p" "q div 1024 = ?d" | "q \<noteq> p" "q div 1024 \<noteq> ?d" by blast
    then show ?thesis
    proof cases
      case 1
      then show ?thesis using dir [of ?d] d x s' [OF k(1), of "p mod 1024"] by (simp add: raw_def)
    next
      case 2
      then have "q mod 1024 \<noteq> p mod 1024" using page_split [of q p] by simp
      then show ?thesis using 2 dir [of ?d] d x s' [OF k(1), of "q mod 1024"] by (simp add: raw_def)
    next
      case 3
      have "raw s' r q = raw s r q"
      proof (rule raw_cong)
        show "ent s' r (q div 1024) = ent s r (q div 1024)" using dir [of "q div 1024"] 3 q' by simp
        assume pr: "is_present (ent s r (q div 1024))"
        then have "fno (ent s r (q div 1024)) \<in> tables s r" using q' by (auto simp: tables_def)
        then have "fno (ent s r (q div 1024)) \<noteq> r" using o by blast
        then show "ent s' (fno (ent s r (q div 1024))) (q mod 1024) = ent s (fno (ent s r (q div 1024))) (q mod 1024)"
          using s' [of "fno (ent s r (q div 1024))" "q mod 1024"] old [OF q' pr] by simp
      qed
      then show ?thesis using 3 by simp
    qed
  qed
  moreover have "tree_ok D s' r"
    unfolding tree_ok_def
  proof (intro conjI ballI allI impI)
    show "r < 1048576" "D \<subseteq> {..< 1023}" "phys_used (frames s') r" using o used by auto
    show "f \<noteq> r" "phys_used (frames s') f" if "f \<in> tables s' r" for f
      using that tab o r(2) used by auto
    fix i j assume ij: "i \<in> D" "j < 1023" "i \<noteq> j" "is_present (ent s' r i)" "is_present (ent s' r j)"
    then have "i < 1023" using o by auto
    then consider "i = ?d" "ent s' r j = ent s r j" | "j = ?d" "ent s' r i = ent s r i"
      | "ent s' r i = ent s r i" "ent s' r j = ent s r j"
      using ij(2,3) dir [of i] dir [of j] by (cases "i = ?d"; cases "j = ?d") simp_all
    then show "fno (ent s' r i) \<noteq> fno (ent s' r j)"
    proof cases
      case 1
      then show ?thesis using ij dir [of i] \<open>i < 1023\<close> old [of j] x(2) by simp
    next
      case 2
      then show ?thesis using ij dir [of j] \<open>i < 1023\<close> old [of i] x(2) by simp
    next
      case 3
      then show ?thesis using ij o by simp
    qed
  qed
  moreover have "ent s' g j = ent s g j" if "g < 1048576" "g \<noteq> r" "g \<notin> tables s' r" "j < 1024" for g j
    using s' [OF that(1,4)] that(2,3) tab by simp
  ultimately show ?thesis unfolding set_raw_def using used tab k(2) by auto
qed

section \<open>The current directory\<close>

lemma current_walks:
  assumes "current_ok s r"
  shows "root_of s = r" "walk s r 1023 1023 = Some (ent s r 1023)"
    and "is_present (ent s r d) \<Longrightarrow> walk s r 1023 d = Some (ent s r d)"
  using assms by (simp_all add: current_ok_def walk_def)

lemma current_ok_cong:
  assumes "current_ok s r" "paging s' = paging s" "cr3 s' = cr3 s" "phys_wf (frames s')"
    and "ent s' r 1023 = ent s r 1023"
  shows "current_ok s' r"
  using assms by (simp add: current_ok_def)

lemma current_map_present:
  assumes ok: "pd_ok D s r" and p: "page_of v div 1024 \<in> D" "is_present (ent s r (page_of v div 1024))"
  shows "\<exists>s'. current_map (Frame a) v flags s = Done s' \<and> current_ok s' r \<and> frames s' = frames s
    \<and> set_raw D (page_of v) (new_entry (PhysicalAddress a) flags (raw s r (page_of v))) r s s'"
proof -
  let ?p = "page_of v" let ?d = "page_of v div 1024" and ?t = "page_of v mod 1024"
  let ?f = "fno (ent s r ?d)"
  have c: "current_ok s r" "tree_ok D s r" using ok by (simp_all add: pd_ok_def)
  note w = current_walks [OF c(1)]
  have d: "?d < 1023" using p(1) c(2) by (auto simp: tree_ok_def)
  have f: "?f \<noteq> r" using c(2) d p(2) by (auto simp: tree_ok_def tables_def)
  have pg: "paging s" "r < 1048576" "fno (ent s r 1023) = r" using c by (simp_all add: current_ok_def tree_ok_def)
  let ?s = "put s ?f ?t (new_entry (PhysicalAddress a) flags (ent s ?f ?t))"
  have "fill_entry (tva 1023 ?d) (of_nat ?t) (PhysicalAddress a) flags s = Done ?s"
    using fill_entry_spec [of s 1023 ?d "ent s r ?d" ?t] w(1) w(3) [OF p(2)] pg d f by simp
  moreover have "table_get (tva 1023 1023) (of_nat ?d) s = Done (ent s r ?d)"
    using table_get_spec [of s 1023 1023 "ent s r 1023" ?d] w(1,2) pg d by simp
  moreover have "table_get (tva 1023 ?d) (of_nat ?t) s = Done (ent s ?f ?t)"
    using table_get_spec [of s 1023 ?d "ent s r ?d" ?t] w(1) w(3) [OF p(2)] pg d by simp
  ultimately have "current_map (Frame a) v flags s = Done ?s"
    unfolding current_map_def Let_def page_indices tva_consts tva_window using p(2) by simp
  moreover have ent: "ent ?s g j = (if g = ?f \<and> j = ?t
      then new_entry (PhysicalAddress a) flags (raw s r ?p) else ent s g j)" if "g < 1048576" "j < 1024" for g j
    using that p(2) by (simp add: ent_put raw_def)
  moreover from this have "current_ok ?s r"
    using current_ok_cong [OF c(1), of ?s] c(1) pg(2) f by (auto simp: current_ok_def)
  moreover have "set_raw D ?p (new_entry (PhysicalAddress a) flags (raw s r ?p)) r s ?s"
    by (rule set_raw_present [OF c(2) p]) (simp, rule ent)
  ultimately show ?thesis by auto
qed

lemma current_map_absent:
  assumes ok: "pd_ok D s r" and p: "page_of v div 1024 < 1023" "\<not> is_present (ent s r (page_of v div 1024))"
  shows "current_map (Frame a) v flags s = Panic \<and> free_count (frames s) = 0
    \<or> (\<exists>s'. current_map (Frame a) v flags s = Done s' \<and> current_ok s' r
         \<and> free_count (frames s) \<le> free_count (frames s') + 1 \<and> REF_COUNT (frames s') = REF_COUNT (frames s) \<and> phys_total (frames s') = phys_total (frames s)
         \<and> set_raw D (page_of v) (new_entry (PhysicalAddress a) flags (raw s r (page_of v))) r s s'
         \<and> table_taken s r (page_of v div 1024) s')"
proof -
  let ?p = "page_of v" let ?d = "page_of v div 1024" and ?t = "page_of v mod 1024"
  have c: "current_ok s r" "tree_ok D s r" using ok by (simp_all add: pd_ok_def)
  note w = current_walks [OF c(1)]
  have pg: "paging s" "r < 1048576" "fno (ent s r 1023) = r" "phys_wf (frames s)" "phys_used (frames s) r"
    using c by (simp_all add: current_ok_def tree_ok_def)
  have get: "table_get (tva 1023 1023) (of_nat ?d) s = Done (ent s r ?d)"
    using table_get_spec [of s 1023 1023 "ent s r 1023" ?d] w(1,2) pg p(1) by simp
  from take_frame_spec [OF pg(4)] show ?thesis
  proof (elim disjE exE conjE)
    assume "take_frame s = Panic" "free_count (frames s) = 0"
    then show ?thesis
      unfolding current_map_def Let_def page_indices tva_consts tva_window using get p(2) by simp
  next
    fix k ph
    assume k: "take_frame s = Done (Frame (of_nat (k * 4096)), s\<lparr>frames := ph\<rparr>)" "phys_wf ph" "k < 1048576"
      "phys_total ph = phys_total (frames s)" "REF_COUNT ph = REF_COUNT (frames s)"
      "\<not> phys_used (frames s) k" "\<forall>j. phys_used ph j = (phys_used (frames s) j \<or> j = k)"
      "free_count (frames s) \<le> free_count ph + 1" "k < phys_total (frames s)"
    let ?s1 = "s\<lparr>frames := ph\<rparr>"
    define pa where "pa = PhysicalAddress (of_nat (k * 4096))"
    define x where "x = dir_entry ?d pa (ent s r ?d)"
    have kr: "k \<noteq> r" using k(6) pg(5) by blast
    have e1: "ent ?s1 g j = ent s g j" for g j by (simp add: ent_def)
    have x: "is_present x" "fno x = k"
      using dir_entry_props [of ?d "of_nat (k * 4096)" "ent s r ?d"] k(3) unat_of_nat32 [of "k * 4096"]
      unfolding x_def pa_def by simp_all
    define s2 where "s2 = put ?s1 r ?d x"
    have s2: "paging s2" "cr3 s2 = cr3 s" "frames s2 = ph" using pg(1) by (simp_all add: s2_def)
    have sm: "is_present (ent s r 1023)" using c(1) by (simp add: current_ok_def)
    have w1: "walk ?s1 r 1023 1023 = Some (ent s r 1023)" using sm pg(3) by (simp add: walk_def e1)
    have fd: "fill_dir_entry (tva 1023 1023) (of_nat ?d) pa ?s1 = Done s2"
      using fill_dir_entry_spec [of ?s1 1023 1023 "ent s r 1023" ?d pa] w(1) w1 pg p(1) by (simp add: e1 s2_def x_def)
    have e2: "ent s2 g j = (if g = r \<and> j = ?d then x else ent s g j)" if "g < 1048576" "j < 1024" for g j
      using that pg(2) p(1) by (simp add: s2_def ent_put e1)
    have w2: "walk s2 r 1023 ?d = Some x"
      unfolding walk_def using e2 [of r 1023] e2 [of r ?d] pg(2,3) p(1) x sm by simp
    have z: "table_zero (tva 1023 ?d) s2 = Done (zeroed s2 k 1024)"
      using table_zero_spec [of s2 1023 ?d x] w(1) w2 x s2 pg(2,3) e2 [of r 1023] kr p(1) by simp
    define s3 where "s3 = zeroed s2 k 1024"
    have s3: "paging s3" "cr3 s3 = cr3 s" "frames s3 = ph" using s2 by (simp_all add: s3_def)
    have e3: "ent s3 g j = (if g = k then 0 else if g = r \<and> j = ?d then x else ent s g j)"
      if "g < 1048576" "j < 1024" for g j
      using that e2 [OF that] k(3) by (simp add: s3_def ent_zeroed)
    have w3: "walk s3 r 1023 ?d = Some x"
      unfolding walk_def using e3 [of r 1023] e3 [of r ?d] pg(2,3) p(1) x kr sm by simp
    let ?s4 = "put s3 k ?t (new_entry (PhysicalAddress a) flags 0)"
    have fe: "fill_entry (tva 1023 ?d) (of_nat ?t) (PhysicalAddress a) flags s3 = Done ?s4"
      using fill_entry_spec [of s3 1023 ?d x ?t] w(1) w3 x s3 pg(2,3) p(1) kr e3 [of r 1023] e3 [of k ?t] k(3) by simp
    have run: "current_map (Frame a) v flags s = Done ?s4"
      unfolding current_map_def Let_def page_indices tva_consts tva_window
      using get p(2) k(1) fd z fe by (simp add: pa_def s3_def)
    have e4: "ent ?s4 g j = (if g = k then if j = ?t then new_entry (PhysicalAddress a) flags (raw s r ?p) else 0
        else if g = r \<and> j = ?d then x else ent s g j)" if "g < 1048576" "j < 1024" for g j
      using that k(3) p(2) by (simp add: ent_put raw_def e3)
    have "set_raw D ?p (new_entry (PhysicalAddress a) flags (raw s r ?p)) r s ?s4"
      by (rule set_raw_absent [OF c(2) p k(3,6) x]) (simp add: k(7) s3, rule e4)
    moreover have "current_ok ?s4 r"
      using current_ok_cong [OF c(1), of ?s4] k(2) s3 pg(1) e4 [of r 1023] pg(2) kr p(1) by simp
    moreover have "table_taken s r ?d ?s4" using p(2) k(6,7,9) s3(3) by (auto simp: table_taken_def)
    ultimately show ?thesis using run k(4,5,8) s3(3) by auto
  qed
qed

lemma current_map_spec:
  assumes "pd_ok D s r" "page_of v div 1024 \<in> D"
  shows "current_map (Frame a) v flags s = Panic \<and> free_count (frames s) = 0
      \<and> \<not> is_present (ent s r (page_of v div 1024))
    \<or> (\<exists>s'. current_map (Frame a) v flags s = Done s' \<and> pd_ok D s' r
         \<and> free_count (frames s) \<le> free_count (frames s') + 1 \<and> REF_COUNT (frames s') = REF_COUNT (frames s) \<and> phys_total (frames s') = phys_total (frames s)
         \<and> set_raw D (page_of v) (new_entry (PhysicalAddress a) flags (raw s r (page_of v))) r s s'
         \<and> table_taken s r (page_of v div 1024) s')"
proof (cases "is_present (ent s r (page_of v div 1024))")
  case True
  from current_map_present [OF assms True, of a flags] obtain s' where
    "current_map (Frame a) v flags s = Done s'" "current_ok s' r" "frames s' = frames s"
    "set_raw D (page_of v) (new_entry (PhysicalAddress a) flags (raw s r (page_of v))) r s s'" by blast
  then show ?thesis by (intro disjI2 exI [of _ s']) (auto simp: pd_ok_def set_raw_def table_taken_def True)
next
  case False
  have "page_of v div 1024 < 1023" using assms by (auto simp: pd_ok_def tree_ok_def)
  from current_map_absent [OF assms(1) this False, of a flags] False show ?thesis
    unfolding pd_ok_def by (auto simp: set_raw_def)
qed

lemma current_unmap_spec:
  assumes "pd_ok D s r" "page_of v div 1024 \<in> D"
  shows "\<exists>s'. current_unmap v s = Done s' \<and> pd_ok D s' r \<and> frames s' = frames s
    \<and> set_raw D (page_of v) (clear_present (raw s r (page_of v))) r s s'"
proof -
  let ?p = "page_of v" let ?d = "page_of v div 1024" and ?t = "page_of v mod 1024"
  let ?f = "fno (ent s r ?d)"
  have c: "current_ok s r" "tree_ok D s r" using assms(1) by (simp_all add: pd_ok_def)
  note w = current_walks [OF c(1)]
  have d: "?d < 1023" using assms(2) c(2) by (auto simp: tree_ok_def)
  have pg: "paging s" "r < 1048576" "fno (ent s r 1023) = r" using c by (simp_all add: current_ok_def tree_ok_def)
  have get: "table_get (tva 1023 1023) (of_nat ?d) s = Done (ent s r ?d)"
    using table_get_spec [of s 1023 1023 "ent s r 1023" ?d] w(1,2) pg d by simp
  have clr: "clear_present e = e" if "\<not> is_present e" for e
  proof (rule bit_eqI)
    fix n show "bit (clear_present e) n = bit e n"
      using that unfolding is_present_bit bit_entry_ops by (cases "n = 0") simp_all
  qed
  have same: "set_raw D ?p (clear_present (raw s r ?p)) r s s" if "\<not> is_present (raw s r ?p)"
    using c(2) clr [OF that] by (simp add: set_raw_def)
  have window: "0xffc00000 + 0x1000 * (of_nat ?d :: usize) = 0xffc00000 + of_nat ?d * 0x1000" by simp
  note unmap = current_unmap_def Let_def page_indices window tva_window
  show ?thesis
  proof (cases "is_present (ent s r ?d)")
    case False
    then have "current_unmap v s = Done s" unfolding unmap tva_consts using get by simp
    then show ?thesis using same False assms(1) by (simp add: raw_def)
  next
    case True
    have f: "?f \<noteq> r" using c(2) d True by (auto simp: tree_ok_def tables_def)
    have gett: "table_get (tva 1023 ?d) (of_nat ?t) s = Done (ent s ?f ?t)"
      using table_get_spec [of s 1023 ?d "ent s r ?d" ?t] w(1) w(3) [OF True] pg d by simp
    show ?thesis
    proof (cases "is_present (ent s ?f ?t)")
      case False
      then have "current_unmap v s = Done s" unfolding unmap tva_consts using get gett True by simp
      then show ?thesis using same False True assms(1) by (simp add: raw_def)
    next
      case pr: True
      let ?s = "put s ?f ?t (clear_present (ent s ?f ?t))"
      have "table_get_mut (tva 1023 ?d) (of_nat ?t) clear_present s = Done ?s"
        using table_get_mut_spec [of s 1023 ?d "ent s r ?d" ?t] w(1) w(3) [OF True] pg d by simp
      then have run: "current_unmap v s = Done ?s" unfolding unmap tva_consts using get gett True pr by simp
      have ent: "ent ?s g j = (if g = ?f \<and> j = ?t then clear_present (raw s r ?p) else ent s g j)"
        if "g < 1048576" "j < 1024" for g j using that True by (simp add: ent_put raw_def)
      have set: "set_raw D ?p (clear_present (raw s r ?p)) r s ?s"
        by (rule set_raw_present [OF c(2) assms(2) True]) (simp, rule ent)
      moreover have "current_ok ?s r"
        using current_ok_cong [OF c(1), of ?s] c(1) pg(2) f ent [of r 1023] by (simp add: current_ok_def)
      ultimately show ?thesis using run by (auto simp: pd_ok_def set_raw_def)
    qed
  qed
qed

end
