(* ===== verification/AddressSpaces.thy ===== *)
theory AddressSpaces
  imports PagingCorrect
begin

text \<open>
  Directories other than the current one, edited through the temporary page
  (\<^verbatim>\<open>AlternatePageDirectory\<close>), the contract both kinds of directory share, and the loops that
  copy a region into a new address space.
\<close>

section \<open>The temporary page\<close>

text \<open>
  The current directory \<open>r\<close> and another one \<open>a\<close>, whose trees are disjoint.  Entry 1022 of \<open>r\<close>
  holds the table of the temporary page.
\<close>

definition alt_ok :: "nat set \<Rightarrow> machine \<Rightarrow> nat \<Rightarrow> nat \<Rightarrow> bool" where
  "alt_ok D s r a \<longleftrightarrow> current_ok s r \<and> tree_ok {1022} s r \<and> is_present (ent s r 1022) \<and> tree_ok D s a
     \<and> a \<noteq> r \<and> a \<notin> tables s r \<and> r \<notin> tables s a \<and> tables s a \<inter> tables s r = {}"

abbreviation temp_table :: "machine \<Rightarrow> nat \<Rightarrow> nat" where
  "temp_table s r \<equiv> fno (ent s r 1022)"

definition temp_page :: nat where "temp_page = 1022 * 1024 + 1023"

lemma temp_page_split: "temp_page div 1024 = 1022" "temp_page mod 1024 = 1023" "temp_page < 1023 * 1024"
  by (simp_all add: temp_page_def)

lemma alt_ok_facts:
  assumes "alt_ok D s r a"
  shows "root_of s = r" "paging s" "phys_wf (frames s)" "r < 1048576" "a < 1048576" "fno (ent s r 1023) = r"
    "is_present (ent s r 1022)" "temp_table s r \<in> tables s r" "temp_table s r \<noteq> r" "temp_table s r \<noteq> a"
    "temp_table s r \<notin> tables s a" "a \<noteq> r"
    "walk s r 1023 1022 = Some (ent s r 1022)"
proof -
  have ok: "current_ok s r" "tree_ok {1022} s r" "is_present (ent s r 1022)" "tree_ok D s a" "a \<noteq> r"
    "a \<notin> tables s r" "tables s a \<inter> tables s r = {}"
    using assms by (simp_all add: alt_ok_def)
  have t: "temp_table s r \<in> tables s r" using ok(3) by (auto simp: tables_def)
  show "root_of s = r" "paging s" "phys_wf (frames s)" "fno (ent s r 1023) = r"
    using ok(1) by (simp_all add: current_ok_def)
  show "r < 1048576" "a < 1048576" using ok(2,4) by (simp_all add: tree_ok_def)
  show "is_present (ent s r 1022)" "temp_table s r \<in> tables s r" "a \<noteq> r" by fact+
  show "temp_table s r \<noteq> r" using ok(2) t by (auto simp: tree_ok_def)
  show "temp_table s r \<noteq> a" "temp_table s r \<notin> tables s a" using t ok(6,7) by auto
  show "walk s r 1023 1022 = Some (ent s r 1022)" using current_walks(3) [OF ok(1,3)] .
qed

text \<open>Changing the entry of the temporary page is invisible to everything but that page.\<close>

lemma temp_put:
  assumes "alt_ok D s r a"
  shows "alt_ok D (put s (temp_table s r) 1023 x) r a"
    and "q < 1023 * 1024 \<Longrightarrow> raw (put s (temp_table s r) 1023 x) a q = raw s a q"
    and "q < 1023 * 1024 \<Longrightarrow> q \<noteq> temp_page \<Longrightarrow> raw (put s (temp_table s r) 1023 x) r q = raw s r q"
    and "j < 1024 \<Longrightarrow> ent (put s (temp_table s r) 1023 x) r j = ent s r j"
proof -
  note f = alt_ok_facts [OF assms]
  let ?s = "put s (temp_table s r) 1023 x"
  have e: "ent ?s g j = (if g = temp_table s r \<and> j = 1023 then x else ent s g j)" if "g < 1048576" "j < 1024" for g j
    using that by (simp add: ent_put)
  have r: "ent ?s r j = ent s r j" "ent ?s a j = ent s a j" if "j < 1024" for j
    using that e [of r j] e [of a j] f by simp_all
  then show "j < 1024 \<Longrightarrow> ent ?s r j = ent s r j" by blast
  have tb: "tables ?s r = tables s r" "tables ?s a = tables s a" by (rule tables_cong, simp add: r)+
  have "tree_ok {1022} ?s r" "tree_ok D ?s a"
    using assms r by (auto simp: alt_ok_def intro: tree_ok_cong)
  moreover have "current_ok ?s r"
    using assms r(1) [of 1023] f by (auto simp: alt_ok_def intro: current_ok_cong)
  ultimately show "alt_ok D ?s r a" using assms r(1) [of 1022] tb unfolding alt_ok_def by simp
  show "raw ?s a q = raw s a q" if q: "q < 1023 * 1024"
  proof (rule raw_cong)
    have q': "q div 1024 < 1023" using q by (simp add: less_mult_imp_div_less)
    then show "ent ?s a (q div 1024) = ent s a (q div 1024)" by (simp add: r)
    assume "is_present (ent s a (q div 1024))"
    then have "fno (ent s a (q div 1024)) \<in> tables s a" using q' by (auto simp: tables_def)
    then show "ent ?s (fno (ent s a (q div 1024))) (q mod 1024) = ent s (fno (ent s a (q div 1024))) (q mod 1024)"
      using e [of "fno (ent s a (q div 1024))" "q mod 1024"] f by auto
  qed
  show "raw ?s r q = raw s r q" if q: "q < 1023 * 1024" "q \<noteq> temp_page"
  proof (rule raw_cong)
    have q': "q div 1024 < 1023" using q by (simp add: less_mult_imp_div_less)
    then show "ent ?s r (q div 1024) = ent s r (q div 1024)" by (simp add: r)
    assume "is_present (ent s r (q div 1024))"
    moreover have "tree_ok {1022} s r" using assms by (simp add: alt_ok_def)
    ultimately have "fno (ent s r (q div 1024)) \<noteq> temp_table s r \<or> q div 1024 = 1022"
      using q' f(7) by (auto simp: tree_ok_def)
    then have "\<not> (fno (ent s r (q div 1024)) = temp_table s r \<and> q mod 1024 = 1023)"
      using q(2) page_split [of q temp_page] temp_page_split by auto
    then show "ent ?s (fno (ent s r (q div 1024))) (q mod 1024) = ent s (fno (ent s r (q div 1024))) (q mod 1024)"
      using e [of "fno (ent s r (q div 1024))" "q mod 1024"] by auto
  qed
qed

definition temp_ok :: "machine \<Rightarrow> nat \<Rightarrow> bool" where
  "temp_ok s r \<longleftrightarrow> paging s \<and> root_of s = r \<and> r < 1048576 \<and> is_present (ent s r 1023) \<and> fno (ent s r 1023) = r
     \<and> is_present (ent s r 1022) \<and> temp_table s r \<noteq> r"

lemma alt_temp_ok:
  assumes "alt_ok D s r a"
  shows "temp_ok s r"
proof -
  have "is_present (ent s r 1023)" using assms by (simp add: alt_ok_def current_ok_def)
  then show ?thesis unfolding temp_ok_def using alt_ok_facts [OF assms] by blast
qed

lemma temp_ok_cong:
  assumes "temp_ok s r" "paging s' = paging s" "cr3 s' = cr3 s" "\<And>j. 1022 \<le> j \<Longrightarrow> j < 1024 \<Longrightarrow> ent s' r j = ent s r j"
  shows "temp_ok s' r"
  using assms assms(4) [of 1022] assms(4) [of 1023] by (simp add: temp_ok_def)

lemma temp_ok_put: "temp_ok s r \<Longrightarrow> temp_ok (put s (temp_table s r) 1023 x) r"
  by (rule temp_ok_cong) (auto simp: temp_ok_def ent_put)

lemma map_temp_spec:
  assumes "temp_ok s r" "unat f = 4096 * n" "n < 1048576"
  shows "\<exists>x. map_frame_to_temporary_page (Frame f) s = Done (put s (temp_table s r) 1023 x)
    \<and> is_present x \<and> fno x = n"
proof -
  note k = assms(1) [unfolded temp_ok_def]
  let ?t = "temp_table s r"
  let ?y = "pte_set_address (PhysicalAddress f) (ent s ?t 1023)"
  have w0: "walk s r 1023 1022 = Some (ent s r 1022)" if "temp_ok s r" for s
    using that by (simp add: temp_ok_def walk_def)
  have w: "walk (put s ?t 1023 y) r 1023 1022 = Some (ent s r 1022)" for y
    using w0 [OF temp_ok_put [OF assms(1)]] k by (simp add: ent_put)
  have 1: "table_get_mut (tva 1023 1022) (of_nat 1023) g s = Done (put s ?t 1023 (g (ent s ?t 1023)))" for g
    using table_get_mut_spec [of s 1023 1022 "ent s r 1022" 1023 g] k w0 [OF assms(1)] by simp
  have 2: "table_get_mut (tva 1023 1022) (of_nat 1023) g (put s ?t 1023 y) = Done (put s ?t 1023 (g y))" for g y
    using table_get_mut_spec [of "put s ?t 1023 y" 1023 1022 "ent s r 1022" 1023 g] k w by (simp add: ent_put)
  have "map_frame_to_temporary_page (Frame f) s = Done (put s ?t 1023 (set_present ?y))"
    unfolding map_frame_to_temporary_page_def Let_def tva_consts using 1 2 by simp
  moreover have "is_present (set_present ?y)" "fno (set_present ?y) = n"
    using assms(2) by (simp_all add: is_present_bit bit_entry_ops)
  ultimately show ?thesis by blast
qed

lemma temp_walk:
  assumes "temp_ok s r" "is_present x"
  shows "walk (put s (temp_table s r) 1023 x) r 1022 1023 = Some x"
  using assms by (simp add: temp_ok_def walk_def ent_put)

section \<open>Mapping a page in another directory\<close>

text \<open>What \<open>alternate_map\<close> does: one entry of \<open>a\<close> changes, the current space only at the temporary page.\<close>

definition alt_set :: "nat set \<Rightarrow> nat \<Rightarrow> page_table_entry \<Rightarrow> nat \<Rightarrow> nat \<Rightarrow> machine \<Rightarrow> machine \<Rightarrow> bool" where
  "alt_set D p e r a s s' \<longleftrightarrow> alt_ok D s' r a
     \<and> (\<forall>q < 1023 * 1024. raw s' a q = (if q = p then e else raw s a q))
     \<and> (\<forall>q < 1023 * 1024. q \<noteq> temp_page \<longrightarrow> raw s' r q = raw s r q)
     \<and> (\<forall>g < 1048576. g \<noteq> a \<longrightarrow> g \<noteq> temp_table s r \<longrightarrow> g \<notin> tables s' a \<longrightarrow> (\<forall>j < 1024. ent s' g j = ent s g j))
     \<and> (\<forall>f \<in> tables s' a. f \<in> tables s a \<or> \<not> phys_used (frames s) f)
     \<and> (\<forall>j < 1024. ent s' r j = ent s r j)
     \<and> (\<forall>k. phys_used (frames s) k \<longrightarrow> phys_used (frames s') k)
     \<and> REF_COUNT (frames s') = REF_COUNT (frames s) \<and> free_count (frames s) \<le> free_count (frames s') + 1"

lemma alt_set_from_set_raw:
  assumes ok: "alt_ok D s r a" and s0: "s0 = put s (temp_table s r) 1023 x"
    and set: "set_raw D p e a s0 s'"
    and regs: "paging s' = paging s" "cr3 s' = cr3 s" "phys_wf (frames s')"
      "REF_COUNT (frames s') = REF_COUNT (frames s)" "free_count (frames s) \<le> free_count (frames s') + 1"
  shows "alt_set D p e r a s s'"
proof -
  note t = temp_put [OF ok, where x = x, folded s0]
  have ok0: "alt_ok D s0 r a" using temp_put(1) [OF ok] s0 by simp
  note f = alt_ok_facts [OF ok0]
  have fr: "frames s0 = frames s" by (simp add: s0)
  note sr = set [unfolded set_raw_def]
  have tree: "tree_ok {1022} s0 r" using ok0 by (simp add: alt_ok_def)
  have apart: "g \<noteq> a" "g \<notin> tables s' a" if "g = r \<or> g \<in> tables s0 r" for g
  proof -
    show "g \<noteq> a" using that ok0 by (auto simp: alt_ok_def)
    have "phys_used (frames s0) g" using that tree by (auto simp: tree_ok_def)
    moreover have "g \<notin> tables s0 a" using that ok0 by (auto simp: alt_ok_def)
    ultimately show "g \<notin> tables s' a" using sr by blast
  qed
  have small: "g < 1048576" if "g \<in> tables s0 r" for g using that by (auto simp: tables_def)
  have keep: "ent s' g j = ent s0 g j" if "g = r \<or> g \<in> tables s0 r" "j < 1024" for g j
    using sr apart [OF that(1)] that small f(4) by blast
  have tb: "tables s' r = tables s0 r" by (rule tables_cong) (simp add: keep)
  have used: "phys_used (frames s') k" if "phys_used (frames s0) k" for k using sr that by blast
  have "current_ok s' r"
    using ok0 regs keep [of r 1023] by (auto simp: alt_ok_def s0 intro: current_ok_cong)
  moreover have "tree_ok {1022} s' r" by (rule tree_ok_cong [OF tree]) (simp_all add: keep used)
  moreover have "tables s' a \<inter> tables s' r = {}" "r \<notin> tables s' a" using apart tb by blast+
  ultimately have ok': "alt_ok D s' r a"
    using sr ok0 keep [of r 1022] tb unfolding alt_ok_def by simp
  have raw_r: "raw s' r q = raw s0 r q" if q: "q < 1023 * 1024" for q
  proof (rule raw_cong)
    have q': "q div 1024 < 1023" using q by (simp add: less_mult_imp_div_less)
    then show "ent s' r (q div 1024) = ent s0 r (q div 1024)" by (simp add: keep)
    assume "is_present (ent s0 r (q div 1024))"
    then have "fno (ent s0 r (q div 1024)) \<in> tables s0 r" using q' by (auto simp: tables_def)
    then show "ent s' (fno (ent s0 r (q div 1024))) (q mod 1024) = ent s0 (fno (ent s0 r (q div 1024))) (q mod 1024)"
      by (simp add: keep)
  qed
  have content: "ent s' g j = ent s g j"
    if "g < 1048576" "g \<noteq> a" "g \<noteq> temp_table s r" "g \<notin> tables s' a" "j < 1024" for g j
    using sr that by (simp add: s0 ent_put)
  have tab: "f \<in> tables s a \<or> \<not> phys_used (frames s) f" if "f \<in> tables s' a" for f
  proof -
    have "tables s0 a = tables s a"
      using alt_ok_facts [OF ok] by (intro tables_cong) (simp add: s0 ent_put)
    then show ?thesis using sr that fr by auto
  qed
  show ?thesis
    unfolding alt_set_def
    using ok' sr t raw_r content tab used regs keep [of r] fr by simp
qed

lemma alternate_map_present:
  assumes ok: "alt_ok D s r a" and p: "page_of v div 1024 \<in> D" "is_present (ent s a (page_of v div 1024))"
    and dir: "unat dir = 4096 * a"
  shows "\<exists>s'. alternate_map (PhysicalAddress dir) (Frame b) v flags s = Done s'
    \<and> alt_set D (page_of v) (new_entry (PhysicalAddress b) flags (raw s a (page_of v))) r a s s'"
proof -
  let ?p = "page_of v" let ?d = "page_of v div 1024" and ?t = "page_of v mod 1024"
  let ?tt = "temp_table s r" and ?f = "fno (ent s a ?d)"
  let ?e = "new_entry (PhysicalAddress b) flags (raw s a ?p)"
  note k = alt_ok_facts [OF ok]
  have tree: "tree_ok D s a" using ok by (simp add: alt_ok_def)
  have d: "?d < 1023" using p(1) tree by (auto simp: tree_ok_def)
  have ftab: "?f \<in> tables s a" using p(2) d by (auto simp: tables_def)
  then have f: "?f \<noteq> a" "?f \<noteq> r" "?f \<noteq> ?tt" using tree ok k(11) by (auto simp: tree_ok_def alt_ok_def)
  have fa: "frame_new dir = Frame dir" using dir k(5)
    by (simp add: frame_new_def word_unat_eq_iff unat_page_base)
  obtain x1 where x1: "map_frame_to_temporary_page (Frame dir) s = Done (put s ?tt 1023 x1)" "is_present x1" "fno x1 = a"
    using map_temp_spec [OF alt_temp_ok [OF ok] dir k(5)] by blast
  define s1 where "s1 = put s ?tt 1023 x1"
  have ok1: "alt_ok D s1 r a" using temp_put(1) [OF ok] by (simp add: s1_def)
  note k1 = alt_ok_facts [OF ok1]
  have tt1: "temp_table s1 r = ?tt" using temp_put(4) [OF ok, of 1022] by (simp add: s1_def)
  have e1: "ent s1 g j = (if g = ?tt \<and> j = 1023 then x1 else ent s g j)" if "g < 1048576" "j < 1024" for g j
    using that by (simp add: s1_def ent_put)
  have g1: "table_get (tva 1022 1023) (of_nat ?d) s1 = Done (ent s a ?d)"
    using table_get_spec [of s1 1022 1023 x1 ?d] k1 temp_walk [OF alt_temp_ok [OF ok] x1(2)] x1(3) d e1 [of a ?d] k by (simp add: s1_def)
  have base: "unat (pa_usize (pte_get_address (ent s a ?d))) = 4096 * ?f"
    by (simp add: pte_get_address_def unat_page_base fno_def minus_mod_eq_mult_div)
  then have ff: "frame_new (pa_usize (pte_get_address (ent s a ?d))) = Frame (pa_usize (pte_get_address (ent s a ?d)))"
    by (simp add: frame_new_def word_unat_eq_iff unat_page_base)
  obtain x2 where x2: "map_frame_to_temporary_page (Frame (pa_usize (pte_get_address (ent s a ?d)))) s1 = Done (put s1 ?tt 1023 x2)"
    "is_present x2" "fno x2 = ?f"
    using map_temp_spec [OF alt_temp_ok [OF ok1] base] tt1 by auto
  define s2 where "s2 = put s ?tt 1023 x2"
  have s2: "put s1 ?tt 1023 x2 = s2" by (simp add: s1_def s2_def)
  have ok2: "alt_ok D s2 r a" using temp_put(1) [OF ok] by (simp add: s2_def)
  note k2 = alt_ok_facts [OF ok2]
  have e2: "ent s2 g j = (if g = ?tt \<and> j = 1023 then x2 else ent s g j)" if "g < 1048576" "j < 1024" for g j
    using that by (simp add: s2_def ent_put)
  have w2: "walk s2 r 1022 1023 = Some x2" using temp_walk [OF alt_temp_ok [OF ok] x2(2)] by (simp add: s2_def)
  have tt2: "temp_table s2 r = ?tt" using temp_put(4) [OF ok, of 1022] by (simp add: s2_def)
  have g2: "table_get (tva 1022 1023) (of_nat ?t) s2 = Done (ent s2 ?f ?t)"
    using table_get_spec [of s2 1022 1023 x2 ?t] k2 w2 x2(3) by simp
  define s3 where "s3 = put s2 ?f ?t (new_entry (PhysicalAddress b) flags (ent s2 ?f ?t))"
  have fe: "fill_entry (tva 1022 1023) (of_nat ?t) (PhysicalAddress b) flags s2 = Done s3"
    using fill_entry_spec [of s2 1022 1023 x2 ?t] k2 w2 x2(3) f tt2 by (simp add: s3_def)
  have run: "alternate_map (PhysicalAddress dir) (Frame b) v flags s = Done s3"
    unfolding alternate_map_def Let_def page_indices tva_consts
    using fa x1(1) g1 p(2) ff x2(1) s2 g2 fe by (simp add: s1_def)
  have rs2: "raw s2 a ?p = raw s a ?p" "is_present (ent s2 a ?d)" "fno (ent s2 a ?d) = ?f"
    using e2 [of a ?d] e2 [of ?f ?t] k(5,10) d p(2) f by (simp_all add: raw_def)
  have "set_raw D ?p ?e a s2 s3"
  proof (rule set_raw_present)
    show "tree_ok D s2 a" using ok2 by (simp add: alt_ok_def)
    show "?d \<in> D" by fact
    show "is_present (ent s2 a ?d)" by fact
    show "frames s3 = frames s2" by (simp add: s3_def)
    fix g j :: nat assume "g < 1048576" "j < 1024"
    then show "ent s3 g j = (if g = fno (ent s2 a ?d) \<and> j = ?t then ?e else ent s2 g j)"
      using rs2 by (simp add: s3_def ent_put raw_def)
  qed
  then have "alt_set D ?p ?e r a s s3"
    using ok k(3) by (intro alt_set_from_set_raw [OF ok s2_def]) (simp_all add: s3_def s2_def)
  then show ?thesis using run by blast
qed

lemma alternate_map_absent:
  assumes ok: "alt_ok D s r a" and p: "page_of v div 1024 \<in> D" "\<not> is_present (ent s a (page_of v div 1024))"
    and dir: "unat dir = 4096 * a"
  shows "alternate_map (PhysicalAddress dir) (Frame b) v flags s = Panic
      \<and> free_count (frames s) = 0
    \<or> (\<exists>s'. alternate_map (PhysicalAddress dir) (Frame b) v flags s = Done s'
      \<and> alt_set D (page_of v) (new_entry (PhysicalAddress b) flags (raw s a (page_of v))) r a s s')"
proof -
  let ?p = "page_of v" let ?d = "page_of v div 1024" and ?t = "page_of v mod 1024"
  let ?tt = "temp_table s r"
  let ?e = "new_entry (PhysicalAddress b) flags (raw s a ?p)"
  note k = alt_ok_facts [OF ok] and tok = alt_temp_ok [OF ok]
  have tree: "tree_ok D s a" "tree_ok {1022} s r" using ok by (simp_all add: alt_ok_def)
  have d: "?d < 1023" using p(1) tree by (auto simp: tree_ok_def)
  have fa: "frame_new dir = Frame dir" using dir k(5)
    by (simp add: frame_new_def word_unat_eq_iff unat_page_base)
  obtain x1 where x1: "map_frame_to_temporary_page (Frame dir) s = Done (put s ?tt 1023 x1)" "is_present x1" "fno x1 = a"
    using map_temp_spec [OF tok dir k(5)] by blast
  define s1 where "s1 = put s ?tt 1023 x1"
  have tok1: "temp_ok s1 r" using temp_ok_put [OF tok] by (simp add: s1_def)
  note t1 = tok1 [unfolded temp_ok_def]
  have fr1: "frames s1 = frames s" by (simp add: s1_def)
  have e1: "ent s1 g j = (if g = ?tt \<and> j = 1023 then x1 else ent s g j)" if "g < 1048576" "j < 1024" for g j
    using that by (simp add: s1_def ent_put)
  have w1: "walk s1 r 1022 1023 = Some x1" using temp_walk [OF tok x1(2)] by (simp add: s1_def)
  have g1: "table_get (tva 1022 1023) (of_nat ?d) s1 = Done (ent s a ?d)"
    using table_get_spec [of s1 1022 1023 x1 ?d] t1 w1 x1(3) d e1 [of a ?d] k by simp
  have "phys_wf (frames s1)" using k(3) fr1 by simp
  from take_frame_spec [OF this] show ?thesis
  proof (elim disjE exE conjE)
    assume "take_frame s1 = Panic" "free_count (frames s1) = 0"
    then show ?thesis
      unfolding alternate_map_def Let_def page_indices tva_consts
      using fa x1(1) g1 p(2) fr1 by (simp add: s1_def)
  next
    fix n ph
    assume n: "take_frame s1 = Done (Frame (of_nat (n * 4096)), s1\<lparr>frames := ph\<rparr>)" "phys_wf ph" "n < 1048576"
      "phys_total ph = phys_total (frames s1)" "REF_COUNT ph = REF_COUNT (frames s1)"
      "\<not> phys_used (frames s1) n" "\<forall>j. phys_used ph j = (phys_used (frames s1) j \<or> j = n)"
      "free_count (frames s1) \<le> free_count ph + 1"
    have fresh: "n \<noteq> r" "n \<noteq> a" "n \<noteq> ?tt"
      using n(6) fr1 tree k(8) by (auto simp: tree_ok_def)
    define pa where "pa = PhysicalAddress (of_nat (n * 4096))"
    define x where "x = dir_entry ?d pa (ent s a ?d)"
    have addr: "unat (of_nat (n * 4096) :: usize) = 4096 * n" using n(3) unat_of_nat32 [of "n * 4096"] by simp
    have x: "is_present x" "fno x = n"
      using dir_entry_props [of ?d "of_nat (n * 4096)" "ent s a ?d"] addr unfolding x_def pa_def by simp_all
    let ?s1 = "s1\<lparr>frames := ph\<rparr>"
    have e1': "ent ?s1 g j = ent s1 g j" for g j by (simp add: ent_def)
    have w1': "walk ?s1 r 1022 1023 = Some x1" using w1 by (simp only: walk_def e1')
    define s2 where "s2 = put ?s1 a ?d x"
    have fd: "fill_dir_entry (tva 1022 1023) (of_nat ?d) pa ?s1 = Done s2"
      using fill_dir_entry_spec [of ?s1 1022 1023 x1 ?d pa] t1 w1' x1(3) d k(10,12) e1 [of r 1022] e1 [of a ?d] k(4,5,9)
      by (simp add: e1' s2_def x_def)
    have e2: "ent s2 g j = (if g = a \<and> j = ?d then x else ent s1 g j)" if "g < 1048576" "j < 1024" for g j
      using that k(5) d by (simp add: s2_def ent_put e1')
    have tok2: "temp_ok s2 r"
      using k(4,12) e2 by (intro temp_ok_cong [OF tok1]) (simp_all add: s2_def ent_put e1' k(5) d)
    have tt2: "temp_table s2 r = ?tt" using e2 [of r 1022] e1 [of r 1022] k by simp
    obtain x3 where x3: "map_frame_to_temporary_page (Frame (of_nat (n * 4096))) s2 = Done (put s2 ?tt 1023 x3)"
      "is_present x3" "fno x3 = n"
      using map_temp_spec [OF tok2 addr n(3)] tt2 by auto
    define s3 where "s3 = put s2 ?tt 1023 x3"
    have tok3: "temp_ok s3 r" using temp_ok_put [OF tok2, of x3] tt2 by (simp add: s3_def)
    note t3 = tok3 [unfolded temp_ok_def]
    have e3: "ent s3 g j = (if g = ?tt \<and> j = 1023 then x3 else ent s2 g j)" if "g < 1048576" "j < 1024" for g j
      using that by (simp add: s3_def ent_put)
    have tt3: "temp_table s3 r = ?tt" using e3 [of r 1022] k tt2 by simp
    have w3: "walk s3 r 1022 1023 = Some x3" using temp_walk [OF tok2 x3(2)] tt2 by (simp add: s3_def)
    define s4 where "s4 = zeroed s3 n 1024"
    have z: "table_zero (tva 1022 1023) s3 = Done s4"
      using table_zero_spec [of s3 1022 1023 x3] t3 w3 x3(3) fresh tt3 by (simp add: s4_def)
    have e4: "ent s4 g j = (if g = n then 0 else ent s3 g j)" if "g < 1048576" "j < 1024" for g j
      using that n(3) by (simp add: s4_def ent_zeroed)
    have w4: "walk s4 r 1022 1023 = Some x3"
      using w3 e4 [of r 1022] e4 [of ?tt 1023] k(4) fresh tt3 by (simp add: walk_def split: if_splits)
    have tt4: "temp_table s4 r = ?tt" using e4 [of r 1022] k(4) fresh(1) tt3 by simp
    define s5 where "s5 = put s4 n ?t ?e"
    have "raw s a ?p = 0" using p(2) by (simp add: raw_def)
    then have fe: "fill_entry (tva 1022 1023) (of_nat ?t) (PhysicalAddress b) flags s4 = Done s5"
      using fill_entry_spec [of s4 1022 1023 x3 ?t] t3 w4 x3(3) fresh tt4 e4 [of n ?t] n(3)
      by (simp add: s5_def s4_def)
    have run: "alternate_map (PhysicalAddress dir) (Frame b) v flags s = Done s5"
      unfolding alternate_map_def Let_def page_indices tva_consts
      using fa x1(1) g1 p(2) n(1) fd x3(1) z fe by (simp add: s1_def s3_def pa_def)
    define s0 where "s0 = put s ?tt 1023 x3"
    have e0: "ent s0 g j = (if g = ?tt \<and> j = 1023 then x3 else ent s g j)" if "g < 1048576" "j < 1024" for g j
      using that by (simp add: s0_def ent_put)
    have fr: "frames s5 = ph" "frames s0 = frames s" by (simp_all add: s5_def s4_def s3_def s2_def s0_def)
    have ok0: "alt_ok D s0 r a" using temp_put(1) [OF ok] by (simp add: s0_def)
    have "set_raw D ?p ?e a s0 s5"
    proof (rule set_raw_absent [OF _ d _ n(3) _ x])
      show "tree_ok D s0 a" using ok0 by (simp add: alt_ok_def)
      show "\<not> is_present (ent s0 a ?d)" using p(2) e0 [of a ?d] k d by simp
      show "\<not> phys_used (frames s0) n" using n(6) fr fr1 by simp
      show "phys_used (frames s5) j = (phys_used (frames s0) j \<or> j = n)" for j using n(7) fr fr1 by simp
      fix g j :: nat assume gj: "g < 1048576" "j < 1024"
      show "ent s5 g j = (if g = n then if j = ?t then ?e else 0 else if g = a \<and> j = ?d then x else ent s0 g j)"
        using gj n(3) e4 [OF gj] e3 [OF gj] e2 [OF gj] e1 [OF gj] e0 [OF gj] k(10) fresh(2)
        by (simp add: s5_def ent_put) (auto)
    qed
    then have "alt_set D ?p ?e r a s s5"
      using n(2,4,5,8) fr fr1
      by (intro alt_set_from_set_raw [OF ok s0_def]) (simp_all add: s5_def s4_def s3_def s2_def s1_def)
    then show ?thesis using run by blast
  qed
qed

lemma alternate_map_spec:
  assumes "alt_ok D s r a" "page_of v div 1024 \<in> D" "unat dir = 4096 * a"
  shows "alternate_map (PhysicalAddress dir) (Frame b) v flags s = Panic
      \<and> free_count (frames s) = 0 \<and> \<not> is_present (ent s a (page_of v div 1024))
    \<or> (\<exists>s'. alternate_map (PhysicalAddress dir) (Frame b) v flags s = Done s'
      \<and> alt_set D (page_of v) (new_entry (PhysicalAddress b) flags (raw s a (page_of v))) r a s s')"
  using alternate_map_present [OF assms(1,2) _ assms(3)] alternate_map_absent [OF assms(1,2) _ assms(3)] by blast

section \<open>Loops over the pages of a region\<close>

definition region_pages :: "region \<Rightarrow> virtual_address list" where
  "region_pages g = map (\<lambda>i. VirtualAddress (va_usize (rg_start g) + of_nat (4096 * i)))
     [0 ..< (unat (rg_size g) + 4095) div 4096]"

definition pages_fit :: "region \<Rightarrow> bool" where
  "pages_fit g \<longleftrightarrow> 4096 dvd unat (va_usize (rg_start g))
     \<and> unat (va_usize (rg_start g)) + 4096 * ((unat (rg_size g) + 4095) div 4096) < 4294967296"

lemma page_count_iff: "i < (n + 4095) div 4096 \<longleftrightarrow> 4096 * i < (n :: nat)"
  using div_4096_bounds [of "n + 4095"] by linarith

lemma region_page_addr:
  assumes "pages_fit g" "i \<le> (unat (rg_size g) + 4095) div 4096"
  shows "unat (va_usize (rg_start g) + of_nat (4096 * i)) = unat (va_usize (rg_start g)) + 4096 * i"
proof -
  have b: "unat (va_usize (rg_start g)) + 4096 * i < 4294967296"
    using assms unfolding pages_fit_def by linarith
  then have u: "unat (of_nat (4096 * i) :: usize) = 4096 * i" by (intro unat_of_nat32) simp
  have "unat (va_usize (rg_start g)) + unat (of_nat (4096 * i) :: usize) < 4294967296" unfolding u by (rule b)
  from unat_add32 [OF this] show ?thesis unfolding u .
qed

lemma region_page_contains:
  assumes "pages_fit g" "i \<le> (unat (rg_size g) + 4095) div 4096"
  shows "region_contains g (VirtualAddress (va_usize (rg_start g) + of_nat (4096 * i)))
    \<longleftrightarrow> i < (unat (rg_size g) + 4095) div 4096"
proof -
  have "unat (rg_size g) \<le> (unat (rg_size g) + 4095) div 4096 * 4096"
    using div_4096_bounds(2) [of "unat (rg_size g) + 4095"] by simp
  then have "unat (va_usize (rg_start g)) + unat (rg_size g) < 4294967296"
    using assms(1) unfolding pages_fit_def by linarith
  from unat_add32 [OF this] show ?thesis
    unfolding region_contains_def va_usize.simps word_less_nat_alt word_le_nat_alt region_page_addr [OF assms] page_count_iff
    by simp
qed

lemma region_loop_eq:
  fixes body :: "virtual_address \<Rightarrow> machine \<Rightarrow> machine outcome"
  assumes "pages_fit g" "i \<le> (unat (rg_size g) + 4095) div 4096"
  shows "region_loop body g (VirtualAddress (va_usize (rg_start g) + of_nat (4096 * i))) s
    = Some (ofold body (map (\<lambda>i. VirtualAddress (va_usize (rg_start g) + of_nat (4096 * i)))
        [i ..< (unat (rg_size g) + 4095) div 4096]) s)"
  using assms(2)
proof (induction "(unat (rg_size g) + 4095) div 4096 - i" arbitrary: i s)
  case 0
  then have i: "i = (unat (rg_size g) + 4095) div 4096" by simp
  show ?case
    by (subst region_loop.simps) (simp only: region_page_contains [OF assms(1) 0(2)], simp add: i)
next
  case (Suc k)
  let ?n = "(unat (rg_size g) + 4095) div 4096"
  let ?v = "\<lambda>i. VirtualAddress (va_usize (rg_start g) + of_nat (4096 * i))"
  have i: "i < ?n" using Suc.hyps(2) by simp
  then have c: "region_contains g (?v i)" using region_page_contains [OF assms(1)] by simp
  have next': "va_offset (?v i) 0x1000 = ?v (Suc i)"
    by (simp add: va_offset_def algebra_simps)
  have split: "[i ..< ?n] = i # [Suc i ..< ?n]" using i by (simp add: upt_conv_Cons)
  have IH: "region_loop body g (?v (Suc i)) s' = Some (ofold body (map ?v [Suc i ..< ?n]) s')" for s'
    using Suc.hyps(1) [of "Suc i" s'] Suc.hyps(2) i by simp
  have "region_loop body g (?v i) s = Some (case body (?v i) s of
      Done s' \<Rightarrow> ofold body (map ?v [Suc i ..< ?n]) s' | e \<Rightarrow> e)"
    by (subst region_loop.simps) (cases "body (?v i) s", simp_all only: c if_True next' IH outcome.case)
  then show ?case unfolding split list.map ofold.simps by (cases "body (?v i) s") simp_all
qed

lemma for_region_pages_eq:
  "pages_fit g \<Longrightarrow> for_region_pages body g s = ofold body (region_pages g) s"
  using region_loop_eq [of g 0 body s] by (cases "rg_start g") (simp add: for_region_pages_def region_pages_def)

lemma page_of_region_page:
  assumes "pages_fit g" "i < (unat (rg_size g) + 4095) div 4096"
  shows "page_of (VirtualAddress (va_usize (rg_start g) + of_nat (4096 * i))) = page_of (rg_start g) + i"
proof -
  obtain q where q: "unat (va_usize (rg_start g)) = 4096 * q" using assms(1) by (auto simp: pages_fit_def)
  show ?thesis
    unfolding page_of_def va_usize.simps region_page_addr [OF assms(1) less_imp_le [OF assms(2)]] q by simp
qed

lemma region_pages_of:
  assumes "pages_fit g"
  shows "map page_of (region_pages g) = [page_of (rg_start g) ..< page_of (rg_start g) + (unat (rg_size g) + 4095) div 4096]"
  unfolding region_pages_def
  using page_of_region_page [OF assms] by (intro nth_equalityI) simp_all

lemma region_pages_aligned:
  assumes "pages_fit g"
  shows "\<forall>v \<in> set (region_pages g). 4096 dvd unat (va_usize v)"
proof
  fix v assume "v \<in> set (region_pages g)"
  then obtain i where i: "i < (unat (rg_size g) + 4095) div 4096"
    "v = VirtualAddress (va_usize (rg_start g) + of_nat (4096 * i))" by (auto simp: region_pages_def)
  have "unat (va_usize v) = unat (va_usize (rg_start g)) + 4096 * i"
    unfolding i(2) va_usize.simps by (rule region_page_addr [OF assms less_imp_le [OF i(1)]])
  then show "4096 dvd unat (va_usize v)" using assms by (simp add: pages_fit_def)
qed

text \<open>
  The contract of a loop body that works on one page: it may run out of memory, or it relates the
  old and new state of its page and leaves the other pages of interest alone.  Then a loop over
  distinct pages does so for each of them.
\<close>

locale page_step =
  fixes inv :: "'s \<Rightarrow> bool"
    and look :: "'s \<Rightarrow> nat \<Rightarrow> 'e"
    and body :: "virtual_address \<Rightarrow> 's \<Rightarrow> 's outcome"
    and rel :: "'e \<Rightarrow> 'e \<Rightarrow> bool"
    and area :: "nat set"
    and free :: "'s \<Rightarrow> nat"
    and cost :: nat
  assumes step: "inv s \<Longrightarrow> page_of v \<in> area \<Longrightarrow> 4096 dvd unat (va_usize v) \<Longrightarrow>
    body v s = Panic \<and> free s < cost
    \<or> (\<exists>s'. body v s = Done s' \<and> inv s' \<and> free s \<le> free s' + cost \<and> rel (look s (page_of v)) (look s' (page_of v))
        \<and> (\<forall>q \<in> area. q \<noteq> page_of v \<longrightarrow> look s' q = look s q))"
begin

lemma loop:
  assumes "inv s" "page_of ` set vs \<subseteq> area" "distinct (map page_of vs)" "\<forall>v \<in> set vs. 4096 dvd unat (va_usize v)"
  shows "ofold body vs s = Panic \<and> free s < cost * length vs
    \<or> (\<exists>s'. ofold body vs s = Done s' \<and> inv s' \<and> free s \<le> free s' + cost * length vs \<and> (\<forall>v \<in> set vs. rel (look s (page_of v)) (look s' (page_of v)))
        \<and> (\<forall>q \<in> area. q \<notin> page_of ` set vs \<longrightarrow> look s' q = look s q))"
  using assms
proof (induction vs arbitrary: s)
  case (Cons v vs)
  have v: "page_of v \<in> area" "4096 dvd unat (va_usize v)" using Cons.prems(2,4) by simp_all
  from step [OF Cons.prems(1) v] show ?case
  proof (elim disjE exE conjE)
    fix s1
    assume f1: "free s \<le> free s1 + cost"
      and s1: "body v s = Done s1" "inv s1" "rel (look s (page_of v)) (look s1 (page_of v))"
      "\<forall>q \<in> area. q \<noteq> page_of v \<longrightarrow> look s1 q = look s q"
    from Cons.IH [OF s1(2)] Cons.prems(2,3,4) consider "free s1 < cost * length vs" "ofold body vs s1 = Panic"
      | s' where "ofold body vs s1 = Done s'" "inv s'" "\<forall>w \<in> set vs. rel (look s1 (page_of w)) (look s' (page_of w))"
          "\<forall>q \<in> area. q \<notin> page_of ` set vs \<longrightarrow> look s' q = look s1 q" "free s1 \<le> free s' + cost * length vs" by auto
    then show ?thesis
    proof cases
      case 1
      then show ?thesis using s1(1) f1 by simp
    next
      case 2
      have fresh: "page_of v \<notin> page_of ` set vs" using Cons.prems(3) by simp
      have "look s1 (page_of w) = look s (page_of w)" if "w \<in> set vs" for w
      proof -
        have "page_of w \<in> page_of ` set vs" using that by (rule imageI)
        then have "page_of w \<noteq> page_of v" "page_of w \<in> area" using fresh Cons.prems(2) by auto
        then show ?thesis using s1(4) by blast
      qed
      then have "rel (look s (page_of w)) (look s' (page_of w))" if "w \<in> set vs" for w
        using 2(3) that by simp
      moreover have "look s' (page_of v) = look s1 (page_of v)" using 2(4) v(1) fresh by blast
      moreover have "look s' q = look s q" if "q \<in> area" "q \<notin> page_of ` set (v # vs)" for q
        using 2(4) s1(4) that by simp
      ultimately show ?thesis using 2(1,2,5) s1(1,3) f1 by simp
    qed
  qed simp
qed simp

lemma region_loop_law:
  assumes "pages_fit g" "{page_of (rg_start g) ..< page_of (rg_start g) + (unat (rg_size g) + 4095) div 4096} \<subseteq> area" "inv s"
  shows "ofold body (region_pages g) s = Panic \<and> free s < cost * ((unat (rg_size g) + 4095) div 4096)
    \<or> (\<exists>s'. ofold body (region_pages g) s = Done s' \<and> inv s' \<and> free s \<le> free s' + cost * ((unat (rg_size g) + 4095) div 4096)
        \<and> (\<forall>q \<in> {page_of (rg_start g) ..< page_of (rg_start g) + (unat (rg_size g) + 4095) div 4096}. rel (look s q) (look s' q))
        \<and> (\<forall>q \<in> area. q \<notin> {page_of (rg_start g) ..< page_of (rg_start g) + (unat (rg_size g) + 4095) div 4096}
             \<longrightarrow> look s' q = look s q))"
proof -
  note ps = region_pages_of [OF assms(1)]
  have set: "page_of ` set (region_pages g) = {page_of (rg_start g) ..< page_of (rg_start g) + (unat (rg_size g) + 4095) div 4096}"
    using arg_cong [OF ps, of set] by simp
  have "distinct (map page_of (region_pages g))" unfolding ps by simp
  have "length (region_pages g) = (unat (rg_size g) + 4095) div 4096" by (simp add: region_pages_def)
  with loop [OF assms(3) _ \<open>distinct (map page_of (region_pages g))\<close>] assms(2) region_pages_aligned [OF assms(1)] show ?thesis
    unfolding set [symmetric] by auto
qed

end

section \<open>Loop bodies\<close>

definition dir_pages :: "nat set \<Rightarrow> nat set" where
  "dir_pages D = {p. p < 1023 * 1024 \<and> p div 1024 \<in> D}"

lemma set_rawD:
  assumes "set_raw D p e r s s'" "q < 1023 * 1024"
  shows "raw s' r q = (if q = p then e else raw s r q)"
  using assms by (simp add: set_raw_def)

interpretation unm: page_step "\<lambda>s. pd_ok D s r" "\<lambda>s. raw s r" current_unmap
  "\<lambda>e e'. e' = clear_present e" "dir_pages D" "\<lambda>s. free_count (frames s)" 0 for D r
proof
  fix s v assume "pd_ok D s r" "page_of v \<in> dir_pages D"
  then show "current_unmap v s = Panic \<and> free_count (frames s) < 0
    \<or> (\<exists>s'. current_unmap v s = Done s' \<and> pd_ok D s' r \<and> free_count (frames s) \<le> free_count (frames s') + 0 \<and> raw s' r (page_of v) = clear_present (raw s r (page_of v))
        \<and> (\<forall>q \<in> dir_pages D. q \<noteq> page_of v \<longrightarrow> raw s' r q = raw s r q))"
    using current_unmap_spec [of D s r v] by (auto simp: dir_pages_def set_raw_def)
qed

text \<open>\<^verbatim>\<open>map_allocator\<close> of \<^verbatim>\<open>memory/heap/mod.rs\<close>: a new frame for each page of the initial heap.\<close>

definition map_heap_page :: "virtual_address \<Rightarrow> machine \<Rightarrow> machine outcome" where
  "map_heap_page heap_vaddr s =
     obind (take_frame s) (\<lambda>(heap_frame, s). current_map heap_frame heap_vaddr (PermissionFlags 0) s)"

definition map_allocator :: "virtual_address \<Rightarrow> usize \<Rightarrow> machine \<Rightarrow> machine outcome" where
  "map_allocator location initial_frame_count =
     ofold (\<lambda>i. map_heap_page (VirtualAddress (0xc0400000 + of_nat i * 0x1000))) [0 ..< unat initial_frame_count]"

lemma pd_ok_frames:
  assumes "pd_ok D s r" "phys_wf p" "\<And>k. phys_used (frames s) k \<Longrightarrow> phys_used p k"
  shows "pd_ok D (s\<lparr>frames := p\<rparr>) r" "raw (s\<lparr>frames := p\<rparr>) r q = raw s r q"
proof -
  have e: "ent (s\<lparr>frames := p\<rparr>) g j = ent s g j" for g j by (simp add: ent_def)
  have "tree_ok D (s\<lparr>frames := p\<rparr>) r"
    by (rule tree_ok_cong [of D s]) (use assms in \<open>simp_all add: pd_ok_def e\<close>)
  moreover have "current_ok (s\<lparr>frames := p\<rparr>) r"
    by (rule current_ok_cong [of s]) (use assms in \<open>simp_all add: pd_ok_def e\<close>)
  ultimately show "pd_ok D (s\<lparr>frames := p\<rparr>) r" by (simp add: pd_ok_def)
  show "raw (s\<lparr>frames := p\<rparr>) r q = raw s r q" by (simp add: raw_def e)
qed

interpretation hpm: page_step "\<lambda>s. pd_ok D s r" "\<lambda>s. raw s r" map_heap_page
  "\<lambda>e e'. is_present e'" "dir_pages D" "\<lambda>s. free_count (frames s)" 2 for D r
proof
  fix s v assume a: "pd_ok D s r" "page_of v \<in> dir_pages D"
  then have wf: "phys_wf (frames s)" and d: "page_of v div 1024 \<in> D" "page_of v < 1023 * 1024"
    by (simp_all add: pd_ok_def current_ok_def dir_pages_def)
  from take_frame_spec [OF wf] show "map_heap_page v s = Panic \<and> free_count (frames s) < 2
    \<or> (\<exists>s'. map_heap_page v s = Done s' \<and> pd_ok D s' r \<and> free_count (frames s) \<le> free_count (frames s') + 2 \<and> is_present (raw s' r (page_of v))
        \<and> (\<forall>q \<in> dir_pages D. q \<noteq> page_of v \<longrightarrow> raw s' r q = raw s r q))"
  proof (elim disjE exE conjE)
    fix k p
    assume k: "take_frame s = Done (Frame (of_nat (k * 4096)), s\<lparr>frames := p\<rparr>)" "phys_wf p"
      "\<forall>j. phys_used p j = (phys_used (frames s) j \<or> j = k)" "free_count (frames s) \<le> free_count p + 1"
    have ok: "pd_ok D (s\<lparr>frames := p\<rparr>) r" "raw (s\<lparr>frames := p\<rparr>) r q = raw s r q" for q
      using pd_ok_frames [OF a(1) k(2)] k(3) by simp_all
    from current_map_spec [OF ok(1) d(1), of "of_nat (k * 4096)" "PermissionFlags 0"] show ?thesis
    proof (elim disjE exE conjE)
      fix s'
      assume free: "free_count (frames (s\<lparr>frames := p\<rparr>)) \<le> free_count (frames s') + 1"
        and s': "current_map (Frame (of_nat (k * 4096))) v (PermissionFlags 0) (s\<lparr>frames := p\<rparr>) = Done s'" "pd_ok D s' r"
        "set_raw D (page_of v) (new_entry (PhysicalAddress (of_nat (k * 4096))) (PermissionFlags 0)
           (raw (s\<lparr>frames := p\<rparr>) r (page_of v))) r (s\<lparr>frames := p\<rparr>) s'"
      have "is_present (raw s' r (page_of v))"
        using set_rawD [OF s'(3) d(2)] by (simp add: new_entry_props)
      moreover have "raw s' r q = raw s r q" if "q \<in> dir_pages D" "q \<noteq> page_of v" for q
        using set_rawD [OF s'(3), of q] that ok(2) by (simp add: dir_pages_def)
      ultimately show ?thesis using k(1,4) s'(1,2) free by (simp add: map_heap_page_def)
    qed (use k in \<open>simp add: map_heap_page_def\<close>)
  qed (simp add: map_heap_page_def)
qed

section \<open>Copying a region into another directory\<close>

definition fork_ok :: "nat set \<Rightarrow> machine \<Rightarrow> nat \<Rightarrow> nat \<Rightarrow> bool" where
  "fork_ok D s r a \<longleftrightarrow> alt_ok D s r a \<and> tree_ok D s r"

lemma current_entry_spec:
  assumes "current_ok s r" "tree_ok D s r" "page_of v < 1023 * 1024"
  shows "current_entry v s = Done (if is_present (raw s r (page_of v)) then Some (raw s r (page_of v)) else None)"
proof -
  let ?d = "page_of v div 1024" and ?t = "page_of v mod 1024"
  note w = current_walks [OF assms(1)]
  have pg: "paging s" "r < 1048576" "fno (ent s r 1023) = r"
    using assms by (simp_all add: current_ok_def tree_ok_def)
  have d: "?d < 1023" using assms(3) by (simp add: less_mult_imp_div_less)
  have get: "table_get (tva 1023 1023) (of_nat ?d) s = Done (ent s r ?d)"
    using table_get_spec [of s 1023 1023 "ent s r 1023" ?d] w(1,2) pg d by simp
  have gett: "table_get (tva 1023 ?d) (of_nat ?t) s = Done (ent s (fno (ent s r ?d)) ?t)" if "is_present (ent s r ?d)"
    using table_get_spec [of s 1023 ?d "ent s r ?d" ?t] w(1) w(3) [OF that] pg d by simp
  have window: "0xffc00000 + 0x1000 * (of_nat ?d :: usize) = 0xffc00000 + of_nat ?d * 0x1000" by simp
  show ?thesis
    unfolding current_entry_def Let_def page_indices window tva_window tva_consts
    using get gett by (simp add: raw_def)
qed

lemma alt_set_fork:
  assumes "alt_set D p e r a s s'" "tree_ok D s r"
  shows "fork_ok D s' r a"
proof -
  have "tree_ok D s' r"
    by (rule tree_ok_cong [OF assms(2)]) (use assms(1) in \<open>simp_all add: alt_set_def\<close>)
  then show ?thesis using assms(1) by (simp add: fork_ok_def alt_set_def)
qed

lemma frame_of_entry: "frame_new (pa_usize (pte_get_address e)) = Frame (e AND 0xfffff000)"
  by (simp add: frame_new_def pte_get_address_def word_unat_eq_iff unat_page_base)

text \<open>How a region's pages look after the two mapping-only copies, as pairs of entries.\<close>

definition mapping_flags :: "page_table_entry \<Rightarrow> permission_flags" where
  "mapping_flags e = PermissionFlags ((if is_user_access_granted e then USER_ACCESS else 0)
     OR (if is_write_access_granted e then WRITE_ACCESS else 0))"

definition copied_entry :: "page_table_entry \<times> page_table_entry \<Rightarrow> page_table_entry \<times> page_table_entry \<Rightarrow> bool" where
  "copied_entry x y \<longleftrightarrow> fst y = fst x
     \<and> snd y = (if is_present (fst x)
         then new_entry (PhysicalAddress (fst x AND 0xfffff000)) (mapping_flags (fst x)) (snd x) else snd x)"

definition shared_entry :: "page_table_entry \<times> page_table_entry \<Rightarrow> page_table_entry \<times> page_table_entry \<Rightarrow> bool" where
  "shared_entry x y \<longleftrightarrow> (if is_present (fst x)
     then fst y = clear_write_access (fst x)
       \<and> snd y = new_entry (PhysicalAddress (fst x AND 0xfffff000))
            (PermissionFlags (if is_user_access_granted (fst x) then USER_ACCESS else 0)) (snd x)
     else y = x)"

definition fork_pages :: "nat set \<Rightarrow> nat set" where
  "fork_pages D = dir_pages D - {temp_page}"

text \<open>The reference counts cover every frame the current directory maps.\<close>

definition rc_ok :: "nat set \<Rightarrow> machine \<Rightarrow> nat \<Rightarrow> bool" where
  "rc_ok D s r \<longleftrightarrow> (\<exists>rc. REF_COUNT (frames s) = Some rc
     \<and> (\<forall>q \<in> fork_pages D. is_present (raw s r q) \<longrightarrow> fno (raw s r q) < length (references rc)))"

definition fork_inv :: "nat set \<Rightarrow> machine \<Rightarrow> nat \<Rightarrow> nat \<Rightarrow> bool" where
  "fork_inv D s r a \<longleftrightarrow> fork_ok D s r a \<and> rc_ok D s r"

lemma rc_ok_cong:
  assumes "rc_ok D s r" "REF_COUNT (frames s') = REF_COUNT (frames s)"
    and "\<And>q. q < 1023 * 1024 \<Longrightarrow> q \<noteq> temp_page \<Longrightarrow> raw s' r q = raw s r q"
  shows "rc_ok D s' r"
  using assms by (auto simp: rc_ok_def fork_pages_def dir_pages_def)

interpretation cpm: page_step "\<lambda>s. fork_inv D s r a" "\<lambda>s q. (raw s r q, raw s a q)"
  "copy_mapping_page (PhysicalAddress (of_nat (4096 * a)))" copied_entry "fork_pages D" "\<lambda>s. free_count (frames s)" 1 for D r a
proof
  fix s v assume s: "fork_inv D s r a" "page_of v \<in> fork_pages D"
  let ?p = "page_of v" let ?e = "raw s r (page_of v)"
  have ok: "alt_ok D s r a" "tree_ok D s r" "current_ok s r" using s(1) by (simp_all add: fork_inv_def fork_ok_def alt_ok_def)
  have p: "?p < 1023 * 1024" "?p div 1024 \<in> D" "?p \<noteq> temp_page" using s(2) by (simp_all add: fork_pages_def dir_pages_def)
  have dir: "unat (of_nat (4096 * a) :: usize) = 4096 * a"
    using alt_ok_facts(5) [OF ok(1)] by (intro unat_of_nat32) simp
  have ce: "current_entry v s = Done (if is_present ?e then Some ?e else None)"
    by (rule current_entry_spec [OF ok(3,2) p(1)])
  show "copy_mapping_page (PhysicalAddress (of_nat (4096 * a))) v s = Panic \<and> free_count (frames s) < 1
    \<or> (\<exists>s'. copy_mapping_page (PhysicalAddress (of_nat (4096 * a))) v s = Done s' \<and> fork_inv D s' r a
        \<and> free_count (frames s) \<le> free_count (frames s') + 1
        \<and> copied_entry (raw s r ?p, raw s a ?p) (raw s' r ?p, raw s' a ?p)
        \<and> (\<forall>q \<in> fork_pages D. q \<noteq> ?p \<longrightarrow> (raw s' r q, raw s' a q) = (raw s r q, raw s a q)))"
  proof (cases "is_present ?e")
    case False
    then have "copy_mapping_page (PhysicalAddress (of_nat (4096 * a))) v s = Done s"
      using ce by (simp add: copy_mapping_page_def)
    then show ?thesis using s(1) False by (simp add: copied_entry_def)
  next
    case True
    then have run: "copy_mapping_page (PhysicalAddress (of_nat (4096 * a))) v s
        = alternate_map (PhysicalAddress (of_nat (4096 * a))) (Frame (?e AND 0xfffff000)) v (mapping_flags ?e) s"
      using ce by (simp add: copy_mapping_page_def frame_of_entry mapping_flags_def Let_def)
    from alternate_map_spec [OF ok(1) p(2) dir, of "?e AND 0xfffff000" "mapping_flags ?e"] show ?thesis
    proof (elim disjE exE conjE)
      fix s'
      assume s': "alternate_map (PhysicalAddress (of_nat (4096 * a))) (Frame (?e AND 0xfffff000)) v (mapping_flags ?e) s = Done s'"
        "alt_set D ?p (new_entry (PhysicalAddress (?e AND 0xfffff000)) (mapping_flags ?e) (raw s a ?p)) r a s s'"
      have "copied_entry (raw s r ?p, raw s a ?p) (raw s' r ?p, raw s' a ?p)"
        using s'(2) p True by (simp add: copied_entry_def alt_set_def)
      moreover have "\<forall>q \<in> fork_pages D. q \<noteq> ?p \<longrightarrow> (raw s' r q, raw s' a q) = (raw s r q, raw s a q)"
        using s'(2) by (simp add: alt_set_def fork_pages_def dir_pages_def)
      moreover have "rc_ok D s' r"
        by (rule rc_ok_cong [of D s]) (use s(1) s'(2) in \<open>simp_all add: fork_inv_def alt_set_def\<close>)
      ultimately show ?thesis using run s' alt_set_fork [OF s'(2) ok(2)] by (simp add: alt_set_def fork_inv_def)
    qed (use run in simp)
  qed
qed

text \<open>Changes outside the two trees are invisible to both.\<close>

lemma fork_ok_cong:
  assumes ok: "fork_ok D s r a" and regs: "paging s' = paging s" "cr3 s' = cr3 s" "phys_wf (frames s')"
    and used: "\<And>k. phys_used (frames s) k \<Longrightarrow> phys_used (frames s') k"
    and ent: "\<And>g j. g \<in> {r, a} \<union> tables s r \<union> tables s a \<Longrightarrow> j < 1024 \<Longrightarrow> ent s' g j = ent s g j"
  shows "fork_ok D s' r a" "q < 1023 * 1024 \<Longrightarrow> raw s' r q = raw s r q \<and> raw s' a q = raw s a q"
proof -
  have t: "tables s' r = tables s r" "tables s' a = tables s a" by (rule tables_cong, simp add: ent)+
  have tree: "tree_ok E s' g" if "tree_ok E s g" "g = r \<or> g = a" for E g
    by (rule tree_ok_cong [OF that(1)]) (use that(2) ent used in auto)
  have "current_ok s' r"
    by (rule current_ok_cong [of s]) (use ok regs ent in \<open>simp_all add: fork_ok_def alt_ok_def\<close>)
  then show "fork_ok D s' r a" using ok tree ent [of r 1022] by (simp add: fork_ok_def alt_ok_def t)
  have raw: "raw s' g q = raw s g q" if q: "q < 1023 * 1024" and g: "g = r \<or> g = a" for g
  proof (rule raw_cong)
    have q': "q div 1024 < 1023" using q by (simp add: less_mult_imp_div_less)
    then show "ent s' g (q div 1024) = ent s g (q div 1024)" using g by (auto simp: ent)
    assume "is_present (ent s g (q div 1024))"
    then have "fno (ent s g (q div 1024)) \<in> tables s g" using q' by (auto simp: tables_def)
    then show "ent s' (fno (ent s g (q div 1024))) (q mod 1024) = ent s (fno (ent s g (q div 1024))) (q mod 1024)"
      using g by (auto simp: ent)
  qed
  then show "q < 1023 * 1024 \<Longrightarrow> raw s' r q = raw s r q \<and> raw s' a q = raw s a q" by simp
qed

lemma fork_ok_frames:
  assumes "fork_ok D s r a" "phys_wf p" "\<And>k. phys_used (frames s) k \<Longrightarrow> phys_used p k"
  shows "fork_ok D (s\<lparr>frames := p\<rparr>) r a" "raw (s\<lparr>frames := p\<rparr>) g q = raw s g q"
proof -
  have e: "ent (s\<lparr>frames := p\<rparr>) g j = ent s g j" for g j by (simp add: ent_def)
  show "fork_ok D (s\<lparr>frames := p\<rparr>) r a"
    by (rule fork_ok_cong(1) [OF assms(1)]) (simp_all add: assms(2,3) e)
  show "raw (s\<lparr>frames := p\<rparr>) g q = raw s g q" by (simp add: raw_def e)
qed

text \<open>An update of a private table of the current directory is invisible to the other one.\<close>

lemma set_raw_current:
  assumes ok: "fork_ok D s r a" and set: "set_raw D p e r s s'"
    and s': "paging s' = paging s" "cr3 s' = cr3 s" "frames s' = frames s"
      "\<And>j. j < 1024 \<Longrightarrow> ent s' r j = ent s r j"
  shows "fork_ok D s' r a" "q < 1023 * 1024 \<Longrightarrow> raw s' a q = raw s a q"
proof -
  have o: "alt_ok D s r a" "tree_ok D s r" using ok by (simp_all add: fork_ok_def)
  note f = alt_ok_facts [OF o(1)]
  note sr = set [unfolded set_raw_def]
  have tb: "tables s' r = tables s r" by (rule tables_cong) (simp add: s'(4))
  have small: "g < 1048576" if "g \<in> tables s a" for g using that by (auto simp: tables_def)
  have keep: "ent s' g j = ent s g j" if "g = a \<or> g \<in> tables s a" "j < 1024" for g j
  proof -
    have "g \<noteq> r" "g \<notin> tables s r" "g < 1048576" using that(1) o(1) f(5) small by (auto simp: alt_ok_def)
    then show ?thesis using sr tb that(2) by simp
  qed
  have ta: "tables s' a = tables s a" by (rule tables_cong) (simp add: keep)
  have tree: "tree_ok E s' r" if "tree_ok E s r" for E
    by (rule tree_ok_cong [OF that]) (simp_all add: s')
  have "tree_ok D s' a"
    by (rule tree_ok_cong [of D s]) (use o(1) in \<open>simp_all add: alt_ok_def s' keep\<close>)
  moreover have "current_ok s' r"
    by (rule current_ok_cong [of s]) (use o(1) f in \<open>simp_all add: alt_ok_def s'\<close>)
  ultimately show "fork_ok D s' r a"
    using o tree s'(4) [of 1022] by (simp add: fork_ok_def alt_ok_def tb ta)
  show "raw s' a q = raw s a q" if q: "q < 1023 * 1024"
  proof (rule raw_cong)
    have q': "q div 1024 < 1023" using q by (simp add: less_mult_imp_div_less)
    then show "ent s' a (q div 1024) = ent s a (q div 1024)" by (simp add: keep)
    assume "is_present (ent s a (q div 1024))"
    then have "fno (ent s a (q div 1024)) \<in> tables s a" using q' by (auto simp: tables_def)
    then show "ent s' (fno (ent s a (q div 1024))) (q mod 1024) = ent s (fno (ent s a (q div 1024))) (q mod 1024)"
      by (simp add: keep)
  qed
qed

lemma reference_frame_law:
  assumes "phys_reference_frame_at_address pa p = Done (c, p')"
  shows "phys_wf p' = phys_wf p" "phys_used p' k = phys_used p k"
  using assms
  by (auto simp: phys_reference_frame_at_address_def with_refcount_def phys_wf_def phys_used_def
      obind_Done_iff split: option.splits)

lemma reference_frame_ok:
  assumes "REF_COUNT p = Some rc" "fno e < length (references rc)"
  shows "\<exists>c rc'. phys_reference_frame_at_address (pte_get_address e) p = Done (c, p\<lparr>REF_COUNT := Some rc'\<rparr>)
    \<and> length (references rc') = length (references rc)"
proof -
  have "unat (e AND 0xfffff000) = 4096 * fno e"
    by (simp add: unat_page_base fno_def minus_mod_eq_mult_div)
  then have "unat (pa_usize (pte_get_address e) div 0x1000) = fno e"
    unfolding page_number by (simp add: pte_get_address_def)
  then show ?thesis using assms
    by (intro exI [of _ "references rc ! fno e + 1"]
        exI [of _ "rc\<lparr>references := (references rc)[fno e := references rc ! fno e + 1]\<rparr>"])
      (simp add: phys_reference_frame_at_address_def with_refcount_def reference_frame_at_address_def
        reference_frame_at_index_def Let_def)
qed

lemma copy_on_write_page_step:
  assumes s: "fork_ok D s r a" and p: "page_of v \<in> fork_pages D" "is_present (raw s r (page_of v))"
    and ref: "phys_reference_frame_at_address (pte_get_address (raw s r (page_of v))) (frames s) = Done (c, ph)"
  shows "\<exists>s2. copy_on_write_page (PhysicalAddress (of_nat (4096 * a))) v s
      = alternate_map (PhysicalAddress (of_nat (4096 * a))) (Frame (raw s r (page_of v) AND 0xfffff000)) v
          (PermissionFlags (if is_user_access_granted (raw s r (page_of v)) then USER_ACCESS else 0)) s2
    \<and> fork_ok D s2 r a \<and> frames s2 = ph
    \<and> (\<forall>q < 1023 * 1024. raw s2 r q = (if q = page_of v then clear_write_access (raw s r q) else raw s r q)
        \<and> raw s2 a q = raw s a q)"
proof -
  let ?p = "page_of v" let ?d = "page_of v div 1024" and ?t = "page_of v mod 1024"
  let ?e = "raw s r ?p" and ?f = "fno (ent s r ?d)"
  define s1 where "s1 = s\<lparr>frames := ph\<rparr>"
  have d: "?d \<in> D" "?p < 1023 * 1024" "?d < 1023"
    using p(1) by (simp_all add: fork_pages_def dir_pages_def less_mult_imp_div_less)
  have wf: "phys_wf (frames s)" using s alt_ok_facts(3) by (auto simp: fork_ok_def)
  note fo = fork_ok_frames [OF s, of ph, folded s1_def]
  have ok1: "fork_ok D s1 r a" and raw1: "raw s1 g q = raw s g q" for g q
    using fo reference_frame_law [OF ref] wf by simp_all
  have e1: "ent s1 g j = ent s g j" for g j by (simp add: ent_def s1_def)
  have tr: "current_ok s1 r" "tree_ok D s1 r" "current_ok s r" "tree_ok D s r"
    using ok1 s by (simp_all add: fork_ok_def alt_ok_def)
  have pr: "is_present (ent s1 r ?d)" and ent: "?e = ent s1 ?f ?t"
    using p(2) by (auto simp: raw_def e1 split: if_splits)
  note w = current_walks [OF tr(1)]
  have pg: "paging s1" "r < 1048576" using tr by (simp_all add: current_ok_def tree_ok_def)
  define s2 where "s2 = put s1 ?f ?t (clear_write_access ?e)"
  have upd: "table_get_mut (tva 1023 ?d) (of_nat ?t) clear_write_access s1 = Done s2"
    using table_get_mut_spec [of s1 1023 ?d "ent s r ?d" ?t clear_write_access] w(1) w(3) [OF pr] pg d(3) ent
    by (simp add: s2_def e1)
  have ce: "current_entry v s = Done (Some ?e)" using current_entry_spec [OF tr(3,4) d(2)] p(2) by simp
  have window: "0xffc00000 + 0x1000 * (of_nat ?d :: usize) = 0xffc00000 + of_nat ?d * 0x1000" by simp
  have run: "copy_on_write_page (PhysicalAddress (of_nat (4096 * a))) v s
      = alternate_map (PhysicalAddress (of_nat (4096 * a))) (Frame (?e AND 0xfffff000)) v
          (PermissionFlags (if is_user_access_granted ?e then USER_ACCESS else 0)) s2"
    unfolding copy_on_write_page_def Let_def frame_of_entry page_indices window tva_window
    using ce ref upd by (simp add: s1_def)
  have fr: "?f \<noteq> r" using tr(4) pr d(3) by (auto simp: tree_ok_def tables_def e1)
  have "set_raw D ?p (clear_write_access ?e) r s1 s2"
  proof (rule set_raw_present [OF tr(2) d(1) pr])
    show "frames s2 = frames s1" by (simp add: s2_def)
    fix g j :: nat assume "g < 1048576" "j < 1024"
    then show "ent s2 g j = (if g = fno (ent s1 r ?d) \<and> j = ?t then clear_write_access ?e else ent s1 g j)"
      by (simp add: s2_def ent_put e1)
  qed
  note sc = set_raw_current [OF ok1 this]
  have "ent s2 r j = ent s1 r j" if "j < 1024" for j using that fr pg(2) by (simp add: s2_def ent_put)
  then have "fork_ok D s2 r a" and a2: "q < 1023 * 1024 \<Longrightarrow> raw s2 a q = raw s1 a q" for q
    using sc by (simp_all add: s2_def)
  moreover have "raw s2 r q = (if q = ?p then clear_write_access (raw s r q) else raw s r q)" if "q < 1023 * 1024" for q
    using set_rawD [OF \<open>set_raw D ?p (clear_write_access ?e) r s1 s2\<close> that] raw1 by simp
  moreover have "frames s2 = ph" by (simp add: s2_def s1_def)
  ultimately show ?thesis using run raw1 by (intro exI [of _ s2]) simp
qed

interpretation cow: page_step "\<lambda>s. fork_inv D s r a" "\<lambda>s q. (raw s r q, raw s a q)"
  "copy_on_write_page (PhysicalAddress (of_nat (4096 * a)))" shared_entry "fork_pages D" "\<lambda>s. free_count (frames s)" 1 for D r a
proof
  fix s v assume s: "fork_inv D s r a" "page_of v \<in> fork_pages D"
  let ?p = "page_of v" let ?e = "raw s r (page_of v)" let ?dir = "PhysicalAddress (of_nat (4096 * a))"
  have ok: "tree_ok D s r" "current_ok s r" "fork_ok D s r a"
    using s(1) by (simp_all add: fork_inv_def fork_ok_def alt_ok_def)
  have p: "?p < 1023 * 1024" "?p div 1024 \<in> D" "?p \<noteq> temp_page" using s(2) by (simp_all add: fork_pages_def dir_pages_def)
  show "copy_on_write_page ?dir v s = Panic \<and> free_count (frames s) < 1
    \<or> (\<exists>s'. copy_on_write_page ?dir v s = Done s' \<and> fork_inv D s' r a \<and> free_count (frames s) \<le> free_count (frames s') + 1
        \<and> shared_entry (raw s r ?p, raw s a ?p) (raw s' r ?p, raw s' a ?p)
        \<and> (\<forall>q \<in> fork_pages D. q \<noteq> ?p \<longrightarrow> (raw s' r q, raw s' a q) = (raw s r q, raw s a q)))"
  proof (cases "is_present ?e")
    case False
    then have "copy_on_write_page ?dir v s = Done s"
      using current_entry_spec [OF ok(2,1) p(1)] by (simp add: copy_on_write_page_def)
    then show ?thesis using s(1) False by (simp add: shared_entry_def)
  next
    case True
    obtain rc where rc: "REF_COUNT (frames s) = Some rc"
      "\<forall>q \<in> fork_pages D. is_present (raw s r q) \<longrightarrow> fno (raw s r q) < length (references rc)"
      using s(1) by (auto simp: fork_inv_def rc_ok_def)
    then have "fno ?e < length (references rc)" using s(2) True by blast
    from reference_frame_ok [OF rc(1) this] obtain c rc' where
      ref: "phys_reference_frame_at_address (pte_get_address ?e) (frames s) = Done (c, frames s\<lparr>REF_COUNT := Some rc'\<rparr>)"
        "length (references rc') = length (references rc)" by blast
    have fc: "free_count (frames s\<lparr>REF_COUNT := Some rc'\<rparr>) = free_count (frames s)"
      by (simp add: free_count_def phys_total_def phys_used_def)
    from copy_on_write_page_step [OF ok(3) s(2) True ref(1)] obtain s2 where
      run: "copy_on_write_page ?dir v s = alternate_map ?dir (Frame (?e AND 0xfffff000)) v
          (PermissionFlags (if is_user_access_granted ?e then USER_ACCESS else 0)) s2"
        "fork_ok D s2 r a" "frames s2 = frames s\<lparr>REF_COUNT := Some rc'\<rparr>"
        "\<forall>q < 1023 * 1024. raw s2 r q = (if q = ?p then clear_write_access (raw s r q) else raw s r q)
          \<and> raw s2 a q = raw s a q" by blast
    have ok2: "alt_ok D s2 r a" "tree_ok D s2 r" using run(2) by (simp_all add: fork_ok_def)
    have dir: "unat (of_nat (4096 * a) :: usize) = 4096 * a"
      using alt_ok_facts(5) [OF ok2(1)] by (intro unat_of_nat32) simp
    have pres: "is_present (clear_write_access e) = is_present e" for e by (simp add: is_present_bit bit_entry_ops)
    from alternate_map_spec [OF ok2(1) p(2) dir, of "?e AND 0xfffff000"
        "PermissionFlags (if is_user_access_granted ?e then USER_ACCESS else 0)"] show ?thesis
    proof (elim disjE exE conjE)
      fix s'
      assume s': "alternate_map ?dir (Frame (?e AND 0xfffff000)) v
          (PermissionFlags (if is_user_access_granted ?e then USER_ACCESS else 0)) s2 = Done s'"
        "alt_set D ?p (new_entry (PhysicalAddress (?e AND 0xfffff000))
           (PermissionFlags (if is_user_access_granted ?e then USER_ACCESS else 0)) (raw s2 a ?p)) r a s2 s'"
      note as = s'(2) [unfolded alt_set_def]
      have "shared_entry (raw s r ?p, raw s a ?p) (raw s' r ?p, raw s' a ?p)"
        using as p True run(4) by (simp add: shared_entry_def)
      moreover have same: "\<forall>q \<in> fork_pages D. q \<noteq> ?p \<longrightarrow> (raw s' r q, raw s' a q) = (raw s r q, raw s a q)"
        using as run(4) by (simp add: fork_pages_def dir_pages_def)
      moreover have "raw s' r q = (if q = ?p then clear_write_access (raw s r q) else raw s r q)" if "q \<in> fork_pages D" for q
        using as run(4) that by (simp add: fork_pages_def dir_pages_def)
      then have "rc_ok D s' r"
        unfolding rc_ok_def using as run(3) rc(2) ref(2) pres by (intro exI [of _ rc']) auto
      moreover have "free_count (frames s) \<le> free_count (frames s') + 1" using as run(3) fc by simp
      ultimately show ?thesis using run(1) s'(1) alt_set_fork [OF s'(2) ok2(2)] by (simp add: fork_inv_def)
    qed (use run(1,3) fc in simp)
  qed
qed

section \<open>Private copies\<close>

definition copied :: "machine \<Rightarrow> nat \<Rightarrow> nat \<Rightarrow> nat \<Rightarrow> machine" where
  "copied s n f k = fold (\<lambda>j s. put s n j (ent s f j)) [0 ..< k] s"

lemma copied_simps:
  "copied s n f 0 = s" "copied s n f (Suc k) = put (copied s n f k) n k (ent (copied s n f k) f k)"
  by (simp_all add: copied_def)

lemma copied_regs [simp]:
  "paging (copied s n f k) = paging s" "cr3 (copied s n f k) = cr3 s" "frames (copied s n f k) = frames s"
  by (induction k) (simp_all add: copied_simps)

lemma ent_copied:
  assumes "n < 1048576" "f < 1048576" "k \<le> 1024" "g < 1048576" "j < 1024"
  shows "ent (copied s n f k) g j = (if g = n \<and> j < k then ent s f j else ent s g j)"
  using assms(3-5)
proof (induction k arbitrary: g j)
  case (Suc k)
  then show ?case using assms(1,2) by (auto simp: copied_simps ent_put less_Suc_eq)
qed (simp add: copied_simps)

lemma walk_copied:
  assumes "walk s r d t = Some e" "n < 1048576" "f < 1048576" "k \<le> 1024" "r < 1048576" "d < 1024" "t < 1024"
    and "n \<noteq> r" "n \<noteq> fno (ent s r d)"
  shows "walk (copied s n f k) r d t = Some e"
  using assms by (simp add: walk_def ent_copied split: if_splits)

lemma aligned_tva:
  assumes "4096 dvd unat (va_usize v)"
  shows "v = tva (page_of v div 1024) (page_of v mod 1024)"
proof -
  have "4096 * (1024 * (page_of v div 1024) + page_of v mod 1024) = unat (va_usize v)"
    using assms by (simp add: page_of_def)
  then have "va_usize (tva (page_of v div 1024) (page_of v mod 1024)) = va_usize v" by (simp add: tva_def)
  then show ?thesis by (cases v) (simp add: tva_def)
qed

lemma translate_word:
  assumes "paging s" "walk s (root_of s) d t = Some e" "d < 1024" "t < 1024" "i < 1024"
  shows "translate s (cr3 s) (va_usize (tva d t) + 4 * of_nat i) = Some (of_nat (4096 * fno e + 4 * i))"
proof -
  have "(of_nat i AND 0x3ff :: usize) = of_nat i"
    using assms(5) by (simp add: word_unat_eq_iff word_nat unat_of_nat32)
  then show ?thesis using translate_table [OF assms] by simp
qed

lemma copy_words_spec:
  assumes pg: "paging s" and src: "walk s (root_of s) d t = Some e" "d < 1024" "t < 1024"
    and dst: "walk s (root_of s) d' t' = Some x" "d' < 1024" "t' < 1024"
    and n: "fno x \<noteq> root_of s" "fno x \<noteq> fno (ent s (root_of s) d)" "fno x \<noteq> fno (ent s (root_of s) d')"
  shows "copy_words 1024 (va_usize (tva d t)) (va_usize (tva d' t')) s = Done (copied s (fno x) (fno e) 1024)"
proof -
  have r: "root_of s < 1048576" using unat_lt32 [of "cr3 s"] by simp
  have "copy_words m (va_usize (tva d t) + 4 * of_nat i) (va_usize (tva d' t') + 4 * of_nat i) (copied s (fno x) (fno e) i)
      = Done (copied s (fno x) (fno e) 1024)" if "i + m = 1024" for i m
    using that
  proof (induction m arbitrary: i)
    case (Suc m)
    let ?s = "copied s (fno x) (fno e) i"
    have w: "walk ?s (root_of ?s) d t = Some e" "walk ?s (root_of ?s) d' t' = Some x"
      using walk_copied [OF src(1) _ _ _ r src(2,3) n(1,2), of "fno e" i]
        walk_copied [OF dst(1) _ _ _ r dst(2,3) n(1,3), of "fno e" i] Suc.prems by simp_all
    have i: "i < 1024" using Suc.prems by simp
    have "vread32 ?s (va_usize (tva d t) + 4 * of_nat i) = Done (ent ?s (fno e) i)"
      using translate_word [OF _ w(1) src(2,3) i] pg by (simp add: vread32_def ent_def ld_def)
    moreover have "vwrite32 (va_usize (tva d' t') + 4 * of_nat i) (ent ?s (fno e) i) ?s = Done (copied s (fno x) (fno e) (Suc i))"
      using translate_word [OF _ w(2) dst(2,3) i] pg by (simp add: vwrite32_def copied_simps put_def st_def)
    moreover have "va_usize (tva d t) + 4 * of_nat i + 4 = va_usize (tva d t) + 4 * of_nat (Suc i)"
      "va_usize (tva d' t') + 4 * of_nat i + 4 = va_usize (tva d' t') + 4 * of_nat (Suc i)" by simp_all
    ultimately show ?case using Suc.IH [of "Suc i"] Suc.prems by (simp only: copy_words.simps obind.simps)
  qed simp
  from this [of 0 1024] show ?thesis by (simp add: copied_simps)
qed

definition private_entry :: "page_table_entry \<times> page_table_entry \<Rightarrow> page_table_entry \<times> page_table_entry \<Rightarrow> bool" where
  "private_entry x y \<longleftrightarrow> fst y = fst x
     \<and> (if is_present (fst x) then is_present (snd y) \<and> is_write_access_granted (snd y) else snd y = snd x)"

text \<open>
  One page of \<^verbatim>\<open>copy_frames\<close>: the page of the other directory gets a frame that was free, with
  the words of the current page.
\<close>

lemma copy_frames_page_spec:
  assumes s: "fork_ok D s r a" and p: "page_of v \<in> fork_pages D" "is_present (raw s r (page_of v))"
    and al: "4096 dvd unat (va_usize v)"
  shows "copy_frames_page (PhysicalAddress (of_nat (4096 * a))) v s = Panic \<and> free_count (frames s) < 2
    \<or> (\<exists>s' n flags. copy_frames_page (PhysicalAddress (of_nat (4096 * a))) v s = Done s' \<and> fork_ok D s' r a
         \<and> free_count (frames s) \<le> free_count (frames s') + 2 \<and> REF_COUNT (frames s') = REF_COUNT (frames s)
         \<and> n < 1048576 \<and> \<not> phys_used (frames s) n \<and> phys_used (frames s') n
         \<and> pf_u8 flags = WRITE_ACCESS OR (if va_usize v < 0xc0000000 then USER_ACCESS else 0)
         \<and> raw s' a (page_of v) = new_entry (PhysicalAddress (of_nat (n * 4096))) flags (raw s a (page_of v))
         \<and> (fno (raw s r (page_of v)) \<noteq> temp_table s r \<longrightarrow> (\<forall>j < 1024. ent s' n j = ent s (fno (raw s r (page_of v))) j))
         \<and> (\<forall>q < 1023 * 1024. q \<noteq> temp_page \<longrightarrow> raw s' r q = raw s r q)
         \<and> (\<forall>q < 1023 * 1024. q \<noteq> page_of v \<longrightarrow> raw s' a q = raw s a q))"
proof -
  let ?p = "page_of v" let ?d = "page_of v div 1024" and ?t = "page_of v mod 1024"
  let ?e = "raw s r ?p" and ?tt = "temp_table s r" and ?dir = "PhysicalAddress (of_nat (4096 * a))"
  have d: "?d \<in> D" "?p < 1023 * 1024" "?d < 1023" "?p \<noteq> temp_page"
    using p(1) by (simp_all add: fork_pages_def dir_pages_def less_mult_imp_div_less)
  have ok: "alt_ok D s r a" "tree_ok D s r" "current_ok s r" using s by (simp_all add: fork_ok_def alt_ok_def)
  note k = alt_ok_facts [OF ok(1)]
  have ce: "current_entry v s = Done (Some ?e)" using current_entry_spec [OF ok(3,2) d(2)] p(2) by simp
  from take_frame_spec [OF k(3)] show ?thesis
  proof (elim disjE exE conjE)
    assume "take_frame s = Panic" "free_count (frames s) = 0"
    then show ?thesis using ce by (simp add: copy_frames_page_def)
  next
    fix n ph
    define w :: usize where "w = of_nat (n * 4096)"
    assume "take_frame s = Done (Frame (of_nat (n * 4096)), s\<lparr>frames := ph\<rparr>)" "phys_wf ph" "n < 1048576"
      "\<not> phys_used (frames s) n" "\<forall>j. phys_used ph j = (phys_used (frames s) j \<or> j = n)"
      "free_count (frames s) \<le> free_count ph + 1" "REF_COUNT ph = REF_COUNT (frames s)"
    note n = this [folded w_def]
    have w: "unat w = 4096 * n" using n(3) unat_of_nat32 [of "n * 4096"] by (simp add: w_def mult.commute)
    define s1 where "s1 = s\<lparr>frames := ph\<rparr>"
    have e1: "ent s1 g j = ent s g j" for g j by (simp add: s1_def ent_def)
    have ok1: "fork_ok D s1 r a" and raw1: "raw s1 g q = raw s g q" for g q
      using fork_ok_frames [OF s n(2)] n(5) by (simp_all add: s1_def)
    have fresh: "n \<notin> {r, a} \<union> tables s r \<union> tables s a"
      using n(4) ok by (auto simp: alt_ok_def tree_ok_def)
    have alt1: "alt_ok D s1 r a" using ok1 by (simp add: fork_ok_def)
    obtain x where x: "map_frame_to_temporary_page (Frame w) s1 = Done (put s1 ?tt 1023 x)" "is_present x" "fno x = n"
      using map_temp_spec [OF alt_temp_ok [OF alt1] w n(3)] by (auto simp: e1)
    define s2 where "s2 = put s1 ?tt 1023 x"
    have tt1: "temp_table s1 r = ?tt" by (simp add: e1)
    note tp = temp_put [OF alt1, where x = x, unfolded tt1, folded s2_def]
    have ok2: "fork_ok D s2 r a"
      unfolding fork_ok_def using tp(1,4) ok1 by (auto simp: fork_ok_def s2_def intro: tree_ok_cong)
    note k2 = alt_ok_facts [OF tp(1)]
    have wt: "walk s2 r 1022 1023 = Some x" using temp_walk [OF alt_temp_ok [OF alt1] x(2)] tt1 by (simp add: s2_def)
    have raw2: "raw s2 r ?p = ?e" using tp(3) [OF d(2,4)] raw1 by simp
    have wp: "walk s2 r ?d ?t = Some ?e" using walk_raw [of s2 r ?p] raw2 p(2) by simp
    have tt2: "temp_table s2 r = ?tt" using tp(4) [of 1022] e1 by simp
    have fd: "fno (ent s2 r ?d) \<in> tables s r"
      using tp(4) [of ?d] d(3) p(2) e1 by (auto simp: tables_def raw_def split: if_splits)
    have page: "v = tva ?d ?t" by (rule aligned_tva [OF al])
    define s3 where "s3 = copied s2 n (fno ?e) 1024"
    have nn: "n \<noteq> r" "n \<noteq> ?tt" "n \<noteq> fno (ent s2 r ?d)" using fresh fd k(8) by auto
    have "copy_words 1024 (va_usize (tva ?d ?t)) (va_usize (tva 1022 1023)) s2 = Done s3"
      using copy_words_spec [of s2 ?d ?t ?e 1022 1023 x] k2(1,2) wt wp x(3) nn tt2 d(3) by (simp add: s3_def)
    then have cw: "copy_words 1024 (va_usize v) (va_usize get_temporary_page_address) s2 = Done s3"
      unfolding page [symmetric] tva_consts .
    have e3: "ent s3 g j = (if g = n then ent s2 (fno ?e) j else ent s2 g j)" if "g < 1048576" "j < 1024" for g j
      using that n(3) by (simp add: s3_def ent_copied)
    have tabs2: "tables s2 r = tables s r" "tables s2 a = tables s a"
      using tp(4) e1 k k2 by (auto intro!: tables_cong simp: s2_def ent_put)
    have small: "g < 1048576" if "g \<in> {r, a} \<union> tables s r \<union> tables s a" for g
      using that k(4,5) by (auto simp: tables_def)
    have keep: "ent s3 g j = ent s2 g j" if "g \<in> {r, a} \<union> tables s2 r \<union> tables s2 a" "j < 1024" for g j
      using e3 [OF small that(2)] that(1) fresh unfolding tabs2 by metis
    have regs3: "paging s3 = paging s2" "cr3 s3 = cr3 s2" "phys_wf (frames s3)" "frames s3 = frames s2"
      using k2(3) by (simp_all add: s3_def)
    have ok3: "fork_ok D s3 r a"
      by (rule fork_ok_cong(1) [OF ok2 regs3(1-3)]) (simp_all add: keep regs3)
    have raw3: "raw s3 r q = raw s2 r q \<and> raw s3 a q = raw s2 a q" if "q < 1023 * 1024" for q
      by (rule fork_ok_cong(2) [OF ok2 regs3(1-3) _ _ that]) (simp_all add: keep regs3)
    define flags where "flags = PermissionFlags (WRITE_ACCESS OR (if va_usize v < 0xc0000000 then USER_ACCESS else 0))"
    have run: "copy_frames_page ?dir v s = alternate_map ?dir (Frame w) v flags s3"
      unfolding copy_frames_page_def Let_def using ce n(1) x(1) cw by (simp add: s1_def s2_def flags_def)
    have dir: "unat (of_nat (4096 * a) :: usize) = 4096 * a" using k(5) by (intro unat_of_nat32) simp
    have alt3: "alt_ok D s3 r a" "tree_ok D s3 r" using ok3 by (simp_all add: fork_ok_def)
    from alternate_map_spec [OF alt3(1) d(1) dir, of w flags] show ?thesis
    proof (elim disjE exE conjE)
      assume "alternate_map ?dir (Frame w) v flags s3 = Panic" "free_count (frames s3) = 0"
      then show ?thesis using run n(6) by (simp add: s3_def s2_def s1_def)
    next
      fix s'
      assume s': "alternate_map ?dir (Frame w) v flags s3 = Done s'"
        "alt_set D ?p (new_entry (PhysicalAddress w) flags (raw s3 a ?p)) r a s3 s'"
      note as = s'(2) [unfolded alt_set_def]
      have fr3: "frames s3 = ph" by (simp add: s3_def s2_def s1_def)
      have used3: "phys_used (frames s3) n" using fr3 n(5) by simp
      have "tables s3 a = tables s a"
        using e3 [of a] fresh k(5) unfolding tabs2(2) [symmetric] by (intro tables_cong) auto
      then have nt: "n \<notin> tables s' a" using as used3 fresh by auto
      have tt3: "temp_table s3 r = ?tt" using e3 [of r 1022] k(4) fresh tt2 by auto
      have data: "ent s' n j = ent s (fno ?e) j" if "j < 1024" "fno ?e \<noteq> ?tt" for j
      proof -
        have "ent s' n j = ent s3 n j" using as nt fresh n(3) that(1) k(8) tt3 by auto
        also have "\<dots> = ent s2 (fno ?e) j" using e3 [OF n(3) that(1)] by simp
        also have "\<dots> = ent s (fno ?e) j" using that by (simp add: s2_def ent_put e1)
        finally show ?thesis .
      qed
      have cur: "raw s' r q = raw s r q" if "q < 1023 * 1024" "q \<noteq> temp_page" for q
        using as raw3 [OF that(1)] tp(3) [OF that] raw1 that by simp
      have alt: "raw s' a q = (if q = ?p then new_entry (PhysicalAddress w) flags (raw s a ?p) else raw s a q)"
        if "q < 1023 * 1024" for q
        using as raw3 [OF that] raw3 [OF d(2)] tp(2) [OF that] tp(2) [OF d(2)] raw1 that by simp
      have fl: "pf_u8 flags = WRITE_ACCESS OR (if va_usize v < 0xc0000000 then USER_ACCESS else 0)"
        by (simp add: flags_def)
      have "phys_used (frames s') n" using as used3 by blast
      moreover have "free_count (frames s) \<le> free_count (frames s') + 2" "REF_COUNT (frames s') = REF_COUNT (frames s)"
        using as n(6,7) fr3 by simp_all
      ultimately show ?thesis
        using run s'(1) alt_set_fork [OF s'(2) alt3(2)] n(3,4) data cur alt [OF d(2)] alt fl unfolding w_def
        by (intro disjI2 exI [of _ s'] exI [of _ n] exI [of _ flags]) simp
    qed
  qed
qed

interpretation cpf: page_step "\<lambda>s. fork_inv D s r a" "\<lambda>s q. (raw s r q, raw s a q)"
  "copy_frames_page (PhysicalAddress (of_nat (4096 * a)))" private_entry "fork_pages D" "\<lambda>s. free_count (frames s)" 2 for D r a
proof
  fix s v assume s: "fork_inv D s r a" "page_of v \<in> fork_pages D" "4096 dvd unat (va_usize v)"
  let ?p = "page_of v" let ?e = "raw s r (page_of v)" let ?dir = "PhysicalAddress (of_nat (4096 * a))"
  have ok: "tree_ok D s r" "current_ok s r" "fork_ok D s r a"
    using s(1) by (simp_all add: fork_inv_def fork_ok_def alt_ok_def)
  have p: "?p < 1023 * 1024" "?p \<noteq> temp_page" using s(2) by (simp_all add: fork_pages_def dir_pages_def)
  show "copy_frames_page ?dir v s = Panic \<and> free_count (frames s) < 2
    \<or> (\<exists>s'. copy_frames_page ?dir v s = Done s' \<and> fork_inv D s' r a \<and> free_count (frames s) \<le> free_count (frames s') + 2
        \<and> private_entry (raw s r ?p, raw s a ?p) (raw s' r ?p, raw s' a ?p)
        \<and> (\<forall>q \<in> fork_pages D. q \<noteq> ?p \<longrightarrow> (raw s' r q, raw s' a q) = (raw s r q, raw s a q)))"
  proof (cases "is_present ?e")
    case False
    then have "copy_frames_page ?dir v s = Done s"
      using current_entry_spec [OF ok(2,1) p(1)] by (simp add: copy_frames_page_def)
    then show ?thesis using s(1) False by (simp add: private_entry_def)
  next
    case True
    from copy_frames_page_spec [OF ok(3) s(2) True s(3)] show ?thesis
    proof (elim disjE exE conjE)
      fix s' n flags
      assume fc: "free_count (frames s) \<le> free_count (frames s') + 2" "REF_COUNT (frames s') = REF_COUNT (frames s)"
        and s': "copy_frames_page ?dir v s = Done s'" "fork_ok D s' r a"
        "pf_u8 flags = WRITE_ACCESS OR (if va_usize v < 0xc0000000 then USER_ACCESS else 0)"
        "raw s' a ?p = new_entry (PhysicalAddress (of_nat (n * 4096))) flags (raw s a ?p)"
        "\<forall>q < 1023 * 1024. q \<noteq> temp_page \<longrightarrow> raw s' r q = raw s r q"
        "\<forall>q < 1023 * 1024. q \<noteq> ?p \<longrightarrow> raw s' a q = raw s a q"
      have "pf_u8 flags AND WRITE_ACCESS \<noteq> 0" unfolding s'(3) by (simp add: WRITE_ACCESS_def USER_ACCESS_def)
      then have "private_entry (raw s r ?p, raw s a ?p) (raw s' r ?p, raw s' a ?p)"
        using s'(4,5) p True by (simp add: private_entry_def new_entry_props)
      moreover have "\<forall>q \<in> fork_pages D. q \<noteq> ?p \<longrightarrow> (raw s' r q, raw s' a q) = (raw s r q, raw s a q)"
        using s'(5,6) by (simp add: fork_pages_def dir_pages_def)
      moreover have "rc_ok D s' r"
        by (rule rc_ok_cong [of D s]) (use s(1) fc(2) s'(5) in \<open>simp_all add: fork_inv_def\<close>)
      ultimately show ?thesis using s'(1,2) fc(1) by (simp add: fork_inv_def)
    qed simp
  qed
qed

end
