(* ===== verification/BootPaging.thy ===== *)
theory BootPaging
  imports AddressSpaces
begin

text \<open>
  The boot directory: what \<^verbatim>\<open>create_initial_pagedir\<close> builds with paging disabled satisfies the
  invariant of the page directory operations once it is made active, with every page unmapped.
\<close>

lemma phys_entry_addr:
  assumes "unat w = 4096 * f" "i < 1024"
  shows "va_usize (VirtualAddress w) + 4 * (of_nat i AND 0x3ff) = of_nat (4096 * f + 4 * i)"
proof -
  have "(of_nat i AND 0x3ff :: usize) = of_nat i"
    using assms(2) by (simp add: word_unat_eq_iff word_nat unat_of_nat32)
  moreover have "w = of_nat (4096 * f)" unfolding assms(1) [symmetric] by simp
  ultimately show ?thesis by simp
qed

lemma table_get_mut_phys:
  assumes "unat w = 4096 * f" "\<not> paging s" "i < 1024"
  shows "table_get_mut (VirtualAddress w) (of_nat i) op s = Done (put s f i (op (ent s f i)))"
  unfolding table_get_mut_def Let_def phys_entry_addr [OF assms(1,3)] vread32_def vwrite32_def
  using assms(2) by (simp add: translate_def put_def ent_def ld_def st_def)

lemma ent_zero_memory:
  assumes "unat w = 4096 * f" "f < 1048576" "g < 1048576" "j < 1024"
  shows "ent (s\<lparr>ram := frame_zero_memory (Frame w) (ram s)\<rparr>) g j = (if g = f then 0 else ent s g j)"
proof -
  let ?a = "of_nat (4096 * f) :: usize"
  have w: "w = ?a" unfolding assms(1) [symmetric] by simp
  have sp: "(of_nat (4096 * g + 4 * j) + of_nat i \<in> span ?a 4096) = (g = f)" if "i < 4" for i
  proof
    assume "of_nat (4096 * g + 4 * j) + of_nat i \<in> span ?a 4096"
    then obtain k where k: "k < 4096" "of_nat (4096 * g + 4 * j) + of_nat i = ?a + of_nat k"
      by (auto simp: span_def)
    have "unat (of_nat (4096 * g + 4 * j + i) :: usize) = 4096 * g + 4 * j + i"
      "unat (of_nat (4096 * f + k) :: usize) = 4096 * f + k"
      using assms that k(1) by (intro unat_of_nat32; simp)+
    moreover have "(of_nat (4096 * g + 4 * j + i) :: usize) = of_nat (4096 * f + k)" using k(2) by (simp add: add.assoc)
    ultimately have eq: "4096 * g + 4 * j + i = 4096 * f + k" by simp
    have "(4096 * g + (4 * j + i)) div 4096 = g" "(4096 * f + k) div 4096 = f"
      using assms(4) that k(1) by simp_all
    then show "g = f" using eq by (simp add: add.assoc)
  next
    assume "g = f"
    then have "of_nat (4096 * g + 4 * j) + of_nat i = ?a + of_nat (4 * j + i)" by simp
    then show "of_nat (4096 * g + 4 * j) + of_nat i \<in> span ?a 4096"
      unfolding span_def using assms(4) that by (intro image_eqI [of _ _ "4 * j + i"]) simp_all
  qed
  have z: "frame_zero_memory (Frame ?a) (ram s) (of_nat (4096 * g + 4 * j) + of_nat i)
      = (if g = f then 0 else ram s (of_nat (4096 * g + 4 * j) + of_nat i))" if "i < 4" for i
    using sp [OF that] by (simp add: frame_zero_memory_def zero_words_spec)
  show ?thesis
    unfolding ent_def ld_def load32_def w
    using z [of 0] z [of 1] z [of 2] z [of 3] by simp
qed

definition activate :: "page_table_reference \<Rightarrow> machine \<Rightarrow> machine" where
  "activate ref s = enable_paging (make_active ref s)"

lemma boot_spec:
  assumes off: "\<not> paging s" and wf: "phys_wf (frames s)"
  shows "create_initial_pagedir s = Panic \<and> free_count (frames s) < 2
    \<or> (\<exists>n1 n2 ref s'. create_initial_pagedir s = Done (ref, s') \<and> n1 \<noteq> n2
         \<and> \<not> phys_used (frames s) n1 \<and> \<not> phys_used (frames s) n2
         \<and> (\<forall>k. phys_used (frames s') k = (phys_used (frames s) k \<or> k = n1 \<or> k = n2))
         \<and> free_count (frames s) \<le> free_count (frames s') + 2 \<and> REF_COUNT (frames s') = REF_COUNT (frames s)
         \<and> pd_ok {..< 1023} (activate ref s') n1
         \<and> is_present (ent (activate ref s') n1 1022)
         \<and> (\<forall>q < 1023 * 1024. raw (activate ref s') n1 q = 0)
         \<and> phys_total (frames s') = phys_total (frames s))"
proof -
  from take_frame_spec [OF wf] show ?thesis
  proof (elim disjE exE conjE)
    assume "take_frame s = Panic" "free_count (frames s) = 0"
    then show ?thesis by (simp add: create_initial_pagedir_def)
  next
    fix n1 p1
    define w1 :: usize where "w1 = of_nat (n1 * 4096)"
    assume "take_frame s = Done (Frame (of_nat (n1 * 4096)), s\<lparr>frames := p1\<rparr>)" "phys_wf p1" "n1 < 1048576"
      "REF_COUNT p1 = REF_COUNT (frames s)" "\<not> phys_used (frames s) n1"
      "\<forall>j. phys_used p1 j = (phys_used (frames s) j \<or> j = n1)" "free_count (frames s) \<le> free_count p1 + 1"
      "phys_total p1 = phys_total (frames s)"
    note n1 = this [folded w1_def]
    have w1: "unat w1 = 4096 * n1" using n1(3) unat_of_nat32 [of "n1 * 4096"] by (simp add: w1_def mult.commute)
    define s1 where "s1 = s\<lparr>frames := p1, ram := frame_zero_memory (Frame w1) (ram s)\<rparr>"
    have fr1: "frames s1 = p1" "\<not> paging s1" using off by (simp_all add: s1_def)
    have e1: "ent s1 n1 j = 0" if "j < 1024" for j
      using ent_zero_memory [OF w1 n1(3,3) that, of "s\<lparr>frames := p1\<rparr>"] by (simp add: s1_def)
    have "phys_wf (frames s1)" using n1(2) fr1 by simp
    from take_frame_spec [OF this] show ?thesis
    proof (elim disjE exE conjE)
      assume "take_frame s1 = Panic" "free_count (frames s1) = 0"
      then show ?thesis using n1(1,7) by (simp add: create_initial_pagedir_def Let_def s1_def)
    next
      fix n2 p2
      define w2 :: usize where "w2 = of_nat (n2 * 4096)"
      assume "take_frame s1 = Done (Frame (of_nat (n2 * 4096)), s1\<lparr>frames := p2\<rparr>)" "phys_wf p2" "n2 < 1048576"
        "REF_COUNT p2 = REF_COUNT (frames s1)" "\<not> phys_used (frames s1) n2"
        "\<forall>j. phys_used p2 j = (phys_used (frames s1) j \<or> j = n2)" "free_count (frames s1) \<le> free_count p2 + 1"
        "phys_total p2 = phys_total (frames s1)"
      note n2 = this [folded w2_def]
      have w2: "unat w2 = 4096 * n2" using n2(3) unat_of_nat32 [of "n2 * 4096"] by (simp add: w2_def mult.commute)
      have ne: "n1 \<noteq> n2" using n2(5) n1(6) fr1 by auto
      define s2 where "s2 = s1\<lparr>frames := p2, ram := frame_zero_memory (Frame w2) (ram s1)\<rparr>"
      have fr2: "frames s2 = p2" "\<not> paging s2" using fr1 by (simp_all add: s2_def)
      have e2: "ent s2 g j = (if g = n2 then 0 else ent s1 g j)" if "g < 1048576" "j < 1024" for g j
        using ent_zero_memory [OF w2 n2(3) that, of "s1\<lparr>frames := p2\<rparr>"] by (simp add: s2_def ent_def)
      define x where "x = set_present (pte_set_address (PhysicalAddress w2) 0)"
      define y where "y = set_present (pte_set_address (PhysicalAddress w1) 0)"
      have x: "is_present x" "fno x = n2" and y: "is_present y" "fno y = n1"
        by (simp_all add: x_def y_def is_present_bit bit_entry_ops w1 w2)
      have z: "ent s2 n1 j = 0" if "j < 1024" for j using e2 [OF n1(3) that] e1 [OF that] ne by simp
      define s3 where "s3 = put (put s2 n1 1022 x) n1 1023 y"
      note m = table_get_mut_phys [OF w1, of _ 1022] table_get_mut_phys [OF w1, of _ 1023]
      have run: "create_initial_pagedir s = Done (ptr_new (PhysicalAddress w1), s3)"
        unfolding create_initial_pagedir_def Let_def using n1(1,3) n2(1) fr2 z m
        by (simp add: s1_def [symmetric] s2_def [symmetric] ent_put x_def [symmetric] y_def [symmetric] s3_def)
      define s4 where "s4 = activate (ptr_new (PhysicalAddress w1)) s3"
      have s4: "paging s4" "cr3 s4 = w1" "frames s4 = p2"
        using fr2 by (simp_all add: s4_def s3_def activate_def enable_paging_def make_active_def
            set_current_pagedir_def ptr_new_def)
      have "ent s4 g j = ent s3 g j" for g j
        by (simp add: s4_def activate_def enable_paging_def make_active_def set_current_pagedir_def ent_def)
      then have e4: "ent s4 n1 j = (if j = 1023 then y else if j = 1022 then x else 0)"
        and e5: "ent s4 n2 j = 0" if "j < 1024" for j
        using that z [OF that] e2 [OF n2(3) that] n1(3) n2(3) ne by (simp_all add: s3_def ent_put)
      have tab: "tables s4 n1 = {n2}"
      proof
        show "tables s4 n1 \<subseteq> {n2}" using e4 x(2) by (auto simp: tables_def split: if_splits)
        have "n2 = fno (ent s4 n1 1022) \<and> (1022 :: nat) < 1023 \<and> is_present (ent s4 n1 1022)" using e4 [of 1022] x by simp
        then show "{n2} \<subseteq> tables s4 n1" unfolding tables_def by blast
      qed
      have used: "phys_used p2 k = (phys_used (frames s) k \<or> k = n1 \<or> k = n2)" for k
        using n1(6) n2(6) fr1 by auto
      have "current_ok s4 n1"
        using s4 w1 n2(2) e4 [of 1023] y by (simp add: current_ok_def)
      moreover have "tree_ok {..< 1023} s4 n1"
        unfolding tree_ok_def tab using n1(3) ne s4(3) used e4 by (auto split: if_splits)
      ultimately have "pd_ok {..< 1023} s4 n1" by (simp add: pd_ok_def)
      moreover have "raw s4 n1 q = 0" if "q < 1023 * 1024" for q
      proof -
        have "q div 1024 < 1023" using that by (simp add: less_mult_imp_div_less)
        then show ?thesis using e4 [of "q div 1024"] e5 [of "q mod 1024"] x by (simp add: raw_def)
      qed
      moreover have "is_present (ent s4 n1 1022)" using e4 [of 1022] x by simp
      moreover have "frames s3 = p2" using fr2 by (simp add: s3_def)
      moreover have "\<not> phys_used (frames s) n2" using n2(5) n1(6) fr1 by simp
      ultimately show ?thesis
        using run ne n1(4,5,7,8) n2(4,7,8) fr1 used
        by (intro disjI2 exI [of _ n1] exI [of _ n2] exI [of _ "ptr_new (PhysicalAddress w1)"] exI [of _ s3])
          (simp add: s4_def)
    qed
  qed
qed

end
