(* ===== verification/ForkMemory.thy ===== *)
theory ForkMemory
  imports BootPaging
begin

text \<open>
  Address spaces of processes: \<^verbatim>\<open>fork_page_directory\<close> and \<^verbatim>\<open>unmap_all\<close> of
  \<^verbatim>\<open>process/memory.rs\<close>, which combine the process's regions with the page tables.
\<close>

section \<open>Model\<close>

definition new_page_directory :: "machine \<Rightarrow> (frame \<times> machine) outcome" where
  "new_page_directory s =
     (let temp_page_address = get_temporary_page_address
      in obind (take_frame s) (\<lambda>(top_page, s).
         obind (map_frame_to_temporary_page top_page s) (\<lambda>s.
         obind (table_zero temp_page_address s) (\<lambda>s.
         obind (take_frame s) (\<lambda>(directory_frame, s).
         obind (map_frame_to_temporary_page directory_frame s) (\<lambda>s.
         obind (table_zero temp_page_address s) (\<lambda>s.
         obind (table_get_mut temp_page_address 1023 (pte_set_address (get_address directory_frame)) s) (\<lambda>s.
         obind (table_get_mut temp_page_address 1023 set_present s) (\<lambda>s.
         obind (table_get_mut temp_page_address 1022 (pte_set_address (get_address top_page)) s) (\<lambda>s.
         obind (table_get_mut temp_page_address 1022 set_present s) (\<lambda>s.
           Done (directory_frame, s))))))))))))"

definition forked_regions :: "memory_regions \<Rightarrow> kernel_regions \<Rightarrow> region list" where
  "forked_regions rs k =
     [KERNEL_HEAP k, kernel_stack_region rs, kernel_exec_region rs, stack_region rs, heap_region rs]
     @ execution_regions rs"

definition fork_page_directory ::
  "memory_regions \<Rightarrow> kernel_regions \<Rightarrow> machine \<Rightarrow> (page_table_reference \<times> machine) outcome" where
  "fork_page_directory rs k s =
     obind (new_page_directory s) (\<lambda>(directory_frame, s).
     obind (ofold (map_region (get_address directory_frame)) (forked_regions rs k) s) (\<lambda>s.
       Done (ptr_new (get_address directory_frame), s)))"

text \<open>\<^verbatim>\<open>unmap_all\<close> pops the execution regions from the end of the vector.\<close>

fun unmap_popped :: "region list \<Rightarrow> machine \<Rightarrow> machine outcome" where
  "unmap_popped [] s = Done s"
| "unmap_popped (g # gs) s = obind (unmap_region g s) (unmap_popped gs)"

definition unmap_all :: "process_memory \<Rightarrow> machine \<Rightarrow> (process_memory \<times> machine) outcome" where
  "unmap_all pm s =
     obind (unmap_popped (rev (execution_regions (pm_regions pm))) s) (\<lambda>s.
       Done (pm\<lparr>pm_regions := (pm_regions pm)\<lparr>execution_regions := []\<rparr>\<rparr>, s))"

section \<open>A new directory\<close>

text \<open>Taking a frame, showing it at the temporary page and clearing it.\<close>

definition shown :: "machine \<Rightarrow> nat \<Rightarrow> nat \<Rightarrow> machine \<Rightarrow> bool" where
  "shown s r n s' \<longleftrightarrow> temp_ok s' r \<and> paging s' = paging s \<and> cr3 s' = cr3 s \<and> n < 1048576 \<and> n \<noteq> r \<and> n \<noteq> temp_table s r \<and> \<not> phys_used (frames s) n
     \<and> (\<exists>x. is_present x \<and> fno x = n \<and> walk s' r 1022 1023 = Some x
          \<and> (\<forall>g < 1048576. \<forall>j < 1024. ent s' g j =
              (if g = n then 0 else if g = temp_table s r \<and> j = 1023 then x else ent s g j)))
     \<and> phys_wf (frames s') \<and> (\<forall>j. phys_used (frames s') j = (phys_used (frames s) j \<or> j = n))
     \<and> free_count (frames s) \<le> free_count (frames s') + 1 \<and> REF_COUNT (frames s') = REF_COUNT (frames s)"

lemma show_fresh_frame:
  assumes tok: "temp_ok s r" and wf: "phys_wf (frames s)"
    and used: "phys_used (frames s) r" "phys_used (frames s) (temp_table s r)"
  shows "(\<forall>F. obind (take_frame s) (\<lambda>(f, s). obind (map_frame_to_temporary_page f s) (\<lambda>s.
        obind (table_zero get_temporary_page_address s) (F f))) = (Panic :: 'b outcome)) \<and> free_count (frames s) = 0
    \<or> (\<exists>n s'. shown s r n s' \<and> (\<forall>F. obind (take_frame s) (\<lambda>(f, s). obind (map_frame_to_temporary_page f s) (\<lambda>s.
        obind (table_zero get_temporary_page_address s) (F f))) = (F (Frame (of_nat (n * 4096))) s' :: 'b outcome)))"
proof -
  let ?tt = "temp_table s r"
  note t = tok [unfolded temp_ok_def]
  from take_frame_spec [OF wf] show ?thesis
  proof (elim disjE exE conjE)
    fix n p1
    define w1 :: usize where "w1 = of_nat (n * 4096)"
    assume "take_frame s = Done (Frame (of_nat (n * 4096)), s\<lparr>frames := p1\<rparr>)" "phys_wf p1" "n < 1048576"
      "\<not> phys_used (frames s) n" "\<forall>j. phys_used p1 j = (phys_used (frames s) j \<or> j = n)"
      "free_count (frames s) \<le> free_count p1 + 1" "REF_COUNT p1 = REF_COUNT (frames s)"
    note n = this [folded w1_def]
    have w1: "unat w1 = 4096 * n" using n(3) unat_of_nat32 [of "n * 4096"] by (simp add: w1_def mult.commute)
    have nf: "n \<noteq> r" "n \<noteq> ?tt" using n(4) used by auto
    define s1 where "s1 = s\<lparr>frames := p1\<rparr>"
    have e1: "ent s1 g j = ent s g j" for g j by (simp add: s1_def ent_def)
    have tok1: "temp_ok s1 r" by (rule temp_ok_cong [OF tok]) (simp_all add: e1, simp_all add: s1_def)
    obtain x1 where x1: "map_frame_to_temporary_page (Frame w1) s1 = Done (put s1 ?tt 1023 x1)" "is_present x1" "fno x1 = n"
      using map_temp_spec [OF tok1 w1 n(3)] by (auto simp: e1)
    define s2 where "s2 = put s1 ?tt 1023 x1"
    have tok2: "temp_ok s2 r" using temp_ok_put [OF tok1] by (simp add: s2_def e1)
    note t2 = tok2 [unfolded temp_ok_def]
    have e2: "ent s2 g j = (if g = ?tt \<and> j = 1023 then x1 else ent s g j)" if "g < 1048576" "j < 1024" for g j
      using that by (simp add: s2_def ent_put e1)
    have w2: "walk s2 r 1022 1023 = Some x1" using temp_walk [OF tok1 x1(2)] by (simp add: s2_def e1)
    define s3 where "s3 = zeroed s2 n 1024"
    have z3: "table_zero (tva 1022 1023) s2 = Done s3"
      using table_zero_spec [of s2 1022 1023 x1] t2 w2 x1(3) nf e2 [of r 1022] t by (simp add: s3_def)
    have e3: "ent s3 g j = (if g = n then 0 else if g = ?tt \<and> j = 1023 then x1 else ent s g j)"
      if "g < 1048576" "j < 1024" for g j
      using that n(3) e2 [OF that] by (simp add: s3_def ent_zeroed)
    have "temp_ok s3 r"
      by (rule temp_ok_cong [OF tok2]) (use e3 e2 t nf(1) in \<open>auto simp: s3_def\<close>)
    moreover have "walk s3 r 1022 1023 = Some x1"
      unfolding walk_def using e3 [of r 1022] e3 [of ?tt 1023] t nf x1(2) by simp
    moreover have "frames s3 = p1" "paging s3 = paging s" "cr3 s3 = cr3 s" by (simp_all add: s3_def s2_def s1_def)
    ultimately have "shown s r n s3"
      unfolding shown_def using n(2-7) nf x1(2,3) e3 by (intro conjI exI [of _ x1]) simp_all
    moreover have "obind (take_frame s) (\<lambda>(f, s). obind (map_frame_to_temporary_page f s) (\<lambda>s.
        obind (table_zero get_temporary_page_address s) (F f))) = F (Frame w1) s3" for F :: "frame \<Rightarrow> machine \<Rightarrow> 'b outcome"
      unfolding tva_consts using n(1) x1(1) z3 by (simp add: s1_def s2_def)
    ultimately show ?thesis unfolding w1_def by blast
  qed simp
qed

text \<open>Writing the last two entries of the directory at the temporary page.\<close>

lemma finish_directory:
  assumes tok: "temp_ok s r" and w: "walk s r 1022 1023 = Some x" and a: "fno x = a" "a \<noteq> r" "a \<noteq> temp_table s r"
    and z: "\<And>j. j < 1024 \<Longrightarrow> ent s a j = 0"
  shows "obind (table_get_mut get_temporary_page_address 1023 (pte_set_address pa) s) (\<lambda>s.
      obind (table_get_mut get_temporary_page_address 1023 set_present s) (\<lambda>s.
      obind (table_get_mut get_temporary_page_address 1022 (pte_set_address pb) s) (\<lambda>s.
      obind (table_get_mut get_temporary_page_address 1022 set_present s) (\<lambda>s. Done (f, s)))))
    = Done (f, put (put s a 1023 (set_present (pte_set_address pa 0))) a 1022 (set_present (pte_set_address pb 0)))"
proof -
  note t = tok [unfolded temp_ok_def]
  have am: "a < 1048576" using a(1) by auto
  have gm: "table_get_mut (tva 1022 1023) (of_nat m) g s' = Done (put s' a m (g (ent s' a m)))"
    if "walk s' r 1022 1023 = Some x" "paging s'" "cr3 s' = cr3 s" "m < 1024" for s' m g
    using table_get_mut_spec [of s' 1022 1023 x m g] that t a(1) by simp
  have wp: "walk (put s' a i u) r 1022 1023 = Some x" if "walk s' r 1022 1023 = Some x" "ent s' r 1022 = ent s r 1022" "i < 1024"
    for s' i u
    using walk_put [of a i r 1022 1023 s' u] that am t a(2,3) by simp
  have e: "ent (put s' a i u) r 1022 = ent s' r 1022" if "i < 1024" for s' i u using that am t a(2) by (simp add: ent_put)
  let ?s1 = "\<lambda>u. put s a 1023 u" and ?s2 = "\<lambda>u v. put (put s a 1023 u) a 1022 v"
  have w1: "walk (?s1 u) r 1022 1023 = Some x" for u by (rule wp [OF w]) simp_all
  have w2: "walk (?s2 u v) r 1022 1023 = Some x" for u v by (rule wp [OF w1]) (simp_all add: e)
  have "table_get_mut (tva 1022 1023) 1023 g s = Done (?s1 (g 0))" for g
    using gm [OF w, of 1023 g] t z [of 1023] by simp
  moreover have "table_get_mut (tva 1022 1023) 1023 g (?s1 u) = Done (?s1 (g u))" for g u
    using gm [OF w1, of u 1023 g] t am by (simp add: ent_put)
  moreover have "table_get_mut (tva 1022 1023) 1022 g (?s1 u) = Done (?s2 u (g 0))" for g u
    using gm [OF w1, of u 1022 g] t am z [of 1022] by (simp add: ent_put)
  moreover have "table_get_mut (tva 1022 1023) 1022 g (?s2 u v) = Done (?s2 u (g v))" for g u v
    using gm [OF w2, of u v 1022 g] t am by (simp add: ent_put)
  ultimately show ?thesis unfolding tva_consts by simp
qed

lemma fork_ok_new:
  assumes ok: "pd_ok D s r" and d: "1022 \<in> D" "is_present (ent s r 1022)"
    and fresh: "n < 1048576" "a < 1048576" "n \<noteq> a" "\<not> phys_used (frames s) n" "\<not> phys_used (frames s) a"
    and regs: "paging s' = paging s" "cr3 s' = cr3 s" "phys_wf (frames s')"
      "\<And>k. phys_used (frames s') k = (phys_used (frames s) k \<or> k = n \<or> k = a)"
    and xy: "is_present x" "fno x = n"
    and ent: "\<And>g j. g < 1048576 \<Longrightarrow> j < 1024 \<Longrightarrow> ent s' g j =
      (if g = a then if j = 1023 then y else if j = 1022 then x else 0
       else if g = n then 0 else if g = temp_table s r \<and> j = 1023 then u else ent s g j)"
  shows "fork_ok D s' r a" "q < 1023 * 1024 \<Longrightarrow> raw s' a q = 0"
    "q < 1023 * 1024 \<Longrightarrow> q \<noteq> temp_page \<Longrightarrow> raw s' r q = raw s r q"
proof -
  let ?tt = "temp_table s r"
  have c: "current_ok s r" "tree_ok D s r" using ok by (simp_all add: pd_ok_def)
  have tt: "?tt \<in> tables s r" using d(2) by (auto simp: tables_def)
  have used: "phys_used (frames s) g" if "g = r \<or> g \<in> tables s r" for g using c(2) that by (auto simp: tree_ok_def)
  have r: "r < 1048576" "?tt \<noteq> r" using c(2) tt by (auto simp: tree_ok_def)
  have nr: "r \<noteq> n" "r \<noteq> a" "n \<notin> tables s r" "a \<notin> tables s r" using used fresh by auto
  have er: "ent s' r j = ent s r j" if "j < 1024" for j using ent [OF r(1) that] nr r(2) by simp
  have ea: "ent s' a j = (if j = 1023 then y else if j = 1022 then x else 0)" if "j < 1024" for j
    using ent [OF fresh(2) that] by simp
  have en: "ent s' n j = 0" if "j < 1024" for j using ent [OF fresh(1) that] fresh(3) by simp
  have tr: "tables s' r = tables s r" by (rule tables_cong) (simp add: er)
  have ta: "tables s' a = {n}"
  proof
    show "tables s' a \<subseteq> {n}" using ea xy(2) by (auto simp: tables_def split: if_splits)
    have "n = fno (ent s' a 1022) \<and> (1022 :: nat) < 1023 \<and> is_present (ent s' a 1022)" using ea [of 1022] xy by simp
    then show "{n} \<subseteq> tables s' a" unfolding tables_def by blast
  qed
  have tree: "tree_ok E s' r" if "tree_ok E s r" for E
    by (rule tree_ok_cong [OF that]) (simp_all add: er regs(4))
  have tree22: "tree_ok {1022} s r" using c(2) d(1) by (auto simp: tree_ok_def)
  have "tree_ok D s' a"
    unfolding tree_ok_def ta using c(2) fresh regs(4) ea by (auto simp: tree_ok_def split: if_splits)
  moreover have "current_ok s' r"
    by (rule current_ok_cong [OF c(1)]) (use regs er in simp_all)
  ultimately show "fork_ok D s' r a"
    unfolding fork_ok_def alt_ok_def using tree tree22 c(2) er [of 1022] d(2) nr tr ta by auto
  show "raw s' a q = 0" if "q < 1023 * 1024"
  proof -
    have "q div 1024 < 1023" using that by (simp add: less_mult_imp_div_less)
    then show ?thesis using ea [of "q div 1024"] en [of "q mod 1024"] xy by (simp add: raw_def)
  qed
  show "raw s' r q = raw s r q" if q: "q < 1023 * 1024" "q \<noteq> temp_page"
  proof (rule raw_cong)
    have q': "q div 1024 < 1023" using q by (simp add: less_mult_imp_div_less)
    then show "ent s' r (q div 1024) = ent s r (q div 1024)" by (simp add: er)
    assume pr: "is_present (ent s r (q div 1024))"
    have f: "fno (ent s r (q div 1024)) \<in> tables s r" using pr q' by (auto simp: tables_def)
    have "fno (ent s r (q div 1024)) \<noteq> ?tt \<or> q div 1024 = 1022"
      using tree22 pr q' d(2) by (auto simp: tree_ok_def)
    then have "\<not> (fno (ent s r (q div 1024)) = ?tt \<and> q mod 1024 = 1023)"
      using q(2) page_split [of q temp_page] temp_page_split by auto
    then show "ent s' (fno (ent s r (q div 1024))) (q mod 1024) = ent s (fno (ent s r (q div 1024))) (q mod 1024)"
      using ent [of "fno (ent s r (q div 1024))" "q mod 1024"] f nr by auto
  qed
qed

lemma new_page_directory_spec:
  assumes ok: "pd_ok D s r" and d: "1022 \<in> D" "is_present (ent s r 1022)"
  shows "new_page_directory s = Panic \<and> free_count (frames s) < 2
    \<or> (\<exists>a s'. new_page_directory s = Done (Frame (of_nat (a * 4096)), s') \<and> fork_ok D s' r a
         \<and> free_count (frames s) \<le> free_count (frames s') + 2 \<and> REF_COUNT (frames s') = REF_COUNT (frames s)
         \<and> (\<forall>q < 1023 * 1024. raw s' a q = 0)
         \<and> (\<forall>q < 1023 * 1024. q \<noteq> temp_page \<longrightarrow> raw s' r q = raw s r q))"
proof -
  let ?tt = "temp_table s r" and ?t = get_temporary_page_address
  have c: "current_ok s r" "tree_ok D s r" using ok by (simp_all add: pd_ok_def)
  have tt: "?tt \<in> tables s r" using d(2) by (auto simp: tables_def)
  then have ttr: "?tt \<noteq> r" "phys_used (frames s) ?tt" using c(2) by (auto simp: tree_ok_def)
  have r: "r < 1048576" "phys_used (frames s) r" using c(2) by (simp_all add: tree_ok_def)
  have tok: "temp_ok s r" using c d(2) ttr(1) r(1) by (simp add: temp_ok_def current_ok_def)
  have wf: "phys_wf (frames s)" using c(1) by (simp add: current_ok_def)
  let ?fin = "\<lambda>top dir s. obind (table_get_mut ?t 1023 (pte_set_address (get_address dir)) s) (\<lambda>s.
      obind (table_get_mut ?t 1023 set_present s) (\<lambda>s.
      obind (table_get_mut ?t 1022 (pte_set_address (get_address top)) s) (\<lambda>s.
      obind (table_get_mut ?t 1022 set_present s) (\<lambda>s. Done (dir, s)))))"
  let ?clear = "\<lambda>F s. obind (take_frame s) (\<lambda>(f, s). obind (map_frame_to_temporary_page f s)
        (\<lambda>s. obind (table_zero ?t s) (F f)))"
  have npd: "new_page_directory s = ?clear (\<lambda>top. ?clear (?fin top)) s"
    unfolding new_page_directory_def Let_def ..
  from show_fresh_frame [OF tok wf r(2) ttr(2)] show ?thesis
  proof (elim disjE exE conjE)
    assume z: "\<forall>F. ?clear F s = (Panic :: (frame \<times> machine) outcome)" "free_count (frames s) = 0"
    have "?clear (\<lambda>top. ?clear (?fin top)) s = Panic" by (rule spec [OF z(1)])
    then show ?thesis unfolding npd using z(2) by simp
  next
    fix n s1 assume s1: "shown s r n s1" "\<forall>F. ?clear F s = (F (Frame (of_nat (n * 4096))) s1 :: (frame \<times> machine) outcome)"
    obtain x1 where n: "temp_ok s1 r" "n < 1048576" "n \<noteq> r" "n \<noteq> ?tt" "\<not> phys_used (frames s) n" "phys_wf (frames s1)"
      "\<And>j. phys_used (frames s1) j = (phys_used (frames s) j \<or> j = n)"
      "\<And>g j. g < 1048576 \<Longrightarrow> j < 1024 \<Longrightarrow> ent s1 g j = (if g = n then 0 else if g = ?tt \<and> j = 1023 then x1 else ent s g j)"
      using s1(1) unfolding shown_def by blast
    have tt1: "temp_table s1 r = ?tt" using n(8) [of r 1022] r(1) n(3) ttr(1) by simp
    have npd1: "new_page_directory s = ?clear (?fin (Frame (of_nat (n * 4096)))) s1"
      unfolding npd by (rule spec [OF s1(2)])
    have u1: "phys_used (frames s1) r" "phys_used (frames s1) (temp_table s1 r)" using n(7) r(2) ttr(2) tt1 by simp_all
    from show_fresh_frame [OF n(1,6) u1] show ?thesis
    proof (elim disjE exE conjE)
      assume z: "\<forall>F. ?clear F s1 = (Panic :: (frame \<times> machine) outcome)" "free_count (frames s1) = 0"
      have "?clear (?fin (Frame (of_nat (n * 4096)))) s1 = Panic" by (rule spec [OF z(1)])
      then show ?thesis unfolding npd1 using z(2) s1(1) by (simp add: shown_def)
    next
      fix a s2 assume s2: "shown s1 r a s2" "\<forall>F. ?clear F s1 = (F (Frame (of_nat (a * 4096))) s2 :: (frame \<times> machine) outcome)"
      obtain x2 where a: "temp_ok s2 r" "a < 1048576" "a \<noteq> r" "a \<noteq> ?tt" "\<not> phys_used (frames s1) a" "phys_wf (frames s2)"
        "\<And>j. phys_used (frames s2) j = (phys_used (frames s1) j \<or> j = a)"
        "\<And>g j. g < 1048576 \<Longrightarrow> j < 1024 \<Longrightarrow> ent s2 g j = (if g = a then 0 else if g = ?tt \<and> j = 1023 then x2 else ent s1 g j)"
        "fno x2 = a" "walk s2 r 1022 1023 = Some x2"
        using s2(1) unfolding shown_def tt1 by blast
      have tt2: "temp_table s2 r = ?tt" using a(8) [of r 1022] r(1) a(3) ttr(1) tt1 by simp
      have na: "n \<noteq> a" using a(5) n(7) by auto
      let ?pa = "PhysicalAddress (of_nat (a * 4096))" and ?pn = "PhysicalAddress (of_nat (n * 4096))"
      define s3 where "s3 = put (put s2 a 1023 (set_present (pte_set_address ?pa 0))) a 1022 (set_present (pte_set_address ?pn 0))"
      have "new_page_directory s = ?fin (Frame (of_nat (n * 4096))) (Frame (of_nat (a * 4096))) s2"
        unfolding npd1 by (rule spec [OF s2(2)])
      also have "\<dots> = Done (Frame (of_nat (a * 4096)), s3)"
        unfolding s3_def get_address.simps
        by (rule finish_directory [OF a(1,10,9,3)]) (use a(4,8) tt2 a(2) in simp_all)
      finally have run: "new_page_directory s = Done (Frame (of_nat (a * 4096)), s3)" .
      have fn: "fno (set_present (pte_set_address ?pn 0)) = n" "is_present (set_present (pte_set_address ?pn 0))"
        using n(2) unat_of_nat32 [of "n * 4096"] by (simp_all add: is_present_bit bit_entry_ops)
      have ea: "ent s3 g j = (if g = a then if j = 1023 then set_present (pte_set_address ?pa 0)
            else if j = 1022 then set_present (pte_set_address ?pn 0) else 0
          else if g = n then 0 else if g = ?tt \<and> j = 1023 then x2 else ent s g j)" if "g < 1048576" "j < 1024" for g j
        using that a(2,8) n(8) n(4) by (simp add: s3_def ent_put)
      have un: "\<not> phys_used (frames s) a" using a(5) n(7) by simp
      have regs: "paging s3 = paging s" "cr3 s3 = cr3 s"
        using s1(1) s2(1) by (simp_all add: s3_def shown_def)
      have regs': "phys_wf (frames s3)" "phys_used (frames s3) k = (phys_used (frames s) k \<or> k = n \<or> k = a)" for k
        using a(6,7) n(7) by (auto simp: s3_def)
      from fork_ok_new [OF ok d n(2) a(2) na n(5) un regs regs' fn(2,1) ea]
      have "fork_ok D s3 r a" "\<forall>q < 1023 * 1024. raw s3 a q = 0"
        "\<forall>q < 1023 * 1024. q \<noteq> temp_page \<longrightarrow> raw s3 r q = raw s r q" by blast+
      moreover have "free_count (frames s) \<le> free_count (frames s3) + 2" "REF_COUNT (frames s3) = REF_COUNT (frames s)"
        using s1(1) s2(1) by (simp_all add: shown_def s3_def)
      ultimately show ?thesis using run by blast
    qed
  qed
qed

section \<open>Copying regions\<close>

definition rpages :: "region \<Rightarrow> nat set" where
  "rpages g = {page_of (rg_start g) ..< page_of (rg_start g) + (unat (rg_size g) + 4095) div 4096}"

text \<open>What a region's permissions mean for each of its pages in the copy.\<close>

definition copy_rel :: "permissions \<Rightarrow> page_table_entry \<times> page_table_entry \<Rightarrow> page_table_entry \<times> page_table_entry \<Rightarrow> bool" where
  "copy_rel ps = (case ps of ReadOnly \<Rightarrow> copied_entry | ReadWrite \<Rightarrow> private_entry | CopyOnWrite \<Rightarrow> shared_entry)"

definition forkable :: "nat set \<Rightarrow> region \<Rightarrow> bool" where
  "forkable D g \<longleftrightarrow> (\<exists>x. backed_by g = Anonymous x) \<and> pages_fit g \<and> rpages g \<subseteq> fork_pages D"

text \<open>Frames a copy may need: two per page.\<close>

definition frames_needed :: "region list \<Rightarrow> nat" where
  "frames_needed gs = 2 * sum_list (map (\<lambda>g. (unat (rg_size g) + 4095) div 4096) gs)"

lemma map_region_spec:
  assumes "forkable D g" "fork_inv D s r a"
  shows "map_region (PhysicalAddress (of_nat (4096 * a))) g s = Panic \<and> free_count (frames s) < frames_needed [g]
    \<or> (\<exists>s'. map_region (PhysicalAddress (of_nat (4096 * a))) g s = Done s' \<and> fork_inv D s' r a
         \<and> free_count (frames s) \<le> free_count (frames s') + frames_needed [g]
         \<and> (\<forall>q \<in> rpages g. copy_rel (rg_permissions g) (raw s r q, raw s a q) (raw s' r q, raw s' a q))
         \<and> (\<forall>q \<in> fork_pages D. q \<notin> rpages g \<longrightarrow> (raw s' r q, raw s' a q) = (raw s r q, raw s a q)))"
proof -
  obtain x where g: "backed_by g = Anonymous x" "pages_fit g" "rpages g \<subseteq> fork_pages D"
    using assms(1) by (auto simp: forkable_def)
  note laws = cpm.region_loop_law [OF g(2) g(3) [unfolded rpages_def] assms(2)]
    cpf.region_loop_law [OF g(2) g(3) [unfolded rpages_def] assms(2)]
    cow.region_loop_law [OF g(2) g(3) [unfolded rpages_def] assms(2)]
  note laws' = laws [folded rpages_def for_region_pages_eq [OF g(2)]]
  show ?thesis
  proof (cases "rg_permissions g")
    case ReadOnly
    then have "map_region (PhysicalAddress (of_nat (4096 * a))) g s
        = for_region_pages (copy_mapping_page (PhysicalAddress (of_nat (4096 * a)))) g s"
      using g(1) by (simp add: map_region_def copy_mapping_directly_def)
    then show ?thesis using laws'(1) ReadOnly by (auto simp: frames_needed_def copy_rel_def)
  next
    case ReadWrite
    then have "map_region (PhysicalAddress (of_nat (4096 * a))) g s
        = for_region_pages (copy_frames_page (PhysicalAddress (of_nat (4096 * a)))) g s"
      using g(1) by (simp add: map_region_def copy_frames_def)
    then show ?thesis using laws'(2) ReadWrite by (auto simp: frames_needed_def copy_rel_def)
  next
    case CopyOnWrite
    then have "map_region (PhysicalAddress (of_nat (4096 * a))) g s
        = for_region_pages (copy_on_write_page (PhysicalAddress (of_nat (4096 * a)))) g s"
      using g(1) by (simp add: map_region_def map_with_copy_on_write_def)
    then show ?thesis using laws'(3) CopyOnWrite by (auto simp: frames_needed_def copy_rel_def)
  qed
qed

lemma map_regions_spec:
  assumes "\<forall>g \<in> set gs. forkable D g" "sorted_wrt (\<lambda>g h. rpages g \<inter> rpages h = {}) gs" "fork_inv D s r a"
  shows "ofold (map_region (PhysicalAddress (of_nat (4096 * a)))) gs s = Panic \<and> free_count (frames s) < frames_needed gs
    \<or> (\<exists>s'. ofold (map_region (PhysicalAddress (of_nat (4096 * a)))) gs s = Done s' \<and> fork_inv D s' r a
         \<and> free_count (frames s) \<le> free_count (frames s') + frames_needed gs
         \<and> (\<forall>g \<in> set gs. \<forall>q \<in> rpages g. copy_rel (rg_permissions g) (raw s r q, raw s a q) (raw s' r q, raw s' a q))
         \<and> (\<forall>q \<in> fork_pages D. q \<notin> \<Union> (rpages ` set gs) \<longrightarrow> (raw s' r q, raw s' a q) = (raw s r q, raw s a q)))"
  using assms
proof (induction gs arbitrary: s)
  case (Cons g gs)
  let ?m = "map_region (PhysicalAddress (of_nat (4096 * a)))"
  let ?pair = "\<lambda>s q. (raw s r q, raw s a q)"
  have need: "frames_needed (g # gs) = frames_needed [g] + frames_needed gs" by (simp add: frames_needed_def)
  have g: "forkable D g" using Cons.prems(1) by simp
  have gs: "\<forall>g \<in> set gs. forkable D g" "sorted_wrt (\<lambda>g h. rpages g \<inter> rpages h = {}) gs" using Cons.prems(1,2) by simp_all
  from map_region_spec [OF g Cons.prems(3)] show ?case
  proof (elim disjE exE conjE)
    assume "?m g s = Panic" "free_count (frames s) < frames_needed [g]"
    then show ?thesis using need by simp
  next
    fix s1 assume s1: "?m g s = Done s1" "fork_inv D s1 r a" "free_count (frames s) \<le> free_count (frames s1) + frames_needed [g]"
      "\<forall>q \<in> rpages g. copy_rel (rg_permissions g) (?pair s q) (?pair s1 q)"
      "\<forall>q \<in> fork_pages D. q \<notin> rpages g \<longrightarrow> ?pair s1 q = ?pair s q"
    from Cons.IH [OF gs s1(2)] show ?thesis
    proof (elim disjE exE conjE)
      assume "ofold ?m gs s1 = Panic" "free_count (frames s1) < frames_needed gs"
      then show ?thesis using s1(1,3) need by simp
    next
      fix s' assume s': "ofold ?m gs s1 = Done s'" "fork_inv D s' r a" "free_count (frames s1) \<le> free_count (frames s') + frames_needed gs"
        "\<forall>h \<in> set gs. \<forall>q \<in> rpages h. copy_rel (rg_permissions h) (?pair s1 q) (?pair s' q)"
        "\<forall>q \<in> fork_pages D. q \<notin> \<Union> (rpages ` set gs) \<longrightarrow> ?pair s' q = ?pair s1 q"
      have area: "rpages h \<subseteq> fork_pages D" if "h \<in> set (g # gs)" for h using Cons.prems(1) that by (auto simp: forkable_def)
      have apart: "q \<notin> rpages g" if "h \<in> set gs" "q \<in> rpages h" for h q using Cons.prems(2) that by auto
      have "copy_rel (rg_permissions g) (?pair s q) (?pair s' q)" if "q \<in> rpages g" for q
      proof -
        have "?pair s' q = ?pair s1 q" using s'(5) area [of g] apart that by auto
        then show ?thesis using s1(4) that by simp
      qed
      moreover have "copy_rel (rg_permissions h) (?pair s q) (?pair s' q)" if "h \<in> set gs" "q \<in> rpages h" for h q
      proof -
        have "?pair s1 q = ?pair s q" using s1(5) area [of h] apart [OF that] that by auto
        then show ?thesis using bspec [OF bspec [OF s'(4) that(1)] that(2)] by simp
      qed
      moreover have "?pair s' q = ?pair s q" if "q \<in> fork_pages D" "q \<notin> \<Union> (rpages ` set (g # gs))" for q
        using s'(5) s1(5) that by auto
      ultimately show ?thesis using s1(1,3) s'(1,2,3) need by simp
    qed
  qed
qed (simp add: frames_needed_def)

section \<open>Releasing regions\<close>

lemma unmap_popped_spec:
  assumes "pd_ok D s r" "\<forall>g \<in> set gs. pages_fit g \<and> rpages g \<subseteq> dir_pages D"
  shows "\<exists>s'. unmap_popped gs s = Done s' \<and> pd_ok D s' r
    \<and> (\<forall>g \<in> set gs. \<forall>q \<in> rpages g. \<not> is_present (raw s' r q))
    \<and> (\<forall>q \<in> dir_pages D. q \<notin> \<Union> (rpages ` set gs) \<longrightarrow> raw s' r q = raw s r q)
    \<and> (\<forall>q \<in> dir_pages D. \<not> is_present (raw s r q) \<longrightarrow> \<not> is_present (raw s' r q))"
  using assms
proof (induction gs arbitrary: s)
  case (Cons g gs)
  have g: "pages_fit g" "rpages g \<subseteq> dir_pages D" using Cons.prems(2) by simp_all
  from unm.region_loop_law [OF g(1) g(2) [unfolded rpages_def] Cons.prems(1)] obtain s1 where
    s1: "unmap_region g s = Done s1" "pd_ok D s1 r" "\<forall>q \<in> rpages g. raw s1 r q = clear_present (raw s r q)"
      "\<forall>q \<in> dir_pages D. q \<notin> rpages g \<longrightarrow> raw s1 r q = raw s r q"
    unfolding rpages_def unmap_region_def for_region_pages_eq [OF g(1)] by auto
  have clr: "\<not> is_present (clear_present e)" for e by (simp add: is_present_bit bit_entry_ops)
  have "\<forall>g \<in> set gs. pages_fit g \<and> rpages g \<subseteq> dir_pages D" using Cons.prems(2) by simp
  from Cons.IH [OF s1(2) this] obtain s' where
    s': "unmap_popped gs s1 = Done s'" "pd_ok D s' r" "\<forall>g \<in> set gs. \<forall>q \<in> rpages g. \<not> is_present (raw s' r q)"
      "\<forall>q \<in> dir_pages D. q \<notin> \<Union> (rpages ` set gs) \<longrightarrow> raw s' r q = raw s1 r q"
      "\<forall>q \<in> dir_pages D. \<not> is_present (raw s1 r q) \<longrightarrow> \<not> is_present (raw s' r q)" by blast
  have "\<not> is_present (raw s' r q)" if "q \<in> rpages g" for q using s'(5) s1(3) g(2) clr that by auto
  moreover have "\<not> is_present (raw s' r q)" if "q \<in> dir_pages D" "\<not> is_present (raw s r q)" for q
    using s'(5) s1(3,4) clr that by (cases "q \<in> rpages g") auto
  ultimately show ?case using s1(1) s' s1(4) by (intro exI [of _ s']) auto
qed auto

section \<open>A sample machine\<close>

text \<open>A machine with 8192 free frames before paging, and the same machine after the boot directory is active.\<close>

definition sample_frames :: phys where
  "sample_frames = \<lparr>ALLOCATOR = Some \<lparr>frame_count = 8192, map_location = 0x1000, bitmap = replicate 1024 0\<rparr>,
     REF_COUNT = Some \<lparr>references = replicate 8192 0\<rparr>\<rparr>"

definition sample_machine :: machine where
  "sample_machine = \<lparr>ram = (\<lambda>_. 0), paging = False, cr3 = 0, frames = sample_frames\<rparr>"

definition booted :: machine where
  "booted = (case create_initial_pagedir sample_machine of Done (ref, s) \<Rightarrow> activate ref s | _ \<Rightarrow> sample_machine)"

lemma sample_machine_ok:
  "\<not> paging sample_machine" "phys_wf (frames sample_machine)" "free_count (frames sample_machine) = 8192"
proof -
  have "\<not> phys_used sample_frames k" if "k < 8192" for k
  proof -
    have "k div 8 < 1024" using that by (simp add: div_less_iff_less_mult)
    then show ?thesis by (simp add: phys_used_def sample_frames_def frame_used_def bs_bit_def)
  qed
  then have "{k. k < 8192 \<and> \<not> phys_used sample_frames k} = {..< 8192}" by auto
  moreover have "phys_total sample_frames = 8192" by (simp add: phys_total_def sample_frames_def)
  ultimately show "free_count (frames sample_machine) = 8192" by (simp add: free_count_def sample_machine_def)
qed (simp_all add: sample_machine_def phys_wf_def bm_wf_def sample_frames_def)

lemma booted_ok:
  "\<exists>r. pd_ok {..< 1023} booted r \<and> is_present (ent booted r 1022) \<and> (\<forall>q < 1023 * 1024. raw booted r q = 0)
     \<and> 8190 \<le> free_count (frames booted) \<and> REF_COUNT (frames booted) = REF_COUNT sample_frames
     \<and> phys_total (frames booted) = 8192"
proof -
  have fr: "frames (activate ref s) = frames s" for ref s
    by (cases ref) (simp add: activate_def enable_paging_def make_active_def set_current_pagedir_def)
  from boot_spec [OF sample_machine_ok(1,2)] obtain r ref s' where
    s': "create_initial_pagedir sample_machine = Done (ref, s')" "8192 \<le> free_count (frames s') + 2"
      "REF_COUNT (frames s') = REF_COUNT sample_frames" "pd_ok {..< 1023} (activate ref s') r"
      "is_present (ent (activate ref s') r 1022)" "\<forall>q < 1023 * 1024. raw (activate ref s') r q = 0"
      "phys_total (frames s') = phys_total sample_frames"
    unfolding sample_machine_ok(3) by (auto simp: sample_machine_def)
  have b: "booted = activate ref s'" using s'(1) by (simp add: booted_def)
  show ?thesis unfolding b fr using s'(2-7) by (intro exI [of _ r]) (simp add: phys_total_def sample_frames_def)
qed

section \<open>Properties\<close>

lemma current_map_translates:
  assumes "pd_ok D s r" "page_of v div 1024 \<in> D"
  shows "current_map (Frame a) v flags s = Panic \<and> free_count (frames s) = 0
      \<and> \<not> is_present (ent s r (page_of v div 1024))
    \<or> (\<exists>s'. current_map (Frame a) v flags s = Done s' \<and> pd_ok D s' r
        \<and> table_taken s r (page_of v div 1024) s' \<and> REF_COUNT (frames s') = REF_COUNT (frames s)
        \<and> (\<forall>k. phys_used (frames s) k \<longrightarrow> phys_used (frames s') k)
        \<and> (\<forall>w < 0xffc00000. translate s' (cr3 s') w =
             (if page_of (VirtualAddress w) = page_of v then Some ((a AND 0xfffff000) + (w AND 0xfff))
              else translate s (cr3 s) w))
        \<and> (is_write_access_granted (raw s' r (page_of v)) \<longleftrightarrow>
             pf_u8 flags AND WRITE_ACCESS \<noteq> 0 \<or> is_write_access_granted (raw s r (page_of v)))
        \<and> (is_user_access_granted (raw s' r (page_of v)) \<longleftrightarrow>
             pf_u8 flags AND USER_ACCESS \<noteq> 0 \<or> is_user_access_granted (raw s r (page_of v))))"
  using current_map_spec [OF assms, of a flags]
proof (elim disjE exE conjE)
  fix s'
  let ?e = "new_entry (PhysicalAddress a) flags (raw s r (page_of v))"
  assume s': "current_map (Frame a) v flags s = Done s'" "pd_ok D s' r" "set_raw D (page_of v) ?e r s s'"
    "table_taken s r (page_of v div 1024) s'" "REF_COUNT (frames s') = REF_COUNT (frames s)"
  have on: "paging s" "paging s'" "unat (cr3 s) div 4096 = r" "unat (cr3 s') div 4096 = r"
    using assms(1) s'(2) by (simp_all add: pd_ok_def current_ok_def)
  have pv: "page_of v < 1023 * 1024"
  proof -
    have "page_of v div 1024 < 1023" using assms by (auto simp: pd_ok_def tree_ok_def)
    then show ?thesis by (simp add: div_less_iff_less_mult)
  qed
  have off: "(a AND 0xfffff000) + (w AND 0xfff) = of_nat (4096 * (unat a div 4096) + unat w mod 4096)" for w :: usize
  proof -
    have "w AND 0xfff = of_nat (unat w mod 4096)" by (simp add: word_unat_eq_iff unat_and_fff unat_of_nat32)
    then show ?thesis by (simp add: page_base_nat)
  qed
  have "translate s' (cr3 s') w = (if page_of (VirtualAddress w) = page_of v then Some ((a AND 0xfffff000) + (w AND 0xfff))
      else translate s (cr3 s) w)" if "w < 0xffc00000" for w
  proof -
    have "unat w < 4290772992" using that by (simp add: word_less_nat_alt)
    then have "page_of (VirtualAddress w) < 1023 * 1024" by (simp add: page_of_def div_less_iff_less_mult)
    then have e: "raw s' r (page_of (VirtualAddress w)) =
        (if page_of (VirtualAddress w) = page_of v then ?e else raw s r (page_of (VirtualAddress w)))"
      by (rule set_rawD [OF s'(3)])
    show ?thesis
      unfolding translate_raw [OF on(1)] translate_raw [OF on(2)] on(3,4) e
      by (simp add: new_entry_props off)
  qed
  moreover have "raw s' r (page_of v) = ?e" using set_rawD [OF s'(3) pv] by simp
  moreover have "\<forall>k. phys_used (frames s) k \<longrightarrow> phys_used (frames s') k" using s'(3) by (simp add: set_raw_def)
  ultimately show ?thesis using s'(1,2,4,5) by (simp add: new_entry_props)
qed simp

text \<open>C7: mapping a page in the current address space.  On a well-formed directory the call panics exactly
  when the page has no table yet and no frame is free.  Otherwise the directory stays well formed; the call takes one
  free frame when the page has no table yet, for the table, and none when it has; every
  address of the page translates to the same offset in the given frame, every other address below
  the recursive window translates as before, and the entry allows writing and user access when the
  flags ask for it or the old entry already did.\<close>

theorem current_map_correct:
  assumes "pd_ok D s r" "page_of v div 1024 \<in> D"
  shows "if \<not> is_present (ent s r (page_of v div 1024)) \<and> free_count (frames s) = 0
    then current_map (Frame a) v flags s = Panic
    else \<exists>s'. current_map (Frame a) v flags s = Done s' \<and> pd_ok D s' r
        \<and> (if is_present (ent s r (page_of v div 1024)) then frames s' = frames s
           else \<exists>k < phys_total (frames s). \<not> phys_used (frames s) k
                  \<and> (\<forall>j. phys_used (frames s') j = (phys_used (frames s) j \<or> j = k)))
        \<and> (\<forall>w < 0xffc00000. translate s' (cr3 s') w =
             (if page_of (VirtualAddress w) = page_of v then Some ((a AND 0xfffff000) + (w AND 0xfff))
              else translate s (cr3 s) w))
        \<and> (is_write_access_granted (raw s' r (page_of v)) \<longleftrightarrow>
             pf_u8 flags AND WRITE_ACCESS \<noteq> 0 \<or> is_write_access_granted (raw s r (page_of v)))
        \<and> (is_user_access_granted (raw s' r (page_of v)) \<longleftrightarrow>
             pf_u8 flags AND USER_ACCESS \<noteq> 0 \<or> is_user_access_granted (raw s r (page_of v)))"
proof (cases "current_map (Frame a) v flags s = Panic")
  case True
  then show ?thesis using current_map_translates [OF assms, of a flags] by auto
next
  case False
  from current_map_translates [OF assms, of a flags] False obtain s' where
    s': "current_map (Frame a) v flags s = Done s'" "table_taken s r (page_of v div 1024) s'"
    and rest: "pd_ok D s' r" "\<forall>w < 0xffc00000. translate s' (cr3 s') w =
             (if page_of (VirtualAddress w) = page_of v then Some ((a AND 0xfffff000) + (w AND 0xfff))
              else translate s (cr3 s) w)"
      "is_write_access_granted (raw s' r (page_of v)) \<longleftrightarrow>
             pf_u8 flags AND WRITE_ACCESS \<noteq> 0 \<or> is_write_access_granted (raw s r (page_of v))"
      "is_user_access_granted (raw s' r (page_of v)) \<longleftrightarrow>
             pf_u8 flags AND USER_ACCESS \<noteq> 0 \<or> is_user_access_granted (raw s r (page_of v))" by blast
  have "is_present (ent s r (page_of v div 1024)) \<or> free_count (frames s) \<noteq> 0"
    using s'(2) free_count_pos by (fastforce simp: table_taken_def split: if_splits)
  then have "\<not> (\<not> is_present (ent s r (page_of v div 1024)) \<and> free_count (frames s) = 0)" by blast
  then show ?thesis using s'(1) rest s'(2) [unfolded table_taken_def] by (simp only: if_False) blast
qed

theorem current_map_correct_witness:
  "\<exists>s'. current_map (Frame 0x5000) (VirtualAddress 0x401000) (PermissionFlags WRITE_ACCESS) booted = Done s'
     \<and> translate s' (cr3 s') 0x401123 = Some 0x5123 \<and> translate s' (cr3 s') 0x402123 = translate booted (cr3 booted) 0x402123"
proof -
  obtain r where r: "pd_ok {..< 1023} booted r" "8190 \<le> free_count (frames booted)" using booted_ok by blast
  have "page_of (VirtualAddress 0x401000) div 1024 \<in> {..< 1023}" by (simp add: page_of_def)
  from current_map_correct [OF r(1) this, of "0x5000" "PermissionFlags WRITE_ACCESS"] r(2) obtain s' where
    s': "current_map (Frame 0x5000) (VirtualAddress 0x401000) (PermissionFlags WRITE_ACCESS) booted = Done s'"
      "\<forall>w < 0xffc00000. translate s' (cr3 s') w =
         (if page_of (VirtualAddress w) = page_of (VirtualAddress 0x401000) then Some ((0x5000 AND 0xfffff000) + (w AND 0xfff))
          else translate booted (cr3 booted) w)" by auto
  from spec [OF s'(2), of "0x401123"] spec [OF s'(2), of "0x402123"] s'(1) show ?thesis by (simp add: page_of_def)
qed

text \<open>C9: the boot directory.  With two free frames and paging off, \<^verbatim>\<open>create_initial_pagedir\<close> builds a
  directory that satisfies the invariant of all later operations once it is made active, mapped into
  its own last entry, with a table for the temporary page and no page mapped.\<close>

theorem boot_directory_correct:
  assumes "\<not> paging s" "phys_wf (frames s)" "2 \<le> free_count (frames s)"
  shows "\<exists>r ref s'. create_initial_pagedir s = Done (ref, s') \<and> pd_ok {..< 1023} (activate ref s') r
    \<and> is_present (ent (activate ref s') r 1022) \<and> (\<forall>q < 1023 * 1024. raw (activate ref s') r q = 0)
    \<and> free_count (frames s) \<le> free_count (frames s') + 2 \<and> REF_COUNT (frames s') = REF_COUNT (frames s)"
  using boot_spec [OF assms(1,2)] assms(3) by auto

theorem boot_directory_correct_witness:
  "\<exists>r ref s'. create_initial_pagedir sample_machine = Done (ref, s') \<and> pd_ok {..< 1023} (activate ref s') r
     \<and> raw (activate ref s') r 0x401 = 0 \<and> 8190 \<le> free_count (frames s')"
proof -
  have "2 \<le> free_count (frames sample_machine)" by (simp add: sample_machine_ok(3))
  from boot_directory_correct [OF sample_machine_ok(1,2) this] obtain r ref s' where
    s': "create_initial_pagedir sample_machine = Done (ref, s')" "pd_ok {..< 1023} (activate ref s') r"
      "\<forall>q < 1023 * 1024. raw (activate ref s') r q = 0" "8192 \<le> free_count (frames s') + 2"
    unfolding sample_machine_ok(3) by auto
  have "raw (activate ref s') r 0x401 = 0" using spec [OF s'(3), of "0x401"] by simp
  then show ?thesis using s'(1,2,4) by (intro exI [of _ r] exI [of _ ref] exI [of _ s']) simp
qed

text \<open>C6: forking an address space.  With disjoint anonymous regions, an initialised reference count table
  and enough free frames, \<^verbatim>\<open>fork_page_directory\<close> returns a new directory.  In it each mapped page of
  a read-only region shows the parent's frame with the parent's access bits, each mapped page of a
  copy-on-write region shows the parent's frame without write access, which the parent loses too,
  each mapped page of a read-write region has a writable frame, and nothing else is mapped; the
  parent's other pages are unchanged.\<close>

theorem fork_page_directory_correct:
  assumes "pd_ok D s r" "1022 \<in> D" "is_present (ent s r 1022)" "rc_ok D s r"
    and "\<forall>g \<in> set (forked_regions rs k). forkable D g"
    and "sorted_wrt (\<lambda>g h. rpages g \<inter> rpages h = {}) (forked_regions rs k)"
    and "2 + frames_needed (forked_regions rs k) \<le> free_count (frames s)"
  shows "\<exists>a s'. fork_page_directory rs k s = Done (ptr_new (PhysicalAddress (of_nat (4096 * a))), s') \<and> fork_inv D s' r a
    \<and> (\<forall>g \<in> set (forked_regions rs k). \<forall>q \<in> rpages g.
         copy_rel (rg_permissions g) (raw s r q, 0) (raw s' r q, raw s' a q))
    \<and> (\<forall>q \<in> fork_pages D. q \<notin> \<Union> (rpages ` set (forked_regions rs k)) \<longrightarrow> raw s' a q = 0 \<and> raw s' r q = raw s r q)"
proof -
  from new_page_directory_spec [OF assms(1-3)] assms(7) obtain a s1 where
    s1: "new_page_directory s = Done (Frame (of_nat (a * 4096)), s1)" "fork_ok D s1 r a"
      "free_count (frames s) \<le> free_count (frames s1) + 2" "REF_COUNT (frames s1) = REF_COUNT (frames s)"
      "\<forall>q < 1023 * 1024. raw s1 a q = 0" "\<forall>q < 1023 * 1024. q \<noteq> temp_page \<longrightarrow> raw s1 r q = raw s r q" by auto
  have "rc_ok D s1 r" by (rule rc_ok_cong [OF assms(4) s1(4)]) (use s1(6) in blast)
  then have inv: "fork_inv D s1 r a" using s1(2) by (simp add: fork_inv_def)
  have dir: "get_address (Frame (of_nat (a * 4096))) = PhysicalAddress (of_nat (4096 * a))" by (simp add: mult.commute)
  have start: "(raw s1 r q, raw s1 a q) = (raw s r q, 0)" if "q \<in> fork_pages D" for q
    using s1(5,6) that by (simp add: fork_pages_def dir_pages_def)
  from map_regions_spec [OF assms(5,6) inv] s1(3) assms(7) obtain s' where
    s': "ofold (map_region (PhysicalAddress (of_nat (4096 * a)))) (forked_regions rs k) s1 = Done s'" "fork_inv D s' r a"
      "\<forall>g \<in> set (forked_regions rs k). \<forall>q \<in> rpages g.
        copy_rel (rg_permissions g) (raw s1 r q, raw s1 a q) (raw s' r q, raw s' a q)"
      "\<forall>q \<in> fork_pages D. q \<notin> \<Union> (rpages ` set (forked_regions rs k)) \<longrightarrow> (raw s' r q, raw s' a q) = (raw s1 r q, raw s1 a q)"
    by fastforce
  have "fork_page_directory rs k s = Done (ptr_new (PhysicalAddress (of_nat (4096 * a))), s')"
    unfolding fork_page_directory_def s1(1) using s'(1) by (simp add: mult.commute)
  moreover have "copy_rel (rg_permissions g) (raw s r q, 0) (raw s' r q, raw s' a q)"
    if "g \<in> set (forked_regions rs k)" "q \<in> rpages g" for g q
  proof -
    have "q \<in> fork_pages D" using assms(5) that by (auto simp: forkable_def)
    then show ?thesis using s'(3) start that by metis
  qed
  moreover have "raw s' a q = 0 \<and> raw s' r q = raw s r q"
    if "q \<in> fork_pages D" "q \<notin> \<Union> (rpages ` set (forked_regions rs k))" for q
    using s'(4) start that by (metis Pair_inject)
  ultimately show ?thesis using s'(2) by blast
qed

theorem fork_page_directory_correct_witness:
  "\<exists>a s'. fork_page_directory (fst (regions_initial (VirtualAddress 0xc0400000) kernel_regions_initial))
       (snd (regions_initial (VirtualAddress 0xc0400000) kernel_regions_initial)) booted
       = Done (ptr_new (PhysicalAddress (of_nat (4096 * a))), s') \<and> raw s' a 0x400 = 0"
proof -
  let ?rs = "fst (regions_initial (VirtualAddress 0xc0400000) kernel_regions_initial)"
  let ?k = "snd (regions_initial (VirtualAddress 0xc0400000) kernel_regions_initial)"
  let ?gs = "forked_regions ?rs ?k"
  obtain r where r: "pd_ok {..< 1023} booted r" "is_present (ent booted r 1022)" "\<forall>q < 1023 * 1024. raw booted r q = 0"
    "8190 \<le> free_count (frames booted)" "REF_COUNT (frames booted) = REF_COUNT sample_frames" using booted_ok by blast
  note regs = forked_regions_def regions_initial_def kernel_regions_initial_def region_new_def region_empty_def
    STACK_START_def STACK_SIZE_def INITIAL_HEAP_SIZE_def
  have "rc_ok {..< 1023} booted r" using r(3,5)
    by (auto simp: rc_ok_def sample_frames_def fork_pages_def dir_pages_def)
  moreover have "\<forall>g \<in> set ?gs. forkable {..< 1023} g"
    by (auto simp: regs forkable_def pages_fit_def rpages_def page_of_def fork_pages_def dir_pages_def temp_page_def)
  moreover have "sorted_wrt (\<lambda>g h. rpages g \<inter> rpages h = {}) ?gs" by (simp add: regs rpages_def page_of_def)
  moreover have "2 + frames_needed ?gs \<le> free_count (frames booted)" using r(4) by (simp add: regs frames_needed_def)
  ultimately obtain a s' where s': "fork_page_directory ?rs ?k booted = Done (ptr_new (PhysicalAddress (of_nat (4096 * a))), s')"
      "\<forall>q \<in> fork_pages {..< 1023}. q \<notin> \<Union> (rpages ` set ?gs) \<longrightarrow> raw s' a q = 0 \<and> raw s' r q = raw booted r q"
    using fork_page_directory_correct [OF r(1) _ r(2), of ?rs ?k] by auto
  have "0x400 \<in> fork_pages {..< 1023}" by (simp add: fork_pages_def dir_pages_def temp_page_def)
  moreover have "0x400 \<notin> \<Union> (rpages ` set ?gs)" by (simp add: regs rpages_def page_of_def)
  ultimately have "raw s' a 0x400 = 0" using s'(2) by blast
  then show ?thesis using s'(1) by blast
qed

text \<open>C8: copying a page of a read-write region during fork.  For a page the current directory maps, the step
  panics only with fewer than two free frames.  Otherwise the child's page is a frame that was free,
  writable, user accessible exactly below 3 GiB, and its 1024 words are those of the parent's page (unless the parent's
  page is the table of the temporary page itself); the parent's mappings and the child's
  other mappings are unchanged.\<close>

theorem copy_frames_page_correct:
  assumes "fork_ok D s r a" "page_of v \<in> fork_pages D" "is_present (raw s r (page_of v))"
    and "4096 dvd unat (va_usize v)"
  shows "copy_frames_page (PhysicalAddress (of_nat (4096 * a))) v s = Panic \<and> free_count (frames s) < 2
    \<or> (\<exists>s' n. copy_frames_page (PhysicalAddress (of_nat (4096 * a))) v s = Done s' \<and> fork_ok D s' r a
         \<and> \<not> phys_used (frames s) n \<and> phys_used (frames s') n
         \<and> is_present (raw s' a (page_of v)) \<and> fno (raw s' a (page_of v)) = n
         \<and> is_write_access_granted (raw s' a (page_of v))
         \<and> (raw s a (page_of v) = 0 \<longrightarrow> is_user_access_granted (raw s' a (page_of v)) = (va_usize v < 0xc0000000))
         \<and> (fno (raw s r (page_of v)) \<noteq> temp_table s r \<longrightarrow> (\<forall>j < 1024. ent s' n j = ent s (fno (raw s r (page_of v))) j))
         \<and> (\<forall>q < 1023 * 1024. q \<noteq> temp_page \<longrightarrow> raw s' r q = raw s r q)
         \<and> (\<forall>q < 1023 * 1024. q \<noteq> page_of v \<longrightarrow> raw s' a q = raw s a q))"
  using copy_frames_page_spec [OF assms]
proof (elim disjE exE conjE)
  fix s' n flags
  assume n: "n < 1048576" and flags: "pf_u8 flags = WRITE_ACCESS OR (if va_usize v < 0xc0000000 then USER_ACCESS else 0)"
    and e: "raw s' a (page_of v) = new_entry (PhysicalAddress (of_nat (n * 4096))) flags (raw s a (page_of v))"
    and rest: "copy_frames_page (PhysicalAddress (of_nat (4096 * a))) v s = Done s'" "fork_ok D s' r a"
      "\<not> phys_used (frames s) n" "phys_used (frames s') n"
      "fno (raw s r (page_of v)) \<noteq> temp_table s r \<longrightarrow> (\<forall>j < 1024. ent s' n j = ent s (fno (raw s r (page_of v))) j)"
      "\<forall>q < 1023 * 1024. q \<noteq> temp_page \<longrightarrow> raw s' r q = raw s r q"
      "\<forall>q < 1023 * 1024. q \<noteq> page_of v \<longrightarrow> raw s' a q = raw s a q"
  define w :: usize where "w = of_nat (n * 4096)"
  have "unat w div 4096 = n" using n unat_of_nat32 [of "n * 4096"] by (simp add: w_def)
  note ent = new_entry_props [of w flags "raw s a (page_of v)", unfolded this flags, folded e [folded w_def]]
  have "is_write_access_granted (raw s' a (page_of v))" using ent(3) by (auto simp: WRITE_ACCESS_def USER_ACCESS_def)
  moreover have "raw s a (page_of v) = 0 \<longrightarrow> is_user_access_granted (raw s' a (page_of v)) = (va_usize v < 0xc0000000)"
    using ent(4) by (auto simp: WRITE_ACCESS_def USER_ACCESS_def is_user_bit)
  ultimately show ?thesis using ent(1,2) rest by blast
qed blast

theorem copy_frames_page_correct_witness:
  "\<exists>D s r a s' n. fork_ok D s r a \<and> is_present (raw s r (page_of (VirtualAddress 0xffbf0000)))
     \<and> copy_frames_page (PhysicalAddress (of_nat (4096 * a))) (VirtualAddress 0xffbf0000) s = Done s'
     \<and> fno (raw s' a (page_of (VirtualAddress 0xffbf0000))) = n \<and> \<not> phys_used (frames s) n \<and> phys_used (frames s') n"
proof -
  let ?v = "VirtualAddress 0xffbf0000" and ?D = "{..< 1023 :: nat}"
  obtain r where r: "pd_ok ?D booted r" "8190 \<le> free_count (frames booted)" using booted_ok by blast
  have v: "page_of ?v div 1024 = 1022" "page_of ?v < 1023 * 1024" "page_of ?v \<noteq> temp_page" "4096 dvd unat (va_usize ?v)"
    by (simp_all add: page_of_def temp_page_def)
  have "page_of ?v div 1024 \<in> ?D" by (simp add: v)
  from current_map_spec [OF r(1) this, of "0x5000" "PermissionFlags WRITE_ACCESS"] r(2) obtain s1 where
    s1: "pd_ok ?D s1 r" "8189 \<le> free_count (frames s1)"
      "set_raw ?D (page_of ?v) (new_entry (PhysicalAddress 0x5000) (PermissionFlags WRITE_ACCESS) (raw booted r (page_of ?v))) r booted s1"
    by auto
  have p1: "is_present (raw s1 r (page_of ?v))" using set_rawD [OF s1(3) v(2)] by (simp add: new_entry_props)
  then have "is_present (ent s1 r 1022)" by (simp add: raw_def v(1) split: if_splits)
  from new_page_directory_spec [OF s1(1) _ this] s1(2) obtain a s2 where
    s2: "fork_ok ?D s2 r a" "8187 \<le> free_count (frames s2)" "\<forall>q < 1023 * 1024. q \<noteq> temp_page \<longrightarrow> raw s2 r q = raw s1 r q"
    by auto
  have p2: "is_present (raw s2 r (page_of ?v))" using s2(3) v(2,3) p1 by simp
  have f: "page_of ?v \<in> fork_pages ?D" using v by (simp add: fork_pages_def dir_pages_def)
  from copy_frames_page_correct [OF s2(1) f p2 v(4)] s2(2) obtain s' where
    "copy_frames_page (PhysicalAddress (of_nat (4096 * a))) ?v s2 = Done s'"
    "\<not> phys_used (frames s2) (fno (raw s' a (page_of ?v)))" "phys_used (frames s') (fno (raw s' a (page_of ?v)))" by force
  then show ?thesis using s2(1) p2 by blast
qed

text \<open>C10: unmapping the execution regions of a process always returns, empties the list of regions and
  leaves none of their pages mapped and every other page as it was.\<close>

theorem unmap_all_correct:
  assumes "pd_ok D s r" "\<forall>g \<in> set (execution_regions (pm_regions pm)). pages_fit g \<and> rpages g \<subseteq> dir_pages D"
  shows "\<exists>pm' s'. unmap_all pm s = Done (pm', s') \<and> pd_ok D s' r \<and> execution_regions (pm_regions pm') = []
    \<and> (\<forall>g \<in> set (execution_regions (pm_regions pm)). \<forall>q \<in> rpages g. \<not> is_present (raw s' r q))
    \<and> (\<forall>q \<in> dir_pages D. q \<notin> \<Union> (rpages ` set (execution_regions (pm_regions pm))) \<longrightarrow> raw s' r q = raw s r q)"
proof -
  have "\<forall>g \<in> set (rev (execution_regions (pm_regions pm))). pages_fit g \<and> rpages g \<subseteq> dir_pages D" using assms(2) by simp
  from unmap_popped_spec [OF assms(1) this] show ?thesis by (auto simp: unmap_all_def)
qed

theorem unmap_all_correct_witness:
  "\<exists>pm s'. unmap_all sample_memory booted = Done (pm, s') \<and> execution_regions (pm_regions pm) = []"
proof -
  obtain r where r: "pd_ok {..< 1023} booted r" using booted_ok by blast
  have "\<forall>g \<in> set (execution_regions (pm_regions sample_memory)). pages_fit g \<and> rpages g \<subseteq> dir_pages {..< 1023}"
    by (auto simp: sample_memory_def start_heap_def regions_initial_def region_new_def pages_fit_def rpages_def
        page_of_def dir_pages_def)
  from unmap_all_correct [OF r this] show ?thesis by blast
qed

end
