(* ===== verification/BTree.thy ===== *)
theory BTree
  imports Prelude
begin

text \<open>
  The \<^verbatim>\<open>BTreeMap\<close> of the Rust standard library as far as the kernel uses it: insertion, lookup,
  removal, update through a mutable reference, and iteration in ascending key order.  A map is
  the list of its entries in that order.
\<close>

type_synonym ('k, 'v) btree = "('k \<times> 'v) list"

definition bt_get :: "('k, 'v) btree \<Rightarrow> 'k \<Rightarrow> 'v option" where
  "bt_get m k = map_of m k"

fun bt_insert :: "'k::linorder \<Rightarrow> 'v \<Rightarrow> ('k, 'v) btree \<Rightarrow> ('k, 'v) btree" where
  "bt_insert k v [] = [(k, v)]"
| "bt_insert k v ((a, b) # m) =
     (if k < a then (k, v) # (a, b) # m else if k = a then (k, v) # m else (a, b) # bt_insert k v m)"

definition bt_remove :: "'k \<Rightarrow> ('k, 'v) btree \<Rightarrow> ('k, 'v) btree" where
  "bt_remove k m = filter (\<lambda>(a, b). a \<noteq> k) m"

text \<open>Changing the value behind \<^verbatim>\<open>get_mut\<close>, and every value in an iteration.\<close>

definition bt_modify :: "'k \<Rightarrow> ('v \<Rightarrow> 'v) \<Rightarrow> ('k, 'v) btree \<Rightarrow> ('k, 'v) btree" where
  "bt_modify k f m = map (\<lambda>(a, b). (a, if a = k then f b else b)) m"

definition bt_map :: "('v \<Rightarrow> 'w) \<Rightarrow> ('k, 'v) btree \<Rightarrow> ('k, 'w) btree" where
  "bt_map f m = map (\<lambda>(a, b). (a, f b)) m"

definition bt_keys :: "('k, 'v) btree \<Rightarrow> 'k list" where
  "bt_keys m = map fst m"

definition bt_wf :: "('k::linorder, 'v) btree \<Rightarrow> bool" where
  "bt_wf m \<longleftrightarrow> sorted_wrt (<) (bt_keys m)"

section \<open>Laws\<close>

lemma bt_get_Nil [simp]: "bt_get [] k = None"
  by (simp add: bt_get_def)

lemma bt_wf_Nil [simp]: "bt_wf []"
  by (simp add: bt_wf_def bt_keys_def)

lemma bt_get_insert [simp]: "bt_get (bt_insert k v m) j = (if j = k then Some v else bt_get m j)"
  by (induction k v m rule: bt_insert.induct) (auto simp: bt_get_def)

lemma set_bt_keys_insert [simp]: "set (bt_keys (bt_insert k v m)) = insert k (set (bt_keys m))"
  by (induction k v m rule: bt_insert.induct) (auto simp: bt_keys_def)

lemma bt_wf_insert [simp]: "bt_wf m \<Longrightarrow> bt_wf (bt_insert k v m)"
proof (induction k v m rule: bt_insert.induct)
  case (2 k v a b m)
  then show ?case using set_bt_keys_insert [of k v m] by (auto simp: bt_wf_def bt_keys_def)
qed (simp add: bt_wf_def bt_keys_def)

lemma bt_get_remove [simp]: "bt_get (bt_remove k m) j = (if j = k then None else bt_get m j)"
  by (induction m) (auto simp: bt_get_def bt_remove_def)

lemma bt_wf_remove [simp]: "bt_wf m \<Longrightarrow> bt_wf (bt_remove k m)"
  by (induction m) (auto simp: bt_wf_def bt_keys_def bt_remove_def)

lemma bt_get_modify [simp]: "bt_get (bt_modify k f m) j = (if j = k then map_option f (bt_get m j) else bt_get m j)"
  by (induction m) (auto simp: bt_get_def bt_modify_def)

lemma bt_get_map [simp]: "bt_get (bt_map f m) j = map_option f (bt_get m j)"
  by (induction m) (auto simp: bt_get_def bt_map_def)

lemma length_bt_insert: "k \<notin> set (bt_keys m) \<Longrightarrow> length (bt_insert k v m) = Suc (length m)"
  by (induction k v m rule: bt_insert.induct) (auto simp: bt_keys_def)

lemma bt_modify_modify: "bt_modify k f (bt_modify k g m) = bt_modify k (f \<circ> g) m"
  by (induction m) (auto simp: bt_modify_def)

lemma bt_modify_absent: "k \<notin> set (bt_keys m) \<Longrightarrow> bt_modify k f m = m"
  by (induction m) (auto simp: bt_modify_def bt_keys_def)

lemma bt_keys_modify [simp]: "bt_keys (bt_modify k f m) = bt_keys m"
  by (induction m) (auto simp: bt_keys_def bt_modify_def)

lemma bt_keys_map [simp]: "bt_keys (bt_map f m) = bt_keys m"
  by (induction m) (auto simp: bt_keys_def bt_map_def)

lemma bt_wf_modify [simp]: "bt_wf (bt_modify k f m) = bt_wf m"
  by (simp add: bt_wf_def)

lemma bt_wf_map [simp]: "bt_wf (bt_map f m) = bt_wf m"
  by (simp add: bt_wf_def)

lemma bt_wf_distinct: "bt_wf m \<Longrightarrow> distinct (bt_keys m)"
  using strict_sorted_iff by (auto simp: bt_wf_def)

lemma bt_get_None_iff: "bt_get m k = None \<longleftrightarrow> k \<notin> set (bt_keys m)"
  by (simp add: bt_get_def bt_keys_def map_of_eq_None_iff)

lemma bt_get_mem: "bt_wf m \<Longrightarrow> bt_get m k = Some v \<longleftrightarrow> (k, v) \<in> set m"
  using bt_wf_distinct [of m] by (simp add: bt_get_def bt_keys_def)

lemma bt_get_key: "bt_get m k = Some v \<Longrightarrow> k \<in> set (bt_keys m)"
  using bt_get_None_iff [of m k] by simp

text \<open>A map is determined by what it answers.\<close>

lemma bt_eqI:
  assumes "bt_wf m" "bt_wf n" "\<And>k. bt_get m k = bt_get n k"
  shows "m = n"
proof -
  have inj: "inj_on fst (set m)" if "bt_wf m" for m :: "('a, 'b) btree"
    using bt_wf_distinct [OF that] by (simp add: bt_keys_def distinct_map)
  have "set m = set n" using assms bt_get_mem [of m] bt_get_mem [of n] by auto
  moreover have "distinct m" "distinct n" using assms bt_wf_distinct by (auto simp: bt_keys_def distinct_map)
  moreover have "sorted (map fst m)" "sorted (map fst n)"
    using assms by (auto simp: bt_wf_def bt_keys_def strict_sorted_iff)
  ultimately show ?thesis using inj [OF assms(1)] inj [OF assms(2)]
    by (intro map_sorted_distinct_set_unique [of fst]) (auto simp: distinct_map)
qed

section \<open>The interface of an ordered map\<close>

locale ordered_map =
  fixes wf :: "'m \<Rightarrow> bool" and look :: "'m \<Rightarrow> 'k::linorder \<Rightarrow> 'v option"
    and ins :: "'k \<Rightarrow> 'v \<Rightarrow> 'm \<Rightarrow> 'm" and del :: "'k \<Rightarrow> 'm \<Rightarrow> 'm" and empty :: 'm
  assumes wf_empty: "wf empty" and look_empty: "look empty k = None"
    and wf_ins: "wf m \<Longrightarrow> wf (ins k v m)" and look_ins: "look (ins k v m) j = (if j = k then Some v else look m j)"
    and wf_del: "wf m \<Longrightarrow> wf (del k m)" and look_del: "look (del k m) j = (if j = k then None else look m j)"
    and look_eq: "wf m \<Longrightarrow> wf n \<Longrightarrow> (\<And>k. look m k = look n k) \<Longrightarrow> m = n"
begin

lemma ins_ins: "wf m \<Longrightarrow> ins k v (ins k u m) = ins k v m"
  by (rule look_eq) (simp_all add: wf_ins look_ins)

lemma ins_commute: "wf m \<Longrightarrow> k \<noteq> j \<Longrightarrow> ins k v (ins j u m) = ins j u (ins k v m)"
  by (rule look_eq) (auto simp add: wf_ins look_ins)

lemma del_ins: "wf m \<Longrightarrow> look m k = None \<Longrightarrow> del k (ins k v m) = m"
  by (rule look_eq) (auto simp add: wf_ins wf_del look_ins look_del)

end

interpretation bt: ordered_map bt_wf bt_get bt_insert bt_remove "[]"
  by unfold_locales (auto intro: bt_eqI)

end
