(* ===== verification/Ports.thy ===== *)
theory Ports
  imports Prelude
begin

text \<open>
  Port input and output (\<^verbatim>\<open>x86/io.rs\<close>).  What a device answers is not part of the kernel: a bus is a
  parameter, two functions on the state of the hardware behind it.
\<close>

datatype port = Port u16

fun port_number :: "port \<Rightarrow> u16" where
  "port_number (Port n) = n"

record 'h bus =
  inb :: "u16 \<Rightarrow> 'h \<Rightarrow> u8 \<times> 'h"
  outb :: "u16 \<Rightarrow> u8 \<Rightarrow> 'h \<Rightarrow> 'h"

definition port_write_u8 :: "'h bus \<Rightarrow> port \<Rightarrow> u8 \<Rightarrow> 'h \<Rightarrow> 'h" where
  "port_write_u8 b p value h = outb b (port_number p) value h"

definition port_read_u8 :: "'h bus \<Rightarrow> port \<Rightarrow> 'h \<Rightarrow> u8 \<times> 'h" where
  "port_read_u8 b p h = inb b (port_number p) h"

section \<open>A bus that records what is written\<close>

text \<open>
  A concrete bus for the witnesses: writes are logged, and reads are answered from a list of
  bytes (0 when it is used up).
\<close>

record wire =
  written :: "(u16 \<times> u8) list"
  answers :: "u8 list"

definition logging_bus :: "wire bus" where
  "logging_bus = \<lparr>inb = (\<lambda>p w. case answers w of [] \<Rightarrow> (0, w) | x # xs \<Rightarrow> (x, w\<lparr>answers := xs\<rparr>)),
     outb = (\<lambda>p v w. w\<lparr>written := written w @ [(p, v)]\<rparr>)\<rparr>"

end
