(* ===== verification/TimeDate.thy ===== *)
theory TimeDate
  imports Ports
begin

text \<open>
  Time: \<^verbatim>\<open>time/timestamp.rs\<close>, \<^verbatim>\<open>time/date.rs\<close>, \<^verbatim>\<open>time/system.rs\<close> and the real-time
  clock of \<^verbatim>\<open>hardware/rtc.rs\<close>.

  The conversion of a timestamp to a date is proved equal to the Gregorian calendar until
  the end of February 2100, and the conversion back is shown to be one day late except
  after February of a leap year.
\<close>

section \<open>Timestamps\<close>

datatype timestamp = Timestamp u32
datatype timestamp_hires = TimestampHires u64

fun ts_u32 :: "timestamp \<Rightarrow> u32" where
  "ts_u32 (Timestamp t) = t"

fun hires_u64 :: "timestamp_hires \<Rightarrow> u64" where
  "hires_u64 (TimestampHires t) = t"

definition hires_set :: "u64 \<Rightarrow> timestamp_hires \<Rightarrow> timestamp_hires" where
  "hires_set val t = TimestampHires val"

definition hires_increment :: "u64 \<Rightarrow> timestamp_hires \<Rightarrow> timestamp_hires" where
  "hires_increment val t = TimestampHires (hires_u64 t + val)"

definition in_ms :: "timestamp_hires \<Rightarrow> u64" where
  "in_ms t = hires_u64 t div 10000"

definition in_seconds :: "timestamp_hires \<Rightarrow> u64" where
  "in_seconds t = hires_u64 t div 10000000"

definition to_timestamp :: "timestamp_hires \<Rightarrow> timestamp" where
  "to_timestamp t = Timestamp (ucast (in_seconds t))"

definition from_timestamp :: "timestamp \<Rightarrow> timestamp_hires" where
  "from_timestamp ts = TimestampHires (ucast (ts_u32 ts) * 10000000)"

definition hires_add :: "timestamp_hires \<Rightarrow> timestamp_hires \<Rightarrow> timestamp_hires" where
  "hires_add a b = TimestampHires (hires_u64 a + hires_u64 b)"

section \<open>Dates\<close>

record date =
  day :: u8
  month :: u8
  year :: u8

record time =
  hours :: u8
  minutes :: u8
  seconds :: u8

record datetime =
  dt_date :: date
  dt_time :: time

definition SECONDS_IN_DAY :: u32 where "SECONDS_IN_DAY = 60 * 60 * 24"

definition MONTH_START_OFFSET :: "u32 list" where
  "MONTH_START_OFFSET = [0, 31, 59, 90, 120, 151, 181, 212, 243, 273, 304, 334]"

definition year_offset_from_days :: "u32 \<Rightarrow> u32" where
  "year_offset_from_days days = (let hundredths = days * 100 in hundredths div 36525)"

definition to_days_with_remainder :: "timestamp \<Rightarrow> u32 \<times> u32" where
  "to_days_with_remainder t = (ts_u32 t div SECONDS_IN_DAY, ts_u32 t mod SECONDS_IN_DAY)"

text \<open>The loop that finds the month; \<open>month\<close> is an array index.\<close>

function month_loop :: "u32 \<Rightarrow> u32 \<Rightarrow> nat \<Rightarrow> u32 \<Rightarrow> nat \<times> u32" where
  "month_loop year_days year_offset m leap =
     (if m < 12 \<and> MONTH_START_OFFSET ! m + leap \<le> year_days
      then month_loop year_days year_offset (Suc m)
             (if Suc m = 2 \<and> year_offset mod 4 = 0 then 1 else leap)
      else (m, leap))"
  by auto
termination by (relation "measure (\<lambda>(d, y, m, l). 12 - m)") auto

declare month_loop.simps [simp del]

definition to_datetime :: "timestamp \<Rightarrow> datetime outcome" where
  "to_datetime t =
     (let (days, raw_time) = to_days_with_remainder t;
          year_offset = year_offset_from_days days;
          quadrennial_days = days mod (365 + 365 + 365 + 366);
          year_days = (if quadrennial_days > 365 then (quadrennial_days - 366) mod 365 else quadrennial_days);
          (m, leap) = month_loop year_days year_offset 0 0
      in obind (if m = 0 then Panic else vec_get MONTH_START_OFFSET (m - 1)) (\<lambda>start.
         let d = year_days + 1 - start;
             d = (if m > 2 then d - leap else d);
             total_minutes = raw_time div 60
         in Done \<lparr>dt_date = \<lparr>day = ucast d, month = of_nat m, year = ucast year_offset\<rparr>,
                  dt_time = \<lparr>hours = ucast (total_minutes div 60), minutes = ucast (total_minutes mod 60),
                             seconds = ucast (raw_time mod 60)\<rparr>\<rparr>))"

definition from_datetime :: "datetime \<Rightarrow> timestamp outcome" where
  "from_datetime dt =
     (let y = ucast (year (dt_date dt)) :: u32;
          quadrennials = y div 4;
          year_remainder = y mod 4;
          days = quadrennials * (366 + 365 + 365 + 365) + year_remainder * 365;
          days = (if year_remainder > 0 then days + 1 else days)
      in obind (vec_get MONTH_START_OFFSET (unat (ucast (month (dt_date dt)) - 1 :: usize))) (\<lambda>start.
         let days = days + start + ucast (day (dt_date dt));
             tm = dt_time dt
         in Done (Timestamp (days * SECONDS_IN_DAY + ucast (hours tm) * 60 * 60
                             + ucast (minutes tm) * 60 + ucast (seconds tm)))))"

section \<open>The real-time clock\<close>

record rtc =
  rtc_command :: port
  rtc_data :: port

record rtc_time =
  rt_seconds :: u8
  rt_minutes :: u8
  rt_hours :: u8
  rt_day :: u8
  rt_month :: u8
  rt_year :: u8

definition rtc_to_datetime :: "rtc_time \<Rightarrow> datetime" where
  "rtc_to_datetime t =
     \<lparr>dt_date = \<lparr>day = rt_day t, month = rt_month t, year = rt_year t + 20\<rparr>,
      dt_time = \<lparr>hours = rt_hours t, minutes = rt_minutes t, seconds = rt_seconds t\<rparr>\<rparr>"

definition convert_bcd :: "u8 \<Rightarrow> u8" where
  "convert_bcd bcd = (let tens = drop_bit 4 bcd; ones = bcd AND 0xf in tens * 10 + ones)"

definition rtc_new :: rtc where
  "rtc_new = \<lparr>rtc_command = Port 0x70, rtc_data = Port 0x71\<rparr>"

definition read_register :: "'h bus \<Rightarrow> rtc \<Rightarrow> u8 \<Rightarrow> 'h \<Rightarrow> u8 \<times> 'h" where
  "read_register b r index h = port_read_u8 b (rtc_data r) (port_write_u8 b (rtc_command r) index h)"

text \<open>The 12-hour clock: bit 7 marks the afternoon.\<close>

definition from_12_hour :: "(u8 \<Rightarrow> u8) \<Rightarrow> u8 \<Rightarrow> u8" where
  "from_12_hour conv hrs =
     (let pm = hrs AND 0x80 \<noteq> 0;
          hrs' = conv (hrs AND 0x7f) mod 12
      in if pm then hrs' + 12 else hrs')"

definition read_time :: "'h bus \<Rightarrow> rtc \<Rightarrow> 'h \<Rightarrow> rtc_time \<times> 'h" where
  "read_time b r h =
     (let (c, h) = port_read_u8 b (rtc_command r) h;
          nmi = c AND 0x80;
          (reg_b, h) = read_register b r (nmi OR 0x0b) h;
          use_24_hour = (reg_b AND 2 = 2);
          use_bcd = (reg_b AND 4 = 0);
          (s, h) = read_register b r (nmi OR 0) h;
          (mi, h) = read_register b r (nmi OR 0x02) h;
          (hr, h) = read_register b r (nmi OR 0x04) h;
          (d, h) = read_register b r (nmi OR 0x07) h;
          (mo, h) = read_register b r (nmi OR 0x08) h;
          (y, h) = read_register b r (nmi OR 0x09) h
      in (if use_bcd
          then \<lparr>rt_seconds = convert_bcd s, rt_minutes = convert_bcd mi,
                rt_hours = (if use_24_hour then hr else from_12_hour convert_bcd hr),
                rt_day = convert_bcd d, rt_month = convert_bcd mo, rt_year = convert_bcd y\<rparr>
          else \<lparr>rt_seconds = s, rt_minutes = mi,
                rt_hours = (if use_24_hour then hr else from_12_hour id hr),
                rt_day = d, rt_month = mo, rt_year = y\<rparr>, h))"

section \<open>System time\<close>

definition HUNDRED_NS_PER_TICK :: u64 where "HUNDRED_NS_PER_TICK = 100002"
definition MS_PER_TICK :: usize where "MS_PER_TICK = ucast (HUNDRED_NS_PER_TICK div 10000)"

text \<open>The two globals, and the interrupt flag each access saves, clears and restores.\<close>

record clock =
  KNOWN_TIME :: timestamp_hires
  TIME_OFFSET :: timestamp_hires
  int_enabled :: bool

definition without_interrupts :: "(clock \<Rightarrow> 'a \<times> clock) \<Rightarrow> clock \<Rightarrow> 'a \<times> clock" where
  "without_interrupts f c =
     (let int_reenable = int_enabled c;
          (x, c) = f (c\<lparr>int_enabled := False\<rparr>)
      in (x, if int_reenable then c\<lparr>int_enabled := True\<rparr> else c))"

definition reset_known_time :: "u64 \<Rightarrow> clock \<Rightarrow> clock" where
  "reset_known_time t c =
     snd (without_interrupts (\<lambda>c. ((), c\<lparr>KNOWN_TIME := hires_set t (KNOWN_TIME c),
                                        TIME_OFFSET := hires_set 0 (TIME_OFFSET c)\<rparr>)) c)"

definition get_system_time :: "clock \<Rightarrow> timestamp_hires \<times> clock" where
  "get_system_time c =
     (let ((known, off), c) = without_interrupts (\<lambda>c. ((KNOWN_TIME c, TIME_OFFSET c), c)) c
      in (hires_add known off, c))"

definition get_offset_seconds :: "clock \<Rightarrow> u64 \<times> clock" where
  "get_offset_seconds c = without_interrupts (\<lambda>c. (in_seconds (TIME_OFFSET c), c)) c"

definition increment_offset :: "u64 \<Rightarrow> clock \<Rightarrow> clock" where
  "increment_offset delta c =
     snd (without_interrupts (\<lambda>c. ((), c\<lparr>TIME_OFFSET := hires_increment delta (TIME_OFFSET c)\<rparr>)) c)"

definition initialize_from_rtc :: "'h bus \<Rightarrow> 'h \<Rightarrow> clock \<Rightarrow> (clock \<times> 'h) outcome" where
  "initialize_from_rtc b h c =
     (let (cmos_time, h) = read_time b rtc_new h
      in obind (from_datetime (rtc_to_datetime cmos_time)) (\<lambda>ts.
           Done (reset_known_time (hires_u64 (from_timestamp ts)) c, h)))"

section \<open>The Gregorian calendar\<close>

definition leap_year :: "nat \<Rightarrow> bool" where
  "leap_year y \<longleftrightarrow> 4 dvd y \<and> (100 dvd y \<longrightarrow> 400 dvd y)"

definition days_in_month :: "nat \<Rightarrow> nat \<Rightarrow> nat" where
  "days_in_month y m = (if m = 2 then if leap_year y then 29 else 28 else if m \<in> {4, 6, 9, 11} then 30 else 31)"

definition days_before_year :: "nat \<Rightarrow> nat" where
  "days_before_year y = sum_list (map (\<lambda>k. if leap_year k then 366 else 365) [1980 ..< y])"

definition days_before_month :: "nat \<Rightarrow> nat \<Rightarrow> nat" where
  "days_before_month y m = sum_list (map (days_in_month y) [1 ..< m])"

definition civil_year :: "datetime \<Rightarrow> nat" where
  "civil_year dt = 1980 + unat (year (dt_date dt))"

definition valid_datetime :: "datetime \<Rightarrow> bool" where
  "valid_datetime dt \<longleftrightarrow> unat (month (dt_date dt)) \<in> {1 .. 12}
     \<and> unat (day (dt_date dt)) \<in> {1 .. days_in_month (civil_year dt) (unat (month (dt_date dt)))}
     \<and> unat (hours (dt_time dt)) < 24 \<and> unat (minutes (dt_time dt)) < 60 \<and> unat (seconds (dt_time dt)) < 60"

definition civil_seconds :: "datetime \<Rightarrow> nat" where
  "civil_seconds dt =
     86400 * (days_before_year (civil_year dt) + days_before_month (civil_year dt) (unat (month (dt_date dt)))
              + unat (day (dt_date dt)) - 1)
     + 3600 * unat (hours (dt_time dt)) + 60 * unat (minutes (dt_time dt)) + unat (seconds (dt_time dt))"

lemma leap_year_1980:
  assumes "n < 120"
  shows "leap_year (1980 + n) \<longleftrightarrow> n mod 4 = 0"
proof -
  have "n = 20" if "100 dvd 1980 + n"
  proof -
    obtain k where "1980 + n = 100 * k" using \<open>100 dvd 1980 + n\<close> ..
    then have "k = 20" using assms by simp
    then show ?thesis using \<open>1980 + n = 100 * k\<close> by simp
  qed
  then have "400 dvd 1980 + n" if "100 dvd 1980 + n" using that by fastforce
  moreover have "4 dvd 1980 + n \<longleftrightarrow> n mod 4 = 0" by presburger
  ultimately show ?thesis unfolding leap_year_def by argo
qed

lemma days_before_year_1980:
  assumes "n \<le> 120"
  shows "days_before_year (1980 + n) = 1461 * (n div 4) + 365 * (n mod 4) + (if n mod 4 = 0 then 0 else 1)"
  using assms
proof (induction n)
  case (Suc n)
  have "days_before_year (1980 + Suc n) = days_before_year (1980 + n) + (if n mod 4 = 0 then 366 else 365)"
    using leap_year_1980 [of n] Suc.prems upt_Suc_append [of 1980 "1980 + n"] by (simp add: days_before_year_def)
  moreover have "Suc n div 4 = (if n mod 4 = 3 then Suc (n div 4) else n div 4)"
    "Suc n mod 4 = (if n mod 4 = 3 then 0 else Suc (n mod 4))"
    by (simp_all add: div_Suc mod_Suc)
  ultimately show ?case using Suc by auto
qed (simp add: days_before_year_def)

section \<open>Timestamp to date\<close>

definition leap_at :: "bool \<Rightarrow> nat \<Rightarrow> nat" where
  "leap_at L m = (if 2 \<le> m \<and> L then 1 else 0)"

definition month_start :: "nat \<Rightarrow> nat" where
  "month_start m = [0, 31, 59, 90, 120, 151, 181, 212, 243, 273, 304, 334, 365] ! m"

lemma month_start_word: "m < 12 \<Longrightarrow> MONTH_START_OFFSET ! m = of_nat (month_start m)"
proof -
  assume "m < 12"
  then have "m \<in> set [0 ..< 12]" by simp
  moreover have "\<forall>m \<in> set [0 ..< 12]. MONTH_START_OFFSET ! m = of_nat (month_start m)" by code_simp
  ultimately show ?thesis by blast
qed

lemma month_start_bound: "m < 12 \<Longrightarrow> month_start m \<le> 334"
proof -
  assume "m < 12"
  then have "m \<in> set [0 ..< 12]" by simp
  moreover have "\<forall>m \<in> set [0 ..< 12]. month_start m \<le> 334" by code_simp
  ultimately show ?thesis by blast
qed

lemma month_loop_spec:
  assumes "m \<le> 12" "yd < 366" "l = of_nat (leap_at L m)" "(yo mod 4 = 0) = L"
  shows "\<exists>m'. month_loop (of_nat yd) yo m l = (m', of_nat (leap_at L m')) \<and> m \<le> m' \<and> m' \<le> 12
    \<and> (\<forall>j. m \<le> j \<longrightarrow> j < m' \<longrightarrow> month_start j + leap_at L j \<le> yd)
    \<and> (m' < 12 \<longrightarrow> yd < month_start m' + leap_at L m')"
  using assms
proof (induction "12 - m" arbitrary: m l)
  case 0
  then have "m = 12" by simp
  then show ?case using 0 by (subst month_loop.simps) simp
next
  case (Suc n)
  then have m: "m < 12" by simp
  have cmp: "MONTH_START_OFFSET ! m + l \<le> of_nat yd \<longleftrightarrow> month_start m + leap_at L m \<le> yd"
  proof -
    have eq: "MONTH_START_OFFSET ! m + l = of_nat (month_start m + leap_at L m)" using m Suc.prems by (simp add: month_start_word)
    have "month_start m + leap_at L m < 4294967296" using month_start_bound [OF m] by (simp add: leap_at_def)
    moreover have "unat (of_nat yd :: u32) = yd" using Suc.prems(2) by (intro unat_of_nat32) simp
    ultimately show ?thesis unfolding eq word_le_nat_alt by (simp only: unat_of_nat32)
  qed
  show ?case
  proof (cases "month_start m + leap_at L m \<le> yd")
    case True
    let ?l = "if Suc m = 2 \<and> yo mod 4 = 0 then 1 else l"
    have "?l = of_nat (leap_at L (Suc m))" using Suc.prems(3,4) by (auto simp: leap_at_def)
    have n: "n = 12 - Suc m" "Suc m \<le> 12" using Suc.hyps(2) m by simp_all
    from Suc.hyps(1) [OF n Suc.prems(2) \<open>?l = of_nat (leap_at L (Suc m))\<close> Suc.prems(4)] obtain m' where
      m': "month_loop (of_nat yd) yo (Suc m) ?l = (m', of_nat (leap_at L m'))" "Suc m \<le> m'" "m' \<le> 12"
        "\<forall>j. Suc m \<le> j \<longrightarrow> j < m' \<longrightarrow> month_start j + leap_at L j \<le> yd" "m' < 12 \<longrightarrow> yd < month_start m' + leap_at L m'"
      by blast
    have "month_loop (of_nat yd) yo m l = (m', of_nat (leap_at L m'))"
      using m'(1) True m cmp by (subst month_loop.simps) simp
    moreover have "month_start j + leap_at L j \<le> yd" if "m \<le> j" "j < m'" for j
      using m'(4) True that by (cases "j = m") auto
    ultimately show ?thesis using m' by (intro exI [of _ m']) auto
  next
    case False
    then show ?thesis using cmp m Suc.prems by (subst month_loop.simps) (auto intro!: exI [of _ m])
  qed
qed

text \<open>The month found is the one of the calendar.\<close>

lemma month_of_year:
  assumes yd: "yd < (if L then 366 else 365)" and yo: "(yo mod 4 = 0) = L"
  shows "\<exists>m d. month_loop (of_nat yd) yo 0 0 = (m, of_nat (leap_at L m)) \<and> m \<in> {1 .. 12}
    \<and> d \<in> {1 .. (if m = 2 \<and> L then 29 else month_start m - month_start (m - 1))}
    \<and> yd + 1 = month_start (m - 1) + (if m > 2 \<and> L then 1 else 0) + d"
proof -
  have "yd < 366" "0 = (of_nat (leap_at L 0) :: u32)" using yd by (auto simp: leap_at_def split: if_splits)
  from month_loop_spec [OF _ this yo] obtain m where
    m: "month_loop (of_nat yd) yo 0 0 = (m, of_nat (leap_at L m))" "m \<le> 12"
      "\<forall>j. j < m \<longrightarrow> month_start j + leap_at L j \<le> yd" "m < 12 \<longrightarrow> yd < month_start m + leap_at L m"
    by auto
  have "m \<noteq> 0"
  proof
    assume "m = 0"
    then show False using m(4) by (simp add: leap_at_def month_start_def)
  qed
  then have "m \<in> {1 .. 12}" using m(2) by simp
  define d where "d = yd + 1 - month_start (m - 1) - (if m > 2 \<and> L then 1 else 0)"
  have lo: "month_start (m - 1) + leap_at L (m - 1) \<le> yd" using m(3) \<open>m \<noteq> 0\<close> by simp
  have hi: "m < 12 \<longrightarrow> yd < month_start m + leap_at L m" by (rule m(4))
  have "m \<in> {1, 2, 3, 4, 5, 6, 7, 8, 9, 10, 11, 12}" using \<open>m \<in> {1 .. 12}\<close> by simp presburger
  then have "d \<in> {1 .. (if m = 2 \<and> L then 29 else month_start m - month_start (m - 1))}
    \<and> yd + 1 = month_start (m - 1) + (if m > 2 \<and> L then 1 else 0) + d"
    using lo hi yd by (elim insertE emptyE; cases L) (simp_all add: d_def month_start_def leap_at_def, linarith+)
  then show ?thesis using m(1) \<open>m \<in> {1 .. 12}\<close> by blast
qed

text \<open>Four years of 1461 days: the year within them and the day within the year.\<close>

lemma quadrennium:
  assumes "q < 1461"
  shows "\<exists>y yd. y < 4 \<and> (100 * q) div 36525 = y \<and> q = 365 * y + (if y = 0 then 0 else 1) + yd
    \<and> yd < (if y = 0 then 366 else 365) \<and> (if q > 365 then (q - 366) mod 365 else q) = (yd :: nat)"
proof -
  consider "q \<le> 365" | yd where "q = 366 + yd" "yd < 365" | yd where "q = 731 + yd" "yd < 365" | yd where "q = 1096 + yd" "yd < 365"
  proof -
    assume h: "q \<le> 365 \<Longrightarrow> thesis" "\<And>yd. q = 366 + yd \<Longrightarrow> yd < 365 \<Longrightarrow> thesis"
      "\<And>yd. q = 731 + yd \<Longrightarrow> yd < 365 \<Longrightarrow> thesis" "\<And>yd. q = 1096 + yd \<Longrightarrow> yd < 365 \<Longrightarrow> thesis"
    show thesis using h(1) h(2) [of "q - 366"] h(3) [of "q - 731"] h(4) [of "q - 1096"] assms by linarith
  qed
  then show ?thesis
  proof cases
    case 1
    then show ?thesis by (intro exI [of _ 0] exI [of _ q]) simp
  next
    case (2 yd)
    have "100 * q div 36525 = 1" using 2 by (intro div_nat_eqI) simp_all
    then show ?thesis using 2 by (intro exI [of _ 1] exI [of _ yd]) simp
  next
    case (3 yd)
    have "100 * q div 36525 = 2" using 3 by (intro div_nat_eqI) simp_all
    moreover have "q - 366 = yd + 365" using 3 by simp
    ultimately show ?thesis using 3 by (intro exI [of _ 2] exI [of _ yd]) simp
  next
    case (4 yd)
    have "100 * q div 36525 = 3" using 4 by (intro div_nat_eqI) simp_all
    moreover have "q - 366 = yd + 365 * 2" using 4 by simp
    then have "(q - 366) mod 365 = yd" using 4 by (simp only: mod_mult_self2) simp
    ultimately show ?thesis using 4 by (intro exI [of _ 3] exI [of _ yd]) simp
  qed
qed

lemma year_of_days:
  "\<exists>n yd. (100 * D) div 36525 = n \<and> D = 1461 * (n div 4) + 365 * (n mod 4) + (if n mod 4 = 0 then 0 else 1) + yd
    \<and> yd < (if n mod 4 = 0 then 366 else 365)
    \<and> (if D mod 1461 > 365 then (D mod 1461 - 366) mod 365 else D mod 1461) = (yd :: nat)"
proof -
  define k where "k = D div 1461"
  define q where "q = D mod 1461"
  have q: "q < 1461" by (simp add: q_def)
  have D: "D = 1461 * k + q" by (simp add: k_def q_def)
  from quadrennium [OF q] obtain y yd where
    y: "y < 4" "(100 * q) div 36525 = y" "q = 365 * y + (if y = 0 then 0 else 1) + yd" "yd < (if y = 0 then 366 else 365)"
      "(if q > 365 then (q - 366) mod 365 else q) = yd" by blast
  have "100 * D = 100 * q + 36525 * (4 * k)" by (simp add: D)
  then have "(100 * D) div 36525 = 4 * k + y" using y(2) by simp
  moreover have "(4 * k + y) div 4 = k" "(4 * k + y) mod 4 = y" using y(1) by simp_all
  ultimately show ?thesis using y D unfolding q_def [symmetric] by (intro exI [of _ "4 * k + y"] exI [of _ yd]) simp
qed

lemma unat_ucast8: "unat (ucast (w :: u32) :: u8) = unat w mod 256"
  by (simp add: unsigned_ucast_eq take_bit_eq_mod)

lemma ucast_of_nat8: "n < 4294967296 \<Longrightarrow> (ucast (of_nat n :: u32) :: u8) = of_nat n"
  by (simp add: word_unat_eq_iff unat_ucast8 unat_of_nat unat_of_nat32)

text \<open>\<^verbatim>\<open>to_datetime\<close> computed on natural numbers.\<close>

lemma to_datetime_eq:
  fixes t :: timestamp
  defines "T \<equiv> unat (ts_u32 t)"
  shows "\<exists>n yd m d. to_datetime t = Done
      \<lparr>dt_date = \<lparr>day = of_nat d, month = of_nat m, year = of_nat n\<rparr>,
       dt_time = \<lparr>hours = of_nat (T mod 86400 div 3600), minutes = of_nat (T mod 86400 div 60 mod 60),
                  seconds = of_nat (T mod 86400 mod 60)\<rparr>\<rparr>
    \<and> T div 86400 = 1461 * (n div 4) + 365 * (n mod 4) + (if n mod 4 = 0 then 0 else 1) + yd
    \<and> m \<in> {1 .. 12} \<and> d \<in> {1 .. (if m = 2 \<and> n mod 4 = 0 then 29 else month_start m - month_start (m - 1))}
    \<and> yd + 1 = month_start (m - 1) + (if m > 2 \<and> n mod 4 = 0 then 1 else 0) + d \<and> n < 137"
proof -
  define D where "D = T div 86400"
  define R where "R = T mod 86400"
  have T: "T < 4294967296" using unat_lt32 by (simp add: T_def)
  then have D: "D < 49711" by (simp add: D_def div_less_iff_less_mult)
  have R: "R < 86400" by (simp add: R_def)
  have days: "ts_u32 t div SECONDS_IN_DAY = of_nat D" "ts_u32 t mod SECONDS_IN_DAY = of_nat R"
    using D R by (simp_all add: word_unat_eq_iff unat_div unat_mod SECONDS_IN_DAY_def unat_of_nat32 D_def R_def T_def)
  from year_of_days [of D] obtain n yd where
    n: "(100 * D) div 36525 = n" "D = 1461 * (n div 4) + 365 * (n mod 4) + (if n mod 4 = 0 then 0 else 1) + yd"
      "yd < (if n mod 4 = 0 then 366 else 365)" "(if D mod 1461 > 365 then (D mod 1461 - 366) mod 365 else D mod 1461) = yd" by blast
  have n137: "n < 137" using n(1) D by (auto simp: div_less_iff_less_mult)
  have year: "year_offset_from_days (of_nat D) = of_nat n"
  proof -
    have "unat (of_nat D * 100 :: u32) = 100 * D" using D by (simp add: unat_word_ariths unat_of_nat32)
    then show ?thesis using n137 n(1) by (simp add: year_offset_from_days_def word_unat_eq_iff unat_div unat_of_nat32)
  qed
  have L: "((of_nat n :: u32) mod 4 = 0) = (n mod 4 = 0)"
    using n137 by (simp add: word_unat_eq_iff unat_mod unat_of_nat32)
  define Q where "Q = D mod 1461"
  have Q: "Q < 1461" by (simp add: Q_def)
  have qw: "(of_nat D :: u32) mod 1461 = of_nat Q" using D Q by (simp add: word_unat_eq_iff unat_mod unat_of_nat32 Q_def)
  have yd: "(if (of_nat Q :: u32) > 365 then (of_nat Q - 366) mod 365 else of_nat Q) = (of_nat yd :: u32)"
  proof (cases "Q > 365")
    case True
    then have "unat (of_nat Q - 366 :: u32) = Q - 366" using Q by (subst unat_sub_le) (simp_all add: unat_of_nat32)
    moreover have "(of_nat Q :: u32) > 365" using True Q by (simp add: word_less_nat_alt unat_of_nat32)
    moreover have "yd < 365" using n(4) True by (auto simp: Q_def [symmetric])
    ultimately show ?thesis using n(4) True by (simp add: word_unat_eq_iff unat_mod unat_of_nat32 Q_def [symmetric])
  next
    case False
    then have "\<not> (of_nat Q :: u32) > 365" using Q by (simp add: word_less_nat_alt unat_of_nat32)
    then show ?thesis using n(4) False by (simp add: Q_def [symmetric])
  qed
  from month_of_year [OF n(3) L] obtain m d where
    m: "month_loop (of_nat yd) (of_nat n) 0 0 = (m, of_nat (leap_at (n mod 4 = 0) m))" "m \<in> {1 .. 12}"
      "d \<in> {1 .. (if m = 2 \<and> n mod 4 = 0 then 29 else month_start m - month_start (m - 1))}"
      "yd + 1 = month_start (m - 1) + (if m > 2 \<and> n mod 4 = 0 then 1 else 0) + d" by blast
  have len: "length MONTH_START_OFFSET = 12" by (simp add: MONTH_START_OFFSET_def)
  have start: "vec_get MONTH_START_OFFSET (m - 1) = Done (of_nat (month_start (m - 1)))"
    using m(2) len month_start_word [of "m - 1"] by (subst vec_get_ok) auto
  have d: "(let d = of_nat yd + 1 - of_nat (month_start (m - 1)) in if m > 2 then d - of_nat (leap_at (n mod 4 = 0) m) else d)
      = (of_nat d :: u32)"
  proof -
    have "(of_nat yd + 1 :: u32) = of_nat (month_start (m - 1)) + of_nat (if m > 2 \<and> n mod 4 = 0 then 1 else 0) + of_nat d"
      using arg_cong [OF m(4), of "of_nat :: nat \<Rightarrow> u32"]
      by (cases "m > 2 \<and> n mod 4 = 0") (simp_all add: add.commute)
    then show ?thesis unfolding Let_def by (cases "m > 2 \<and> n mod 4 = 0") (auto simp: leap_at_def)
  qed
  have tm: "(of_nat R :: u32) div 60 div 60 = of_nat (R div 3600)" "(of_nat R :: u32) div 60 mod 60 = of_nat (R div 60 mod 60)"
    "(of_nat R :: u32) mod 60 = of_nat (R mod 60)"
    using R by (simp_all add: word_unat_eq_iff unat_div unat_mod unat_of_nat32 div_mult2_eq [symmetric])
  have d32: "d < 4294967296" using m(4) n(3) by (auto split: if_splits)
  have c: "(365 + 365 + 365 + 366 :: u32) = 1461" by simp
  have "to_datetime t = Done
      \<lparr>dt_date = \<lparr>day = ucast (of_nat d :: u32), month = of_nat m, year = ucast (of_nat n :: u32)\<rparr>,
       dt_time = \<lparr>hours = ucast (of_nat (R div 3600) :: u32), minutes = ucast (of_nat (R div 60 mod 60) :: u32),
                  seconds = ucast (of_nat (R mod 60) :: u32)\<rparr>\<rparr>"
    unfolding to_datetime_def to_days_with_remainder_def days Let_def prod.case year c qw yd m(1)
    using m(2) start d tm by (simp add: Let_def)
  then show ?thesis using n(2) m(2,3,4) n137 R d32
    unfolding D_def [symmetric] R_def [symmetric]
    by (intro exI [of _ n] exI [of _ yd] exI [of _ m] exI [of _ d]) (simp add: ucast_of_nat8)
qed

section \<open>Properties\<close>

lemma days_before_month_eq:
  assumes "m \<in> {1 .. 12}" "leap_year y = L \<or> m \<le> 2"
  shows "days_before_month y m = month_start (m - 1) + (if m > 2 \<and> L then 1 else 0)"
proof -
  have "m \<in> {1, 2, 3, 4, 5, 6, 7, 8, 9, 10, 11, 12}" using assms(1) by simp presburger
  then show ?thesis using assms(2)
    by (elim insertE emptyE; cases L) (simp_all add: days_before_month_def days_in_month_def month_start_def upt_rec)
qed

lemma days_in_month_eq:
  assumes "m \<in> {1 .. 12}" "leap_year y = L \<or> m \<noteq> 2"
  shows "days_in_month y m = (if m = 2 \<and> L then 29 else month_start m - month_start (m - 1))"
proof -
  have "m \<in> {1, 2, 3, 4, 5, 6, 7, 8, 9, 10, 11, 12}" using assms(1) by simp presburger
  then show ?thesis using assms(2) by (elim insertE emptyE; cases L) (simp_all add: days_in_month_def month_start_def)
qed

lemma seconds_of_day:
  "86400 * (T div 86400) + 3600 * (T mod 86400 div 3600) + 60 * (T mod 86400 div 60 mod 60) + T mod 86400 mod 60 = (T :: nat)"
proof -
  define R where "R = T mod 86400"
  have "R div 60 = 60 * (R div 3600) + R div 60 mod 60" using mult_div_mod_eq [of 60 "R div 60"] by (simp add: div_mult2_eq [symmetric])
  moreover have "R = 60 * (R div 60) + R mod 60" by simp
  moreover have "T = 86400 * (T div 86400) + R" by (simp add: R_def)
  ultimately show ?thesis unfolding R_def [symmetric] by linarith
qed

text \<open>Days and months of the conversion: no month has more than 31 days, and 1 March is day 59 of a year.\<close>

lemma month_start_facts:
  assumes "m \<in> {1 .. 12}"
  shows "month_start m - month_start (m - 1) \<le> 31" and "2 < m \<Longrightarrow> 59 \<le> month_start (m - 1)"
proof -
  have "m \<in> {1, 2, 3, 4, 5, 6, 7, 8, 9, 10, 11, 12}" using assms by simp presburger
  then show "month_start m - month_start (m - 1) \<le> 31" "2 < m \<Longrightarrow> 59 \<le> month_start (m - 1)"
    by (auto simp: month_start_def)
qed

lemma before_march:
  assumes "m \<in> {1 .. 12}" "1 \<le> d" "yd < 59" "yd + 1 = month_start (m - 1) + (if m > 2 \<and> l then 1 else 0) + d"
  shows "m \<le> 2 \<and> (m = 2 \<longrightarrow> d \<le> 28)"
proof -
  have "month_start (2 - 1) = 31" by (simp add: month_start_def)
  then show ?thesis using assms month_start_facts(2) [OF assms(1)] by (cases "m > 2") (auto split: if_splits)
qed

lemma date_bytes:
  assumes "m \<in> {1 .. 12}" "d \<in> {1 .. (if m = 2 \<and> l then 29 else month_start m - month_start (m - 1))}" "n < 137"
  shows "unat (of_nat d :: u8) = d" "unat (of_nat m :: u8) = m" "unat (of_nat n :: u8) = n"
proof -
  have "d \<le> 31" using assms(2) month_start_facts(1) [OF assms(1)] by (auto split: if_splits)
  then show "unat (of_nat d :: u8) = d" "unat (of_nat m :: u8) = m" "unat (of_nat n :: u8) = n"
    using assms by (simp_all add: unat_of_nat)
qed

lemma time_bytes:
  fixes T :: nat
  shows "T mod 86400 div 3600 < 24"
    and "unat (of_nat (T mod 86400 div 3600) :: u8) = T mod 86400 div 3600"
    and "unat (of_nat (T mod 86400 div 60 mod 60) :: u8) = T mod 86400 div 60 mod 60"
    and "unat (of_nat (T mod 86400 mod 60) :: u8) = T mod 86400 mod 60"
proof -
  show h: "T mod 86400 div 3600 < 24" by (simp add: div_less_iff_less_mult)
  show "unat (of_nat (T mod 86400 div 3600) :: u8) = T mod 86400 div 3600" using h by (simp add: unat_of_nat)
qed (simp_all add: unat_of_nat mod_less_eq_dividend order.strict_trans2 [OF pos_mod_bound])

lemma month_start_get:
  assumes "m \<in> {1 .. 12}"
  shows "unat (of_nat m - 1 :: u32) = m - 1"
    and "vec_get MONTH_START_OFFSET (m - 1) = Done (of_nat (month_start (m - 1)))"
proof -
  show "unat (of_nat m - 1 :: u32) = m - 1" using assms by (subst unat_sub_le) (simp_all add: unat_of_nat32)
  have "length MONTH_START_OFFSET = 12" by (simp add: MONTH_START_OFFSET_def)
  then show "vec_get MONTH_START_OFFSET (m - 1) = Done (of_nat (month_start (m - 1)))"
    using assms month_start_word [of "m - 1"] by (subst vec_get_ok) auto
qed

lemma ucast_byte: "k < 256 \<Longrightarrow> ucast (of_nat k :: u8) = (of_nat k :: u32)"
  by (simp add: word_unat_eq_iff unsigned_ucast_eq unat_of_nat take_bit_eq_mod)

lemma year_quads:
  assumes "n < 120"
  shows "(of_nat n :: u32) div 4 = of_nat (n div 4)" "(of_nat n :: u32) mod 4 = of_nat (n mod 4)"
    "((of_nat (n mod 4) :: u32) > 0) = (n mod 4 \<noteq> 0)"
  using assms by (simp_all add: word_unat_eq_iff word_less_nat_alt unat_div unat_mod unat_of_nat32)

text \<open>C15: \<^verbatim>\<open>to_datetime\<close> is the Gregorian calendar.  For every timestamp before 1 March 2100 it returns a valid
  date and time of day, and counting years, months and days of the calendar from 1 January 1980 up to that date gives the
  timestamp back.\<close>

theorem to_datetime_is_gregorian:
  assumes "unat (ts_u32 t) < 43889 * 86400"
  shows "\<exists>dt. to_datetime t = Done dt \<and> valid_datetime dt \<and> civil_seconds dt = unat (ts_u32 t)"
proof -
  define T where "T = unat (ts_u32 t)"
  from to_datetime_eq [of t] obtain n yd m d where
    dt: "to_datetime t = Done
      \<lparr>dt_date = \<lparr>day = of_nat d, month = of_nat m, year = of_nat n\<rparr>,
       dt_time = \<lparr>hours = of_nat (T mod 86400 div 3600), minutes = of_nat (T mod 86400 div 60 mod 60),
                  seconds = of_nat (T mod 86400 mod 60)\<rparr>\<rparr>" (is "_ = Done ?dt")
    and D: "T div 86400 = 1461 * (n div 4) + 365 * (n mod 4) + (if n mod 4 = 0 then 0 else 1) + yd"
    and m: "m \<in> {1 .. 12}" and d: "d \<in> {1 .. (if m = 2 \<and> n mod 4 = 0 then 29 else month_start m - month_start (m - 1))}"
    and yd: "yd + 1 = month_start (m - 1) + (if m > 2 \<and> n mod 4 = 0 then 1 else 0) + d" and n: "n < 137"
    unfolding T_def by blast
  have "T div 86400 < 43889" using assms by (simp add: T_def div_less_iff_less_mult)
  then have "1461 * (n div 4) + 365 * (n mod 4) < 43889" using D by linarith
  then have n120: "n \<le> 120" using mult_div_mod_eq [of 4 n] by linarith
  have jan: "m \<le> 2 \<and> (m = 2 \<longrightarrow> d \<le> 28)" if "n = 120"
    using before_march [OF m _ _ yd] D d that \<open>T div 86400 < 43889\<close> by simp
  have leap: "leap_year (1980 + n) = (n mod 4 = 0)" if "n \<noteq> 120" using leap_year_1980 [of n] n120 that by simp
  note un = date_bytes [OF m d n] and ut = time_bytes [of T]
  have dm: "d \<le> days_in_month (1980 + n) m"
  proof (cases "n = 120")
    case True
    then show ?thesis using jan d m leap_year_def by (auto simp: days_in_month_def month_start_def split: if_splits)
  next
    case False
    then show ?thesis using days_in_month_eq [OF m, of "1980 + n" "n mod 4 = 0"] leap d by auto
  qed
  have bm: "days_before_month (1980 + n) m + d = yd + 1"
    using days_before_month_eq [OF m, of "1980 + n" "n mod 4 = 0"] leap jan yd by (cases "n = 120") auto
  have valid: "valid_datetime ?dt" using m d dm by (simp add: valid_datetime_def civil_year_def un ut)
  have "civil_seconds ?dt = 86400 * (T div 86400) + 3600 * (T mod 86400 div 3600) + 60 * (T mod 86400 div 60 mod 60) + T mod 86400 mod 60"
  proof -
    have "days_before_year (1980 + n) + days_before_month (1980 + n) m + d - 1 = T div 86400"
      using days_before_year_1980 [OF n120] D bm by linarith
    then show ?thesis by (simp add: civil_seconds_def civil_year_def un ut)
  qed
  then have "civil_seconds ?dt = T" by (simp only: seconds_of_day)
  then show ?thesis using dt valid by (simp add: T_def)
qed

theorem to_datetime_is_gregorian_witness:
  "\<exists>dt. to_datetime (Timestamp 1278713001) = Done dt \<and> valid_datetime dt \<and> civil_seconds dt = 1278713001"
proof -
  have "unat (ts_u32 (Timestamp 1278713001)) < 43889 * 86400" by simp
  from to_datetime_is_gregorian [OF this] show ?thesis by simp
qed

text \<open>C16: converting a date back to a timestamp.  For the date of any timestamp before 2100, \<^verbatim>\<open>from_datetime\<close>
  gives that timestamp back only after February of a leap year; on every other date the result is one day
  late.\<close>

theorem from_datetime_one_day_late:
  assumes "unat (ts_u32 t) < 43830 * 86400"
  shows "\<exists>dt. to_datetime t = Done dt
    \<and> from_datetime dt = Done (if leap_year (civil_year dt) \<and> unat (month (dt_date dt)) > 2 then t
                               else Timestamp (ts_u32 t + 86400))"
proof -
  define T where "T = unat (ts_u32 t)"
  from to_datetime_eq [of t] obtain n yd m d where
    dt: "to_datetime t = Done
      \<lparr>dt_date = \<lparr>day = of_nat d, month = of_nat m, year = of_nat n\<rparr>,
       dt_time = \<lparr>hours = of_nat (T mod 86400 div 3600), minutes = of_nat (T mod 86400 div 60 mod 60),
                  seconds = of_nat (T mod 86400 mod 60)\<rparr>\<rparr>" (is "_ = Done ?dt")
    and D: "T div 86400 = 1461 * (n div 4) + 365 * (n mod 4) + (if n mod 4 = 0 then 0 else 1) + yd"
    and m: "m \<in> {1 .. 12}" and d: "d \<in> {1 .. (if m = 2 \<and> n mod 4 = 0 then 29 else month_start m - month_start (m - 1))}"
    and yd: "yd + 1 = month_start (m - 1) + (if m > 2 \<and> n mod 4 = 0 then 1 else 0) + d" and n: "n < 137"
    unfolding T_def by blast
  have "T div 86400 < 43830" using assms by (simp add: T_def div_less_iff_less_mult)
  then have "1461 * (n div 4) + 365 * (n mod 4) < 43830" using D by linarith
  then have n120: "n < 120" using mult_div_mod_eq [of 4 n] by linarith
  have leap: "leap_year (civil_year ?dt) \<longleftrightarrow> n mod 4 = 0"
    using leap_year_1980 [OF n120] n by (simp add: civil_year_def unat_of_nat)
  have d32: "d < 256" using d month_start_facts(1) [OF m] by (auto split: if_splits)
  define N where "N = 1461 * (n div 4) + 365 * (n mod 4) + (if n mod 4 = 0 then 0 else 1) + month_start (m - 1) + d"
  have small: "T mod 86400 div 3600 < 256" using time_bytes(1) [of T] by simp
  have N: "N = (if m > 2 \<and> n mod 4 = 0 then T div 86400 else T div 86400 + 1)" using D yd by (auto simp: N_def)
  have "from_datetime ?dt = Done (Timestamp (of_nat (86400 * N + 3600 * (T mod 86400 div 3600)
      + 60 * (T mod 86400 div 60 mod 60) + T mod 86400 mod 60)))"
    unfolding from_datetime_def Let_def
    using month_start_get [OF m] m n120 d32 small
    by (simp add: ucast_byte year_quads [OF n120] N_def SECONDS_IN_DAY_def order.strict_trans [OF pos_mod_bound])
  also have "86400 * N + 3600 * (T mod 86400 div 3600) + 60 * (T mod 86400 div 60 mod 60) + T mod 86400 mod 60
      = (if m > 2 \<and> n mod 4 = 0 then T else T + 86400)"
    using seconds_of_day [of T] unfolding N by simp
  finally have "from_datetime ?dt = Done (Timestamp (of_nat (if m > 2 \<and> n mod 4 = 0 then T else T + 86400)))" .
  moreover have "of_nat T = ts_u32 t" "of_nat (T + 86400) = ts_u32 t + 86400" by (simp_all add: T_def)
  moreover have "Timestamp (ts_u32 t) = t" by (cases t) simp
  moreover have "unat (month (dt_date ?dt)) = m" using m by (simp add: unat_of_nat)
  ultimately show ?thesis using dt leap by (intro exI [of _ ?dt]) auto
qed

theorem from_datetime_one_day_late_witness:
  "to_datetime (Timestamp 10) = Done \<lparr>dt_date = \<lparr>day = 1, month = 1, year = 0\<rparr>,
      dt_time = \<lparr>hours = 0, minutes = 0, seconds = 10\<rparr>\<rparr>
   \<and> from_datetime \<lparr>dt_date = \<lparr>day = 1, month = 1, year = 0\<rparr>, dt_time = \<lparr>hours = 0, minutes = 0, seconds = 10\<rparr>\<rparr>
      = Done (Timestamp 86410)"
proof -
  have dt: "to_datetime (Timestamp 10) = Done \<lparr>dt_date = \<lparr>day = 1, month = 1, year = 0\<rparr>,
      dt_time = \<lparr>hours = 0, minutes = 0, seconds = 10\<rparr>\<rparr>"
    by (simp add: to_datetime_def to_days_with_remainder_def SECONDS_IN_DAY_def year_offset_from_days_def
        month_loop.simps MONTH_START_OFFSET_def vec_get_def)
  have "unat (ts_u32 (Timestamp 10)) < 43830 * 86400" by simp
  from from_datetime_one_day_late [OF this] dt show ?thesis by simp
qed

end
