(* ===== verification/SystemErrors.thy ===== *)
theory SystemErrors
  imports Prelude
begin

text \<open>
  The numbers user programs and the kernel agree on: error codes and signals of the
  \<^verbatim>\<open>syscall\<close> crate (\<^verbatim>\<open>syscall/src/result.rs\<close>, \<^verbatim>\<open>syscall/src/signals.rs\<close>).
\<close>

section \<open>Error codes\<close>

datatype system_error = Unknown | BadFileDescriptor | NoSuchDrive | NoSuchFileSystem | NoSuchEntity
  | NotDirectory | NotEmpty | BrokenPipe | InvalidSeek | UnsupportedCommand | IOError | MaxFilesExceeded

fun se_number :: "system_error \<Rightarrow> u32" where
  "se_number Unknown = 0"
| "se_number BadFileDescriptor = 1"
| "se_number NoSuchDrive = 2"
| "se_number NoSuchFileSystem = 3"
| "se_number NoSuchEntity = 4"
| "se_number NotDirectory = 5"
| "se_number NotEmpty = 6"
| "se_number BrokenPipe = 7"
| "se_number InvalidSeek = 8"
| "se_number UnsupportedCommand = 9"
| "se_number IOError = 10"
| "se_number MaxFilesExceeded = 11"

definition from_code :: "u32 \<Rightarrow> system_error" where
  "from_code code =
     (let c = code AND 0xffff
      in if c = 1 then BadFileDescriptor
         else if c = 2 then NoSuchDrive
         else if c = 3 then NoSuchFileSystem
         else if c = 4 then NoSuchEntity
         else if c = 5 then NotDirectory
         else if c = 6 then NotEmpty
         else if c = 7 then BrokenPipe
         else if c = 8 then InvalidSeek
         else if c = 9 then UnsupportedCommand
         else if c = 10 then IOError
         else if c = 11 then MaxFilesExceeded
         else Unknown)"

definition to_code :: "system_error \<Rightarrow> u32" where
  "to_code e = 0x80000000 OR se_number e"

definition result_from_code :: "u32 \<Rightarrow> system_error + u32" where
  "result_from_code code =
     (if code AND 0x80000000 = 0 then Inr (code AND 0x7fffffff) else Inl (from_code code))"

section \<open>Signals\<close>

definition SIG_HUP :: u32 where "SIG_HUP = 1"
definition SIG_INT :: u32 where "SIG_INT = 2"
definition SIG_QUIT :: u32 where "SIG_QUIT = 3"
definition SIG_ILL :: u32 where "SIG_ILL = 4"
definition SIG_TRAP :: u32 where "SIG_TRAP = 5"
definition SIG_ABORT :: u32 where "SIG_ABORT = 6"
definition SIG_BUS :: u32 where "SIG_BUS = 7"
definition SIG_FPE :: u32 where "SIG_FPE = 8"
definition SIG_KILL :: u32 where "SIG_KILL = 9"
definition SIG_SEGFAULT :: u32 where "SIG_SEGFAULT = 11"
definition SIG_PIPE :: u32 where "SIG_PIPE = 13"
definition SIG_ALARM :: u32 where "SIG_ALARM = 14"
definition SIG_TERM :: u32 where "SIG_TERM = 15"
definition SIG_CHILD :: u32 where "SIG_CHILD = 17"
definition SIG_CONTINUE :: u32 where "SIG_CONTINUE = 18"
definition SIG_STOP :: u32 where "SIG_STOP = 19"
definition SIG_TSTOP :: u32 where "SIG_TSTOP = 20"

lemmas signal_defs = SIG_INT_def SIG_KILL_def SIG_TERM_def SIG_CHILD_def SIG_CONTINUE_def SIG_STOP_def SIG_TSTOP_def

section \<open>Properties\<close>

lemma sign_bit_clear_iff: "(c :: u32) AND 0x80000000 = 0 \<longleftrightarrow> c < 0x80000000"
proof -
  have "c AND 0x80000000 = 0 \<longleftrightarrow> \<not> bit c 31" using and_exp_eq_0_iff_not_bit [of c 31] by simp
  moreover have "bit c 31 \<longleftrightarrow> \<not> unat c < 2147483648"
  proof -
    have "bit c 31 \<longleftrightarrow> odd (unat c div 2147483648)" using bit_unsigned_iff [of c 31, where 'a = nat] by (simp add: bit_iff_odd)
    moreover have "unat c div 2147483648 < 2" using unat_lt32 [of c] by (simp add: div_less_iff_less_mult)
    moreover have "unat c div 2147483648 = 0 \<longleftrightarrow> unat c < 2147483648" by (simp add: div_eq_0_iff)
    ultimately show ?thesis by (metis less_2_cases odd_one even_zero One_nat_def)
  qed
  ultimately show ?thesis by (simp add: word_less_nat_alt)
qed

lemma from_code_number:
  "se_number (from_code v) = v AND 0xffff \<or> from_code v = Unknown \<and> 11 < v AND 0xffff"
proof -
  define c where "c = v AND 0xffff"
  have "c \<in> {0, 1, 2, 3, 4, 5, 6, 7, 8, 9, 10, 11}" if "\<not> 11 < c"
  proof -
    have "unat c \<le> 11" using that by (simp add: word_less_nat_alt)
    then have "unat c \<in> {0, 1, 2, 3, 4, 5, 6, 7, 8, 9, 10, 11}" by simp presburger
    then show ?thesis by (simp add: word_unat_eq_iff)
  qed
  then show ?thesis unfolding from_code_def Let_def c_def [symmetric] by auto
qed

text \<open>C17: what a user program decodes is what the kernel encoded.  Every error survives \<^verbatim>\<open>to_code\<close> and
  \<^verbatim>\<open>result_from_code\<close>, and every value below 2 GiB is returned as itself.  A value of 2 GiB or more is
  taken for an error: the one whose number is in its low 16 bits, whatever the bits above, and \<^verbatim>\<open>Unknown\<close> when
  no error has that number.\<close>

theorem system_error_roundtrip:
  "result_from_code (to_code e) = Inl e
   \<and> (if v < 0x80000000 then result_from_code v = Inr v
      else \<exists>e'. result_from_code v = Inl e' \<and> (se_number e' = v AND 0xffff \<or> e' = Unknown \<and> 11 < v AND 0xffff))"
proof -
  have "result_from_code (to_code e) = Inl e"
    by (cases e) (simp_all add: result_from_code_def to_code_def from_code_def)
  moreover have "v AND 0x7fffffff = v" if "v < 0x80000000"
  proof -
    have "unat (v AND mask 31) = unat v mod 2 ^ 31" by (rule unat_and_mask)
    then have "unat (v AND mask 31) = unat v" using that by (simp add: word_less_nat_alt)
    then have "v AND mask 31 = v" by (simp add: word_unat_eq_iff)
    then show ?thesis by (simp add: mask_eq_exp_minus_1)
  qed
  ultimately show ?thesis using from_code_number [of v] by (simp add: result_from_code_def sign_bit_clear_iff)
qed

end
