(* ===== verification/Processes.thy ===== *)
theory Processes
  imports ForkMemory BTree TimeDate SystemErrors
begin

text \<open>
  Processes: \<^verbatim>\<open>process/process_state.rs\<close>, \<^verbatim>\<open>signals.rs\<close>, \<^verbatim>\<open>subsystem.rs\<close>, \<^verbatim>\<open>files.rs\<close>,
  \<^verbatim>\<open>exec.rs\<close>, \<^verbatim>\<open>id.rs\<close>, \<^verbatim>\<open>map.rs\<close> and the scheduler of \<^verbatim>\<open>process/mod.rs\<close>.

  The kernel state is a record of the process map, the machine, the shared kernel
  regions, the stack pointer of the task state segment and the stack pointer of the
  processor.  A process that gives up the processor and later continues is modelled by
  the two halves of the call; the value of the stack pointer at the inline assembly of a
  context switch is an argument.  A lock taken twice on one path is \<open>Hang\<close>.
\<close>

section \<open>Process state\<close>

type_synonym process_id = u32

datatype block_reason = BlockNone | Child process_id

datatype run_state = Running | Sleeping usize | Paused | Blocked block_reason | Resumed u32 | Terminated

record dos_subsystem_metadata =
  dos_ds :: usize
  dos_es :: usize
  dos_fs :: usize
  dos_gs :: usize
  dos_ss :: usize
  interrupts_enabled :: bool

definition dos_subsystem_metadata_new :: dos_subsystem_metadata where
  "dos_subsystem_metadata_new =
     \<lparr>dos_ds = 0, dos_es = 0, dos_fs = 0, dos_gs = 0, dos_ss = 0, interrupts_enabled = False\<rparr>"

datatype subsystem = Native | DOS dos_subsystem_metadata

record process_state =
  ps_pid :: process_id
  ps_parent :: process_id
  ps_memory :: process_memory
  ps_page_directory :: page_table_reference
  ps_kernel_esp :: usize
  ps_open_files :: file_handle_map
  ps_open_directories :: file_handle_map
  ps_run_state :: run_state
  ps_subsystem :: subsystem
  ps_exit_code :: u32

definition ps_first ::
  "process_id \<Rightarrow> virtual_address \<Rightarrow> kernel_regions \<Rightarrow> machine \<Rightarrow> process_state \<times> kernel_regions" where
  "ps_first pid heap_start k s =
     (let (regions, k) = regions_initial heap_start k
      in (\<lparr>ps_pid = pid, ps_parent = pid,
           ps_memory = \<lparr>pm_regions = regions, pm_heap_break = VirtualAddress 0\<rparr>,
           ps_page_directory = ptr_current s, ps_kernel_esp = 0,
           ps_open_files = fhm_new, ps_open_directories = fhm_new,
           ps_run_state = Running, ps_subsystem = Native, ps_exit_code = 0\<rparr>, k))"

subsection \<open>Files of a process\<close>

definition ps_open_file :: "usize \<Rightarrow> local_handle \<Rightarrow> process_state \<Rightarrow> (file_handle \<times> process_state) outcome" where
  "ps_open_file drive local p =
     (case open_handle (ps_open_files p) drive local of
        (Some handle, files) \<Rightarrow> Done (handle, p\<lparr>ps_open_files := files\<rparr>)
      | (None, _) \<Rightarrow> Panic)"

definition ps_close_file :: "file_handle \<Rightarrow> process_state \<Rightarrow> drive_handle_pair option \<times> process_state" where
  "ps_close_file handle p =
     (let (prev, files) = close_handle (ps_open_files p) handle in (prev, p\<lparr>ps_open_files := files\<rparr>))"

definition get_open_file_info :: "file_handle \<Rightarrow> process_state \<Rightarrow> drive_handle_pair option" where
  "get_open_file_info handle p = get_drive_and_handle (ps_open_files p) handle"

definition ps_references_drive_and_handle :: "usize \<Rightarrow> local_handle \<Rightarrow> process_state \<Rightarrow> bool" where
  "ps_references_drive_and_handle drive local p = references_drive_and_handle (ps_open_files p) drive local"

text \<open>The copy loop shared by the file map and the directory map.\<close>

definition copy_handle_map :: "file_handle_map \<Rightarrow> file_handle_map" where
  "copy_handle_map f =
     fold (\<lambda>(handle, pair) forked. case pair of DriveHandlePair d l \<Rightarrow> snd (set_handle_directly forked handle d l))
       (fhm_iter f) fhm_new"

definition fork_file_map :: "process_state \<Rightarrow> file_handle_map" where
  "fork_file_map p = copy_handle_map (ps_open_files p)"

definition ps_open_directory ::
  "usize \<Rightarrow> local_handle \<Rightarrow> process_state \<Rightarrow> (system_error + file_handle) \<times> process_state" where
  "ps_open_directory drive local p =
     (case open_handle (ps_open_directories p) drive local of
        (Some handle, dirs) \<Rightarrow> (Inr handle, p\<lparr>ps_open_directories := dirs\<rparr>)
      | (None, dirs) \<Rightarrow> (Inl MaxFilesExceeded, p\<lparr>ps_open_directories := dirs\<rparr>))"

definition ps_close_directory ::
  "file_handle \<Rightarrow> process_state \<Rightarrow> (system_error + drive_handle_pair) \<times> process_state" where
  "ps_close_directory handle p =
     (let (prev, dirs) = close_handle (ps_open_directories p) handle
      in (case prev of Some pair \<Rightarrow> Inr pair | None \<Rightarrow> Inl BadFileDescriptor, p\<lparr>ps_open_directories := dirs\<rparr>))"

definition get_open_dir_info :: "file_handle \<Rightarrow> process_state \<Rightarrow> drive_handle_pair option" where
  "get_open_dir_info handle p = get_drive_and_handle (ps_open_directories p) handle"

definition fork_directory_map :: "process_state \<Rightarrow> file_handle_map" where
  "fork_directory_map p = copy_handle_map (ps_open_directories p)"

subsection \<open>Fork and kernel stacks\<close>

definition ps_fork ::
  "process_id \<Rightarrow> process_state \<Rightarrow> kernel_regions \<Rightarrow> machine \<Rightarrow> (process_state \<times> machine) outcome" where
  "ps_fork pid p k s =
     (let new_regions = regions_fork (pm_regions (ps_memory p))
      in obind (fork_page_directory (pm_regions (ps_memory p)) k s) (\<lambda>(new_pagedir, s).
         let new_filemap = fork_file_map p;
             new_dirmap = fork_directory_map p;
             heap_break = pm_heap_break (ps_memory p)
         in Done (\<lparr>ps_pid = pid, ps_parent = ps_pid p,
                   ps_memory = \<lparr>pm_regions = new_regions, pm_heap_break = heap_break\<rparr>,
                   ps_page_directory = new_pagedir,
                   ps_kernel_esp = STACK_START + STACK_SIZE - 4,
                   ps_open_files = new_filemap, ps_open_directories = new_dirmap,
                   ps_run_state = Running, ps_subsystem = Native, ps_exit_code = 0\<rparr>, s)))"

definition make_current_stack_frame_editable :: "process_state \<Rightarrow> machine \<Rightarrow> machine outcome" where
  "make_current_stack_frame_editable p s =
     (let esp = ps_kernel_esp p;
          directory_entry = drop_bit 22 esp;
          table_entry = drop_bit 12 esp AND 0x3ff;
          pagedir = get_temporary_page_address
      in obind (map_frame_to_temporary_page (frame_new (pa_usize (ptr_address (ps_page_directory p)))) s) (\<lambda>s.
         obind (table_get pagedir directory_entry s) (\<lambda>d.
         obind (map_frame_to_temporary_page (frame_new (pa_usize (pte_get_address d))) s) (\<lambda>s.
         obind (table_get pagedir table_entry s) (\<lambda>e.
         obind (if \<not> is_present e
                then obind (take_frame s) (\<lambda>(stack_frame, s).
                     obind (table_get_mut pagedir table_entry (pte_set_address (get_address stack_frame)) s)
                       (table_get_mut pagedir table_entry set_present))
                else Done s) (\<lambda>s.
         obind (table_get pagedir table_entry s) (\<lambda>e.
           map_frame_to_temporary_page (frame_new (pa_usize (pte_get_address e))) s)))))))"

definition set_initial_entry_point ::
  "usize \<Rightarrow> usize \<Rightarrow> process_state \<Rightarrow> machine \<Rightarrow> (process_state \<times> machine) outcome" where
  "set_initial_entry_point func esp p s =
     obind (make_current_stack_frame_editable p s) (\<lambda>s.
     let stack_ptr = va_usize get_temporary_page_address + (ps_kernel_esp p AND 0xfff)
     in obind (vwrite32 (stack_ptr - 4) 0x23 s) (\<lambda>s.
        obind (vwrite32 (stack_ptr - 8) esp s) (\<lambda>s.
        obind (vwrite32 (stack_ptr - 12) 0x200 s) (\<lambda>s.
        obind (vwrite32 (stack_ptr - 16) 0x1b s) (\<lambda>s.
        obind (vwrite32 (stack_ptr - 20) (func AND 0x3fffffff) s) (\<lambda>s.
          Done (p\<lparr>ps_kernel_esp := ps_kernel_esp p - 4 * 5\<rparr>, s)))))))"

definition set_kernel_mode_entry_point ::
  "usize \<Rightarrow> process_state \<Rightarrow> machine \<Rightarrow> (process_state \<times> machine) outcome" where
  "set_kernel_mode_entry_point func p s =
     (let p = p\<lparr>ps_kernel_esp := 0xffbfeff8\<rparr>
      in obind (make_current_stack_frame_editable p s) (\<lambda>s.
         obind (vwrite32 0xffbffff8 func s) (\<lambda>s. Done (p, s))))"

subsection \<open>Running and sleeping\<close>

definition ps_set_exit_code :: "u32 \<Rightarrow> process_state \<Rightarrow> process_state" where
  "ps_set_exit_code code p = p\<lparr>ps_exit_code := code\<rparr>"

definition ps_sleep :: "usize \<Rightarrow> process_state \<Rightarrow> process_state" where
  "ps_sleep ms p = p\<lparr>ps_run_state := Sleeping ms\<rparr>"

definition update_tick :: "process_state \<Rightarrow> process_state" where
  "update_tick p =
     (case ps_run_state p of
        Sleeping duration \<Rightarrow>
          if duration > MS_PER_TICK then p\<lparr>ps_run_state := Sleeping (duration - MS_PER_TICK)\<rparr>
          else p\<lparr>ps_run_state := Running\<rparr>
      | _ \<Rightarrow> p)"

definition is_running :: "process_state \<Rightarrow> bool" where
  "is_running p = (case ps_run_state p of Running \<Rightarrow> True | Resumed _ \<Rightarrow> True | _ \<Rightarrow> False)"

definition ps_block :: "process_state \<Rightarrow> process_state" where
  "ps_block p = p\<lparr>ps_run_state := Blocked BlockNone\<rparr>"

definition block_on_child :: "process_id \<Rightarrow> process_state \<Rightarrow> process_state" where
  "block_on_child child p = p\<lparr>ps_run_state := Blocked (Child child)\<rparr>"

definition ps_resume :: "process_state \<Rightarrow> process_state" where
  "ps_resume p = (case ps_run_state p of Blocked _ \<Rightarrow> p\<lparr>ps_run_state := Running\<rparr> | _ \<Rightarrow> p)"

definition get_resume_code :: "process_state \<Rightarrow> u32 \<times> process_state" where
  "get_resume_code p =
     (case ps_run_state p of Resumed code \<Rightarrow> (code, p\<lparr>ps_run_state := Running\<rparr>) | _ \<Rightarrow> (0, p))"

definition is_vm8086 :: "process_state \<Rightarrow> bool" where
  "is_vm8086 p = (case ps_subsystem p of DOS _ \<Rightarrow> True | Native \<Rightarrow> False)"

definition get_vm8086_metadata :: "process_state \<Rightarrow> dos_subsystem_metadata option" where
  "get_vm8086_metadata p = (case ps_subsystem p of DOS meta \<Rightarrow> Some meta | Native \<Rightarrow> None)"

section \<open>The process map\<close>

record process_map =
  pmap_current :: process_id
  pmap_next_pid :: u32
  pmap_processes :: "(process_id, process_state) btree"

definition process_map_new :: process_map where
  "process_map_new = \<lparr>pmap_current = 0, pmap_next_pid = 0, pmap_processes = []\<rparr>"

definition get_next_pid :: "process_map \<Rightarrow> process_id \<times> process_map" where
  "get_next_pid m = (pmap_next_pid m, m\<lparr>pmap_next_pid := pmap_next_pid m + 1\<rparr>)"

fun next_running :: "process_id \<Rightarrow> process_id option \<Rightarrow> (process_id, process_state) btree \<Rightarrow> process_id" where
  "next_running current first [] = (case first of Some pid \<Rightarrow> pid | None \<Rightarrow> current)"
| "next_running current first ((pid, process) # rest) =
     (if is_running process
      then let first = (case first of None \<Rightarrow> Some pid | Some f \<Rightarrow> Some f)
           in if pid > current then pid else next_running current first rest
      else next_running current first rest)"

definition get_next_running_process :: "process_map \<Rightarrow> process_id" where
  "get_next_running_process m = next_running (pmap_current m) None (pmap_processes m)"

definition get_process :: "process_id \<Rightarrow> process_map \<Rightarrow> process_state option" where
  "get_process pid m = bt_get (pmap_processes m) pid"

definition get_current_process :: "process_map \<Rightarrow> process_state option" where
  "get_current_process m = bt_get (pmap_processes m) (pmap_current m)"

definition pmap_make_current :: "process_id \<Rightarrow> process_map \<Rightarrow> process_map" where
  "pmap_make_current pid m = m\<lparr>pmap_current := pid\<rparr>"

definition spawn_first_process ::
  "virtual_address \<Rightarrow> kernel_regions \<Rightarrow> machine \<Rightarrow> process_map \<Rightarrow> process_id \<times> process_map \<times> kernel_regions" where
  "spawn_first_process heap_location k s m =
     (let (pid, m) = get_next_pid m;
          (p, k) = ps_first pid heap_location k s
      in (pid, m\<lparr>pmap_processes := bt_insert pid p (pmap_processes m)\<rparr>, k))"

definition fork_current ::
  "kernel_regions \<Rightarrow> machine \<Rightarrow> process_map \<Rightarrow> (process_id \<times> process_map \<times> machine) outcome" where
  "fork_current k s m =
     (let (pid, m) = get_next_pid m
      in obind (of_option (get_current_process m)) (\<lambda>cur.
         obind (ps_fork pid cur k s) (\<lambda>(new, s).
           Done (pid, m\<lparr>pmap_processes := bt_insert pid new (pmap_processes m)\<rparr>, s))))"

text \<open>Access to one process through its shared reference.\<close>

definition on_process :: "process_id \<Rightarrow> (process_state \<Rightarrow> process_state) \<Rightarrow> process_map \<Rightarrow> process_map" where
  "on_process pid f m = m\<lparr>pmap_processes := bt_modify pid f (pmap_processes m)\<rparr>"

section \<open>Signals\<close>

definition exit_code_of :: "u32 \<Rightarrow> u32 \<Rightarrow> u32" where
  "exit_code_of signal code = push_bit 8 (code AND 0xff) OR (signal AND 0x7f)"

text \<open>
  \<^verbatim>\<open>terminate\<close> keeps the lock of its own run state while it tells the parent, so a process that is its
  own parent waits for itself.
\<close>

function ps_send_signal :: "process_id \<Rightarrow> u32 \<Rightarrow> process_map \<Rightarrow> process_map outcome"
  and terminate :: "process_id \<Rightarrow> u32 \<Rightarrow> u32 \<Rightarrow> process_map \<Rightarrow> process_map outcome"
  and child_exited :: "process_id \<Rightarrow> process_id \<Rightarrow> u32 \<Rightarrow> process_map \<Rightarrow> process_map outcome"
where
  "ps_send_signal self sig m =
     (if sig = SIG_STOP \<or> sig = SIG_TSTOP
      then Done (on_process self (\<lambda>p. p\<lparr>ps_run_state := Paused\<rparr>) m)
      else if sig = SIG_CONTINUE
      then Done (on_process self (\<lambda>p. if ps_run_state p = Paused then p\<lparr>ps_run_state := Running\<rparr> else p) m)
      else if sig = SIG_INT \<or> sig = SIG_TERM then terminate self sig 0 m
      else if sig = SIG_KILL then terminate self sig 0 m
      else Done m)"
| "terminate self signal code m =
     (let m = on_process self (ps_set_exit_code (exit_code_of signal code)) m;
          m = on_process self (\<lambda>p. p\<lparr>ps_run_state := Terminated\<rparr>) m
      in case get_process self m of
           None \<Rightarrow> Done m
         | Some p \<Rightarrow>
             case get_process (ps_parent p) m of
               Some _ \<Rightarrow> if ps_parent p = self then Hang else child_exited (ps_parent p) self code m
             | None \<Rightarrow> Done m)"
| "child_exited self child code m =
     obind (ps_send_signal self SIG_CHILD m) (\<lambda>m.
       Done (on_process self (\<lambda>p. case ps_run_state p of
           Blocked (Child pid) \<Rightarrow> if pid = child then p\<lparr>ps_run_state := Resumed code\<rparr> else p
         | _ \<Rightarrow> p) m))"
  by pat_completeness auto
termination
  by (relation "measure (case_sum (\<lambda>(self, sig, m). if sig = SIG_CHILD then 0 else 3) (case_sum (\<lambda>_. 2) (\<lambda>_. 1)))")
    (auto simp: signal_defs)

declare ps_send_signal.simps [simp del] terminate.simps [simp del] child_exited.simps [simp del]

definition ps_exit :: "process_id \<Rightarrow> u32 \<Rightarrow> process_map \<Rightarrow> process_map outcome" where
  "ps_exit self code m = terminate self 0 code m"

section \<open>The kernel\<close>

record kernel =
  PROCESS_MAP :: "process_map option"
  mach :: machine
  kregions :: kernel_regions
  tss_esp0 :: u32
  cpu_esp :: usize

definition process_init :: "kernel \<Rightarrow> kernel" where
  "process_init k = k\<lparr>PROCESS_MAP := Some process_map_new\<rparr>"

text \<open>\<^verbatim>\<open>all_processes\<close> and \<^verbatim>\<open>all_processes_mut\<close>: access to the global map, which panics before
  it is initialised.\<close>

definition all_processes :: "kernel \<Rightarrow> process_map outcome" where
  "all_processes k = of_option (PROCESS_MAP k)"

definition all_processes_mut :: "(process_map \<Rightarrow> process_map) \<Rightarrow> kernel \<Rightarrow> kernel outcome" where
  "all_processes_mut f k = obind (all_processes k) (\<lambda>m. Done (k\<lparr>PROCESS_MAP := Some (f m)\<rparr>))"

definition current_process :: "kernel \<Rightarrow> process_state option outcome" where
  "current_process k = obind (all_processes k) (\<lambda>m. Done (get_current_process m))"

definition make_current :: "process_id \<Rightarrow> kernel \<Rightarrow> kernel outcome" where
  "make_current pid = all_processes_mut (pmap_make_current pid)"

text \<open>
  The part of \<^verbatim>\<open>switch_to\<close> and \<^verbatim>\<open>enter_usermode\<close> under the lock of the map, followed by the inner
  function: the new page directory is loaded, the stack pointer saved and the other one loaded.
\<close>

definition switch_to :: "process_id \<Rightarrow> usize \<Rightarrow> kernel \<Rightarrow> kernel outcome" where
  "switch_to pid cur_esp k =
     obind (all_processes k) (\<lambda>m.
     obind (of_option (get_current_process m)) (\<lambda>current.
     let old = pmap_current m; m = pmap_make_current pid m
     in obind (of_option (get_process pid m)) (\<lambda>new.
        let k = k\<lparr>tss_esp0 := STACK_START + STACK_SIZE - 4\<rparr>;
            pagedir = ptr_address (ps_page_directory new);
            k = k\<lparr>mach := set_current_pagedir pagedir (mach k)\<rparr>;
            m = on_process old (\<lambda>p. p\<lparr>ps_kernel_esp := cur_esp\<rparr>) m
        in obind (of_option (get_process pid m)) (\<lambda>new.
             Done (k\<lparr>PROCESS_MAP := Some m, cpu_esp := ps_kernel_esp new\<rparr>)))))"

definition enter_usermode :: "process_id \<Rightarrow> usize \<Rightarrow> kernel \<Rightarrow> kernel outcome" where
  "enter_usermode pid cur_esp k = switch_to pid cur_esp k"

definition yield_coop :: "usize \<Rightarrow> kernel \<Rightarrow> kernel outcome" where
  "yield_coop cur_esp k =
     obind (all_processes k) (\<lambda>m.
       let next = get_next_running_process m; current_pid = pmap_current m
       in if next \<noteq> current_pid then switch_to next cur_esp k else Done k)"

text \<open>An operation on the current process, which must exist.\<close>

definition on_current :: "(process_state \<Rightarrow> process_state) \<Rightarrow> kernel \<Rightarrow> kernel outcome" where
  "on_current f k =
     obind (all_processes k) (\<lambda>m.
     obind (of_option (get_current_process m)) (\<lambda>_.
       Done (k\<lparr>PROCESS_MAP := Some (on_process (pmap_current m) f m)\<rparr>)))"

definition process_sleep :: "usize \<Rightarrow> usize \<Rightarrow> kernel \<Rightarrow> kernel outcome" where
  "process_sleep ms cur_esp k = obind (on_current (ps_sleep ms) k) (yield_coop cur_esp)"

definition send_tick :: "kernel \<Rightarrow> kernel outcome" where
  "send_tick = all_processes_mut (\<lambda>m. m\<lparr>pmap_processes := bt_map update_tick (pmap_processes m)\<rparr>)"

text \<open>
  \<^verbatim>\<open>fork\<close>: \<open>esp\<close> is the stack pointer below the pushed process number, \<open>esp_inner\<close> the one in
  \<^verbatim>\<open>fork_inner\<close>, whose top word is copied to the child's stack.
\<close>

definition fork_inner :: "process_id \<Rightarrow> usize \<Rightarrow> kernel \<Rightarrow> kernel outcome" where
  "fork_inner child cur_esp k =
     (let to = (cur_esp AND 0xfff) OR 0xffbff000
      in obind (vread32 (mach k) cur_esp) (\<lambda>x.
         obind (vwrite32 to x (mach k)) (\<lambda>s.
           all_processes_mut (on_process child (\<lambda>p. p\<lparr>ps_kernel_esp := cur_esp\<rparr>)) (k\<lparr>mach := s\<rparr>))))"

definition process_fork :: "usize \<Rightarrow> usize \<Rightarrow> kernel \<Rightarrow> (u32 \<times> kernel) outcome" where
  "process_fork esp esp_inner k =
     obind (all_processes k) (\<lambda>m.
     obind (fork_current (kregions k) (mach k) m) (\<lambda>(next_pid, m, s).
     obind (vwrite32 esp next_pid s) (\<lambda>s.
     obind (of_option (get_process next_pid m)) (\<lambda>next_proc.
     obind (make_current_stack_frame_editable next_proc s) (\<lambda>s.
     obind (vwrite32 (va_usize get_temporary_page_address + (esp AND 0xfff)) 0 s) (\<lambda>s.
     obind (fork_inner next_pid esp_inner (k\<lparr>PROCESS_MAP := Some m, mach := s\<rparr>)) (\<lambda>k.
     obind (vread32 (mach k) esp) (\<lambda>ret. Done (ret, k)))))))))"

text \<open>After the yield of \<^verbatim>\<open>exit\<close> the process spins when it is still the current one.\<close>

definition process_exit :: "u32 \<Rightarrow> usize \<Rightarrow> kernel \<Rightarrow> kernel outcome" where
  "process_exit code cur_esp k =
     obind (all_processes k) (\<lambda>m.
     obind (of_option (get_current_process m)) (\<lambda>_.
     obind (ps_exit (pmap_current m) code m) (\<lambda>m'.
     obind (yield_coop cur_esp (k\<lparr>PROCESS_MAP := Some m'\<rparr>)) (\<lambda>k'.
     obind (all_processes k') (\<lambda>m''. if pmap_current m'' = pmap_current m then Hang else Done k')))))"

definition process_send_signal :: "process_id \<Rightarrow> u32 \<Rightarrow> kernel \<Rightarrow> kernel outcome" where
  "process_send_signal pid sig k =
     obind (all_processes k) (\<lambda>m.
       case get_process pid m of
         Some _ \<Rightarrow> obind (ps_send_signal pid sig m) (\<lambda>m. Done (k\<lparr>PROCESS_MAP := Some m\<rparr>))
       | None \<Rightarrow> Done k)"

definition process_wait :: "process_id \<Rightarrow> usize \<Rightarrow> kernel \<Rightarrow> kernel outcome" where
  "process_wait pid cur_esp k = obind (on_current (block_on_child pid) k) (yield_coop cur_esp)"

definition process_wait_resumed :: "kernel \<Rightarrow> (u32 \<times> kernel) outcome" where
  "process_wait_resumed k =
     obind (all_processes k) (\<lambda>m.
     obind (of_option (get_current_process m)) (\<lambda>p.
       Done (fst (get_resume_code p),
             k\<lparr>PROCESS_MAP := Some (on_process (pmap_current m) (\<lambda>p. snd (get_resume_code p)) m)\<rparr>)))"

definition set_kernel_mode_function :: "process_id \<Rightarrow> usize \<Rightarrow> kernel \<Rightarrow> kernel outcome" where
  "set_kernel_mode_function pid f k =
     obind (all_processes k) (\<lambda>m.
       case get_process pid m of
         Some p \<Rightarrow> obind (set_kernel_mode_entry_point f p (mach k)) (\<lambda>(p', s).
                    Done (k\<lparr>PROCESS_MAP := Some (on_process pid (\<lambda>_. p') m), mach := s\<rparr>))
       | None \<Rightarrow> Done k)"

definition get_current_pid :: "kernel \<Rightarrow> process_id outcome" where
  "get_current_pid k = obind (all_processes k) (\<lambda>m. Done (pmap_current m))"

section \<open>Executables\<close>

datatype interpretation_mode = InterpDetect | InterpBIN | InterpELF | InterpCOM | InterpDOS

definition interpretation_from_u32 :: "u32 \<Rightarrow> interpretation_mode" where
  "interpretation_from_u32 raw_mode =
     (if raw_mode = 1 then InterpBIN else if raw_mode = 2 then InterpELF
      else if raw_mode = 3 then InterpCOM else if raw_mode = 4 then InterpDOS else InterpDetect)"

datatype exec_format = FormatBIN | FormatELF | FormatCOM | FormatDOS

text \<open>The header is never read: the buffer that is compared holds four zeroes.\<close>

definition detect_exec_format :: exec_format where
  "detect_exec_format =
     (let buffer = [0, 0, 0, 0] :: u8 list
      in if take 2 buffer = [0x4d, 0x5a] then FormatDOS
         else if buffer = [0x7f, 0x45, 0x4c, 0x46] then FormatELF
         else FormatBIN)"

fun get_exec_format :: "interpretation_mode \<Rightarrow> exec_format" where
  "get_exec_format InterpDetect = detect_exec_format"
| "get_exec_format InterpBIN = FormatBIN"
| "get_exec_format InterpELF = FormatELF"
| "get_exec_format InterpCOM = FormatCOM"
| "get_exec_format InterpDOS = FormatDOS"

definition prepare_for_exec ::
  "usize \<Rightarrow> local_handle \<Rightarrow> interpretation_mode \<Rightarrow> process_state \<Rightarrow> machine
    \<Rightarrow> (usize \<times> process_state \<times> machine) outcome" where
  "prepare_for_exec drive_number handle interp_mode p s =
     (let format = get_exec_format interp_mode;
          new_subsystem = (case format of FormatDOS \<Rightarrow> DOS dos_subsystem_metadata_new
                           | FormatCOM \<Rightarrow> DOS dos_subsystem_metadata_new | _ \<Rightarrow> Native)
      in obind (unmap_all (ps_memory p) s) (\<lambda>(pm, s).
         obind (case format of
             FormatBIN \<Rightarrow>
               let len = 0xf0;
                   pm = mmap (VirtualAddress 0) len drive_number handle pm
               in Done (0, start_heap (VirtualAddress ((len + 0x1000) AND 0x1000)) pm)
           | FormatELF \<Rightarrow> Panic
           | FormatCOM \<Rightarrow>
               let len = 0xf0; prog_start = 0x1000;
                   pm = anonymous_map (VirtualAddress 0) prog_start pm
               in Done (prog_start, mmap (VirtualAddress prog_start) len drive_number handle pm)
           | FormatDOS \<Rightarrow> Panic) (\<lambda>(entry, pm).
           Done (entry, p\<lparr>ps_memory := pm, ps_subsystem := new_subsystem\<rparr>, s))))"

text \<open>\<^verbatim>\<open>exec\<close> ends in an interrupt return; its result is the list of words pushed for it.\<close>

definition process_exec ::
  "usize \<Rightarrow> local_handle \<Rightarrow> interpretation_mode \<Rightarrow> kernel \<Rightarrow> (u32 list \<times> kernel) outcome" where
  "process_exec drive_number handle interp_mode k =
     obind (all_processes k) (\<lambda>m.
     obind (of_option (get_current_process m)) (\<lambda>cur.
     obind (prepare_for_exec drive_number handle interp_mode cur (mach k)) (\<lambda>(entry, cur, s).
     let k = k\<lparr>PROCESS_MAP := Some (on_process (pmap_current m) (\<lambda>_. cur) m), mach := s\<rparr>
     in Done (case get_vm8086_metadata cur of
            Some meta \<Rightarrow> [dos_gs meta, dos_fs meta, dos_ds meta, dos_es meta, dos_ss meta, 0xffc, 0x20200, drop_bit 4 entry, 0]
          | None \<Rightarrow> [0x23, 0xbffffffc, 0x200, 0x1b, entry], k))))"

end
