(* ===== verification/ProcessCorrect.thy ===== *)
theory ProcessCorrect
  imports Processes
begin

text \<open>
  Correctness of the scheduler and of the life cycle of processes: the choice of the next
  process is round robin and starves nobody, the process map stays well formed over every
  sequence of kernel operations, a parent waiting for a child gets its exit code, and a
  sleeping process wakes after the right number of timer ticks.
\<close>

section \<open>Operations on one process\<close>

abbreviation pids :: "process_map \<Rightarrow> process_id set" where
  "pids m \<equiv> set (bt_keys (pmap_processes m))"

lemma get_process_on_process [simp]:
  "get_process q (on_process pid f m) = (if q = pid then map_option f (get_process q m) else get_process q m)"
  by (simp add: get_process_def on_process_def)

lemma on_process_fields [simp]:
  "pmap_current (on_process pid f m) = pmap_current m" "pmap_next_pid (on_process pid f m) = pmap_next_pid m"
  "bt_keys (pmap_processes (on_process pid f m)) = bt_keys (pmap_processes m)"
  "bt_wf (pmap_processes (on_process pid f m)) = bt_wf (pmap_processes m)"
  by (simp_all add: on_process_def)

lemma get_process_pids: "get_process pid m \<noteq> None \<longleftrightarrow> pid \<in> pids m"
  by (simp add: get_process_def bt_get_None_iff)

lemma get_current_process_eq: "get_current_process m = get_process (pmap_current m) m"
  by (simp add: get_process_def get_current_process_def)

lemma get_process_make_current [simp]: "get_process q (pmap_make_current pid m) = get_process q m"
  by (simp add: get_process_def pmap_make_current_def)

section \<open>The next process\<close>

definition runnable :: "process_map \<Rightarrow> process_id set" where
  "runnable m = {pid. \<exists>p. get_process pid m = Some p \<and> is_running p}"

definition rr_next :: "process_id set \<Rightarrow> process_id \<Rightarrow> process_id \<Rightarrow> bool" where
  "rr_next R c n \<longleftrightarrow> (if R = {} then n = c else n \<in> R
     \<and> (if \<exists>p \<in> R. c < p then c < n \<and> (\<forall>p \<in> R. c < p \<longrightarrow> n \<le> p) else \<forall>p \<in> R. n \<le> p))"

lemma next_running_spec:
  fixes m :: "(process_id, process_state) btree"
  assumes "bt_wf m"
  defines "R \<equiv> {pid. \<exists>p. (pid, p) \<in> set m \<and> is_running p}"
  shows "if \<exists>p \<in> R. c < p
    then next_running c first m \<in> R \<and> c < next_running c first m \<and> (\<forall>p \<in> R. c < p \<longrightarrow> next_running c first m \<le> p)
    else (case first of Some f \<Rightarrow> next_running c first m = f
          | None \<Rightarrow> if R = {} then next_running c first m = c
                    else next_running c first m \<in> R \<and> (\<forall>p \<in> R. next_running c first m \<le> p))"
  using assms(1) unfolding R_def
proof (induction c first m rule: next_running.induct)
  case (1 c first)
  then show ?case by (simp split: option.splits)
next
  case (2 c first pid process rest)
  have wf: "bt_wf rest" and above: "\<And>q p. (q, p) \<in> set rest \<Longrightarrow> pid < q"
    using "2.prems" by (auto simp: bt_wf_def bt_keys_def)
  show ?case
  proof (cases "is_running process")
    case False
    have eq: "{q. \<exists>p. (q, p) \<in> set ((pid, process) # rest) \<and> is_running p} = {q. \<exists>p. (q, p) \<in> set rest \<and> is_running p}"
      using False by auto
    show ?thesis unfolding eq using "2.IH"(2) [OF False wf] False by (simp only: next_running.simps if_False)
  next
    case True
    show ?thesis
    proof (cases "pid > c")
      case gt: True
      have "\<forall>q p. (q, p) \<in> set ((pid, process) # rest) \<longrightarrow> pid \<le> q" using above by (auto intro: less_imp_le)
      then show ?thesis using True gt by (auto simp: Let_def)
    next
      case le: False
      define f where "f = (case first of None \<Rightarrow> Some pid | Some f \<Rightarrow> Some f)"
      define S where "S = {q. \<exists>p. (q, p) \<in> set rest \<and> is_running p}"
      define n where "n = next_running c f rest"
      have n: "next_running c first ((pid, process) # rest) = n" using True le by (simp add: f_def n_def Let_def)
      have R: "{q. \<exists>p. (q, p) \<in> set ((pid, process) # rest) \<and> is_running p} = insert pid S" using True by (auto simp: S_def)
      obtain g where g: "f = Some g" "g = (case first of None \<Rightarrow> pid | Some h \<Rightarrow> h)" by (cases first) (simp_all add: f_def)
      have IH: "if \<exists>p \<in> S. c < p then n \<in> S \<and> c < n \<and> (\<forall>p \<in> S. c < p \<longrightarrow> n \<le> p) else n = g"
        using "2.IH"(1) [OF True refl le wf, folded f_def n_def S_def] by (simp split: option.splits if_splits add: g(1))
      have "\<forall>p \<in> S. pid \<le> p" using above by (auto simp: S_def intro: less_imp_le)
      then show ?thesis unfolding n R using IH le by (cases first) (auto simp: g split: if_splits)
    qed
  qed
qed

lemma runnable_eq: "bt_wf (pmap_processes m) \<Longrightarrow> runnable m = {pid. \<exists>p. (pid, p) \<in> set (pmap_processes m) \<and> is_running p}"
  by (simp add: runnable_def get_process_def bt_get_mem)

lemma get_next_running_process_spec:
  assumes "bt_wf (pmap_processes m)"
  shows "rr_next (runnable m) (pmap_current m) (get_next_running_process m)"
  using next_running_spec [OF assms, of "pmap_current m" None]
  by (auto simp: rr_next_def runnable_eq [OF assms] get_next_running_process_def split: if_splits)

lemma rr_next_mem: "rr_next R c n \<Longrightarrow> n = c \<or> n \<in> R"
  by (auto simp: rr_next_def split: if_splits)

lemma runnable_pids: "runnable m \<subseteq> pids m"
  using get_process_pids by (fastforce simp: runnable_def)

section \<open>Switching\<close>

text \<open>What a context switch leaves alone.\<close>

definition same_processes :: "process_map \<Rightarrow> process_map \<Rightarrow> bool" where
  "same_processes m m' \<longleftrightarrow> bt_keys (pmap_processes m') = bt_keys (pmap_processes m) \<and> pmap_next_pid m' = pmap_next_pid m
     \<and> (\<forall>pid. map_option (\<lambda>p. p\<lparr>ps_kernel_esp := 0\<rparr>) (get_process pid m') = map_option (\<lambda>p. p\<lparr>ps_kernel_esp := 0\<rparr>) (get_process pid m))"

lemma same_processes_state:
  assumes "same_processes m m'"
  shows "map_option ps_run_state (get_process pid m') = map_option ps_run_state (get_process pid m)"
    "map_option ps_pid (get_process pid m') = map_option ps_pid (get_process pid m)"
    "map_option ps_parent (get_process pid m') = map_option ps_parent (get_process pid m)"
proof -
  have c: "map_option (\<lambda>p. p\<lparr>ps_kernel_esp := 0\<rparr>) (get_process pid m') = map_option (\<lambda>p. p\<lparr>ps_kernel_esp := 0\<rparr>) (get_process pid m)"
    using assms by (simp add: same_processes_def)
  have f: "f p = f (p\<lparr>ps_kernel_esp := 0\<rparr>)" if "f \<in> {ps_pid, ps_parent}" for f and p :: process_state using that by auto
  show "map_option ps_run_state (get_process pid m') = map_option ps_run_state (get_process pid m)"
    "map_option ps_pid (get_process pid m') = map_option ps_pid (get_process pid m)"
    "map_option ps_parent (get_process pid m') = map_option ps_parent (get_process pid m)"
    using arg_cong [OF c, of "map_option ps_run_state"] arg_cong [OF c, of "map_option ps_pid"] arg_cong [OF c, of "map_option ps_parent"]
    by (simp_all add: option.map_comp comp_def)
qed

lemma same_processes_runnable:
  assumes "same_processes m m'"
  shows "runnable m' = runnable m"
proof -
  have "(\<exists>p. get_process pid m' = Some p \<and> is_running p) = (\<exists>p. get_process pid m = Some p \<and> is_running p)" for pid
    using same_processes_state(1) [OF assms, of pid]
    by (cases "get_process pid m'"; cases "get_process pid m") (simp_all add: is_running_def)
  then show ?thesis by (simp add: runnable_def)
qed

lemma switch_to_spec:
  assumes "PROCESS_MAP k = Some m" "pmap_current m \<in> pids m" "pid \<in> pids m"
  shows "\<exists>k' m'. switch_to pid cur_esp k = Done k' \<and> PROCESS_MAP k' = Some m' \<and> pmap_current m' = pid \<and> same_processes m m'
    \<and> kregions k' = kregions k
    \<and> (\<exists>p. get_process pid m = Some p \<and> mach k' = set_current_pagedir (ptr_address (ps_page_directory p)) (mach k))"
proof -
  from assms(2,3) obtain c p where c: "get_process (pmap_current m) m = Some c" and p: "get_process pid m = Some p"
    using get_process_pids [of "pmap_current m" m] get_process_pids [of pid m] by auto
  let ?m = "on_process (pmap_current m) (\<lambda>p. p\<lparr>ps_kernel_esp := cur_esp\<rparr>) (pmap_make_current pid m)"
  have same: "same_processes m ?m"
    by (auto simp: same_processes_def pmap_make_current_def get_process_def on_process_def option.map_comp comp_def)
  have cur: "pmap_current ?m = pid" by (simp add: pmap_make_current_def)
  let ?k = "k\<lparr>PROCESS_MAP := Some ?m, mach := set_current_pagedir (ptr_address (ps_page_directory p)) (mach k),
      tss_esp0 := STACK_START + STACK_SIZE - 4, cpu_esp := (if pid = pmap_current m then cur_esp else ps_kernel_esp p)\<rparr>"
  have "switch_to pid cur_esp k = Done ?k"
    using c p assms(1) by (auto simp: switch_to_def all_processes_def get_current_process_eq Let_def)
  then show ?thesis using same cur p by (intro exI [of _ ?k] exI [of _ ?m]) simp
qed

lemma yield_coop_spec:
  assumes "PROCESS_MAP k = Some m" "bt_wf (pmap_processes m)" "pmap_current m \<in> pids m"
  shows "\<exists>k' m'. yield_coop cur_esp k = Done k' \<and> PROCESS_MAP k' = Some m' \<and> same_processes m m'
    \<and> pmap_current m' = get_next_running_process m \<and> kregions k' = kregions k"
proof (cases "get_next_running_process m = pmap_current m")
  case True
  then show ?thesis using assms(1) by (auto simp: yield_coop_def all_processes_def same_processes_def Let_def)
next
  case False
  then have "get_next_running_process m \<in> pids m"
    using rr_next_mem [OF get_next_running_process_spec [OF assms(2)]] runnable_pids by blast
  from switch_to_spec [OF assms(1,3) this, of cur_esp] False assms(1) show ?thesis
    by (auto simp: yield_coop_def all_processes_def Let_def)
qed

section \<open>Fairness\<close>

text \<open>The processes a round robin visits before \<open>p\<close>, when \<open>c\<close> is the current one.\<close>

definition ahead :: "process_id set \<Rightarrow> process_id \<Rightarrow> process_id \<Rightarrow> process_id set" where
  "ahead K p c = (if c < p then {q \<in> K. c < q \<and> q < p} else {q \<in> K. c < q \<or> q < p})"

lemma rr_next_closer:
  assumes "rr_next R c n" "p \<in> R" "R \<subseteq> K" "finite K" "n \<noteq> p" "c \<noteq> p"
  shows "card (ahead K p n) < card (ahead K p c)"
proof (rule psubset_card_mono)
  have R: "R \<noteq> {}" "n \<in> K" using assms by (auto simp: rr_next_def split: if_splits)
  have "n \<in> ahead K p c - ahead K p n" "ahead K p n \<subseteq> ahead K p c"
    using assms(1,2,5,6) R by (auto simp: rr_next_def ahead_def split: if_splits)
  then show "ahead K p n \<subset> ahead K p c" by blast
qed (use assms(4) in \<open>simp add: ahead_def\<close>)

lemma ahead_bound:
  assumes "finite K" "p \<in> K"
  shows "card (ahead K p c) < card K"
  by (rule psubset_card_mono) (use assms in \<open>auto simp: ahead_def\<close>)

lemma round_robin_reaches:
  fixes c :: "nat \<Rightarrow> process_id"
  assumes "finite K" "p \<in> K" "\<And>i. rr_next (R i) (c i) (c (Suc i))" "\<And>i. p \<in> R i" "\<And>i. R i \<subseteq> K"
  shows "\<exists>i \<le> card K. c i = p"
proof (rule ccontr)
  assume no: "\<not> ?thesis"
  have "card (ahead K p (c i)) + i \<le> card (ahead K p (c 0))" if "i \<le> card K" for i
    using that
  proof (induction i)
    case (Suc i)
    have "c i \<noteq> p" "c (Suc i) \<noteq> p" using no Suc.prems by auto
    then have "card (ahead K p (c (Suc i))) < card (ahead K p (c i))"
      using rr_next_closer [OF assms(3) assms(4) assms(5) assms(1)] by blast
    then show ?case using Suc by simp
  qed simp
  from this [of "card K"] ahead_bound [OF assms(1,2), of "c 0"] show False by simp
qed

section \<open>Signals\<close>

lemma child_exited_eq:
  "child_exited self child code m = Done (on_process self (\<lambda>p. case ps_run_state p of
       Blocked (Child pid) \<Rightarrow> if pid = child then p\<lparr>ps_run_state := Resumed code\<rparr> else p
     | _ \<Rightarrow> p) m)"
  by (simp add: child_exited.simps ps_send_signal.simps signal_defs)

text \<open>A process is told of its child's end by one change of its state.\<close>

definition told :: "process_id \<Rightarrow> u32 \<Rightarrow> process_state \<Rightarrow> process_state" where
  "told child code p = (if ps_run_state p = Blocked (Child child) then p\<lparr>ps_run_state := Resumed code\<rparr> else p)"

definition ended :: "u32 \<Rightarrow> u32 \<Rightarrow> process_state \<Rightarrow> process_state" where
  "ended signal code p = p\<lparr>ps_exit_code := exit_code_of signal code, ps_run_state := Terminated\<rparr>"

lemma on_process_on_process: "on_process pid f (on_process pid g m) = on_process pid (f \<circ> g) m"
  by (simp add: on_process_def bt_modify_modify)

lemma terminate_eq:
  assumes "get_process self m = Some p"
  shows "terminate self signal code m =
    (if ps_parent p = self then Hang
     else Done (on_process (ps_parent p) (told self code) (on_process self (ended signal code) m)))"
proof -
  have e: "(\<lambda>p. p\<lparr>ps_run_state := Terminated\<rparr>) \<circ> ps_set_exit_code (exit_code_of signal code) = ended signal code"
    by (auto simp: ended_def ps_set_exit_code_def)
  have t: "(\<lambda>p. case ps_run_state p of
       Blocked (Child pid) \<Rightarrow> if pid = self then p\<lparr>ps_run_state := Resumed code\<rparr> else p
     | _ \<Rightarrow> p) = told self code"
    by (auto simp: told_def fun_eq_iff split: run_state.splits block_reason.splits)
  have none: "on_process q f m = m" if "get_process q m = None" for q f m
    using that by (simp add: on_process_def get_process_def bt_get_None_iff bt_modify_absent)
  define M where "M = on_process self (ended signal code) m"
  have eq: "terminate self signal code m = (case get_process self M of None \<Rightarrow> Done M
      | Some p \<Rightarrow> case get_process (ps_parent p) M of
          Some _ \<Rightarrow> if ps_parent p = self then Hang else Done (on_process (ps_parent p) (told self code) M) | None \<Rightarrow> Done M)"
    unfolding terminate.simps Let_def on_process_on_process e child_exited_eq t M_def ..
  have self: "get_process self M = Some (ended signal code p)" "ps_parent (ended signal code p) = ps_parent p"
    using assms by (simp_all add: M_def ended_def)
  show ?thesis
  proof (cases "get_process (ps_parent p) M")
    case None
    then have "ps_parent p \<noteq> self" using self(1) by auto
    then show ?thesis using None none [of "ps_parent p" M] by (simp add: eq self M_def [symmetric])
  qed (simp add: eq self M_def [symmetric])
qed

section \<open>The invariant of the process map\<close>

definition pmap_wf :: "process_map \<Rightarrow> bool" where
  "pmap_wf m \<longleftrightarrow> bt_wf (pmap_processes m) \<and> pmap_current m \<in> pids m \<and> pids m = {pid. pid < pmap_next_pid m}
     \<and> (\<forall>pid p. get_process pid m = Some p \<longrightarrow> ps_pid p = pid \<and> ps_parent p \<in> pids m)"

lemma pmap_wfD:
  assumes "pmap_wf m"
  shows "bt_wf (pmap_processes m)" "pmap_current m \<in> pids m" "pids m = {pid. pid < pmap_next_pid m}"
    "get_process pid m = Some p \<Longrightarrow> ps_pid p = pid" "get_process pid m = Some p \<Longrightarrow> ps_parent p \<in> pids m"
  using assms unfolding pmap_wf_def by (simp_all only:) metis+

text \<open>Steps that create no process keep the identities of all of them.\<close>

definition keeps :: "process_map \<Rightarrow> process_map \<Rightarrow> bool" where
  "keeps m m' \<longleftrightarrow> bt_keys (pmap_processes m') = bt_keys (pmap_processes m) \<and> pmap_next_pid m' = pmap_next_pid m
     \<and> (pmap_current m \<in> pids m \<longrightarrow> pmap_current m' \<in> pids m)
     \<and> (\<forall>pid. map_option (\<lambda>p. (ps_pid p, ps_parent p)) (get_process pid m')
            = map_option (\<lambda>p. (ps_pid p, ps_parent p)) (get_process pid m))"

lemma keeps_refl [intro]: "keeps m m"
  by (simp add: keeps_def)

lemma keeps_trans [trans]: "keeps a b \<Longrightarrow> keeps b c \<Longrightarrow> keeps a c"
  by (simp add: keeps_def)

lemma keeps_wf:
  assumes "keeps m m'" "pmap_wf m"
  shows "pmap_wf m'" "length (pmap_processes m') = length (pmap_processes m)" "pmap_next_pid m' = pmap_next_pid m"
proof -
  have keys: "bt_keys (pmap_processes m') = bt_keys (pmap_processes m)" using assms(1) by (simp add: keeps_def)
  show "length (pmap_processes m') = length (pmap_processes m)" using arg_cong [OF keys, of length] by (simp add: bt_keys_def)
  have ids: "ps_pid p = pid \<and> ps_parent p \<in> pids m" if g: "get_process pid m' = Some p" for pid p
  proof -
    have "map_option (\<lambda>p. (ps_pid p, ps_parent p)) (get_process pid m')
        = map_option (\<lambda>p. (ps_pid p, ps_parent p)) (get_process pid m)" using assms(1) by (simp only: keeps_def)
    then obtain q where q: "get_process pid m = Some q" "ps_pid q = ps_pid p" "ps_parent q = ps_parent p"
      using g by (cases "get_process pid m") simp_all
    show ?thesis using pmap_wfD(4,5) [OF assms(2) q(1)] unfolding q(2,3) by (rule conjI)
  qed
  show n: "pmap_next_pid m' = pmap_next_pid m" using assms(1) by (simp add: keeps_def)
  note wf = pmap_wfD(1-3) [OF assms(2), unfolded bt_wf_def]
  have "pmap_current m' \<in> pids m" using assms(1) wf(2) unfolding keeps_def by blast
  then show "pmap_wf m'" using wf(1,3) ids unfolding pmap_wf_def bt_wf_def keys n by blast
qed

lemma keeps_on_process:
  assumes "\<And>p. ps_pid (f p) = ps_pid p" "\<And>p. ps_parent (f p) = ps_parent p"
  shows "keeps m (on_process pid f m)"
  using assms by (auto simp: keeps_def option.map_comp comp_def)

lemma keeps_same: "same_processes m m' \<Longrightarrow> (pmap_current m \<in> pids m \<longrightarrow> pmap_current m' \<in> pids m) \<Longrightarrow> keeps m m'"
proof -
  assume a: "same_processes m m'" "pmap_current m \<in> pids m \<longrightarrow> pmap_current m' \<in> pids m"
  have "map_option (\<lambda>p. (ps_pid p, ps_parent p)) (get_process pid m')
      = map_option (\<lambda>p. (ps_pid p, ps_parent p)) (get_process pid m)" for pid
    using same_processes_state(2,3) [OF a(1), of pid] by (cases "get_process pid m"; cases "get_process pid m'") simp_all
  then show ?thesis using a by (simp add: keeps_def same_processes_def)
qed

lemma keeps_yield:
  assumes "PROCESS_MAP k = Some m" "pmap_wf m" "yield_coop e k = Done k'"
  shows "\<exists>m'. PROCESS_MAP k' = Some m' \<and> keeps m m'"
proof -
  have m: "bt_wf (pmap_processes m)" "pmap_current m \<in> pids m" using assms(2) unfolding pmap_wf_def by blast+
  from yield_coop_spec [OF assms(1) m, of e] assms(3) obtain m' where
    "PROCESS_MAP k' = Some m'" "same_processes m m'" "pmap_current m' = get_next_running_process m" by auto
  moreover have "get_next_running_process m \<in> pids m"
    using rr_next_mem [OF get_next_running_process_spec [OF m(1)]] runnable_pids [of m] m(2) by auto
  ultimately show ?thesis using keeps_same by auto
qed

lemma keeps_terminate:
  assumes "terminate self signal code m = Done m'"
  shows "keeps m m'"
proof (cases "get_process self m")
  case (Some p)
  have "keeps m (on_process self (ended signal code) m)" by (rule keeps_on_process) (simp_all add: ended_def)
  also have "keeps \<dots> (on_process (ps_parent p) (told self code) \<dots>)" by (rule keeps_on_process) (simp_all add: told_def)
  finally show ?thesis using assms terminate_eq [OF Some, of signal code] by (simp split: if_splits)
next
  case None
  have "keeps m (on_process self (\<lambda>p. p\<lparr>ps_run_state := Terminated\<rparr>) (on_process self (ps_set_exit_code (exit_code_of signal code)) m))"
    unfolding on_process_on_process by (rule keeps_on_process) (simp_all add: ps_set_exit_code_def)
  then show ?thesis using assms None by (simp add: terminate.simps Let_def)
qed

lemma keeps_signal:
  assumes "ps_send_signal self sig m = Done m'"
  shows "keeps m m'"
proof -
  have a: "keeps m (on_process self (\<lambda>p. p\<lparr>ps_run_state := Paused\<rparr>) m)" by (rule keeps_on_process) simp_all
  have b: "keeps m (on_process self (\<lambda>p. if ps_run_state p = Paused then p\<lparr>ps_run_state := Running\<rparr> else p) m)"
    by (rule keeps_on_process) simp_all
  consider "ps_send_signal self sig m = Done (on_process self (\<lambda>p. p\<lparr>ps_run_state := Paused\<rparr>) m)"
    | "ps_send_signal self sig m = Done (on_process self (\<lambda>p. if ps_run_state p = Paused then p\<lparr>ps_run_state := Running\<rparr> else p) m)"
    | "ps_send_signal self sig m = terminate self sig 0 m" | "ps_send_signal self sig m = Done m"
    unfolding ps_send_signal.simps by argo
  then show ?thesis using assms by cases (use a b keeps_terminate in auto)
qed

lemma keeps_on_current:
  assumes "PROCESS_MAP k = Some m" "on_current f k = Done k'" "\<And>p. ps_pid (f p) = ps_pid p" "\<And>p. ps_parent (f p) = ps_parent p"
  shows "\<exists>m'. PROCESS_MAP k' = Some m' \<and> keeps m m'"
proof -
  have "k' = k\<lparr>PROCESS_MAP := Some (on_process (pmap_current m) f m)\<rparr>"
    using assms(1,2) by (cases "get_current_process m") (simp_all add: on_current_def all_processes_def)
  then show ?thesis using keeps_on_process [of f m "pmap_current m", OF assms(3,4)] by simp
qed

section \<open>Runs of the kernel\<close>

text \<open>The operations other parts of the kernel call, as steps; the number counts the processes a step creates.\<close>

inductive kernel_step :: "nat \<Rightarrow> kernel \<Rightarrow> kernel \<Rightarrow> bool" where
  tick: "send_tick k = Done k' \<Longrightarrow> kernel_step 0 k k'"
| yield: "yield_coop e k = Done k' \<Longrightarrow> kernel_step 0 k k'"
| sleep: "process_sleep ms e k = Done k' \<Longrightarrow> kernel_step 0 k k'"
| wait: "process_wait pid e k = Done k' \<Longrightarrow> kernel_step 0 k k'"
| resumed: "process_wait_resumed k = Done (code, k') \<Longrightarrow> kernel_step 0 k k'"
| signal: "process_send_signal pid sig k = Done k' \<Longrightarrow> kernel_step 0 k k'"
| exit: "process_exit code e k = Done k' \<Longrightarrow> kernel_step 0 k k'"
| exec: "process_exec drive handle mode k = Done (ws, k') \<Longrightarrow> kernel_step 0 k k'"
| kernel_function: "set_kernel_mode_function pid f k = Done k' \<Longrightarrow> kernel_step 0 k k'"
| fork: "process_fork e e' k = Done (r, k') \<Longrightarrow> kernel_step 1 k k'"

inductive kernel_reach :: "nat \<Rightarrow> kernel \<Rightarrow> bool" where
  start: "spawn_first_process heap rs s process_map_new = (pid, m, rs')
    \<Longrightarrow> kernel_reach 1 \<lparr>PROCESS_MAP = Some m, mach = s, kregions = rs', tss_esp0 = t, cpu_esp = e\<rparr>"
| step: "kernel_reach n k \<Longrightarrow> kernel_step d k k' \<Longrightarrow> kernel_reach (n + d) k'"

lemma keeps_tick:
  assumes "PROCESS_MAP k = Some m" "send_tick k = Done k'"
  shows "\<exists>m'. PROCESS_MAP k' = Some m' \<and> keeps m m'"
proof -
  have u: "ps_pid (update_tick p) = ps_pid p \<and> ps_parent (update_tick p) = ps_parent p" for p
    by (simp add: update_tick_def split: run_state.splits)
  let ?m = "m\<lparr>pmap_processes := bt_map update_tick (pmap_processes m)\<rparr>"
  have "k' = k\<lparr>PROCESS_MAP := Some ?m\<rparr>" using assms by (simp add: send_tick_def all_processes_mut_def all_processes_def)
  moreover have "keeps m ?m" by (simp add: keeps_def get_process_def option.map_comp comp_def u)
  ultimately show ?thesis by simp
qed

lemma keeps_yield_after:
  assumes "PROCESS_MAP k = Some m" "pmap_wf m" "obind (on_current f k) (yield_coop e) = Done k'"
    and "\<And>p. ps_pid (f p) = ps_pid p" "\<And>p. ps_parent (f p) = ps_parent p"
  shows "\<exists>m'. PROCESS_MAP k' = Some m' \<and> keeps m m'"
proof -
  from assms(3) obtain k1 where k1: "on_current f k = Done k1" "yield_coop e k1 = Done k'" by (cases "on_current f k") auto
  from keeps_on_current [OF assms(1) k1(1) assms(4,5)] obtain m1 where m1: "PROCESS_MAP k1 = Some m1" "keeps m m1" by blast
  from keeps_yield [OF m1(1) keeps_wf(1) [OF m1(2) assms(2)] k1(2)] m1(2) show ?thesis using keeps_trans by blast
qed

lemma keeps_exit:
  assumes "PROCESS_MAP k = Some m" "pmap_wf m" "process_exit code e k = Done k'"
  shows "\<exists>m'. PROCESS_MAP k' = Some m' \<and> keeps m m'"
proof -
  from assms(1,3) obtain m1 where m1: "ps_exit (pmap_current m) code m = Done m1"
    and k': "yield_coop e (k\<lparr>PROCESS_MAP := Some m1\<rparr>) = Done k'"
    by (auto simp: process_exit_def all_processes_def obind_Done_iff split: if_splits)
  have "keeps m m1" using m1 keeps_terminate by (simp add: ps_exit_def)
  moreover from keeps_yield [OF _ keeps_wf(1) [OF this assms(2)] k'] obtain m' where "PROCESS_MAP k' = Some m'" "keeps m1 m'" by auto
  ultimately show ?thesis using keeps_trans by blast
qed

lemma keeps_exec:
  assumes "PROCESS_MAP k = Some m" "process_exec drive handle mode k = Done (ws, k')"
  shows "\<exists>m'. PROCESS_MAP k' = Some m' \<and> keeps m m'"
proof -
  from assms obtain cur entry cur' s where
    cur: "get_process (pmap_current m) m = Some cur" and p: "prepare_for_exec drive handle mode cur (mach k) = Done (entry, cur', s)"
    and k': "k' = k\<lparr>PROCESS_MAP := Some (on_process (pmap_current m) (\<lambda>_. cur') m), mach := s\<rparr>"
    by (auto simp: process_exec_def all_processes_def obind_Done_iff get_current_process_eq of_option_def Let_def split: option.splits)
  have "ps_pid cur' = ps_pid cur \<and> ps_parent cur' = ps_parent cur"
    using p by (auto simp: prepare_for_exec_def obind_Done_iff Let_def)
  then have "keeps m (on_process (pmap_current m) (\<lambda>_. cur') m)" using cur by (simp add: keeps_def)
  then show ?thesis using k' by simp
qed

lemma keeps_kernel_function:
  assumes "PROCESS_MAP k = Some m" "set_kernel_mode_function pid f k = Done k'"
  shows "\<exists>m'. PROCESS_MAP k' = Some m' \<and> keeps m m'"
proof (cases "get_process pid m")
  case None
  then show ?thesis using assms by (auto simp: set_kernel_mode_function_def all_processes_def)
next
  case (Some p)
  from assms Some obtain p' s where p': "set_kernel_mode_entry_point f p (mach k) = Done (p', s)"
    and k': "k' = k\<lparr>PROCESS_MAP := Some (on_process pid (\<lambda>_. p') m), mach := s\<rparr>"
    by (auto simp: set_kernel_mode_function_def all_processes_def obind_Done_iff)
  have "ps_pid p' = ps_pid p \<and> ps_parent p' = ps_parent p"
    using p' by (auto simp: set_kernel_mode_entry_point_def obind_Done_iff Let_def)
  then have "keeps m (on_process pid (\<lambda>_. p') m)" using Some by (simp add: keeps_def)
  then show ?thesis using k' by simp
qed

lemma keeps_others:
  assumes "PROCESS_MAP k = Some m"
  shows "process_wait_resumed k = Done (code, k') \<Longrightarrow> \<exists>m'. PROCESS_MAP k' = Some m' \<and> keeps m m'"
    and "process_send_signal pid sig k = Done k' \<Longrightarrow> \<exists>m'. PROCESS_MAP k' = Some m' \<and> keeps m m'"
proof -
  have "keeps m (on_process (pmap_current m) (\<lambda>p. snd (get_resume_code p)) m)"
    by (rule keeps_on_process) (simp_all add: get_resume_code_def split: run_state.splits)
  moreover assume "process_wait_resumed k = Done (code, k')"
  ultimately show "\<exists>m'. PROCESS_MAP k' = Some m' \<and> keeps m m'"
    using assms by (auto simp: process_wait_resumed_def all_processes_def obind_Done_iff)
next
  assume s: "process_send_signal pid sig k = Done k'"
  show "\<exists>m'. PROCESS_MAP k' = Some m' \<and> keeps m m'"
  proof (cases "get_process pid m")
    case None
    then show ?thesis using assms s by (auto simp: process_send_signal_def all_processes_def)
  next
    case (Some p)
    then show ?thesis using assms s keeps_signal by (auto simp: process_send_signal_def all_processes_def obind_Done_iff)
  qed
qed

lemma fork_current_wf:
  assumes wf: "pmap_wf m" and n: "unat (pmap_next_pid m) + 1 < 2 ^ 32" and f: "fork_current rs s m = Done (pid, m', s')"
  shows "pmap_wf m'" "length (pmap_processes m') = Suc (length (pmap_processes m))" "pid = pmap_next_pid m"
    "pmap_next_pid m' = pmap_next_pid m + 1" "\<exists>p. get_process pid m' = Some p \<and> ps_parent p = pmap_current m"
    "\<forall>q. q \<noteq> pid \<longrightarrow> get_process q m' = get_process q m" "pmap_current m' = pmap_current m"
proof -
  note w = pmap_wfD [OF wf]
  from f obtain cur new where cur: "get_process (pmap_current m) m = Some cur" and new: "ps_fork (pmap_next_pid m) cur rs s = Done (new, s')"
    and m': "m' = m\<lparr>pmap_next_pid := pmap_next_pid m + 1, pmap_processes := bt_insert (pmap_next_pid m) new (pmap_processes m)\<rparr>"
    and pid: "pid = pmap_next_pid m"
    by (auto simp: fork_current_def get_next_pid_def get_current_process_def get_process_def obind_Done_iff of_option_def split: option.splits)
  have id: "ps_pid new = pmap_next_pid m" "ps_parent new = pmap_current m"
    using new w(4) [OF cur] by (auto simp: ps_fork_def obind_Done_iff Let_def)
  have fresh: "pmap_next_pid m \<notin> pids m" using w(3) by simp
  have get: "get_process q m' = (if q = pid then Some new else get_process q m)" for q by (simp add: get_process_def m' pid)
  have keys: "pids m' = insert pid (pids m)" by (simp add: m' pid)
  have "unat (pmap_next_pid m + 1) = unat (pmap_next_pid m) + 1" using n by (intro unat_add32 [THEN trans]) simp_all
  then have succ: "{q. q < pmap_next_pid m + 1} = insert (pmap_next_pid m) {q. q < pmap_next_pid m}"
    by (auto simp: word_less_nat_alt word_unat_eq_iff less_Suc_eq)
  have "bt_wf (pmap_processes m')" using w(1) by (simp add: m')
  moreover have "pmap_current m' \<in> pids m'" using w(2) keys by (simp add: m')
  moreover have "pids m' = {q. q < pmap_next_pid m'}" unfolding keys w(3) pid using succ by (simp add: m')
  moreover have "ps_pid p = q \<and> ps_parent p \<in> pids m'" if "get_process q m' = Some p" for q p
    using that w(2,4,5) id pid unfolding get keys by (auto split: if_splits)
  ultimately show "pmap_wf m'" unfolding pmap_wf_def by blast
  show "length (pmap_processes m') = Suc (length (pmap_processes m))" using length_bt_insert [OF fresh] by (simp add: m')
  show "pid = pmap_next_pid m" by (rule pid)
  show "pmap_next_pid m' = pmap_next_pid m + 1" "pmap_current m' = pmap_current m" by (simp_all add: m')
  show "\<exists>p. get_process pid m' = Some p \<and> ps_parent p = pmap_current m" using get id by simp
  show "\<forall>q. q \<noteq> pid \<longrightarrow> get_process q m' = get_process q m" using get by simp
qed

lemma process_fork_wf:
  assumes "PROCESS_MAP k = Some m" "pmap_wf m" "unat (pmap_next_pid m) + 1 < 2 ^ 32" "process_fork e e' k = Done (r, k')"
  shows "\<exists>m'. PROCESS_MAP k' = Some m' \<and> pmap_wf m' \<and> length (pmap_processes m') = Suc (length (pmap_processes m))
    \<and> pmap_next_pid m' = pmap_next_pid m + 1"
proof -
  from assms(1,4) obtain pid m1 s1 m2 where m1: "fork_current (kregions k) (mach k) m = Done (pid, m1, s1)"
    and m2: "PROCESS_MAP k' = Some (on_process pid (\<lambda>p. p\<lparr>ps_kernel_esp := e'\<rparr>) m1)"
    by (auto simp: process_fork_def all_processes_def obind_Done_iff fork_inner_def all_processes_mut_def Let_def)
  have "keeps m1 (on_process pid (\<lambda>p. p\<lparr>ps_kernel_esp := e'\<rparr>) m1)" by (rule keeps_on_process) simp_all
  note kw = keeps_wf [OF this fork_current_wf(1) [OF assms(2,3) m1]]
  show ?thesis using m2 kw fork_current_wf(2,4) [OF assms(2,3) m1] by simp
qed

lemma kernel_reach_wf:
  assumes "kernel_reach n k" "n < 2 ^ 32"
  shows "\<exists>m. PROCESS_MAP k = Some m \<and> pmap_wf m \<and> length (pmap_processes m) = n \<and> unat (pmap_next_pid m) = n"
  using assms
proof (induction rule: kernel_reach.induct)
  case (start heap rs s pid m rs' t e)
  then have m: "pmap_next_pid m = 1" "pmap_current m = 0" "pmap_processes m = [(0, fst (ps_first 0 heap rs s))]" and
    p: "ps_pid (fst (ps_first 0 heap rs s)) = 0" "ps_parent (fst (ps_first 0 heap rs s)) = 0"
    by (auto simp: spawn_first_process_def get_next_pid_def process_map_new_def ps_first_def Let_def split: prod.splits)
  have "{q :: u32. q < 1} = {0}" by (auto simp: word_less_1)
  then have "pmap_wf m" using m p by (auto simp: pmap_wf_def bt_wf_def bt_keys_def get_process_def bt_get_def split: if_splits)
  then show ?case using m by simp
next
  case (step n k d k')
  then obtain m where m: "PROCESS_MAP k = Some m" "pmap_wf m" "length (pmap_processes m) = n" "unat (pmap_next_pid m) = n" by auto
  have keep: ?case if "\<exists>m'. PROCESS_MAP k' = Some m' \<and> keeps m m'" "d = 0" using that keeps_wf [OF _ m(2)] m(3,4) by auto
  show ?case using step.hyps(2) step.prems
  proof cases
    case (fork e e' r)
    have "unat (pmap_next_pid m) + 1 < 2 ^ 32" using step.prems fork m(4) by simp
    from process_fork_wf [OF m(1,2) this fork(2)] this m(3,4) fork show ?thesis by (auto simp: unat_word_ariths)
  qed (use keep keeps_tick [OF m(1)] keeps_yield [OF m(1,2)] keeps_yield_after [OF m(1,2)] keeps_exit [OF m(1,2)]
      keeps_exec [OF m(1)] keeps_kernel_function [OF m(1)] keeps_others [OF m(1)]
      in \<open>auto simp: process_sleep_def process_wait_def ps_sleep_def block_on_child_def\<close>)
qed

section \<open>A sample kernel\<close>

definition sample_process :: "process_id \<Rightarrow> process_id \<Rightarrow> run_state \<Rightarrow> process_state" where
  "sample_process pid parent state =
     \<lparr>ps_pid = pid, ps_parent = parent, ps_memory = sample_memory,
      ps_page_directory = ptr_new (PhysicalAddress 0x1000), ps_kernel_esp = 0xffbfe000,
      ps_open_files = fhm_new, ps_open_directories = fhm_new, ps_run_state = state, ps_subsystem = Native, ps_exit_code = 0\<rparr>"

definition sample_map :: "process_id \<Rightarrow> run_state \<Rightarrow> run_state \<Rightarrow> process_map" where
  "sample_map cur st0 st1 = \<lparr>pmap_current = cur, pmap_next_pid = 2,
     pmap_processes = [(0, sample_process 0 0 st0), (1, sample_process 1 0 st1)]\<rparr>"

definition sample_kernel :: "process_map \<Rightarrow> kernel" where
  "sample_kernel m = \<lparr>PROCESS_MAP = Some m, mach = sample_machine, kregions = kernel_regions_initial, tss_esp0 = 0, cpu_esp = 0\<rparr>"

lemma sample_kernel_map [simp]: "PROCESS_MAP (sample_kernel m) = Some m"
  by (simp add: sample_kernel_def)

lemma sample_map_process:
  "get_process 0 (sample_map cur st0 st1) = Some (sample_process 0 0 st0)"
  "get_process 1 (sample_map cur st0 st1) = Some (sample_process 1 0 st1)"
  by (simp_all add: sample_map_def get_process_def bt_get_def)

lemma sample_map_wf: "cur \<in> {0, 1} \<Longrightarrow> pmap_wf (sample_map cur st0 st1)"
proof -
  assume "cur \<in> {0, 1}"
  have lt: "{q :: u32. q < 2} = {0, 1}"
  proof (intro set_eqI iffI)
    fix q :: u32 assume "q \<in> {q. q < 2}"
    then have "unat q = 0 \<or> unat q = 1" by (simp add: word_less_nat_alt) linarith
    then have "q = 0 \<or> q = 1" using word_unat_eq_iff [of q 0] word_unat_eq_iff [of q 1] by simp
    then show "q \<in> {0, 1}" by simp
  qed (auto simp: word_less_nat_alt)
  have p: "ps_pid (sample_process q r s) = q" "ps_parent (sample_process q r s) = r" for q r s by (simp_all add: sample_process_def)
  have get: "get_process q (sample_map cur st0 st1) = (if q = 0 then Some (sample_process 0 0 st0)
      else if q = 1 then Some (sample_process 1 0 st1) else None)" for q
    by (simp add: get_process_def sample_map_def bt_get_def)
  have keys: "bt_keys (pmap_processes (sample_map cur st0 st1)) = [0, 1]" by (simp add: sample_map_def bt_keys_def)
  have "ps_pid x = q \<and> ps_parent x \<in> pids (sample_map cur st0 st1)" if "get_process q (sample_map cur st0 st1) = Some x" for q x
    using that p unfolding get keys by (auto split: if_splits)
  moreover have "pmap_current (sample_map cur st0 st1) = cur" "pmap_next_pid (sample_map cur st0 st1) = 2" by (simp_all add: sample_map_def)
  ultimately show ?thesis using \<open>cur \<in> {0, 1}\<close> unfolding pmap_wf_def bt_wf_def keys by (simp add: lt)
qed

section \<open>Properties\<close>

text \<open>The processor is given up in one state; when it is given up the next time, the same process still runs and the
  same processes exist, but their states may have changed in any way.\<close>

definition scheduled :: "kernel \<Rightarrow> kernel \<Rightarrow> bool" where
  "scheduled k k' \<longleftrightarrow> (\<exists>e k1 m1 m'. yield_coop e k = Done k1 \<and> PROCESS_MAP k1 = Some m1 \<and> PROCESS_MAP k' = Some m'
     \<and> pmap_current m' = pmap_current m1 \<and> bt_keys (pmap_processes m') = bt_keys (pmap_processes m1))"

text \<open>C11: the scheduler starves nobody.  In every sequence of kernel states in which the processor is given up
  again and again and process \<open>pid\<close> can run each time, \<open>pid\<close> becomes the current process after at most as many
  switches as there are processes, whatever happens to the other processes in between.\<close>

theorem scheduler_is_fair:
  fixes k :: "nat \<Rightarrow> kernel"
  assumes "\<forall>i. scheduled (k i) (k (Suc i))"
    and "\<forall>i. \<exists>m p. PROCESS_MAP (k i) = Some m \<and> pmap_wf m \<and> get_process pid m = Some p \<and> is_running p"
    and "PROCESS_MAP (k 0) = Some m0"
  shows "\<exists>i m. i \<le> length (pmap_processes m0) \<and> PROCESS_MAP (k i) = Some m \<and> pmap_current m = pid"
proof -
  define m where "m i = the (PROCESS_MAP (k i))" for i
  have m: "PROCESS_MAP (k i) = Some (m i)" "pmap_wf (m i)" "pid \<in> runnable (m i)" for i
    using assms(2) [rule_format, of i] by (auto simp: m_def runnable_def)
  have nxt: "same_keys \<and> rr_next (runnable (m i)) (pmap_current (m i)) (pmap_current (m (Suc i)))"
    if "same_keys = (bt_keys (pmap_processes (m (Suc i))) = bt_keys (pmap_processes (m i)))" for i same_keys
  proof -
    from assms(1) obtain e k1 m1 where s: "yield_coop e (k i) = Done k1" "PROCESS_MAP k1 = Some m1"
      "pmap_current (m (Suc i)) = pmap_current m1" "bt_keys (pmap_processes (m (Suc i))) = bt_keys (pmap_processes m1)"
      using m(1) [of "Suc i"] unfolding scheduled_def by (metis option.inject)
    note w = pmap_wfD(1,2) [OF m(2) [of i]]
    from yield_coop_spec [OF m(1) w, of e] s(1,2) have "same_processes (m i) m1" "pmap_current m1 = get_next_running_process (m i)" by auto
    then show ?thesis using s(3,4) that get_next_running_process_spec [OF w(1)] by (simp add: same_processes_def)
  qed
  have keys: "bt_keys (pmap_processes (m i)) = bt_keys (pmap_processes m0)" for i
  proof (induction i)
    case 0
    then show ?case using assms(3) by (simp add: m_def)
  qed (use nxt [OF refl] in simp)
  let ?K = "pids m0"
  have R: "runnable (m i) \<subseteq> ?K" for i using runnable_pids [of "m i"] unfolding keys .
  have "\<exists>i \<le> card ?K. pmap_current (m i) = pid"
    by (rule round_robin_reaches [of ?K pid "\<lambda>i. runnable (m i)"]) (use nxt [OF refl] m(3) R in auto)
  moreover have "card ?K \<le> length (pmap_processes m0)" using card_length [of "bt_keys (pmap_processes m0)"] by (simp add: bt_keys_def)
  ultimately obtain i where i: "i \<le> length (pmap_processes m0)" "pmap_current (m i) = pid" using order_trans by blast
  show ?thesis by (rule exI [of _ i], rule exI [of _ "m i"]) (intro conjI i m(1))
qed

lemma sample_scheduled:
  assumes "get_next_running_process (sample_map c a b) = c'" "c \<in> {0, 1}"
  shows "scheduled (sample_kernel (sample_map c a b)) (sample_kernel (sample_map c' a' b'))"
proof -
  note w = pmap_wfD(1,2) [OF sample_map_wf [OF assms(2)]]
  from yield_coop_spec [OF sample_kernel_map w, of 0] obtain k1 m1 where
    k1: "yield_coop 0 (sample_kernel (sample_map c a b)) = Done k1" "PROCESS_MAP k1 = Some m1"
      "same_processes (sample_map c a b) m1" "pmap_current m1 = get_next_running_process (sample_map c a b)" by blast
  have "pmap_current (sample_map c' a' b') = pmap_current m1" using k1(4) assms(1) by (simp add: sample_map_def)
  moreover have "bt_keys (pmap_processes (sample_map c' a' b')) = bt_keys (pmap_processes m1)"
    using k1(3) by (simp add: same_processes_def sample_map_def bt_keys_def)
  ultimately show ?thesis unfolding scheduled_def using k1(1,2) sample_kernel_map by blast
qed

theorem scheduler_is_fair_witness:
  "\<exists>i m. i \<le> 2 \<and> PROCESS_MAP (case i of 0 \<Rightarrow> sample_kernel (sample_map 0 Running Running)
       | Suc _ \<Rightarrow> sample_kernel (sample_map 1 (Sleeping 5) Running)) = Some m \<and> pmap_current m = 1"
proof -
  let ?k = "\<lambda>i. case i of 0 \<Rightarrow> sample_kernel (sample_map 0 Running Running) | Suc _ \<Rightarrow> sample_kernel (sample_map 1 (Sleeping 5) Running)"
  have nxt: "get_next_running_process (sample_map 0 Running Running) = 1" "get_next_running_process (sample_map 1 (Sleeping 5) Running) = 1"
    by (simp_all add: get_next_running_process_def sample_map_def sample_process_def is_running_def)
  have "\<forall>i. scheduled (?k i) (?k (Suc i))"
    using sample_scheduled [OF nxt(1)] sample_scheduled [OF nxt(2)] by (simp split: nat.split)
  moreover have run: "is_running (sample_process 1 0 Running)" by (simp add: is_running_def sample_process_def)
  then have "\<forall>i. \<exists>m p. PROCESS_MAP (?k i) = Some m \<and> pmap_wf m \<and> get_process 1 m = Some p \<and> is_running p"
    using sample_map_wf sample_map_process(2) by (simp split: nat.split)
  moreover have "PROCESS_MAP (?k 0) = Some (sample_map 0 Running Running)" by simp
  ultimately have "\<exists>i m. i \<le> length (pmap_processes (sample_map 0 Running Running)) \<and> PROCESS_MAP (?k i) = Some m \<and> pmap_current m = 1"
    by (rule scheduler_is_fair)
  moreover have "length (pmap_processes (sample_map 0 Running Running)) = 2" by (simp add: sample_map_def)
  ultimately show ?thesis by simp
qed

text \<open>C12: the process map stays well formed.  After any sequence of kernel operations from the first process on, as long as
  fewer than \<^verbatim>\<open>2^32\<close> processes were created, the map holds exactly the processes created, numbered
  from 0 in order, each under its own number and with an existing parent, and the current process exists.\<close>

theorem process_map_invariant:
  assumes "kernel_reach n k" "n < 2 ^ 32"
  shows "\<exists>m. PROCESS_MAP k = Some m \<and> pmap_current m \<in> pids m \<and> length (pmap_processes m) = n
    \<and> bt_keys (pmap_processes m) = map of_nat [0 ..< n] \<and> unat (pmap_next_pid m) = n
    \<and> (\<forall>pid p. get_process pid m = Some p \<longrightarrow> ps_pid p = pid \<and> ps_parent p \<in> pids m)"
proof -
  from kernel_reach_wf [OF assms] obtain m where m: "PROCESS_MAP k = Some m" "pmap_wf m" "length (pmap_processes m) = n"
    "unat (pmap_next_pid m) = n" by blast
  note w = pmap_wfD [OF m(2)]
  have lt: "x < pmap_next_pid m \<longleftrightarrow> unat x < n" for x by (simp add: word_less_nat_alt m(4))
  have set: "set (map of_nat [0 ..< n]) = pids m"
  proof (intro set_eqI iffI)
    fix x :: process_id assume "x \<in> set (map of_nat [0 ..< n])"
    then obtain i where i: "i < n" "x = of_nat i" by auto
    then have "unat x = i" using assms(2) by (simp add: unat_of_nat)
    then show "x \<in> pids m" using i lt w(3) by simp
  next
    fix x assume "x \<in> pids m"
    then have "unat x < n" using lt w(3) by simp
    then have "unat x \<in> set [0 ..< n]" "x = of_nat (unat x)" by simp_all
    then show "x \<in> set (map of_nat [0 ..< n])" by (metis imageI image_set)
  qed
  have "sorted_wrt (<) (map (of_nat :: nat \<Rightarrow> process_id) [0 ..< n])"
    using assms(2) by (auto simp: sorted_wrt_map sorted_wrt_iff_nth_less word_less_nat_alt unat_of_nat)
  then have "bt_keys (pmap_processes m) = map of_nat [0 ..< n]"
    using w(1) set by (intro sorted_distinct_set_unique) (auto simp: bt_wf_def strict_sorted_iff)
  then show ?thesis using m w(2,4,5) by blast
qed

theorem process_map_invariant_witness:
  "\<exists>k m. kernel_reach 1 k \<and> send_tick k = Done (k\<lparr>PROCESS_MAP := Some m\<rparr>) \<and> bt_keys (pmap_processes m) = [0]"
proof -
  let ?sp = "spawn_first_process (VirtualAddress 0xc0400000) kernel_regions_initial sample_machine process_map_new"
  obtain pid m rs where sp: "?sp = (pid, m, rs)" by (cases ?sp) auto
  let ?k = "\<lparr>PROCESS_MAP = Some m, mach = sample_machine, kregions = rs, tss_esp0 = 0, cpu_esp = 0\<rparr>"
  let ?m = "m\<lparr>pmap_processes := bt_map update_tick (pmap_processes m)\<rparr>"
  have reach: "kernel_reach 1 ?k" by (rule kernel_reach.start [OF sp])
  have tick: "send_tick ?k = Done (?k\<lparr>PROCESS_MAP := Some ?m\<rparr>)" by (simp add: send_tick_def all_processes_mut_def all_processes_def)
  have "kernel_reach (1 + 0) (?k\<lparr>PROCESS_MAP := Some ?m\<rparr>)" by (rule kernel_reach.step [OF reach kernel_step.tick [OF tick]])
  from process_map_invariant [OF this] have "bt_keys (pmap_processes ?m) = [0]" by simp
  then show ?thesis using reach tick by blast
qed

text \<open>C13: exit and wait.  When a process ends, it is left as terminated with its exit code, its parent, if it
  waits for this child, is resumed with the code that \<^verbatim>\<open>get_resume_code\<close> then returns, a parent that does not wait is
  unchanged, and so is every other process.  A process that is its own parent never returns from \<^verbatim>\<open>exit\<close>.\<close>

theorem exit_wakes_waiting_parent:
  assumes "get_process c m = Some child" "get_process (ps_parent child) m = Some par"
  shows "if ps_parent child = c then ps_exit c code m = Hang
    else \<exists>m'. ps_exit c code m = Done m'
      \<and> get_process c m' = Some (child\<lparr>ps_exit_code := push_bit 8 (code AND 0xff), ps_run_state := Terminated\<rparr>)
      \<and> (\<exists>par'. get_process (ps_parent child) m' = Some par'
           \<and> (if ps_run_state par = Blocked (Child c)
              then get_resume_code par' = (code, par\<lparr>ps_run_state := Running\<rparr>) else par' = par))
      \<and> (\<forall>q. q \<noteq> c \<longrightarrow> q \<noteq> ps_parent child \<longrightarrow> get_process q m' = get_process q m)"
proof (cases "ps_parent child = c")
  case False
  let ?m = "on_process (ps_parent child) (told c code) (on_process c (ended 0 code) m)"
  have "ps_exit c code m = Done ?m" using terminate_eq [OF assms(1)] False by (simp add: ps_exit_def)
  moreover have "get_process (ps_parent child) ?m = Some (told c code par)" using assms(2) False by simp
  moreover have "if ps_run_state par = Blocked (Child c) then get_resume_code (told c code par) = (code, par\<lparr>ps_run_state := Running\<rparr>)
      else told c code par = par" by (simp add: told_def get_resume_code_def)
  moreover have "get_process c ?m = Some (child\<lparr>ps_exit_code := push_bit 8 (code AND 0xff), ps_run_state := Terminated\<rparr>)"
    using assms(1) False by (simp add: ended_def exit_code_of_def)
  ultimately show ?thesis using False by auto
qed (use terminate_eq [OF assms(1)] in \<open>simp add: ps_exit_def\<close>)

theorem exit_wakes_waiting_parent_witness:
  "\<exists>m' p. ps_exit 1 42 (sample_map 1 (Blocked (Child 1)) Running) = Done m'
     \<and> get_process 0 m' = Some p \<and> get_resume_code p = (42, sample_process 0 0 Running)"
proof -
  let ?m = "sample_map 1 (Blocked (Child 1)) Running"
  have "get_process (ps_parent (sample_process 1 0 Running)) ?m = Some (sample_process 0 0 (Blocked (Child 1)))"
    using sample_map_process(1) by (simp add: sample_process_def)
  from exit_wakes_waiting_parent [OF sample_map_process(2) this, of 42] show ?thesis
    by (auto simp: sample_process_def)
qed

text \<open>C14: sleeping.  A process put to sleep for \<open>ms\<close> milliseconds is still asleep after \<open>n\<close> timer ticks while
  ten times \<open>n\<close> is less than \<open>ms\<close>, with the remaining time, and runs from the first tick on at which that is no longer
  so; ticks never fail and change no process that does not sleep.\<close>

theorem sleep_wakes_on_time:
  assumes "PROCESS_MAP k = Some m" "get_process pid m = Some p" "ps_run_state p = Sleeping ms"
  shows "\<exists>k' m'. ofold (\<lambda>_. send_tick) [0 ..< n] k = Done k' \<and> PROCESS_MAP k' = Some m'
    \<and> get_process pid m' = Some (p\<lparr>ps_run_state := if n = 0 \<or> 10 * n < unat ms then Sleeping (ms - 10 * of_nat n) else Running\<rparr>)
    \<and> (\<forall>q r. get_process q m = Some r \<and> (\<forall>t. ps_run_state r \<noteq> Sleeping t) \<longrightarrow> get_process q m' = Some r)"
proof (induction n)
  case 0
  have "p\<lparr>ps_run_state := Sleeping ms\<rparr> = p" using assms(3) by simp
  then show ?case using assms(1,2) by simp
next
  case (Suc n)
  then obtain k' m' where k': "ofold (\<lambda>_. send_tick) [0 ..< n] k = Done k'" "PROCESS_MAP k' = Some m'"
    "get_process pid m' = Some (p\<lparr>ps_run_state := if n = 0 \<or> 10 * n < unat ms then Sleeping (ms - 10 * of_nat n) else Running\<rparr>)"
    "\<forall>q r. get_process q m = Some r \<and> (\<forall>t. ps_run_state r \<noteq> Sleeping t) \<longrightarrow> get_process q m' = Some r" by blast
  let ?m = "m'\<lparr>pmap_processes := bt_map update_tick (pmap_processes m')\<rparr>"
  have tick: "send_tick k' = Done (k'\<lparr>PROCESS_MAP := Some ?m\<rparr>)"
    using k'(2) by (simp add: send_tick_def all_processes_mut_def all_processes_def)
  have get: "get_process q ?m = map_option update_tick (get_process q m')" for q by (simp add: get_process_def)
  have ms: "MS_PER_TICK = 10" by (simp add: MS_PER_TICK_def HUNDRED_NS_PER_TICK_def)
  have step: "update_tick (p\<lparr>ps_run_state := if n = 0 \<or> 10 * n < unat ms then Sleeping (ms - 10 * of_nat n) else Running\<rparr>)
      = p\<lparr>ps_run_state := if Suc n = 0 \<or> 10 * Suc n < unat ms then Sleeping (ms - 10 * of_nat (Suc n)) else Running\<rparr>"
  proof (cases "n = 0 \<or> 10 * n < unat ms")
    case True
    have "unat (ms - 10 * of_nat n) = unat ms - 10 * n"
    proof (cases "n = 0")
      case False
      then have "10 * n < unat ms" using True by simp
      moreover have "unat (of_nat (10 * n) :: usize) = 10 * n" using calculation unat_lt32 [of ms] by (intro unat_of_nat32) simp
      ultimately show ?thesis using unat_sub_le [of "of_nat (10 * n)" ms] by simp
    qed simp
    then have "ms - 10 * of_nat n > MS_PER_TICK \<longleftrightarrow> 10 * Suc n < unat ms" by (simp add: ms word_less_nat_alt) linarith
    then show ?thesis using True by (simp add: update_tick_def ms algebra_simps)
  next
    case False
    then show ?thesis by (simp add: update_tick_def)
  qed
  have "get_process q ?m = Some r" if "get_process q m = Some r" "\<forall>t. ps_run_state r \<noteq> Sleeping t" for q r
    using k'(4) that by (auto simp: get update_tick_def split: run_state.splits)
  moreover have "ofold (\<lambda>_. send_tick) [0 ..< Suc n] k = Done (k'\<lparr>PROCESS_MAP := Some ?m\<rparr>)"
    using k'(1) tick by (simp add: ofold_append)
  moreover have "get_process pid ?m = Some (p\<lparr>ps_run_state := if Suc n = 0 \<or> 10 * Suc n < unat ms
      then Sleeping (ms - 10 * of_nat (Suc n)) else Running\<rparr>)" unfolding get k'(3) option.map step ..
  ultimately show ?case by (intro exI [of _ "k'\<lparr>PROCESS_MAP := Some ?m\<rparr>"] exI [of _ ?m]) auto
qed

theorem sleep_wakes_on_time_witness:
  "\<exists>k' m'. ofold (\<lambda>_. send_tick) [0 ..< 3] (sample_kernel (sample_map 0 Running (Sleeping 25))) = Done k'
     \<and> PROCESS_MAP k' = Some m' \<and> get_process 1 m' = Some (sample_process 1 0 Running)"
proof -
  have "ps_run_state (sample_process 1 0 (Sleeping 25)) = Sleeping 25" by (simp add: sample_process_def)
  from sleep_wakes_on_time [OF sample_kernel_map sample_map_process(2) [of 0 Running] this, where n = 3] show ?thesis
    by (auto simp: sample_process_def)
qed

end
