(* ===== verification/FileSystems.thy ===== *)
theory FileSystems
  imports Files Paging
begin

text \<open>
  \<^verbatim>\<open>filesystems/filesystem.rs\<close> and \<^verbatim>\<open>filesystems/mod.rs\<close>: the interface every file system
  implements and the table of mounted file systems.  The trait \<^verbatim>\<open>FileSystem\<close> is a record of its
  methods over a state \<open>'g\<close>; a mutable buffer argument is passed in and returned with its new
  contents.  The directory entries of the system call interface
  (\<^verbatim>\<open>syscall/src/files.rs\<close>) are here as well because the trait mentions them.
\<close>

section \<open>Directory entries\<close>

datatype dir_entry_type = EntryEmpty | EntryDirectory | EntryFile

record dir_entry_info =
  de_file_name :: "u8 list"
  de_file_ext :: "u8 list"
  de_entry_type :: dir_entry_type
  de_byte_size :: usize

definition dir_entry_empty :: dir_entry_info where
  "dir_entry_empty =
     \<lparr>de_file_name = [0x20, 0x20, 0x20, 0x20, 0x20, 0x20, 0x20, 0x20], de_file_ext = [0x20, 0x20, 0x20],
      de_entry_type = EntryEmpty, de_byte_size = 0\<rparr>"

definition dir_entry_is_empty :: "dir_entry_info \<Rightarrow> bool" where
  "dir_entry_is_empty e = (case de_entry_type e of EntryEmpty \<Rightarrow> True | _ \<Rightarrow> False)"

section \<open>The trait\<close>

record 'g file_system =
  fs_open :: "string \<Rightarrow> 'g \<Rightarrow> ((unit + local_handle) \<times> 'g) outcome"
  fs_read :: "local_handle \<Rightarrow> u8 list \<Rightarrow> 'g \<Rightarrow> ((unit + usize) \<times> u8 list \<times> 'g) outcome"
  fs_write :: "local_handle \<Rightarrow> u8 list \<Rightarrow> 'g \<Rightarrow> ((unit + usize) \<times> 'g) outcome"
  fs_close :: "local_handle \<Rightarrow> 'g \<Rightarrow> ((unit + unit) \<times> 'g) outcome"
  fs_dup :: "local_handle \<Rightarrow> 'g \<Rightarrow> ((unit + local_handle) \<times> 'g) outcome"
  fs_seek :: "local_handle \<Rightarrow> seek_method \<Rightarrow> 'g \<Rightarrow> ((unit + usize) \<times> 'g) outcome"
  fs_open_dir :: "string \<Rightarrow> 'g \<Rightarrow> ((unit + local_handle) \<times> 'g) outcome"
  fs_read_dir :: "local_handle \<Rightarrow> usize \<Rightarrow> dir_entry_info \<Rightarrow> 'g \<Rightarrow> ((unit + unit) \<times> dir_entry_info \<times> 'g) outcome"
  fs_ioctl :: "local_handle \<Rightarrow> u32 \<Rightarrow> u32 \<Rightarrow> 'g \<Rightarrow> ((unit + u32) \<times> 'g) outcome"

text \<open>The default body of \<^verbatim>\<open>ioctl\<close>.\<close>

definition default_ioctl :: "local_handle \<Rightarrow> u32 \<Rightarrow> u32 \<Rightarrow> 'g \<Rightarrow> ((unit + u32) \<times> 'g) outcome" where
  "default_ioctl handle command arg g = Done (Inl (), g)"

section \<open>The table of file systems\<close>

datatype 'g named_file_system = NamedFileSystem (nfs_name: string) (nfs_fs: "'g file_system")

type_synonym 'g file_system_map = "'g named_file_system list"

definition matches_name :: "string \<Rightarrow> 'g named_file_system \<Rightarrow> bool" where
  "matches_name name entry \<longleftrightarrow> nfs_name entry = name"

definition register_fs :: "string \<Rightarrow> 'g file_system \<Rightarrow> 'g file_system_map \<Rightarrow> (unit + usize) \<times> 'g file_system_map" where
  "register_fs name fs m =
     (let m' = m @ [NamedFileSystem name fs] in (Inr (of_nat (length m') - 1), m'))"

fun fs_number_from :: "string \<Rightarrow> 'g file_system_map \<Rightarrow> usize \<Rightarrow> usize option" where
  "fs_number_from name [] index = None"
| "fs_number_from name (entry # es) index =
     (if matches_name name entry then Some index else fs_number_from name es (index + 1))"

definition get_fs_number :: "string \<Rightarrow> 'g file_system_map \<Rightarrow> usize option" where
  "get_fs_number name m = fs_number_from name m 0"

definition get_fs :: "usize \<Rightarrow> 'g file_system_map \<Rightarrow> 'g file_system option" where
  "get_fs index m = (case nth_opt m (unat index) of None \<Rightarrow> None | Some entry \<Rightarrow> Some (nfs_fs entry))"

text \<open>The statics \<^verbatim>\<open>VFS\<close>, \<^verbatim>\<open>DEV_FS\<close> and \<^verbatim>\<open>PIPE_FS\<close>, and their set-up.\<close>

record 'g vfs_statics =
  VFS :: "'g file_system_map"
  DEV_FS :: usize
  PIPE_FS :: usize

definition init_fs :: "'g file_system \<Rightarrow> 'g file_system \<Rightarrow> 'g vfs_statics \<Rightarrow> 'g vfs_statics outcome" where
  "init_fs dev_fs pipe_fs v =
     (let (dev_result, m) = register_fs ''DEV'' dev_fs (VFS v)
      in obind (unwrap dev_result) (\<lambda>dev_number.
         let (pipe_result, m) = register_fs ''PIPE'' pipe_fs m
         in obind (unwrap pipe_result) (\<lambda>pipe_number.
            Done (v\<lparr>VFS := m, PIPE_FS := pipe_number, DEV_FS := dev_number\<rparr>))))"

section \<open>Lookup by name\<close>

lemma fs_number_from_spec:
  assumes "fs_number_from name m (of_nat k) = Some n" "k + length m \<le> 2 ^ 32"
  shows "\<exists>i < length m. n = of_nat (k + i) \<and> nfs_name (m ! i) = name \<and> (\<forall>j < i. nfs_name (m ! j) \<noteq> name)"
  using assms
proof (induction m arbitrary: k)
  case (Cons e es)
  show ?case
  proof (cases "nfs_name e = name")
    case True
    then show ?thesis using Cons.prems by (intro exI [of _ 0]) (simp add: matches_name_def)
  next
    case False
    then have "fs_number_from name es (of_nat (Suc k)) = Some n"
      using Cons.prems(1) by (simp add: matches_name_def add.commute)
    from Cons.IH [OF this] Cons.prems(2) obtain i where "i < length es" "n = of_nat (Suc k + i)"
      "nfs_name (es ! i) = name" "\<forall>j < i. nfs_name (es ! j) \<noteq> name" by auto
    then show ?thesis using False by (intro exI [of _ "Suc i"]) (auto simp: nth_Cons split: nat.splits)
  qed
qed simp

lemma get_fs_of_number:
  assumes "get_fs_number name m = Some n" "length m < 2 ^ 32"
  shows "\<exists>fs. get_fs n m = Some fs \<and> NamedFileSystem name fs \<in> set m"
proof -
  from fs_number_from_spec [of name m 0 n] assms obtain i where i: "i < length m" "n = of_nat i" "nfs_name (m ! i) = name"
    by (auto simp: get_fs_number_def)
  then have "unat n = i" using assms(2) by (simp add: unat_of_nat32)
  moreover have "NamedFileSystem name (nfs_fs (m ! i)) \<in> set m"
    using i by (metis named_file_system.collapse nth_mem)
  ultimately show ?thesis using i by (simp add: get_fs_def nth_opt_def)
qed

end
