(* ===== verification/Simulation.thy ===== *)
theory Simulation
  imports Prelude
begin

text \<open>
  Forward simulation between a component and its specification.  Both are machines that take an
  operation and a state to a reply and a new state; when every step of the component is
  matched by a step of the specification with the same reply, whole runs give the same replies.
\<close>

fun run :: "('o \<Rightarrow> 's \<Rightarrow> 'r \<times> 's) \<Rightarrow> 'o list \<Rightarrow> 's \<Rightarrow> 'r list \<times> 's" where
  "run step [] s = ([], s)"
| "run step (x # xs) s = (let (r, s) = step x s; (rs, s) = run step xs s in (r # rs, s))"

text \<open>An operation may have a precondition on the state of the specification it is used in.\<close>

fun run_ok :: "('o \<Rightarrow> 's \<Rightarrow> 'r \<times> 's) \<Rightarrow> ('o \<Rightarrow> 's \<Rightarrow> bool) \<Rightarrow> 'o list \<Rightarrow> 's \<Rightarrow> bool" where
  "run_ok step ok [] s \<longleftrightarrow> True"
| "run_ok step ok (x # xs) s \<longleftrightarrow> ok x s \<and> run_ok step ok xs (snd (step x s))"

locale simulation =
  fixes R :: "'c \<Rightarrow> 'a \<Rightarrow> bool"
    and cstep :: "'o \<Rightarrow> 'c \<Rightarrow> 'r \<times> 'c"
    and astep :: "'o \<Rightarrow> 'a \<Rightarrow> 'r \<times> 'a"
    and ok :: "'o \<Rightarrow> 'a \<Rightarrow> bool"
  assumes step_sim: "R c a \<Longrightarrow> ok x a \<Longrightarrow> fst (cstep x c) = fst (astep x a) \<and> R (snd (cstep x c)) (snd (astep x a))"
begin

lemma run_sim:
  assumes "R c a" "run_ok astep ok xs a"
  shows "fst (run cstep xs c) = fst (run astep xs a) \<and> R (snd (run cstep xs c)) (snd (run astep xs a))"
  using assms
proof (induction xs arbitrary: c a)
  case (Cons x xs)
  from Cons.prems step_sim have s: "fst (cstep x c) = fst (astep x a)" "R (snd (cstep x c)) (snd (astep x a))" by auto
  from Cons.IH [OF s(2)] Cons.prems(2) s(1) show ?case by (simp add: case_prod_unfold Let_def)
qed simp

lemma replies_equal:
  assumes "R c a" "run_ok astep ok xs a"
  shows "fst (run cstep xs c) = fst (run astep xs a)"
  using run_sim [OF assms] by simp

end

end
