(* ===== verification/Pipes.thy ===== *)
theory Pipes
  imports FileSystems Collections Simulation
begin

text \<open>
  The directory \<^verbatim>\<open>pipes/\<close>: pipes between processes.  A collection holds the pipes and, in a second
  slot list, the read and write handles that name them; the pipe file system passes the calls of
  the file interface on to the collection.  Pipes and handles are never removed, so the
  collection refines a list of bounded byte queues in which pipe \<open>i\<close> is read through handle
  \<open>2 i\<close> and written through handle \<open>2 i + 1\<close>.
\<close>

section \<open>Model\<close>

definition PIPE_BUFFER_SIZE :: nat where "PIPE_BUFFER_SIZE = 256"

text \<open>The address of the boxed buffer is kept by the source only to free it; the ring owns the bytes here.\<close>

record pipe =
  data_buffer :: ringbuffer

definition pipe_new :: pipe where
  "pipe_new = \<lparr>data_buffer = ringbuffer_new (replicate PIPE_BUFFER_SIZE 0)\<rparr>"

definition pipe_available_bytes :: "pipe \<Rightarrow> usize" where
  "pipe_available_bytes p = available_bytes (data_buffer p)"

definition pipe_can_read :: "pipe \<Rightarrow> bool" where
  "pipe_can_read p \<longleftrightarrow> pipe_available_bytes p > 0"

datatype pipe_handle = ReadHandle usize | WriteHandle usize

fun ph_can_read :: "pipe_handle \<Rightarrow> bool" where
  "ph_can_read (ReadHandle _) = True"
| "ph_can_read (WriteHandle _) = False"

fun ph_can_write :: "pipe_handle \<Rightarrow> bool" where
  "ph_can_write (WriteHandle _) = True"
| "ph_can_write (ReadHandle _) = False"

fun ph_to_index :: "pipe_handle \<Rightarrow> usize" where
  "ph_to_index (ReadHandle i) = i"
| "ph_to_index (WriteHandle i) = i"

datatype pipe_error = InvalidHandle | UnknownPipe | WrongHandleType | WriteToClosedPipe

record pipe_collection =
  pipes :: "pipe slotlist"
  handles :: "pipe_handle slotlist"

definition pipe_collection_new :: pipe_collection where
  "pipe_collection_new = \<lparr>pipes = slotlist_new, handles = slotlist_new\<rparr>"

definition pc_create :: "pipe_collection \<Rightarrow> (pipe_error + local_handle \<times> local_handle) \<times> pipe_collection" where
  "pc_create c =
     (let (ps, pipe_index) = slot_insert (pipes c) pipe_new;
          (hs, read_index) = slot_insert (handles c) (ReadHandle (of_nat pipe_index));
          (hs, write_index) = slot_insert hs (WriteHandle (of_nat pipe_index))
      in (Inr (LocalHandle (of_nat read_index), LocalHandle (of_nat write_index)), \<lparr>pipes = ps, handles = hs\<rparr>))"

definition pc_handle :: "local_handle \<Rightarrow> pipe_collection \<Rightarrow> pipe_handle option" where
  "pc_handle handle c = slot_get (handles c) (unat (lh_u32 handle))"

text \<open>The ring buffer behind a shared reference changes in place.\<close>

definition pc_set_buffer :: "usize \<Rightarrow> ringbuffer \<Rightarrow> pipe_collection \<Rightarrow> pipe_collection" where
  "pc_set_buffer i rb c = c\<lparr>pipes := \<lparr>slots = (slots (pipes c))[unat i := Some \<lparr>data_buffer = rb\<rparr>]\<rparr>\<rparr>"

definition pc_read :: "local_handle \<Rightarrow> u8 list \<Rightarrow> pipe_collection \<Rightarrow> (pipe_error + usize) \<times> u8 list \<times> pipe_collection" where
  "pc_read handle buffer c =
     (case pc_handle handle c of
        None \<Rightarrow> (Inl InvalidHandle, buffer, c)
      | Some (ReadHandle index) \<Rightarrow>
          (case slot_get (pipes c) (unat index) of
             None \<Rightarrow> (Inl UnknownPipe, buffer, c)
           | Some pipe \<Rightarrow>
               let (rb, buffer, n) = rb_read (data_buffer pipe) buffer in (Inr n, buffer, pc_set_buffer index rb c))
      | Some (WriteHandle _) \<Rightarrow> (Inl WrongHandleType, buffer, c))"

definition pc_write :: "local_handle \<Rightarrow> u8 list \<Rightarrow> pipe_collection \<Rightarrow> (pipe_error + usize) \<times> pipe_collection" where
  "pc_write handle buffer c =
     (case pc_handle handle c of
        None \<Rightarrow> (Inl InvalidHandle, c)
      | Some (WriteHandle index) \<Rightarrow>
          (case slot_get (pipes c) (unat index) of
             None \<Rightarrow> (Inl UnknownPipe, c)
           | Some pipe \<Rightarrow> let (rb, n) = rb_write (data_buffer pipe) buffer in (Inr n, pc_set_buffer index rb c))
      | Some (ReadHandle _) \<Rightarrow> (Inl WrongHandleType, c))"

definition get_available_bytes :: "local_handle \<Rightarrow> pipe_collection \<Rightarrow> pipe_error + usize" where
  "get_available_bytes handle c =
     (case pc_handle handle c of
        None \<Rightarrow> Inl InvalidHandle
      | Some (ReadHandle index) \<Rightarrow>
          (case slot_get (pipes c) (unat index) of
             None \<Rightarrow> Inl UnknownPipe
           | Some pipe \<Rightarrow> Inr (pipe_available_bytes pipe))
      | Some (WriteHandle _) \<Rightarrow> Inl WrongHandleType)"

section \<open>The pipe file system\<close>

text \<open>\<^verbatim>\<open>map_err(|_| ())\<close>.\<close>

definition drop_error :: "'e + 'a \<Rightarrow> unit + 'a" where
  "drop_error r = (case r of Inl _ \<Rightarrow> Inl () | Inr x \<Rightarrow> Inr x)"

definition pipe_fs_read :: "local_handle \<Rightarrow> u8 list \<Rightarrow> pipe_collection \<times> machine
    \<Rightarrow> ((unit + usize) \<times> u8 list \<times> pipe_collection \<times> machine) outcome" where
  "pipe_fs_read handle buffer g =
     (let (r, buffer, c) = pc_read handle buffer (fst g) in Done (drop_error r, buffer, c, snd g))"

definition pipe_fs_write :: "local_handle \<Rightarrow> u8 list \<Rightarrow> pipe_collection \<times> machine
    \<Rightarrow> ((unit + usize) \<times> pipe_collection \<times> machine) outcome" where
  "pipe_fs_write handle buffer g =
     (let (r, c) = pc_write handle buffer (fst g) in Done (drop_error r, c, snd g))"

definition pipe_fs_ioctl :: "local_handle \<Rightarrow> u32 \<Rightarrow> u32 \<Rightarrow> pipe_collection \<times> machine
    \<Rightarrow> ((unit + u32) \<times> pipe_collection \<times> machine) outcome" where
  "pipe_fs_ioctl handle command arg g =
     (if command = FIONREAD
      then case get_available_bytes handle (fst g) of
             Inl _ \<Rightarrow> Done (Inl (), g)
           | Inr bytes \<Rightarrow> obind (vwrite32 arg bytes (snd g)) (\<lambda>s. Done (Inr 0, fst g, s))
      else Done (Inl (), g))"

definition pipe_file_system :: "(pipe_collection \<times> machine) file_system" where
  "pipe_file_system =
     \<lparr>fs_open = (\<lambda>path g. Done (Inl (), g)),
      fs_read = pipe_fs_read,
      fs_write = pipe_fs_write,
      fs_close = (\<lambda>handle g. Done (Inl (), g)),
      fs_dup = (\<lambda>handle g. Done (Inl (), g)),
      fs_seek = (\<lambda>handle off g. Done (Inl (), g)),
      fs_open_dir = (\<lambda>path g. Done (Inl (), g)),
      fs_read_dir = (\<lambda>handle index info g. Done (Inl (), info, g)),
      fs_ioctl = pipe_fs_ioctl\<rparr>"

text \<open>The static \<^verbatim>\<open>PIPES\<close>.\<close>

definition create_fs :: "(pipe_collection \<times> machine) file_system \<times> pipe_collection option" where
  "create_fs = (pipe_file_system, Some pipe_collection_new)"

definition create_pipe :: "pipe_collection option \<Rightarrow> ((pipe_error + local_handle \<times> local_handle) \<times> pipe_collection option) outcome" where
  "create_pipe PIPES =
     (case PIPES of Some c \<Rightarrow> let (r, c) = pc_create c in Done (r, Some c) | None \<Rightarrow> Panic)"

section \<open>Specification: a list of bounded queues\<close>

datatype pipe_op = PCreate | PRead u32 "u8 list" | PWrite u32 "u8 list" | PAvailable u32

datatype pipe_reply = Created "pipe_error + local_handle \<times> local_handle" | Got "pipe_error + usize" "u8 list"
  | Put "pipe_error + usize" | Ready "pipe_error + usize"

fun pipe_step :: "pipe_op \<Rightarrow> pipe_collection \<Rightarrow> pipe_reply \<times> pipe_collection" where
  "pipe_step PCreate c = (let (r, c) = pc_create c in (Created r, c))"
| "pipe_step (PRead h buffer) c = (let (r, buffer, c) = pc_read (LocalHandle h) buffer c in (Got r buffer, c))"
| "pipe_step (PWrite h buffer) c = (let (r, c) = pc_write (LocalHandle h) buffer c in (Put r, c))"
| "pipe_step (PAvailable h) c = (Ready (get_available_bytes (LocalHandle h) c), c)"

text \<open>The direction of a handle, and the queue it belongs to.\<close>

definition wrong_end :: "bool \<Rightarrow> u32 \<Rightarrow> u8 list list \<Rightarrow> pipe_error option" where
  "wrong_end writing h qs =
     (if 2 * length qs \<le> unat h then Some InvalidHandle
      else if odd (unat h) \<noteq> writing then Some WrongHandleType else None)"

fun queue_step :: "pipe_op \<Rightarrow> u8 list list \<Rightarrow> pipe_reply \<times> u8 list list" where
  "queue_step PCreate qs =
     (Created (Inr (LocalHandle (of_nat (2 * length qs)), LocalHandle (of_nat (2 * length qs + 1)))), qs @ [[]])"
| "queue_step (PRead h buffer) qs =
     (case wrong_end False h qs of
        Some e \<Rightarrow> (Got (Inl e) buffer, qs)
      | None \<Rightarrow> let i = unat h div 2; n = min (length buffer) (length (qs ! i))
                in (Got (Inr (of_nat n)) (take n (qs ! i) @ drop n buffer), qs[i := drop n (qs ! i)]))"
| "queue_step (PWrite h buffer) qs =
     (case wrong_end True h qs of
        Some e \<Rightarrow> (Put (Inl e), qs)
      | None \<Rightarrow> let i = unat h div 2; n = min (length buffer) (256 - length (qs ! i))
                in (Put (Inr (of_nat n)), qs[i := qs ! i @ take n buffer]))"
| "queue_step (PAvailable h) qs =
     (case wrong_end False h qs of
        Some e \<Rightarrow> (Ready (Inl e), qs)
      | None \<Rightarrow> (Ready (Inr (of_nat (length (qs ! (unat h div 2))))), qs))"

fun pipe_op_ok :: "pipe_op \<Rightarrow> u8 list list \<Rightarrow> bool" where
  "pipe_op_ok PCreate qs \<longleftrightarrow> length qs < 2 ^ 31"
| "pipe_op_ok (PRead h buffer) qs \<longleftrightarrow> length buffer < 2 ^ 32"
| "pipe_op_ok (PWrite h buffer) qs \<longleftrightarrow> length buffer < 2 ^ 32"
| "pipe_op_ok (PAvailable h) qs \<longleftrightarrow> True"

section \<open>The collection refines the queues\<close>

definition handle_slots :: "nat \<Rightarrow> pipe_handle option list" where
  "handle_slots n =
     map (\<lambda>k. Some (if even k then ReadHandle (of_nat (k div 2)) else WriteHandle (of_nat (k div 2)))) [0 ..< 2 * n]"

definition pipe_slots :: "ringbuffer list \<Rightarrow> pipe option list" where
  "pipe_slots rbs = map (\<lambda>rb. Some \<lparr>data_buffer = rb\<rparr>) rbs"

definition pipes_hold :: "pipe_collection \<Rightarrow> u8 list list \<Rightarrow> bool" where
  "pipes_hold c qs \<longleftrightarrow> (\<exists>rbs. c = \<lparr>pipes = \<lparr>slots = pipe_slots rbs\<rparr>, handles = \<lparr>slots = handle_slots (length rbs)\<rparr>\<rparr>
     \<and> qs = map rb_list rbs \<and> length rbs \<le> 2 ^ 31 \<and> (\<forall>rb \<in> set rbs. rb_inv rb \<and> length (rb_data rb) = 256))"

lemma slot_insert_full:
  assumes "None \<notin> set (slots s)"
  shows "slot_insert s x = (\<lparr>slots = slots s @ [Some x]\<rparr>, length (slots s))"
  using assms by (simp add: slot_insert_def find_empty_slot_def first_none_None_iff [THEN iffD2])

lemma handle_slots_Suc:
  "handle_slots (Suc n) = handle_slots n @ [Some (ReadHandle (of_nat n)), Some (WriteHandle (of_nat n))]"
  by (simp add: handle_slots_def)

lemma slots_full [simp]: "None \<notin> set (handle_slots n)" "None \<notin> set (pipe_slots rbs)"
  by (auto simp: handle_slots_def pipe_slots_def)

lemma slots_lengths [simp]: "length (handle_slots n) = 2 * n" "length (pipe_slots rbs) = length rbs"
  by (simp_all add: handle_slots_def pipe_slots_def)

lemma pipe_slots_update: "(pipe_slots rbs)[i := Some \<lparr>data_buffer = rb\<rparr>] = pipe_slots (rbs[i := rb])"
  by (simp add: pipe_slots_def map_update)

lemma pipe_slots_snoc: "pipe_slots (rbs @ [rb]) = pipe_slots rbs @ [Some \<lparr>data_buffer = rb\<rparr>]"
  by (simp add: pipe_slots_def)

lemma of_nat_unat_id: "of_nat (unat w) = (w :: usize)"
  by simp

lemma pc_create_hold:
  assumes "pipes_hold c qs" "length qs < 2 ^ 31"
  shows "fst (pc_create c) = Inr (LocalHandle (of_nat (2 * length qs)), LocalHandle (of_nat (2 * length qs + 1)))
    \<and> pipes_hold (snd (pc_create c)) (qs @ [[]])"
proof -
  from assms(1) obtain rbs where c: "c = \<lparr>pipes = \<lparr>slots = pipe_slots rbs\<rparr>, handles = \<lparr>slots = handle_slots (length rbs)\<rparr>\<rparr>"
    and qs: "qs = map rb_list rbs" and ok: "\<forall>rb \<in> set rbs. rb_inv rb \<and> length (rb_data rb) = 256"
    by (auto simp: pipes_hold_def)
  define rb where "rb = ringbuffer_new (replicate 256 0)"
  have "(256 :: nat) dvd 2 ^ 32" by (simp add: dvd_def)
  then have rb: "rb_inv rb" "rb_list rb = []" "length (rb_data rb) = 256"
    using rb_new_spec [of "replicate 256 0"] by (simp_all add: rb_def ringbuffer_new_def)
  have "pc_create c = (Inr (LocalHandle (of_nat (2 * length rbs)), LocalHandle (of_nat (2 * length rbs + 1))),
      \<lparr>pipes = \<lparr>slots = pipe_slots (rbs @ [rb])\<rparr>, handles = \<lparr>slots = handle_slots (length (rbs @ [rb]))\<rparr>\<rparr>)"
    by (simp add: pc_create_def c slot_insert_full handle_slots_Suc pipe_slots_snoc pipe_new_def rb_def PIPE_BUFFER_SIZE_def)
  moreover have "pipes_hold \<lparr>pipes = \<lparr>slots = pipe_slots (rbs @ [rb])\<rparr>, handles = \<lparr>slots = handle_slots (length (rbs @ [rb]))\<rparr>\<rparr> (qs @ [[]])"
    unfolding pipes_hold_def using assms(2) qs ok rb by (intro exI [of _ "rbs @ [rb]"]) auto
  ultimately show ?thesis by (simp add: qs)
qed

text \<open>What a handle leads to.\<close>

lemma pipe_lookup:
  assumes "pipes_hold c qs"
  shows "2 * length qs \<le> unat h \<Longrightarrow> pc_handle (LocalHandle h) c = None"
    and "unat h < 2 * length qs \<Longrightarrow> \<exists>i rb. i = unat h div 2 \<and> i < length qs \<and> unat (of_nat i :: usize) = i
      \<and> pc_handle (LocalHandle h) c = Some (if even (unat h) then ReadHandle (of_nat i) else WriteHandle (of_nat i))
      \<and> slot_get (pipes c) i = Some \<lparr>data_buffer = rb\<rparr> \<and> rb_inv rb \<and> length (rb_data rb) = 256 \<and> rb_list rb = qs ! i
      \<and> (\<forall>rb'. rb_inv rb' \<longrightarrow> length (rb_data rb') = 256 \<longrightarrow> pipes_hold (pc_set_buffer (of_nat i) rb' c) (qs[i := rb_list rb']))"
proof -
  from assms obtain rbs where c: "c = \<lparr>pipes = \<lparr>slots = pipe_slots rbs\<rparr>, handles = \<lparr>slots = handle_slots (length rbs)\<rparr>\<rparr>"
    and qs: "qs = map rb_list rbs" and ok: "length rbs \<le> 2 ^ 31" "\<forall>rb \<in> set rbs. rb_inv rb \<and> length (rb_data rb) = 256"
    by (auto simp: pipes_hold_def)
  show "pc_handle (LocalHandle h) c = None" if "2 * length qs \<le> unat h"
    using that by (simp add: pc_handle_def c qs slot_get_def nth_opt_def)
  assume h: "unat h < 2 * length qs"
  define i where "i = unat h div 2"
  have i: "i < length rbs" using h by (simp add: i_def qs less_mult_imp_div_less mult.commute)
  then have u: "unat (of_nat i :: usize) = i" using ok(1) by (intro unat_of_nat32) simp
  have "pc_handle (LocalHandle h) c = Some (if even (unat h) then ReadHandle (of_nat i) else WriteHandle (of_nat i))"
    using h by (simp add: pc_handle_def c qs slot_get_def nth_opt_def handle_slots_def i_def)
  moreover have "slot_get (pipes c) i = Some \<lparr>data_buffer = rbs ! i\<rparr>"
    using i by (simp add: c slot_get_def nth_opt_def pipe_slots_def)
  moreover have "pipes_hold (pc_set_buffer (of_nat i) rb' c) (qs[i := rb_list rb'])"
    if "rb_inv rb'" "length (rb_data rb') = 256" for rb'
    unfolding pipes_hold_def
  proof (intro exI [of _ "rbs[i := rb']"] conjI)
    show "pc_set_buffer (of_nat i) rb' c
      = \<lparr>pipes = \<lparr>slots = pipe_slots (rbs[i := rb'])\<rparr>, handles = \<lparr>slots = handle_slots (length (rbs[i := rb']))\<rparr>\<rparr>"
      by (simp add: pc_set_buffer_def c u pipe_slots_update)
    show "\<forall>rb \<in> set (rbs[i := rb']). rb_inv rb \<and> length (rb_data rb) = 256"
      using ok(2) that set_update_subset_insert [of rbs i rb'] by blast
  qed (use ok(1) in \<open>simp_all add: qs map_update\<close>)
  ultimately show "\<exists>i rb. i = unat h div 2 \<and> i < length qs \<and> unat (of_nat i :: usize) = i
      \<and> pc_handle (LocalHandle h) c = Some (if even (unat h) then ReadHandle (of_nat i) else WriteHandle (of_nat i))
      \<and> slot_get (pipes c) i = Some \<lparr>data_buffer = rb\<rparr> \<and> rb_inv rb \<and> length (rb_data rb) = 256 \<and> rb_list rb = qs ! i
      \<and> (\<forall>rb'. rb_inv rb' \<longrightarrow> length (rb_data rb') = 256 \<longrightarrow> pipes_hold (pc_set_buffer (of_nat i) rb' c) (qs[i := rb_list rb']))"
    using i u ok(2) nth_mem [OF i]
    by (intro exI [of _ i] exI [of _ "rbs ! i"]) (simp add: qs i_def [symmetric])
qed

lemma pipe_read_sim:
  assumes "pipes_hold c qs" "length buffer < 2 ^ 32"
  shows "fst (pipe_step (PRead h buffer) c) = fst (queue_step (PRead h buffer) qs)
    \<and> pipes_hold (snd (pipe_step (PRead h buffer) c)) (snd (queue_step (PRead h buffer) qs))"
proof (cases "unat h < 2 * length qs")
  case True
  from pipe_lookup(2) [OF assms(1) True] obtain i rb where l: "i = unat h div 2" "i < length qs" "unat (of_nat i :: usize) = i"
    "pc_handle (LocalHandle h) c = Some (if even (unat h) then ReadHandle (of_nat i) else WriteHandle (of_nat i))"
    "slot_get (pipes c) i = Some \<lparr>data_buffer = rb\<rparr>" "rb_inv rb" "length (rb_data rb) = 256" "rb_list rb = qs ! i"
    and hold: "\<And>rb'. rb_inv rb' \<Longrightarrow> length (rb_data rb') = 256 \<Longrightarrow> pipes_hold (pc_set_buffer (of_nat i) rb' c) (qs[i := rb_list rb'])"
    by blast
  obtain rb' buf' n where r: "rb_read rb buffer = (rb', buf', n)" by (cases "rb_read rb buffer")
  note spec = rb_read_spec [OF l(6) assms(2) refl r]
  from spec(4) have "n = of_nat (min (length buffer) (length (rb_list rb)))" by (metis of_nat_unat_id)
  then show ?thesis using True l assms(1) r spec hold [of rb']
    by (auto simp: pc_read_def wrong_end_def Let_def)
qed (use assms(1) pipe_lookup(1) [OF assms(1), of h] in \<open>simp add: pc_read_def wrong_end_def\<close>)

lemma pipe_write_sim:
  assumes "pipes_hold c qs" "length buffer < 2 ^ 32"
  shows "fst (pipe_step (PWrite h buffer) c) = fst (queue_step (PWrite h buffer) qs)
    \<and> pipes_hold (snd (pipe_step (PWrite h buffer) c)) (snd (queue_step (PWrite h buffer) qs))"
proof (cases "unat h < 2 * length qs")
  case True
  from pipe_lookup(2) [OF assms(1) True] obtain i rb where l: "i = unat h div 2" "i < length qs" "unat (of_nat i :: usize) = i"
    "pc_handle (LocalHandle h) c = Some (if even (unat h) then ReadHandle (of_nat i) else WriteHandle (of_nat i))"
    "slot_get (pipes c) i = Some \<lparr>data_buffer = rb\<rparr>" "rb_inv rb" "length (rb_data rb) = 256" "rb_list rb = qs ! i"
    and hold: "\<And>rb'. rb_inv rb' \<Longrightarrow> length (rb_data rb') = 256 \<Longrightarrow> pipes_hold (pc_set_buffer (of_nat i) rb' c) (qs[i := rb_list rb'])"
    by blast
  obtain rb' n where r: "rb_write rb buffer = (rb', n)" by (cases "rb_write rb buffer")
  note spec = rb_write_spec [OF l(6) assms(2) refl r]
  from spec(4) have "n = of_nat (min (length buffer) (256 - length (rb_list rb)))"
    by (metis of_nat_unat_id l(7))
  then show ?thesis using True l assms(1) r spec hold [of rb']
    by (auto simp: pc_write_def wrong_end_def Let_def)
qed (use assms(1) pipe_lookup(1) [OF assms(1), of h] in \<open>simp add: pc_write_def wrong_end_def\<close>)

lemma pipe_available_sim:
  assumes "pipes_hold c qs"
  shows "fst (pipe_step (PAvailable h) c) = fst (queue_step (PAvailable h) qs)
    \<and> pipes_hold (snd (pipe_step (PAvailable h) c)) (snd (queue_step (PAvailable h) qs))"
proof (cases "unat h < 2 * length qs")
  case True
  from pipe_lookup(2) [OF assms(1) True] obtain i rb where l: "i = unat h div 2" "unat (of_nat i :: usize) = i"
    "pc_handle (LocalHandle h) c = Some (if even (unat h) then ReadHandle (of_nat i) else WriteHandle (of_nat i))"
    "slot_get (pipes c) i = Some \<lparr>data_buffer = rb\<rparr>" "rb_list rb = qs ! i" by blast
  have "available_bytes rb = of_nat (length (rb_list rb))"
    using available_bytes_spec [of rb] by (metis of_nat_unat_id)
  then show ?thesis using True l assms
    by (simp add: get_available_bytes_def wrong_end_def pipe_available_bytes_def)
qed (use assms(1) pipe_lookup(1) [OF assms(1), of h] in \<open>simp add: get_available_bytes_def wrong_end_def\<close>)

interpretation pq: simulation pipes_hold pipe_step queue_step pipe_op_ok
proof
  fix c qs x
  assume "pipes_hold c qs" "pipe_op_ok x qs"
  then show "fst (pipe_step x c) = fst (queue_step x qs) \<and> pipes_hold (snd (pipe_step x c)) (snd (queue_step x qs))"
    using pipe_read_sim pipe_write_sim pipe_available_sim pc_create_hold [of c qs]
    by (cases x) (auto simp: case_prod_unfold Let_def)
qed

lemma pipes_hold_new: "pipes_hold pipe_collection_new []"
  unfolding pipes_hold_def
  by (intro exI [of _ "[]"]) (simp add: pipe_collection_new_def slotlist_new_def pipe_slots_def handle_slots_def)

text \<open>C21: pipes are independent FIFO queues.  Over any sequence of pipe creations, reads, writes and
  length queries, through any handles, the collection answers exactly like a list of separate byte queues of capacity
  256: bytes come out of the read handle in the order they went into the write handle of the same pipe, a full queue
  takes only what fits, and a handle that does not exist or has the wrong direction is refused without effect.\<close>

theorem pipes_refine_queues:
  assumes "run_ok queue_step pipe_op_ok ops []"
  shows "fst (run pipe_step ops pipe_collection_new) = fst (run queue_step ops [])"
  using pq.replies_equal [OF pipes_hold_new assms] .

definition sample_pipe_ops :: "pipe_op list" where
  "sample_pipe_ops = [PCreate, PCreate, PWrite 1 [10, 20, 30], PWrite 3 [7], PRead 0 [0, 0], PRead 3 [0], PAvailable 0, PRead 2 [5, 5], PRead 9 [1]]"

theorem pipes_refine_queues_witness:
  "fst (run pipe_step sample_pipe_ops pipe_collection_new)
   = [Created (Inr (LocalHandle 0, LocalHandle 1)), Created (Inr (LocalHandle 2, LocalHandle 3)), Put (Inr 3), Put (Inr 1),
      Got (Inr 2) [10, 20], Got (Inl WrongHandleType) [0], Ready (Inr 1), Got (Inr 1) [7, 5], Got (Inl InvalidHandle) [1]]"
proof -
  have "run_ok queue_step pipe_op_ok sample_pipe_ops []"
    by (simp add: sample_pipe_ops_def wrong_end_def)
  then have "fst (run pipe_step sample_pipe_ops pipe_collection_new) = fst (run queue_step sample_pipe_ops [])"
    by (rule pipes_refine_queues)
  then show ?thesis by (simp add: sample_pipe_ops_def wrong_end_def Let_def)
qed

end
