(* ===== verification/Devices.thy ===== *)
theory Devices
  imports FileSystems Processes
begin

text \<open>
  The device layer: the driver interface (\<^verbatim>\<open>drivers/driver.rs\<close>), the table of drivers
  (\<^verbatim>\<open>drivers/mod.rs\<close>, \<^verbatim>\<open>devices.rs\<close>), the zero and null devices, the reference to a process
  waiting for an interrupt (\<^verbatim>\<open>drivers/blocking.rs\<close>), promises (\<^verbatim>\<open>promise.rs\<close>) and the
  file system that shows devices as files (\<^verbatim>\<open>filesystems/dev/mod.rs\<close>).  The trait
  \<^verbatim>\<open>DeviceDriver\<close> is a record of its methods over a state \<open>'g\<close>.
\<close>

section \<open>Errors\<close>

text \<open>The operator \<^verbatim>\<open>?\<close>: return the error with the state reached so far.\<close>

definition try_op :: "(('e + 'a) \<times> 's) outcome \<Rightarrow> ('a \<Rightarrow> 's \<Rightarrow> (('e + 'b) \<times> 's) outcome) \<Rightarrow> (('e + 'b) \<times> 's) outcome" where
  "try_op m k = obind m (\<lambda>(r, s). case r of Inl e \<Rightarrow> Done (Inl e, s) | Inr x \<Rightarrow> k x s)"

lemma try_op_simps [simp]:
  "try_op (Done (Inr x, s)) k = k x s" "try_op (Done (Inl e, s)) k = Done (Inl e, s)"
  "try_op Panic k = Panic" "try_op Hang k = Hang"
  by (simp_all add: try_op_def)

section \<open>Drivers\<close>

record 'g device_driver =
  dd_open :: "local_handle \<Rightarrow> 'g \<Rightarrow> ((unit + unit) \<times> 'g) outcome"
  dd_close :: "local_handle \<Rightarrow> 'g \<Rightarrow> ((unit + unit) \<times> 'g) outcome"
  dd_read :: "local_handle \<Rightarrow> u8 list \<Rightarrow> 'g \<Rightarrow> ((unit + usize) \<times> u8 list \<times> 'g) outcome"
  dd_write :: "local_handle \<Rightarrow> u8 list \<Rightarrow> 'g \<Rightarrow> ((unit + usize) \<times> 'g) outcome"
  dd_seek :: "local_handle \<Rightarrow> seek_method \<Rightarrow> 'g \<Rightarrow> ((unit + usize) \<times> 'g) outcome"

text \<open>The default methods of the trait.\<close>

definition default_driver :: "'g device_driver" where
  "default_driver =
     \<lparr>dd_open = (\<lambda>handle g. Done (Inl (), g)),
      dd_close = (\<lambda>handle g. Done (Inl (), g)),
      dd_read = (\<lambda>handle buffer g. Done (Inl (), buffer, g)),
      dd_write = (\<lambda>handle buffer g. Done (Inl (), g)),
      dd_seek = (\<lambda>handle off g. Done (Inl (), g))\<rparr>"

definition null_device :: "'g device_driver" where
  "null_device = default_driver
     \<lparr>dd_open := \<lambda>handle g. Done (Inr (), g),
      dd_close := \<lambda>handle g. Done (Inr (), g),
      dd_read := \<lambda>handle buffer g. Done (Inr 0, buffer, g),
      dd_write := \<lambda>handle buffer g. Done (Inr (of_nat (length buffer)), g)\<rparr>"

text \<open>The loop of \<^verbatim>\<open>ZeroDevice::read\<close> from position \<open>index\<close> on.\<close>

function zero_fill :: "nat \<Rightarrow> u8 list \<Rightarrow> nat \<times> u8 list" where
  "zero_fill index buffer =
     (if index < length buffer then zero_fill (Suc index) (buffer[index := 0]) else (index, buffer))"
  by auto
termination by (relation "measure (\<lambda>(i, b). length b - i)") auto

declare zero_fill.simps [simp del]

definition zero_device :: "'g device_driver" where
  "zero_device = default_driver
     \<lparr>dd_open := \<lambda>handle g. Done (Inr (), g),
      dd_close := \<lambda>handle g. Done (Inr (), g),
      dd_read := \<lambda>handle buffer g. (let (index, buffer) = zero_fill 0 buffer in Done (Inr (of_nat index), buffer, g)),
      dd_write := \<lambda>handle buffer g. Done (Inr (of_nat (length buffer)), g)\<rparr>"

lemma zero_fill_eq:
  assumes "index \<le> length buffer"
  shows "zero_fill index buffer = (length buffer, take index buffer @ replicate (length buffer - index) 0)"
  using assms
proof (induction index buffer rule: zero_fill.induct)
  case (1 index buffer)
  show ?case
  proof (cases "index < length buffer")
    case True
    have "take (Suc index) (buffer[index := 0]) = take index buffer @ [0]"
      using True by (simp add: take_Suc_conv_app_nth)
    moreover have "replicate (length buffer - index) (0 :: u8) = 0 # replicate (length buffer - Suc index) 0"
      using True by (metis Suc_diff_Suc replicate_Suc)
    ultimately show ?thesis using 1 True by (simp add: zero_fill.simps [of index])
  next
    case False
    then have "index = length buffer" using 1 by simp
    then show ?thesis by (simp add: zero_fill.simps [of "length buffer"])
  qed
qed

lemma zero_device_read:
  "dd_read zero_device handle buffer g = Done (Inr (of_nat (length buffer)), replicate (length buffer) 0, g)"
  by (simp add: zero_device_def default_driver_def zero_fill_eq)

section \<open>The table of drivers\<close>

type_synonym device_name = "u8 list"

datatype device_number_by_name = DeviceNumberByName device_name usize

record 'g device_drivers =
  drivers :: "'g device_driver list"
  device_names :: "device_number_by_name list"

definition device_drivers_new :: "'g device_drivers" where
  "device_drivers_new = \<lparr>drivers = [], device_names = []\<rparr>"

definition get_device :: "usize \<Rightarrow> 'g device_drivers \<Rightarrow> 'g device_driver option" where
  "get_device driver_number d =
     (if driver_number > 0 then nth_opt (drivers d) (unat (driver_number - 1)) else None)"

fun device_number_in :: "device_name \<Rightarrow> device_number_by_name list \<Rightarrow> usize option" where
  "device_number_in name [] = None"
| "device_number_in name (DeviceNumberByName n i # es) = (if n = name then Some i else device_number_in name es)"

definition get_device_number_by_name :: "device_name \<Rightarrow> 'g device_drivers \<Rightarrow> usize option" where
  "get_device_number_by_name name d = device_number_in name (device_names d)"

definition get_device_by_name :: "device_name \<Rightarrow> 'g device_drivers \<Rightarrow> 'g device_driver option" where
  "get_device_by_name name d =
     (case get_device_number_by_name name d of None \<Rightarrow> None | Some number \<Rightarrow> get_device number d)"

text \<open>A name as an array of eight bytes padded with blanks; the source copies byte by byte.\<close>

definition name_bytes :: "u8 list \<Rightarrow> device_name" where
  "name_bytes bytes = fold (\<lambda>i name. name[i := bytes ! i]) [0 ..< min 8 (length bytes)] (replicate 8 0x20)"

definition str_bytes :: "string \<Rightarrow> u8 list" where
  "str_bytes s = map of_char s"

definition register_driver :: "string \<Rightarrow> 'g device_driver \<Rightarrow> 'g device_drivers \<Rightarrow> usize \<times> 'g device_drivers" where
  "register_driver name driver d =
     (if length name > 8 then (0, d)
      else let ds = drivers d @ [driver]; index = of_nat (length ds)
           in (index, \<lparr>drivers = ds, device_names = device_names d @ [DeviceNumberByName (name_bytes (str_bytes name)) index]\<rparr>))"

text \<open>The drivers \<^verbatim>\<open>devices::init\<close> registers, in this order.\<close>

definition register_all :: "'g device_driver \<Rightarrow> 'g device_driver \<Rightarrow> 'g device_driver \<Rightarrow> 'g device_driver \<Rightarrow> 'g device_driver
    \<Rightarrow> 'g device_drivers \<Rightarrow> 'g device_drivers" where
  "register_all com kbd tty0 tty1 floppy d =
     (let d = snd (register_driver ''ZERO'' zero_device d);
          d = snd (register_driver ''NULL'' null_device d);
          d = snd (register_driver ''COM1'' com d);
          d = snd (register_driver ''KBD'' kbd d);
          d = snd (register_driver ''TTY0'' tty0 d);
          d = snd (register_driver ''TTY1'' tty1 d)
      in snd (register_driver ''FD0'' floppy d))"

lemma name_bytes_eq: "name_bytes bytes = take 8 bytes @ replicate (8 - length bytes) 0x20"
proof -
  define n where "n = min 8 (length bytes)"
  have "name_bytes bytes = map (\<lambda>i. bytes ! i) [0 ..< n] @ drop n (replicate 8 0x20)"
    unfolding name_bytes_def n_def by (rule fold_update_nth) simp
  moreover have "map (\<lambda>i. bytes ! i) [0 ..< n] = take 8 bytes"
    by (rule nth_equalityI) (simp_all add: n_def min.commute)
  ultimately show ?thesis by (simp add: n_def min_def)
qed

lemma register_driver_spec:
  assumes "length name \<le> 8" "length (drivers d) < 2 ^ 32 - 1" "get_device_number_by_name (name_bytes (str_bytes name)) d = None"
    and "register_driver name driver d = (i, d')"
  shows "get_device_by_name (name_bytes (str_bytes name)) d' = Some driver"
    and "get_device_number_by_name n d = Some k \<Longrightarrow> get_device_number_by_name n d' = Some k"
    and "get_device k d = Some dr \<Longrightarrow> get_device k d' = Some dr"
proof -
  let ?name = "name_bytes (str_bytes name)"
  have snoc: "device_number_in n (es @ [DeviceNumberByName ?name k])
      = (case device_number_in n es of Some j \<Rightarrow> Some j | None \<Rightarrow> if n = ?name then Some k else None)" for n es k
    by (induction es rule: device_number_in.induct [where ?a0.0 = n, simplified]) auto
  from assms(1,4) have d': "i = of_nat (Suc (length (drivers d)))" "drivers d' = drivers d @ [driver]"
    "device_names d' = device_names d @ [DeviceNumberByName ?name i]"
    by (auto simp: register_driver_def Let_def)
  have u: "unat i = Suc (length (drivers d))" using assms(2) by (simp add: d'(1) unat_of_nat32 del: of_nat_Suc)
  then have "i \<noteq> 0" by (auto simp: unat_eq_zero)
  moreover from u have "unat (i - 1) = length (drivers d)" by (subst unat_sub_le) simp_all
  ultimately have "get_device i d' = Some driver" by (simp add: get_device_def d'(2) nth_opt_def word_neq_0_conv)
  then show "get_device_by_name ?name d' = Some driver"
    using assms(3) by (simp add: get_device_by_name_def get_device_number_by_name_def d'(3) snoc)
  show "get_device_number_by_name n d' = Some k" if "get_device_number_by_name n d = Some k"
    using that by (simp add: get_device_number_by_name_def d'(3) snoc)
  show "get_device k d' = Some dr" if "get_device k d = Some dr"
    using that by (auto simp: get_device_def d'(2) nth_opt_def nth_append split: if_splits)
qed

section \<open>Waking a process from an interrupt\<close>

type_synonym wake_reference = "process_id option"

definition maybe_set_process :: "process_id \<Rightarrow> wake_reference \<Rightarrow> wake_reference" where
  "maybe_set_process pid r = (case r of None \<Rightarrow> Some pid | Some _ \<Rightarrow> r)"

definition set_process :: "process_id \<Rightarrow> wake_reference \<Rightarrow> wake_reference" where
  "set_process pid r = Some pid"

definition clear_process :: "wake_reference \<Rightarrow> wake_reference" where
  "clear_process r = None"

definition wake :: "wake_reference \<Rightarrow> kernel \<Rightarrow> kernel outcome" where
  "wake r k = (case r of Some pid \<Rightarrow> process_send_signal pid SIG_CONTINUE k | None \<Rightarrow> Done k)"

section \<open>Promises\<close>

text \<open>The value is shared by the promise and its readers; the lock is only held for the assignment itself, so the readers'
  \<^verbatim>\<open>try_read\<close> succeeds.\<close>

record 'a promise =
  promise_value :: "'a option"

definition promise_new :: "'a promise" where
  "promise_new = \<lparr>promise_value = None\<rparr>"

definition promise_resolve :: "'a \<Rightarrow> 'a promise \<Rightarrow> 'a promise" where
  "promise_resolve v p = p\<lparr>promise_value := Some v\<rparr>"

definition is_resolved :: "'a promise \<Rightarrow> bool" where
  "is_resolved p = (case promise_value p of Some _ \<Rightarrow> True | None \<Rightarrow> False)"

definition get_result :: "'a promise \<Rightarrow> 'a option" where
  "get_result p = promise_value p"

lemma promise_resolved: "is_resolved p \<longleftrightarrow> (\<exists>v. get_result p = Some v)" "get_result (promise_resolve v p) = Some v"
  by (auto simp: is_resolved_def get_result_def promise_resolve_def split: option.splits)

section \<open>Devices as files\<close>

record dev_file_system =
  dev_allocator :: handle_allocator
  handle_to_device :: "usize option list"

definition dev_file_system_new :: dev_file_system where
  "dev_file_system_new = \<lparr>dev_allocator = handle_allocator_new, handle_to_device = []\<rparr>"

definition get_device_for_handle :: "local_handle \<Rightarrow> dev_file_system \<Rightarrow> usize option" where
  "get_device_for_handle handle f =
     (case nth_opt (handle_to_device f) (unat (lh_u32 handle)) of Some opt \<Rightarrow> opt | None \<Rightarrow> None)"

text \<open>\<^verbatim>\<open>handle_allocator.get_next()\<close>.\<close>

definition dev_next_handle :: "dev_file_system \<Rightarrow> local_handle \<times> dev_file_system" where
  "dev_next_handle f = (let (h, a) = ha_get_next (dev_allocator f) in (LocalHandle h, f\<lparr>dev_allocator := a\<rparr>))"

definition strip_backslash :: "string \<Rightarrow> string" where
  "strip_backslash path = (case path of c # cs \<Rightarrow> if of_char c = (0x5c :: u8) then cs else path | [] \<Rightarrow> path)"

definition dev_open :: "'g device_drivers \<Rightarrow> string \<Rightarrow> dev_file_system \<times> 'g \<Rightarrow> ((unit + local_handle) \<times> dev_file_system \<times> 'g) outcome" where
  "dev_open DEV path fg =
     (case fg of (f, g) \<Rightarrow>
      let name = name_bytes (str_bytes (strip_backslash path))
      in case get_device_number_by_name name DEV of
           None \<Rightarrow> Done (Inl (), f, g)
         | Some number \<Rightarrow>
             let (handle, f) = dev_next_handle f
             in case get_device number DEV of
                  None \<Rightarrow> Done (Inl (), f, g)
                | Some driver \<Rightarrow>
                    obind (dd_open driver handle g) (\<lambda>(r, g).
                      case r of
                        Inl _ \<Rightarrow> Done (Inl (), f, g)
                      | Inr _ \<Rightarrow>
                          let m = handle_to_device f;
                              m = m @ replicate (unat (lh_u32 handle) - length m) None
                          in Done (Inr handle, f\<lparr>handle_to_device := m @ [Some number]\<rparr>, g)))"

text \<open>The lookup shared by the calls that are passed on to the driver of an open handle.\<close>

definition with_driver :: "'g device_drivers \<Rightarrow> local_handle \<Rightarrow> dev_file_system \<Rightarrow> 'g device_driver option" where
  "with_driver DEV handle f =
     (case get_device_for_handle handle f of None \<Rightarrow> None | Some number \<Rightarrow> get_device number DEV)"

definition dev_read :: "'g device_drivers \<Rightarrow> local_handle \<Rightarrow> u8 list \<Rightarrow> dev_file_system \<times> 'g
    \<Rightarrow> ((unit + usize) \<times> u8 list \<times> dev_file_system \<times> 'g) outcome" where
  "dev_read DEV handle buffer fg =
     (case with_driver DEV handle (fst fg) of
        None \<Rightarrow> Done (Inl (), buffer, fg)
      | Some driver \<Rightarrow> obind (dd_read driver handle buffer (snd fg)) (\<lambda>(r, buffer, g). Done (r, buffer, fst fg, g)))"

definition dev_write :: "'g device_drivers \<Rightarrow> local_handle \<Rightarrow> u8 list \<Rightarrow> dev_file_system \<times> 'g
    \<Rightarrow> ((unit + usize) \<times> dev_file_system \<times> 'g) outcome" where
  "dev_write DEV handle buffer fg =
     (case with_driver DEV handle (fst fg) of
        None \<Rightarrow> Done (Inl (), fg)
      | Some driver \<Rightarrow> obind (dd_write driver handle buffer (snd fg)) (\<lambda>(r, g). Done (r, fst fg, g)))"

definition dev_seek :: "'g device_drivers \<Rightarrow> local_handle \<Rightarrow> seek_method \<Rightarrow> dev_file_system \<times> 'g
    \<Rightarrow> ((unit + usize) \<times> dev_file_system \<times> 'g) outcome" where
  "dev_seek DEV handle off fg =
     (case with_driver DEV handle (fst fg) of
        None \<Rightarrow> Done (Inl (), fg)
      | Some driver \<Rightarrow> obind (dd_seek driver handle off (snd fg)) (\<lambda>(r, g). Done (r, fst fg, g)))"

definition dev_dup :: "local_handle \<Rightarrow> dev_file_system \<times> 'g \<Rightarrow> ((unit + local_handle) \<times> dev_file_system \<times> 'g) outcome" where
  "dev_dup handle fg =
     (case get_device_for_handle handle (fst fg) of
        None \<Rightarrow> Done (Inl (), fg)
      | Some number \<Rightarrow>
          let (new_handle, f) = dev_next_handle (fst fg)
          in Done (Inr new_handle, f\<lparr>handle_to_device := handle_to_device f @ [Some number]\<rparr>, snd fg))"

definition dev_ioctl :: "local_handle \<Rightarrow> u32 \<Rightarrow> u32 \<Rightarrow> dev_file_system \<times> 'g \<Rightarrow> ((unit + u32) \<times> dev_file_system \<times> 'g) outcome" where
  "dev_ioctl handle command arg fg =
     (if command = 0
      then case get_device_for_handle handle (fst fg) of Some d \<Rightarrow> Done (Inr d, fg) | None \<Rightarrow> Done (Inl (), fg)
      else Done (Inl (), fg))"

definition dev_file_system_ops :: "'g device_drivers \<Rightarrow> (dev_file_system \<times> 'g) file_system" where
  "dev_file_system_ops DEV =
     \<lparr>fs_open = dev_open DEV,
      fs_read = dev_read DEV,
      fs_write = dev_write DEV,
      fs_close = (\<lambda>handle fg. Done (Inl (), fg)),
      fs_dup = dev_dup,
      fs_seek = dev_seek DEV,
      fs_open_dir = (\<lambda>path fg. Done (Inl (), fg)),
      fs_read_dir = (\<lambda>handle index info fg. Done (Inl (), info, fg)),
      fs_ioctl = dev_ioctl\<rparr>"

text \<open>Handle numbers stay ahead of the table, so a new handle never takes the place of an older one.\<close>

definition dev_wf :: "dev_file_system \<Rightarrow> bool" where
  "dev_wf f \<longleftrightarrow> length (handle_to_device f) \<le> unat (next_id (dev_allocator f))"

lemma dev_wf_new: "dev_wf dev_file_system_new"
  by (simp add: dev_wf_def dev_file_system_new_def handle_allocator_new_def)

lemma unit_result_cases: "(r :: unit + unit) = Inl () \<or> r = Inr ()"
  by (cases r) simp_all

lemma dev_open_spec:
  assumes "dev_wf f" "unat (next_id (dev_allocator f)) < 2 ^ 32 - 1" "dev_open DEV path (f, g) = Done (Inr handle, f', g')"
  shows "dev_wf f'" "handle = LocalHandle (next_id (dev_allocator f))"
    "get_device_number_by_name (name_bytes (str_bytes (strip_backslash path))) DEV = get_device_for_handle handle f'"
    "get_device_for_handle handle f' \<noteq> None"
    "h \<noteq> handle \<Longrightarrow> get_device_for_handle h f' = get_device_for_handle h f"
proof -
  define n where "n = next_id (dev_allocator f)"
  from assms(3) obtain number where num: "get_device_number_by_name (name_bytes (str_bytes (strip_backslash path))) DEV = Some number"
    and h: "handle = LocalHandle n"
    and f': "f' = f\<lparr>dev_allocator := \<lparr>next_id = n + 1\<rparr>,
      handle_to_device := handle_to_device f @ replicate (unat n - length (handle_to_device f)) None @ [Some number]\<rparr>"
    by (auto simp: dev_open_def dev_next_handle_def ha_get_next_def n_def obind_Done_iff Let_def handle_allocator.defs
        split: option.splits sum.splits prod.splits) (use unit_result_cases in blast)
  have "unat (n + 1) = unat n + 1" using assms(2) by (subst unat_add32) (simp_all add: n_def)
  moreover have len: "length (handle_to_device f) \<le> unat n" using assms(1) by (simp add: dev_wf_def n_def)
  ultimately show "dev_wf f'" by (simp add: dev_wf_def f')
  show "handle = LocalHandle (next_id (dev_allocator f))" by (simp add: h n_def)
  show "get_device_number_by_name (name_bytes (str_bytes (strip_backslash path))) DEV = get_device_for_handle handle f'"
    "get_device_for_handle handle f' \<noteq> None"
    using len by (simp_all add: num get_device_for_handle_def nth_opt_def f' h nth_append)
  show "get_device_for_handle h f' = get_device_for_handle h f" if "h \<noteq> handle"
  proof -
    from that have "unat (lh_u32 h) \<noteq> unat n" by (cases h) (simp add: h word_unat_eq_iff)
    then show ?thesis using len by (auto simp: get_device_for_handle_def nth_opt_def f' nth_append nth_Cons')
  qed
qed

end
