(* ===== verification/Keyboard.thy ===== *)
theory Keyboard
  imports Devices BTree Ports
begin

text \<open>
  The keyboard: scan codes and key codes (\<^verbatim>\<open>drivers/keyboard/codes.rs\<close>), the decoder and the
  per-handle byte lists of the driver (\<^verbatim>\<open>drivers/keyboard/mod.rs\<close>, \<open>readers.rs\<close>), and the
  translation of key presses to terminal input (\<^verbatim>\<open>tty/keyboard.rs\<close>).
\<close>

section \<open>Key codes\<close>

datatype key_code =
    KeyNone | KeyDelete | KeyBackspace | KeyTab | KeyEnter | KeyCaps | KeyShift | KeyControl
  | KeyMenu | KeyAlt | KeyEscape | KeySpace | KeyArrowLeft | KeyArrowUp | KeyArrowRight | KeyArrowDown
  | KeyComma | KeyMinus | KeyPeriod | KeySlash | KeyNum0 | KeyNum1 | KeyNum2 | KeyNum3
  | KeyNum4 | KeyNum5 | KeyNum6 | KeyNum7 | KeyNum8 | KeyNum9 | KeySemicolon | KeyQuote
  | KeyLessThan | KeyEquals | KeyGreaterThan | KeyA | KeyB | KeyC | KeyD | KeyE
  | KeyF | KeyG | KeyH | KeyI | KeyJ | KeyK | KeyL | KeyM
  | KeyN | KeyO | KeyP | KeyQ | KeyR | KeyS | KeyT | KeyU
  | KeyV | KeyW | KeyX | KeyY | KeyZ | KeyBracketLeft | KeyBackslash | KeyBracketRight
  | KeyBacktick

fun key_code_u8 :: "key_code \<Rightarrow> u8" where
  "key_code_u8 KeyNone = 0x00"
| "key_code_u8 KeyDelete = 0x07"
| "key_code_u8 KeyBackspace = 0x08"
| "key_code_u8 KeyTab = 0x09"
| "key_code_u8 KeyEnter = 0x0d"
| "key_code_u8 KeyCaps = 0x10"
| "key_code_u8 KeyShift = 0x11"
| "key_code_u8 KeyControl = 0x12"
| "key_code_u8 KeyMenu = 0x13"
| "key_code_u8 KeyAlt = 0x14"
| "key_code_u8 KeyEscape = 0x1b"
| "key_code_u8 KeySpace = 0x20"
| "key_code_u8 KeyArrowLeft = 0x21"
| "key_code_u8 KeyArrowUp = 0x22"
| "key_code_u8 KeyArrowRight = 0x23"
| "key_code_u8 KeyArrowDown = 0x24"
| "key_code_u8 KeyComma = 0x2c"
| "key_code_u8 KeyMinus = 0x2d"
| "key_code_u8 KeyPeriod = 0x2e"
| "key_code_u8 KeySlash = 0x2f"
| "key_code_u8 KeyNum0 = 0x30"
| "key_code_u8 KeyNum1 = 0x31"
| "key_code_u8 KeyNum2 = 0x32"
| "key_code_u8 KeyNum3 = 0x33"
| "key_code_u8 KeyNum4 = 0x34"
| "key_code_u8 KeyNum5 = 0x35"
| "key_code_u8 KeyNum6 = 0x36"
| "key_code_u8 KeyNum7 = 0x37"
| "key_code_u8 KeyNum8 = 0x38"
| "key_code_u8 KeyNum9 = 0x39"
| "key_code_u8 KeySemicolon = 0x3a"
| "key_code_u8 KeyQuote = 0x3b"
| "key_code_u8 KeyLessThan = 0x3c"
| "key_code_u8 KeyEquals = 0x3d"
| "key_code_u8 KeyGreaterThan = 0x3e"
| "key_code_u8 KeyA = 0x41"
| "key_code_u8 KeyB = 0x42"
| "key_code_u8 KeyC = 0x43"
| "key_code_u8 KeyD = 0x44"
| "key_code_u8 KeyE = 0x45"
| "key_code_u8 KeyF = 0x46"
| "key_code_u8 KeyG = 0x47"
| "key_code_u8 KeyH = 0x48"
| "key_code_u8 KeyI = 0x49"
| "key_code_u8 KeyJ = 0x4a"
| "key_code_u8 KeyK = 0x4b"
| "key_code_u8 KeyL = 0x4c"
| "key_code_u8 KeyM = 0x4d"
| "key_code_u8 KeyN = 0x4e"
| "key_code_u8 KeyO = 0x4f"
| "key_code_u8 KeyP = 0x50"
| "key_code_u8 KeyQ = 0x51"
| "key_code_u8 KeyR = 0x52"
| "key_code_u8 KeyS = 0x53"
| "key_code_u8 KeyT = 0x54"
| "key_code_u8 KeyU = 0x55"
| "key_code_u8 KeyV = 0x56"
| "key_code_u8 KeyW = 0x57"
| "key_code_u8 KeyX = 0x58"
| "key_code_u8 KeyY = 0x59"
| "key_code_u8 KeyZ = 0x5a"
| "key_code_u8 KeyBracketLeft = 0x5b"
| "key_code_u8 KeyBackslash = 0x5c"
| "key_code_u8 KeyBracketRight = 0x5d"
| "key_code_u8 KeyBacktick = 0x5f"

definition US_LAYOUT :: "(u8 \<times> u8) list" where
  "US_LAYOUT =
    [(0, 0), (0, 0), (0, 0), (0, 0), (0, 0), (0, 0), (0, 0), (0x7f, 0x7f),
     (0x08, 0x08), (0x09, 0x09), (0, 0), (0, 0), (0, 0), (0x0a, 0x0a), (0, 0), (0, 0),
     (0, 0), (0, 0), (0, 0), (0, 0), (0, 0), (0, 0), (0, 0), (0, 0),
     (0, 0), (0, 0), (0, 0), (0x1b, 0x1b), (0, 0), (0, 0), (0, 0), (0, 0),
     (0x20, 0x20), (0, 0), (0, 0), (0, 0), (0, 0), (0, 0), (0, 0), (0, 0),
     (0, 0), (0, 0), (0, 0), (0, 0), (0x2c, 0x3c), (0x2d, 0x5f), (0x2e, 0x3e), (0x2f, 0x3f),
     (0x30, 0x29), (0x31, 0x21), (0x32, 0x40), (0x33, 0x23), (0x34, 0x24), (0x35, 0x25), (0x36, 0x5e), (0x37, 0x26),
     (0x38, 0x2a), (0x39, 0x28), (0x3b, 0x3a), (0x27, 0x22), (0, 0), (0x3d, 0x2b), (0, 0), (0, 0),
     (0, 0), (0x61, 0x41), (0x62, 0x42), (0x63, 0x43), (0x64, 0x44), (0x65, 0x45), (0x66, 0x46), (0x67, 0x47),
     (0x68, 0x48), (0x69, 0x49), (0x6a, 0x4a), (0x6b, 0x4b), (0x6c, 0x4c), (0x6d, 0x4d), (0x6e, 0x4e), (0x6f, 0x4f),
     (0x70, 0x50), (0x71, 0x51), (0x72, 0x52), (0x73, 0x53), (0x74, 0x54), (0x75, 0x55), (0x76, 0x56), (0x77, 0x57),
     (0x78, 0x58), (0x79, 0x59), (0x7a, 0x5a), (0x5b, 0x7b), (0x5c, 0x7c), (0x5d, 0x7d), (0, 0), (0x60, 0x7e)]"

definition SCANCODES_TO_KEYCODES :: "key_code list" where
  "SCANCODES_TO_KEYCODES =
    [KeyNone, KeyEscape, KeyNum1, KeyNum2, KeyNum3, KeyNum4,
     KeyNum5, KeyNum6, KeyNum7, KeyNum8, KeyNum9, KeyNum0,
     KeyMinus, KeyEquals, KeyBackspace, KeyTab, KeyQ, KeyW,
     KeyE, KeyR, KeyT, KeyY, KeyU, KeyI,
     KeyO, KeyP, KeyBracketLeft, KeyBracketRight, KeyEnter, KeyControl,
     KeyA, KeyS, KeyD, KeyF, KeyG, KeyH,
     KeyJ, KeyK, KeyL, KeySemicolon, KeyQuote, KeyBacktick,
     KeyShift, KeyBackslash, KeyZ, KeyX, KeyC, KeyV,
     KeyB, KeyN, KeyM, KeyComma, KeyPeriod, KeySlash,
     KeyShift, KeyNone, KeyAlt, KeySpace, KeyCaps, KeyNone]"

definition get_keycode :: "u8 \<Rightarrow> key_code outcome" where
  "get_keycode scan_code =
     (if scan_code < 60 then vec_get SCANCODES_TO_KEYCODES (unat scan_code) else Done KeyNone)"

definition get_extended_keycode :: "u8 \<Rightarrow> key_code" where
  "get_extended_keycode scan_code =
     (if scan_code = 0x1c then KeyEnter
      else if scan_code = 0x48 then KeyArrowUp
      else if scan_code = 0x4b then KeyArrowLeft
      else if scan_code = 0x4d then KeyArrowRight
      else if scan_code = 0x50 then KeyArrowDown
      else KeyNone)"

section \<open>The readers of the keyboard device\<close>

type_synonym open_readers = "(local_handle, u8 list) btree"

definition readers_open :: "local_handle \<Rightarrow> open_readers \<Rightarrow> open_readers" where
  "readers_open handle m = bt_insert handle [] m"

text \<open>\<^verbatim>\<open>entry.pop()\<close> takes the last byte of the list.\<close>

fun pop_bytes :: "nat list \<Rightarrow> u8 list \<Rightarrow> u8 list \<Rightarrow> u8 list \<times> u8 list" where
  "pop_bytes [] entry buffer = (entry, buffer)"
| "pop_bytes (i # is) entry buffer =
     (case entry of
        [] \<Rightarrow> pop_bytes is [] (buffer[i := 0])
      | _ # _ \<Rightarrow> pop_bytes is (butlast entry) (buffer[i := last entry]))"

definition readers_read :: "local_handle \<Rightarrow> u8 list \<Rightarrow> open_readers \<Rightarrow> usize \<times> u8 list \<times> open_readers" where
  "readers_read handle buffer m =
     (case bt_get m handle of
        Some entry \<Rightarrow>
          let read_len = (if length buffer < length entry then length buffer else length entry);
              (entry, buffer) = pop_bytes [0 ..< read_len] entry buffer
          in (of_nat read_len, buffer, bt_insert handle entry m)
      | None \<Rightarrow> (0, buffer, m))"

definition readers_close :: "local_handle \<Rightarrow> open_readers \<Rightarrow> open_readers" where
  "readers_close handle m = bt_remove handle m"

section \<open>Decoding scan codes\<close>

datatype key_action = Press key_code | Release key_code

record keyboard =
  receiving_extended_code :: bool
  kbd_data :: port
  kbd_readers :: open_readers

definition keyboard_new :: keyboard where
  "keyboard_new = \<lparr>receiving_extended_code = False, kbd_data = Port 0x60, kbd_readers = []\<rparr>"

definition generate_action_from_scan_code :: "u8 \<Rightarrow> keyboard \<Rightarrow> (key_action option \<times> keyboard) outcome" where
  "generate_action_from_scan_code scan_code kbd =
     (if scan_code = 0xe0 then Done (None, kbd\<lparr>receiving_extended_code := True\<rparr>)
      else let scan_code_key = scan_code AND 0x7f;
               pressed = (scan_code AND 0x80 = 0)
           in obind (if receiving_extended_code kbd then Done (get_extended_keycode scan_code_key) else get_keycode scan_code_key)
              (\<lambda>key_code.
                let kbd = kbd\<lparr>receiving_extended_code := False\<rparr>
                in Done (if key_code = KeyNone then None
                         else Some (if pressed then Press key_code else Release key_code), kbd)))"

definition process_action :: "key_action \<Rightarrow> keyboard \<Rightarrow> keyboard" where
  "process_action action kbd =
     kbd\<lparr>kbd_readers := bt_map (\<lambda>codes. codes @ (case action of Press c \<Rightarrow> [1, key_code_u8 c] | Release c \<Rightarrow> [2, key_code_u8 c]))
           (kbd_readers kbd)\<rparr>"

text \<open>\<^verbatim>\<open>handle_data\<close>; the router of the terminals, which receives the action afterwards, is an argument.\<close>

definition handle_data :: "(key_action \<Rightarrow> 't \<Rightarrow> 't outcome) \<Rightarrow> u8 \<Rightarrow> keyboard \<times> 't \<Rightarrow> (keyboard \<times> 't) outcome" where
  "handle_data send_key_action d kt =
     obind (generate_action_from_scan_code d (fst kt)) (\<lambda>(r, kbd).
       case r of
         Some action \<Rightarrow>
           let kbd = process_action action kbd
           in obind (send_key_action action (snd kt)) (\<lambda>t. Done (kbd, t))
       | None \<Rightarrow> Done (kbd, snd kt))"

definition keyboard_device :: "keyboard device_driver" where
  "keyboard_device = default_driver
     \<lparr>dd_open := \<lambda>handle kbd. Done (Inr (), kbd\<lparr>kbd_readers := readers_open handle (kbd_readers kbd)\<rparr>),
      dd_close := \<lambda>handle kbd. Done (Inr (), kbd\<lparr>kbd_readers := readers_close handle (kbd_readers kbd)\<rparr>),
      dd_read := \<lambda>handle buffer kbd.
        (let (n, buffer, m) = readers_read handle buffer (kbd_readers kbd) in Done (Inr n, buffer, kbd\<lparr>kbd_readers := m\<rparr>)),
      dd_write := \<lambda>handle buffer kbd. Done (Inr 0, kbd)\<rparr>"

section \<open>From key presses to terminal input\<close>

record key_state =
  alt :: bool
  ctrl :: bool
  shift :: bool

definition key_state_new :: key_state where
  "key_state_new = \<lparr>alt = False, ctrl = False, shift = False\<rparr>"

definition key_code_to_ascii :: "key_code \<Rightarrow> u8 list \<Rightarrow> key_state \<Rightarrow> (usize \<times> u8 list) outcome" where
  "key_code_to_ascii input buffer ks =
     (if input = KeyArrowLeft
      then obind (vec_set buffer 0 0x1b) (\<lambda>b. obind (vec_set b 1 0x5b) (\<lambda>b. obind (vec_set b 2 0x44) (\<lambda>b. Done (3, b))))
      else let index = unat (key_code_u8 input)
           in obind (if index < 0x60 then vec_get US_LAYOUT index else Done (0, 0)) (\<lambda>(normal, shifted).
              obind (vec_set buffer 0 (if shift ks then shifted else normal)) (\<lambda>b. Done (1, b))))"

definition process_key_action :: "key_action \<Rightarrow> u8 list \<Rightarrow> key_state \<Rightarrow> (usize option \<times> u8 list \<times> key_state) outcome" where
  "process_key_action action buffer ks =
     (case action of
        Press code \<Rightarrow>
          if code = KeyAlt then Done (None, buffer, ks\<lparr>alt := True\<rparr>)
          else if code = KeyControl then Done (None, buffer, ks\<lparr>ctrl := True\<rparr>)
          else if code = KeyShift then Done (None, buffer, ks\<lparr>shift := True\<rparr>)
          else obind (key_code_to_ascii code buffer ks) (\<lambda>(n, b). Done (Some n, b, ks))
      | Release code \<Rightarrow>
          Done (None, buffer,
            if code = KeyAlt then ks\<lparr>alt := False\<rparr>
            else if code = KeyControl then ks\<lparr>ctrl := False\<rparr>
            else if code = KeyShift then ks\<lparr>shift := False\<rparr>
            else ks))"

section \<open>Properties of the translation\<close>

text \<open>The decoder never panics, and leaves the extended state after every code but the prefix.\<close>

lemma length_SCANCODES [simp]: "length SCANCODES_TO_KEYCODES = 60"
  by (simp add: SCANCODES_TO_KEYCODES_def)

lemma length_US_LAYOUT [simp]: "length US_LAYOUT = 96"
  by (simp add: US_LAYOUT_def)

lemma get_keycode_total: "\<exists>c. get_keycode s = Done c"
proof (cases "s < 60")
  case True
  then have "unat s < 60" by (simp add: word_less_nat_alt)
  then show ?thesis using True by (simp add: get_keycode_def)
qed (simp add: get_keycode_def)

lemma generate_action_total:
  "\<exists>r. generate_action_from_scan_code s kbd = Done (r, kbd\<lparr>receiving_extended_code := s = 0xe0\<rparr>)"
  using get_keycode_total [of "s AND 0x7f"]
  by (auto simp: generate_action_from_scan_code_def Let_def)

text \<open>Every key code is a position of the layout table, so a key press gives one to three bytes and never panics.\<close>

lemma key_code_in_layout: "unat (key_code_u8 c) < 0x60"
  by (cases c) simp_all

lemma key_code_to_ascii_total:
  assumes "length buffer = 4"
  shows "\<exists>n b. key_code_to_ascii c buffer ks = Done (n, b) \<and> 0 < unat n \<and> unat n \<le> 3 \<and> length b = 4"
proof (cases "c = KeyArrowLeft")
  case False
  obtain p where "vec_get US_LAYOUT (unat (key_code_u8 c)) = Done p" using key_code_in_layout [of c] by simp
  then show ?thesis using False assms key_code_in_layout [of c]
    by (cases p) (simp add: key_code_to_ascii_def Let_def)
qed (use assms in \<open>simp add: key_code_to_ascii_def\<close>)

lemma process_key_action_total:
  assumes "length buffer = 4"
  shows "\<exists>r b ks'. process_key_action a buffer ks = Done (r, b, ks') \<and> length b = 4
    \<and> (case r of None \<Rightarrow> True | Some n \<Rightarrow> 0 < unat n \<and> unat n \<le> 3)"
proof (cases a)
  case (Press c)
  then show ?thesis using key_code_to_ascii_total [OF assms, of c ks] assms
    by (cases "c = KeyAlt \<or> c = KeyControl \<or> c = KeyShift") (auto simp: process_key_action_def)
qed (use assms in \<open>simp add: process_key_action_def\<close>)

text \<open>A reader gets the newest bytes first: the list is taken from its end.\<close>

lemma pop_bytes_snoc: "pop_bytes (i # is) (es @ [e]) buffer = pop_bytes is es (buffer[i := e])"
  by (cases es) simp_all

lemma pop_bytes_eq:
  assumes "n \<le> length entry" "k + n \<le> length buffer"
  shows "pop_bytes [k ..< k + n] entry buffer
    = (take (length entry - n) entry, take k buffer @ take n (rev entry) @ drop (k + n) buffer)"
  using assms
proof (induction n arbitrary: k entry buffer)
  case (Suc n)
  then obtain e es where e: "entry = es @ [e]" by (cases entry rule: rev_cases) auto
  have "pop_bytes [Suc k ..< Suc k + n] es (buffer[k := e])
      = (take (length es - n) es, take (Suc k) (buffer[k := e]) @ take n (rev es) @ drop (Suc k + n) (buffer[k := e]))"
    using Suc.prems e by (intro Suc.IH) auto
  moreover have "take (Suc k) (buffer[k := e]) = take k buffer @ [e]"
    using Suc.prems by (simp add: take_Suc_conv_app_nth)
  moreover have "[k ..< k + Suc n] = k # [Suc k ..< Suc k + n]" by (simp add: upt_rec)
  ultimately show ?case using e by (simp add: pop_bytes_snoc del: upt_Suc pop_bytes.simps)
qed simp

lemma readers_read_newest_first:
  assumes "bt_get m handle = Some entry" "readers_read handle buffer m = (n, buffer', m')"
  shows "buffer' = take (min (length buffer) (length entry)) (rev entry) @ drop (min (length buffer) (length entry)) buffer"
proof -
  define k where "k = min (length buffer) (length entry)"
  have "pop_bytes [0 ..< 0 + k] entry buffer = (take (length entry - k) entry, take 0 buffer @ take k (rev entry) @ drop (0 + k) buffer)"
    by (rule pop_bytes_eq) (simp_all add: k_def)
  moreover have "(if length buffer < length entry then length buffer else length entry) = k" by (simp add: k_def)
  ultimately show ?thesis using assms by (simp add: readers_read_def Let_def k_def [symmetric])
qed

end
