(* ===== verification/TextMode.thy ===== *)
theory TextMode
  imports Prelude
begin

text \<open>
  The text screen (\<^verbatim>\<open>hardware/vga/text_mode.rs\<close>): 25 rows of 80 cells, a character and an
  attribute byte each, at a base address of memory.  The operations write memory through the
  base pointer; the theory shows that printing refines a screen kept as a list of 2000 cells,
  and that no operation writes outside the 4000 bytes of the screen or moves the cursor off it.
\<close>

section \<open>Model\<close>

datatype color = Black | Blue | Green | Cyan | Red | Magenta | Brown | LightGrey | DarkGrey | LightBlue
  | LightGreen | LightCyan | LightRed | LightMagenta | LightBrown | White

fun color_u8 :: "color \<Rightarrow> u8" where
  "color_u8 Black = 0"
| "color_u8 Blue = 1"
| "color_u8 Green = 2"
| "color_u8 Cyan = 3"
| "color_u8 Red = 4"
| "color_u8 Magenta = 5"
| "color_u8 Brown = 6"
| "color_u8 LightGrey = 7"
| "color_u8 DarkGrey = 8"
| "color_u8 LightBlue = 9"
| "color_u8 LightGreen = 10"
| "color_u8 LightCyan = 11"
| "color_u8 LightRed = 12"
| "color_u8 LightMagenta = 13"
| "color_u8 LightBrown = 14"
| "color_u8 White = 15"

datatype color_code = ColorCode (cc_u8: u8)

definition color_code_new :: "color \<Rightarrow> color \<Rightarrow> color_code" where
  "color_code_new fg bg = ColorCode (push_bit 4 (color_u8 bg) OR color_u8 fg)"

record text_mode =
  base_pointer :: usize
  cursor_col :: u8
  cursor_row :: u8
  current_color :: color_code

definition text_mode_new :: "usize \<Rightarrow> text_mode" where
  "text_mode_new base =
     \<lparr>base_pointer = base, cursor_col = 0, cursor_row = 24, current_color = color_code_new LightGrey Black\<rparr>"

text \<open>
  Offsets from the base pointer are computed as \<^verbatim>\<open>isize\<close> from two bytes; they are small and not negative, so they
  are natural numbers here.
\<close>

definition poke :: "text_mode \<Rightarrow> nat \<Rightarrow> u8 \<Rightarrow> memory \<Rightarrow> memory" where
  "poke t off v m = m(base_pointer t + of_nat off := v)"

definition peek :: "text_mode \<Rightarrow> nat \<Rightarrow> memory \<Rightarrow> u8" where
  "peek t off m = m (base_pointer t + of_nat off)"

definition tm_col :: "text_mode \<Rightarrow> nat" where "tm_col t = unat (cursor_col t)"
definition tm_row :: "text_mode \<Rightarrow> nat" where "tm_row t = unat (cursor_row t)"

text \<open>The loop that writes blanks at every second byte below a limit.\<close>

function blank :: "text_mode \<Rightarrow> nat \<Rightarrow> nat \<Rightarrow> memory \<Rightarrow> memory" where
  "blank t off limit m = (if off < limit then blank t (off + 2) limit (poke t off 0x20 m) else m)"
  by auto
termination by (relation "measure (\<lambda>(t, off, limit, m). limit - off)") auto

declare blank.simps [simp del]

definition clear_screen :: "text_mode \<Rightarrow> memory \<Rightarrow> memory" where
  "clear_screen t m = blank t 0 (2 * 80 * 25) m"

definition clear_screen_to_beginning :: "text_mode \<Rightarrow> memory \<Rightarrow> memory" where
  "clear_screen_to_beginning t m = blank t 0 (Suc (2 * (tm_col t + tm_row t * 80))) m"

definition clear_screen_to_end :: "text_mode \<Rightarrow> memory \<Rightarrow> memory" where
  "clear_screen_to_end t m = blank t (tm_col t + (tm_row t * 80) * 2) (2 * 80 * 25) m"

definition clear_row :: "text_mode \<Rightarrow> memory \<Rightarrow> memory" where
  "clear_row t m = (let off = tm_row t * 80 * 2 in blank t off (off + 80 * 2) m)"

definition clear_row_to_beginning :: "text_mode \<Rightarrow> memory \<Rightarrow> memory" where
  "clear_row_to_beginning t m = (let off = tm_row t * 80 * 2 in blank t off (Suc (off + tm_col t * 2)) m)"

definition clear_row_to_end :: "text_mode \<Rightarrow> memory \<Rightarrow> memory" where
  "clear_row_to_end t m = blank t (tm_row t * 80 * 2 + tm_col t * 2) ((tm_row t + 1) * 80 * 2) m"

text \<open>One round of the two loops of \<^verbatim>\<open>scroll\<close>; the first component is the distance of \<^verbatim>\<open>dest\<close> from the base.\<close>

definition copy_cell :: "text_mode \<Rightarrow> nat \<Rightarrow> nat \<times> memory \<Rightarrow> nat \<times> memory" where
  "copy_cell t off dm =
     (case dm of (dest, m) \<Rightarrow>
        let v = peek t (dest + off) m; c = peek t (dest + (off + 1)) m
        in (dest + 2, poke t (dest + 1) c (poke t dest v m)))"

definition blank_cell :: "text_mode \<Rightarrow> nat \<times> memory \<Rightarrow> nat \<times> memory" where
  "blank_cell t dm =
     (case dm of (dest, m) \<Rightarrow> (dest + 2, poke t (dest + 1) (cc_u8 (current_color t)) (poke t dest 0x20 m)))"

definition scroll :: "u8 \<Rightarrow> text_mode \<Rightarrow> memory \<Rightarrow> memory" where
  "scroll rows t m =
     (if rows = 0 then m
      else if rows > 24 then clear_screen t m
      else let scroll_rows = unat (25 - rows);
               off = unat rows * 80 * 2;
               dm = ((copy_cell t off ^^ 80) ^^ scroll_rows) (0, m)
           in snd (((blank_cell t ^^ 80) ^^ unat rows) dm))"

definition newline :: "text_mode \<Rightarrow> memory \<Rightarrow> text_mode \<times> memory" where
  "newline t m =
     (let t = t\<lparr>cursor_col := 0\<rparr>
      in if cursor_row t < 24 then (t\<lparr>cursor_row := cursor_row t + 1\<rparr>, m) else (t, scroll 1 t m))"

definition advance_cursor :: "text_mode \<Rightarrow> memory \<Rightarrow> text_mode \<times> memory" where
  "advance_cursor t m =
     (if cursor_col t < 79 then (t\<lparr>cursor_col := cursor_col t + 1\<rparr>, m) else newline t m)"

definition move_cursor :: "u8 \<Rightarrow> u8 \<Rightarrow> text_mode \<Rightarrow> text_mode" where
  "move_cursor col row t =
     t\<lparr>cursor_col := if col > 79 then 79 else col, cursor_row := if row > 24 then 24 else row\<rparr>"

text \<open>Signed arithmetic on \<^verbatim>\<open>isize\<close>, which wraps.\<close>

definition clamp_signed :: "usize \<Rightarrow> u8 \<Rightarrow> u8" where
  "clamp_signed v limit = (if sint v < 0 then 0 else if sint v > uint limit then limit else ucast v)"

definition move_cursor_relative :: "usize \<Rightarrow> usize \<Rightarrow> text_mode \<Rightarrow> text_mode" where
  "move_cursor_relative dcol drow t =
     t\<lparr>cursor_col := clamp_signed (ucast (cursor_col t) + dcol) 79,
       cursor_row := clamp_signed (ucast (cursor_row t) + drow) 24\<rparr>"

definition cursor_offset :: "text_mode \<Rightarrow> nat" where
  "cursor_offset t = tm_row t * 160 + tm_col t * 2"

definition invert_cursor :: "text_mode \<Rightarrow> memory \<Rightarrow> memory" where
  "invert_cursor t m =
     (let c = peek t (cursor_offset t + 1) m
      in poke t (cursor_offset t + 1) (push_bit 4 (c AND 0xf) OR drop_bit 4 (c AND 0xf0)) m)"

definition disable_cursor :: "text_mode \<Rightarrow> memory \<Rightarrow> memory" where
  "disable_cursor t m = poke t (cursor_offset t + 1) (cc_u8 (current_color t)) m"

definition write_byte :: "u8 \<Rightarrow> text_mode \<times> memory \<Rightarrow> text_mode \<times> memory" where
  "write_byte byte tm =
     (case tm of (t, m) \<Rightarrow>
        if byte = 0x0a then newline t (disable_cursor t m)
        else if 0x20 \<le> byte \<and> byte \<le> 0x7e
        then advance_cursor t (poke t (cursor_offset t + 1) (cc_u8 (current_color t)) (poke t (cursor_offset t) byte m))
        else (t, m))"

definition write_string :: "u8 list \<Rightarrow> text_mode \<times> memory \<Rightarrow> text_mode \<times> memory" where
  "write_string s tm = fold write_byte s tm"

definition set_buffer_pointer :: "usize \<Rightarrow> text_mode \<Rightarrow> usize \<times> text_mode" where
  "set_buffer_pointer ptr t = (base_pointer t, t\<lparr>base_pointer := ptr\<rparr>)"

section \<open>Screens\<close>

text \<open>The bytes of the screen, and a relation saying that nothing else changed.\<close>

definition on_screen :: "text_mode \<Rightarrow> bool" where
  "on_screen t \<longleftrightarrow> tm_col t \<le> 79 \<and> tm_row t \<le> 24"

definition keeps_rest :: "usize \<Rightarrow> memory \<Rightarrow> memory \<Rightarrow> bool" where
  "keeps_rest base m m' \<longleftrightarrow> (\<forall>a. a \<notin> span base 4000 \<longrightarrow> m' a = m a)"

lemma keeps_rest_refl [simp]: "keeps_rest base m m"
  by (simp add: keeps_rest_def)

lemma keeps_rest_trans: "keeps_rest base m m' \<Longrightarrow> keeps_rest base m' m'' \<Longrightarrow> keeps_rest base m m''"
  by (simp add: keeps_rest_def)

lemma in_span: "off < n \<Longrightarrow> base + of_nat off \<in> span base n"
  by (auto simp: span_def)

lemma keeps_rest_poke: "off < 4000 \<Longrightarrow> keeps_rest (base_pointer t) m m' \<Longrightarrow> keeps_rest (base_pointer t) m (poke t off v m')"
  using in_span [of off 4000 "base_pointer t"] by (auto simp: keeps_rest_def poke_def)

lemma keeps_rest_blank:
  assumes "limit \<le> 4000"
  shows "keeps_rest (base_pointer t) m (blank t off limit m)"
  using assms
proof (induction t off limit m rule: blank.induct)
  case (1 t off limit m)
  show ?case
  proof (cases "off < limit")
    case True
    then have "keeps_rest (base_pointer t) m (poke t off 0x20 m)" using 1 by (intro keeps_rest_poke) simp_all
    with 1 True show ?thesis by (subst blank.simps) (auto intro: keeps_rest_trans)
  qed (simp add: blank.simps)
qed

lemma on_screen_offsets:
  assumes "on_screen t"
  shows "cursor_offset t + 1 < 4000" "tm_col t + tm_row t * 80 < 2000" "cursor_offset t = 2 * (tm_row t * 80 + tm_col t)"
  using assms by (simp_all add: on_screen_def cursor_offset_def)

lemma keeps_rest_clears:
  assumes "on_screen t"
  shows "keeps_rest (base_pointer t) m (clear_screen t m)" "keeps_rest (base_pointer t) m (clear_screen_to_beginning t m)"
    "keeps_rest (base_pointer t) m (clear_screen_to_end t m)" "keeps_rest (base_pointer t) m (clear_row t m)"
    "keeps_rest (base_pointer t) m (clear_row_to_beginning t m)" "keeps_rest (base_pointer t) m (clear_row_to_end t m)"
    "keeps_rest (base_pointer t) m (invert_cursor t m)" "keeps_rest (base_pointer t) m (disable_cursor t m)"
  using assms
  by (auto simp: clear_screen_def clear_screen_to_beginning_def clear_screen_to_end_def clear_row_def
      clear_row_to_beginning_def clear_row_to_end_def on_screen_def invert_cursor_def disable_cursor_def Let_def
      cursor_offset_def intro!: keeps_rest_blank keeps_rest_poke)

lemma clamp_signed_le: "unat (clamp_signed v limit) \<le> unat limit"
proof (cases "sint v < 0 \<or> sint v > uint limit")
  case False
  have lim: "uint limit < 256" using uint_lt2p [of limit] by simp
  have "uint v = take_bit 32 (sint v)" using uint_sint [of v] by simp
  then have "uint v = sint v" using False lim by (simp add: take_bit_eq_mod)
  then have v: "uint v \<le> uint limit" using False by simp
  then have "uint (ucast v :: u8) = uint v" using lim by (simp add: unsigned_ucast_eq take_bit_eq_mod)
  then have "(ucast v :: u8) \<le> limit" using v by (simp add: word_le_def)
  then show ?thesis using False by (simp add: clamp_signed_def word_le_nat_alt)
qed (auto simp: clamp_signed_def)

lemma on_screen_moves:
  "on_screen (move_cursor col row t)" "on_screen (move_cursor_relative dcol drow t)"
proof -
  have le: "unat (if limit < x then limit else x) \<le> unat limit" for x limit :: u8
    by (simp add: word_le_nat_alt [symmetric] not_less)
  show "on_screen (move_cursor col row t)"
    using le [where x = col and limit = 79] le [where x = row and limit = 24]
    by (simp add: on_screen_def move_cursor_def tm_col_def tm_row_def)
  show "on_screen (move_cursor_relative dcol drow t)"
    using clamp_signed_le [of _ 79] clamp_signed_le [of _ 24]
    by (simp add: on_screen_def move_cursor_relative_def tm_col_def tm_row_def)
qed

section \<open>The screen as a list of cells\<close>

definition cells :: "text_mode \<Rightarrow> memory \<Rightarrow> (u8 \<times> u8) list" where
  "cells t m = map (\<lambda>k. (peek t (2 * k) m, peek t (2 * k + 1) m)) [0 ..< 2000]"

lemma length_cells [simp]: "length (cells t m) = 2000"
  by (simp add: cells_def)

lemma nth_cells: "k < 2000 \<Longrightarrow> cells t m ! k = (peek t (2 * k) m, peek t (2 * k + 1) m)"
  by (simp add: cells_def)

lemma peek_poke:
  assumes "i < 4000" "j < 4000"
  shows "peek t i (poke t j v m) = (if i = j then v else peek t i m)"
proof -
  have u: "unat (of_nat i :: usize) = i" "unat (of_nat j :: usize) = j" using assms by (simp_all add: unat_of_nat32)
  have "(of_nat i = (of_nat j :: usize)) = (i = j)" by (metis u)
  then show ?thesis by (simp add: peek_def poke_def)
qed

lemma cells_put:
  assumes "k < 2000"
  shows "cells t (poke t (2 * k + 1) c (poke t (2 * k) v m)) = (cells t m)[k := (v, c)]"
proof (rule nth_equalityI)
  fix j
  assume "j < length (cells t (poke t (2 * k + 1) c (poke t (2 * k) v m)))"
  then have j: "j < 2000" by simp
  then show "cells t (poke t (2 * k + 1) c (poke t (2 * k) v m)) ! j = (cells t m)[k := (v, c)] ! j"
    using assms by (simp add: nth_cells nth_list_update peek_poke)
qed simp

lemma cells_attr:
  assumes "k < 2000"
  shows "cells t (poke t (2 * k + 1) c m) = (cells t m)[k := (fst (cells t m ! k), c)]"
proof (rule nth_equalityI)
  fix j
  assume "j < length (cells t (poke t (2 * k + 1) c m))"
  then have j: "j < 2000" by simp
  then show "cells t (poke t (2 * k + 1) c m) ! j = (cells t m)[k := (fst (cells t m ! k), c)] ! j"
    using assms by (simp add: nth_cells nth_list_update peek_poke)
qed simp

text \<open>The copying loop of \<^verbatim>\<open>scroll\<close> moves the screen up by \<open>d\<close> cells, going upwards through overlapping memory.\<close>

lemma copy_cells:
  assumes "n + d \<le> 2000" "0 < d"
  shows "\<exists>m'. (copy_cell t (2 * d) ^^ n) (0, m) = (2 * n, m') \<and> keeps_rest (base_pointer t) m m'
    \<and> cells t m' = map (\<lambda>k. cells t m ! (if k < n then k + d else k)) [0 ..< 2000]"
  using assms
proof (induction n)
  case 0
  have "map (\<lambda>k. cells t m ! k) [0 ..< 2000] = cells t m" using map_nth [of "cells t m"] by (simp only: length_cells)
  then show ?case by simp
next
  case (Suc n)
  then obtain m' where m': "(copy_cell t (2 * d) ^^ n) (0, m) = (2 * n, m')" "keeps_rest (base_pointer t) m m'"
    "cells t m' = map (\<lambda>k. cells t m ! (if k < n then k + d else k)) [0 ..< 2000]" by auto
  define m'' where "m'' = poke t (2 * n + 1) (peek t (2 * n + (2 * d + 1)) m') (poke t (2 * n) (peek t (2 * n + 2 * d) m') m')"
  have nd: "n < 2000" "n + d < 2000" using Suc.prems by simp_all
  have "(peek t (2 * n + 2 * d) m', peek t (2 * n + (2 * d + 1)) m') = cells t m' ! (n + d)"
    using nd by (simp add: nth_cells algebra_simps)
  also have "\<dots> = cells t m ! (n + d)" using nd by (simp add: m'(3))
  finally have "cells t m'' = (cells t m')[n := cells t m ! (n + d)]"
    unfolding m''_def using nd by (subst cells_put) simp_all
  also have "\<dots> = map (\<lambda>k. cells t m ! (if k < Suc n then k + d else k)) [0 ..< 2000]"
    using nd by (intro nth_equalityI) (auto simp: m'(3) nth_list_update less_Suc_eq)
  finally have "cells t m'' = map (\<lambda>k. cells t m ! (if k < Suc n then k + d else k)) [0 ..< 2000]" .
  moreover have "keeps_rest (base_pointer t) m m''"
    unfolding m''_def using nd m'(2) by (intro keeps_rest_poke) simp_all
  moreover have "(copy_cell t (2 * d) ^^ Suc n) (0, m) = copy_cell t (2 * d) (2 * n, m')" by (simp add: m'(1))
  then have "(copy_cell t (2 * d) ^^ Suc n) (0, m) = (2 * Suc n, m'')" by (simp only: copy_cell_def m''_def) simp
  ultimately show ?case by blast
qed

lemma blank_cells:
  assumes "k + n \<le> 2000"
  shows "\<exists>m'. (blank_cell t ^^ n) (2 * k, m) = (2 * (k + n), m') \<and> keeps_rest (base_pointer t) m m'
    \<and> cells t m' = take k (cells t m) @ replicate n (0x20, cc_u8 (current_color t)) @ drop (k + n) (cells t m)"
  using assms
proof (induction n)
  case (Suc n)
  then obtain m' where m': "(blank_cell t ^^ n) (2 * k, m) = (2 * (k + n), m')" "keeps_rest (base_pointer t) m m'"
    "cells t m' = take k (cells t m) @ replicate n (0x20, cc_u8 (current_color t)) @ drop (k + n) (cells t m)" by auto
  define m'' where "m'' = poke t (2 * (k + n) + 1) (cc_u8 (current_color t)) (poke t (2 * (k + n)) 0x20 m')"
  have "cells t m'' = (cells t m')[k + n := (0x20, cc_u8 (current_color t))]"
    unfolding m''_def using Suc.prems by (subst cells_put) simp_all
  also have "\<dots> = take k (cells t m) @ replicate (Suc n) (0x20, cc_u8 (current_color t)) @ drop (k + Suc n) (cells t m)"
    using Suc.prems by (intro nth_equalityI) (auto simp: m'(3) nth_list_update nth_append simp del: replicate_Suc)
  finally have "cells t m'' = take k (cells t m) @ replicate (Suc n) (0x20, cc_u8 (current_color t)) @ drop (k + Suc n) (cells t m)" .
  moreover have "keeps_rest (base_pointer t) m m''"
    unfolding m''_def using Suc.prems m'(2) by (intro keeps_rest_poke) simp_all
  moreover have "(blank_cell t ^^ Suc n) (2 * k, m) = blank_cell t (2 * (k + n), m')" by (simp add: m'(1))
  then have "(blank_cell t ^^ Suc n) (2 * k, m) = (2 * (k + Suc n), m'')" by (simp only: blank_cell_def m''_def) simp
  ultimately show ?case by blast
qed simp

lemma scroll_spec:
  assumes "0 < unat rows" "unat rows \<le> 24"
  shows "cells t (scroll rows t m) = drop (80 * unat rows) (cells t m) @ replicate (80 * unat rows) (0x20, cc_u8 (current_color t))
    \<and> keeps_rest (base_pointer t) m (scroll rows t m)"
proof -
  define r where "r = unat rows"
  have r: "0 < r" "r \<le> 24" using assms by (simp_all add: r_def)
  have sr: "unat (25 - rows) = 25 - r" using r(2) by (subst unat_sub_le) (simp_all add: r_def)
  have all: "80 * (25 - r) + 80 * r = 2000" using r by (simp add: diff_mult_distrib2)
  obtain m1 where m1: "(copy_cell t (2 * (80 * r)) ^^ (80 * (25 - r))) (0, m) = (2 * (80 * (25 - r)), m1)"
    "keeps_rest (base_pointer t) m m1"
    "cells t m1 = map (\<lambda>k. cells t m ! (if k < 80 * (25 - r) then k + 80 * r else k)) [0 ..< 2000]"
    using copy_cells [of "80 * (25 - r)" "80 * r" t m] r all by auto
  obtain m2 where m2: "(blank_cell t ^^ (80 * r)) (2 * (80 * (25 - r)), m1) = (2 * (80 * (25 - r) + 80 * r), m2)"
    "keeps_rest (base_pointer t) m1 m2"
    "cells t m2 = take (80 * (25 - r)) (cells t m1) @ replicate (80 * r) (0x20, cc_u8 (current_color t))
       @ drop (80 * (25 - r) + 80 * r) (cells t m1)"
    using blank_cells [of "80 * (25 - r)" "80 * r" t m1] all by auto
  have "rows \<noteq> 0" "\<not> rows > 24" using assms by (auto simp: word_less_nat_alt)
  moreover have "((copy_cell t (r * 80 * 2) ^^ 80) ^^ (25 - r)) (0, m) = (2 * (80 * (25 - r)), m1)"
    unfolding funpow_mult using m1(1) by (simp add: ac_simps)
  moreover have "((blank_cell t ^^ 80) ^^ r) (2 * (80 * (25 - r)), m1) = (2 * (80 * (25 - r) + 80 * r), m2)"
    unfolding funpow_mult using m2(1) by (simp only: mult.commute)
  ultimately have "scroll rows t m = m2"
    by (simp only: scroll_def sr r_def [symmetric] Let_def if_False snd_conv)
  moreover have "take (80 * (25 - r)) (cells t m1) = drop (80 * r) (cells t m)"
    using r by (intro nth_equalityI) (auto simp: m1(3) add.commute)
  ultimately show ?thesis
    using m1(2) m2(2,3) r by (auto simp: r_def [symmetric] intro: keeps_rest_trans)
qed

section \<open>Printing refines the list of cells\<close>

text \<open>The specification: a screen is its cells with the column and row of the cursor; printing uses one attribute.\<close>

definition screen_newline :: "u8 \<Rightarrow> (u8 \<times> u8) list \<Rightarrow> nat \<Rightarrow> (u8 \<times> u8) list \<times> nat \<times> nat" where
  "screen_newline color cs row = (if row < 24 then (cs, 0, Suc row) else (drop 80 cs @ replicate 80 (0x20, color), 0, row))"

definition screen_write :: "u8 \<Rightarrow> u8 \<Rightarrow> (u8 \<times> u8) list \<times> nat \<times> nat \<Rightarrow> (u8 \<times> u8) list \<times> nat \<times> nat" where
  "screen_write color byte s =
     (case s of (cs, col, row) \<Rightarrow>
        let k = 80 * row + col
        in if byte = 0x0a then screen_newline color (cs[k := (fst (cs ! k), color)]) row
           else if 0x20 \<le> byte \<and> byte \<le> 0x7e
           then if col < 79 then (cs[k := (byte, color)], Suc col, row) else screen_newline color (cs[k := (byte, color)]) row
           else s)"

definition screen_of :: "text_mode \<times> memory \<Rightarrow> (u8 \<times> u8) list \<times> nat \<times> nat" where
  "screen_of tm = (cells (fst tm) (snd tm), tm_col (fst tm), tm_row (fst tm))"

text \<open>What every step keeps: the place and colour of the screen, the cursor on it, and all other memory.\<close>

definition screen_step :: "text_mode \<times> memory \<Rightarrow> text_mode \<times> memory \<Rightarrow> bool" where
  "screen_step tm tm' \<longleftrightarrow> base_pointer (fst tm') = base_pointer (fst tm) \<and> current_color (fst tm') = current_color (fst tm)
     \<and> on_screen (fst tm') \<and> keeps_rest (base_pointer (fst tm)) (snd tm) (snd tm')"

lemma cells_cong: "base_pointer t' = base_pointer t \<Longrightarrow> cells t' m = cells t m"
  by (simp add: cells_def peek_def)

lemma byte_less: "(x < 24) = (unat x < 24)" "(x < 79) = (unat x < 79)" for x :: u8
  by (simp_all add: word_less_nat_alt)

lemma unat_Suc8: "unat x < 100 \<Longrightarrow> unat (x + 1) = Suc (unat x)" for x :: u8
  by (subst unat_add_no_wrap) simp_all

lemma newline_spec:
  assumes "on_screen t"
  shows "screen_of (newline t m) = screen_newline (cc_u8 (current_color t)) (cells t m) (tm_row t) \<and> screen_step (t, m) (newline t m)"
proof (cases "tm_row t < 24")
  case True
  then have "newline t m = (t\<lparr>cursor_col := 0, cursor_row := cursor_row t + 1\<rparr>, m)"
    by (simp add: newline_def Let_def byte_less tm_row_def)
  then show ?thesis using True unat_Suc8 [of "cursor_row t"]
    by (simp add: screen_of_def screen_newline_def screen_step_def on_screen_def tm_row_def tm_col_def cells_def peek_def)
next
  case False
  define t' where "t' = t\<lparr>cursor_col := 0\<rparr>"
  have "newline t m = (t', scroll 1 t' m)" using False by (simp add: newline_def Let_def byte_less tm_row_def t'_def)
  moreover have "cells t' m = cells t m" "tm_row t' = tm_row t" "tm_col t' = 0" "base_pointer t' = base_pointer t"
    "current_color t' = current_color t" by (simp_all add: t'_def cells_def peek_def tm_row_def tm_col_def)
  ultimately show ?thesis using False assms scroll_spec [of 1 t' m]
    by (simp add: screen_of_def screen_newline_def screen_step_def on_screen_def)
qed

lemma screen_step_poked:
  assumes "on_screen t" "screen_step (t, m') tm'" "keeps_rest (base_pointer t) m m'"
  shows "screen_step (t, m) tm'"
  using assms by (auto simp: screen_step_def intro: keeps_rest_trans)

lemma write_byte_refines:
  assumes "on_screen t"
  shows "screen_of (write_byte b (t, m)) = screen_write (cc_u8 (current_color t)) b (screen_of (t, m))
    \<and> screen_step (t, m) (write_byte b (t, m))"
proof -
  define k where "k = 80 * tm_row t + tm_col t"
  have k: "k < 2000" "cursor_offset t = 2 * k" using assms by (simp_all add: on_screen_def k_def cursor_offset_def)
  define c where "c = cc_u8 (current_color t)"
  define m1 where "m1 = poke t (2 * k + 1) c m"
  define m2 where "m2 = poke t (2 * k + 1) c (poke t (2 * k) b m)"
  have kr: "keeps_rest (base_pointer t) m m1" "keeps_rest (base_pointer t) m m2"
    unfolding m1_def m2_def using k(1) by (intro keeps_rest_poke; simp)+
  have cs: "cells t m1 = (cells t m)[k := (fst (cells t m ! k), c)]" "cells t m2 = (cells t m)[k := (b, c)]"
    unfolding m1_def m2_def using k(1) by (rule cells_attr, rule cells_put)
  consider "b = 0x0a" | "b \<noteq> 0x0a" "0x20 \<le> b \<and> b \<le> 0x7e" | "b \<noteq> 0x0a" "\<not> (0x20 \<le> b \<and> b \<le> 0x7e)" by blast
  then show ?thesis
  proof cases
    case 1
    then have "write_byte b (t, m) = newline t m1" by (simp add: write_byte_def disable_cursor_def k(2) m1_def c_def)
    then show ?thesis using newline_spec [OF assms, of m1] 1 screen_step_poked [OF assms _ kr(1)]
      by (simp add: screen_of_def screen_write_def Let_def k_def [symmetric] c_def [symmetric] cs)
  next
    case 2
    then have w: "write_byte b (t, m) = advance_cursor t m2" by (simp add: write_byte_def k(2) m2_def c_def)
    show ?thesis
    proof (cases "tm_col t < 79")
      case True
      then have "write_byte b (t, m) = (t\<lparr>cursor_col := cursor_col t + 1\<rparr>, m2)"
        by (simp add: w advance_cursor_def byte_less tm_col_def)
      moreover have "tm_col (t\<lparr>cursor_col := cursor_col t + 1\<rparr>) = Suc (tm_col t)"
        using True unat_Suc8 [of "cursor_col t"] by (simp add: tm_col_def)
      moreover have "cells (t\<lparr>cursor_col := cursor_col t + 1\<rparr>) m2 = cells t m2"
        "tm_row (t\<lparr>cursor_col := cursor_col t + 1\<rparr>) = tm_row t" by (simp_all add: cells_def peek_def tm_row_def)
      ultimately show ?thesis using True 2 kr(2) assms
        by (simp add: screen_of_def screen_write_def screen_step_def on_screen_def Let_def k_def [symmetric] c_def [symmetric] cs)
    next
      case False
      then have "write_byte b (t, m) = newline t m2" by (simp add: w advance_cursor_def byte_less tm_col_def)
      then show ?thesis using False 2 newline_spec [OF assms, of m2] screen_step_poked [OF assms _ kr(2)]
        by (simp add: screen_of_def screen_write_def Let_def k_def [symmetric] c_def [symmetric] cs)
    qed
  next
    case 3
    then have "write_byte b (t, m) = (t, m)" by (auto simp: write_byte_def)
    then show ?thesis using 3 assms by (auto simp: screen_of_def screen_write_def screen_step_def Let_def)
  qed
qed

text \<open>C26: the screen shows what is printed.  For every text and every position of the cursor on the
  screen, printing has the effect it has on a list of 2000 cells with a cursor: characters appear from left to
  right in the current colour, a line feed or the last column goes on to the next row, the last row scrolls the whole screen
  up by one row and blanks the new one, and other bytes are ignored; the cursor stays on the screen and no memory outside the screen
  changes.\<close>

theorem printing_refines_cells:
  assumes "on_screen t"
  shows "screen_of (write_string s (t, m)) = fold (screen_write (cc_u8 (current_color t))) s (screen_of (t, m))
    \<and> screen_step (t, m) (write_string s (t, m))"
  using assms
proof (induction s arbitrary: t m)
  case (Cons b s)
  obtain t' m' where w: "write_byte b (t, m) = (t', m')" by (cases "write_byte b (t, m)")
  note b = write_byte_refines [OF Cons.prems, of b m, unfolded w]
  then have t': "on_screen t'" "current_color t' = current_color t" "base_pointer t' = base_pointer t"
    "keeps_rest (base_pointer t) m m'" by (simp_all add: screen_step_def)
  from Cons.IH [OF t'(1), of m'] b t' show ?case
    by (auto simp: write_string_def w screen_step_def intro: keeps_rest_trans)
qed (simp add: write_string_def screen_step_def)

definition sample_text :: text_mode where
  "sample_text = \<lparr>base_pointer = 0xc00b8000, cursor_col = 78, cursor_row = 3, current_color = color_code_new LightGrey Black\<rparr>"

text \<open>Three letters typed near the end of a row.\<close>

theorem printing_refines_cells_witness:
  "on_screen sample_text \<and> tm_col (fst (write_string [0x41, 0x42, 0x07, 0x43] (sample_text, \<lambda>a. 0))) = 1
   \<and> tm_row (fst (write_string [0x41, 0x42, 0x07, 0x43] (sample_text, \<lambda>a. 0))) = 4"
proof -
  have on: "on_screen sample_text" by (simp add: sample_text_def on_screen_def tm_col_def tm_row_def)
  have pos: "tm_col sample_text = 78" "tm_row sample_text = 3" by (simp_all add: sample_text_def tm_col_def tm_row_def)
  have "snd (screen_of (write_string [0x41, 0x42, 0x07, 0x43] (sample_text, \<lambda>a. 0))) = (1, 4)"
    using printing_refines_cells [OF on, of "[0x41, 0x42, 0x07, 0x43]" "\<lambda>a. 0"]
    by (simp add: screen_of_def [of "(sample_text, _)"] pos screen_write_def screen_newline_def Let_def)
  then show ?thesis using on by (simp add: screen_of_def)
qed

end
