(* ===== verification/Terminal.thy ===== *)
theory Terminal
  imports Collections Keyboard TextMode
begin

text \<open>
  The terminals (\<^verbatim>\<open>tty/\<close>): a terminal parses the bytes it is sent, escape sequences included, and
  draws on the text screen or, while it is in the background, on its back buffer
  (\<^verbatim>\<open>tty.rs\<close>); two ring buffers connect it with its device file (\<^verbatim>\<open>buffers.rs\<close>,
  \<^verbatim>\<open>device.rs\<close>); the router sends key presses to the active terminal and switches between
  terminals (\<^verbatim>\<open>router.rs\<close>).  The back buffer is a vector the terminal owns; the model keeps its
  address and has its bytes in memory, because the screen operations write through a raw pointer to it.
\<close>

section \<open>A terminal\<close>

definition BACK_BUFFER_SIZE :: nat where "BACK_BUFFER_SIZE = 80 * 25 * 2"

datatype parse_state = Ready | EscapeStart | CSI

datatype line_discipline = Raw | Canonical

record tty =
  tty_is_active :: bool
  line_disc :: line_discipline
  echo :: bool
  show_cursor :: bool
  parser :: parse_state
  arg_digits_written :: usize
  csi_args :: "u32 option list"
  text_buffer :: text_mode
  back_buffer :: usize

text \<open>\<^verbatim>\<open>TTY::new\<close>; the address of the new vector comes from the heap and is an argument.\<close>

definition tty_new :: "usize \<Rightarrow> memory \<Rightarrow> tty \<times> memory" where
  "tty_new back m =
     (\<lparr>tty_is_active = False, line_disc = Raw, echo = True, show_cursor = True, parser = Ready, arg_digits_written = 0,
       csi_args = [], text_buffer = text_mode_new 0xc00b8000, back_buffer = back\<rparr>,
      fold (\<lambda>i m. m(back + of_nat i := 0)) [0 ..< BACK_BUFFER_SIZE] m)"

definition set_active :: "bool \<Rightarrow> tty \<Rightarrow> tty" where
  "set_active active t = t\<lparr>tty_is_active := active\<rparr>"

definition get_csi_arg :: "nat \<Rightarrow> u32 \<Rightarrow> tty \<Rightarrow> u32" where
  "get_csi_arg index dflt t =
     (case nth_opt (csi_args t) index of
        Some opt \<Rightarrow> (case opt of Some val \<Rightarrow> val | None \<Rightarrow> dflt)
      | None \<Rightarrow> dflt)"

definition move_by :: "usize \<Rightarrow> usize \<Rightarrow> tty \<Rightarrow> tty" where
  "move_by dcol drow t = t\<lparr>text_buffer := move_cursor_relative dcol drow (text_buffer t)\<rparr>"

text \<open>The command byte of a control sequence; the first component says whether the sequence is complete.\<close>

definition csi_command :: "u8 \<Rightarrow> tty \<times> memory \<Rightarrow> bool \<times> tty \<times> memory" where
  "csi_command byte tm =
     (case tm of (t, m) \<Rightarrow>
      let x = text_buffer t
      in if byte = 0x3b then (False, t\<lparr>csi_args := csi_args t @ [None], arg_digits_written := 0\<rparr>, m)
         else if byte = 0x41 then (True, move_by 0 (- get_csi_arg 0 1 t) t, m)
         else if byte = 0x42 then (True, move_by 0 (get_csi_arg 0 1 t) t, m)
         else if byte = 0x43 then (True, move_by (get_csi_arg 0 1 t) 0 t, m)
         else if byte = 0x44 then (True, move_by (- get_csi_arg 0 1 t) 0 t, m)
         else if byte \<in> {0x45, 0x46, 0x47, 0x48} then (True, t, m)
         else if byte = 0x4a then
           (let direction = get_csi_arg 0 0 t
            in (True, t, if direction = 0 then clear_screen_to_end x m
                         else if direction = 1 then clear_screen_to_beginning x m
                         else if direction = 2 \<or> direction = 3 then clear_screen x m
                         else m))
         else if byte = 0x4b then
           (let direction = get_csi_arg 0 0 t
            in (True, t, if direction = 0 then clear_row_to_end x m
                         else if direction = 1 then clear_row_to_beginning x m
                         else if direction = 2 \<or> direction = 3 then clear_row x m
                         else m))
         else (True, t, m))"

definition process_character :: "u8 \<Rightarrow> tty \<times> memory \<Rightarrow> u8 option \<times> tty \<times> memory" where
  "process_character byte tm =
     (case tm of (t, m) \<Rightarrow>
        case parser t of
          Ready \<Rightarrow> if byte = 0x1b then (None, t\<lparr>parser := EscapeStart\<rparr>, m) else (Some byte, t, m)
        | EscapeStart \<Rightarrow>
            if byte = 0x5b then (None, t\<lparr>parser := CSI, csi_args := [None], arg_digits_written := 0\<rparr>, m)
            else (None, t\<lparr>parser := Ready\<rparr>, m)
        | CSI \<Rightarrow>
            let (complete, t, m) = csi_command byte (t, disable_cursor (text_buffer t) m);
                t = (if complete then t\<lparr>parser := Ready\<rparr> else t)
            in (None, t, if show_cursor t then invert_cursor (text_buffer t) m else m))"

definition send_data :: "u8 \<Rightarrow> tty \<times> memory \<Rightarrow> tty \<times> memory" where
  "send_data byte tm =
     (case process_character byte tm of
        (Some ch, t, m) \<Rightarrow>
          let (x, m) = write_byte ch (text_buffer t, m)
          in (t\<lparr>text_buffer := x\<rparr>, if show_cursor t then invert_cursor x m else m)
      | (None, t, m) \<Rightarrow> (t, m))"

definition handle_input :: "u8 \<Rightarrow> tty \<times> memory \<Rightarrow> tty \<times> memory" where
  "handle_input byte tm = (if echo (fst tm) then send_data byte tm else tm)"

text \<open>Copying between screen and back buffer, a word at a time.\<close>

definition copy_screen :: "usize \<Rightarrow> usize \<Rightarrow> memory \<Rightarrow> memory" where
  "copy_screen src dest m =
     fold (\<lambda>off m. store32 m (dest + 4 * of_nat off) (load32 m (src + 4 * of_nat off))) [0 ..< BACK_BUFFER_SIZE div 4] m"

definition swap_out :: "tty \<times> memory \<Rightarrow> tty \<times> memory" where
  "swap_out tm =
     (case tm of (t, m) \<Rightarrow>
        let (src, x) = set_buffer_pointer (back_buffer t) (text_buffer t)
        in (t\<lparr>text_buffer := x\<rparr>, copy_screen src (back_buffer t) m))"

definition force_background :: "tty \<Rightarrow> tty" where
  "force_background t = t\<lparr>text_buffer := snd (set_buffer_pointer (back_buffer t) (text_buffer t))\<rparr>"

definition swap_in :: "tty \<times> memory \<Rightarrow> tty \<times> memory" where
  "swap_in tm =
     (case tm of (t, m) \<Rightarrow>
        let dest = 0xb8000; (_, x) = set_buffer_pointer dest (text_buffer t)
        in (t\<lparr>text_buffer := x\<rparr>, copy_screen (back_buffer t) dest m))"

section \<open>Buffers and routing\<close>

record tty_buffers =
  output_buffer :: ringbuffer
  input_buffer :: ringbuffer

definition tty_buffers_new :: tty_buffers where
  "tty_buffers_new = \<lparr>output_buffer = ringbuffer_new (replicate 256 0), input_buffer = ringbuffer_new (replicate 256 0)\<rparr>"

definition tty_buffers_read :: "u8 list \<Rightarrow> tty_buffers \<Rightarrow> usize \<times> u8 list \<times> tty_buffers" where
  "tty_buffers_read buffer b = (let (rb, buffer, n) = rb_read (output_buffer b) buffer in (n, buffer, b\<lparr>output_buffer := rb\<rparr>))"

definition tty_buffers_write :: "u8 list \<Rightarrow> tty_buffers \<Rightarrow> usize \<times> tty_buffers" where
  "tty_buffers_write buffer b = (let (rb, n) = rb_write (input_buffer b) buffer in (n, b\<lparr>input_buffer := rb\<rparr>))"

record tty_data =
  td_tty :: tty
  td_buffers :: tty_buffers

definition tty_data_new :: "tty \<Rightarrow> tty_data" where
  "tty_data_new t = \<lparr>td_tty = t, td_buffers = tty_buffers_new\<rparr>"

record tty_router =
  tty_set :: "tty_data list"
  active_tty :: usize
  router_keys :: key_state

definition tty_router_new :: "usize \<Rightarrow> usize \<Rightarrow> memory \<Rightarrow> tty_router \<times> memory" where
  "tty_router_new back0 back1 m =
     (let (tty0, m) = tty_new back0 m;
          tty0 = set_active True tty0;
          (tty1, m) = tty_new back1 m;
          tty1 = force_background tty1
      in (\<lparr>tty_set = [tty_data_new tty0, tty_data_new tty1], active_tty = 0, router_keys = key_state_new\<rparr>, m))"

definition create_tty :: "usize \<Rightarrow> tty_router \<times> memory \<Rightarrow> usize \<times> tty_router \<times> memory" where
  "create_tty back rm =
     (case rm of (r, m) \<Rightarrow>
        let (t, m) = tty_new back m
        in (of_nat (length (tty_set r)), r\<lparr>tty_set := tty_set r @ [tty_data_new t]\<rparr>, m))"

definition get_tty_buffers :: "usize \<Rightarrow> tty_router \<Rightarrow> tty_buffers option" where
  "get_tty_buffers index r =
     (case nth_opt (tty_set r) (unat index) of Some d \<Rightarrow> Some (td_buffers d) | None \<Rightarrow> None)"

definition get_active_tty :: "tty_router \<Rightarrow> tty option" where
  "get_active_tty r = (case nth_opt (tty_set r) (unat (active_tty r)) of Some d \<Rightarrow> Some (td_tty d) | None \<Rightarrow> None)"

text \<open>A change of the terminal at an index, with the memory it draws on; nothing when there is none.\<close>

definition on_tty :: "usize \<Rightarrow> (tty \<times> memory \<Rightarrow> tty \<times> memory) \<Rightarrow> tty_router \<times> memory \<Rightarrow> tty_router \<times> memory" where
  "on_tty index f rm =
     (case rm of (r, m) \<Rightarrow>
        case nth_opt (tty_set r) (unat index) of
          Some d \<Rightarrow> let (t, m) = f (td_tty d, m) in (r\<lparr>tty_set := (tty_set r)[unat index := d\<lparr>td_tty := t\<rparr>]\<rparr>, m)
        | None \<Rightarrow> (r, m))"

definition set_active_tty :: "usize \<Rightarrow> tty_router \<times> memory \<Rightarrow> tty_router \<times> memory" where
  "set_active_tty index rm =
     (if length (tty_set (fst rm)) \<le> unat index then rm
      else let rm = on_tty (active_tty (fst rm)) (\<lambda>(t, m). swap_out (set_active False t, m)) rm;
               rm = ((fst rm)\<lparr>active_tty := index\<rparr>, snd rm)
           in on_tty index (\<lambda>(t, m). swap_in (set_active True t, m)) rm)"

text \<open>The bytes of a key press: shown by the active terminal, then written to the buffer its readers read.\<close>

definition deliver :: "u8 list \<Rightarrow> tty_router \<times> memory \<Rightarrow> tty_router \<times> memory" where
  "deliver bytes rm =
     (case rm of (r, m) \<Rightarrow>
        let i = unat (active_tty r)
        in case nth_opt (tty_set r) i of
             Some d \<Rightarrow>
               let (t, m) = fold handle_input bytes (td_tty d, m);
                   b = (td_buffers d)\<lparr>output_buffer := fst (rb_write (output_buffer (td_buffers d)) bytes)\<rparr>
               in (r\<lparr>tty_set := (tty_set r)[i := \<lparr>td_tty = t, td_buffers = b\<rparr>]\<rparr>, m)
           | None \<Rightarrow> (r, m))"

definition send_key_action :: "key_action \<Rightarrow> tty_router \<times> memory \<Rightarrow> (tty_router \<times> memory) outcome" where
  "send_key_action action rm =
     obind (process_key_action action [0, 0, 0, 0] (router_keys (fst rm))) (\<lambda>(output, buffer, ks).
       let rm = ((fst rm)\<lparr>router_keys := ks\<rparr>, snd rm)
       in Done (case output of
            None \<Rightarrow> rm
          | Some len \<Rightarrow>
              if action = Press KeyNum0 \<and> alt ks then set_active_tty 0 rm
              else if action = Press KeyNum1 \<and> alt ks then set_active_tty 1 rm
              else deliver (take (unat len) buffer) rm))"

text \<open>The loop that empties an input buffer into its terminal, four bytes at a time.\<close>

partial_function (option) drain_input :: "usize \<Rightarrow> ringbuffer \<Rightarrow> tty \<times> memory \<Rightarrow> (ringbuffer \<times> tty \<times> memory) option" where
  "drain_input to_read rb tm =
     (if to_read > 0
      then (case rb_read rb [0, 0, 0, 0] of (rb', chunk, bytes_read) \<Rightarrow>
              drain_input (if bytes_read = 4 then to_read - bytes_read else 0) rb' (fold send_data (take (unat bytes_read) chunk) tm))
      else Some (rb, tm))"

fun process_each :: "tty_data list \<Rightarrow> memory \<Rightarrow> (tty_data list \<times> memory) option" where
  "process_each [] m = Some ([], m)"
| "process_each (d # ds) m =
     (let rb = input_buffer (td_buffers d)
      in case drain_input (available_bytes rb) rb (td_tty d, m) of
           None \<Rightarrow> None
         | Some (rb, t, m) \<Rightarrow>
             (case process_each ds m of
                None \<Rightarrow> None
              | Some (ds, m) \<Rightarrow> Some (\<lparr>td_tty = t, td_buffers = (td_buffers d)\<lparr>input_buffer := rb\<rparr>\<rparr> # ds, m)))"

definition process_buffers :: "tty_router \<times> memory \<Rightarrow> (tty_router \<times> memory) outcome" where
  "process_buffers rm =
     (case process_each (tty_set (fst rm)) (snd rm) of
        Some (ds, m) \<Rightarrow> Done ((fst rm)\<lparr>tty_set := ds\<rparr>, m)
      | None \<Rightarrow> Hang)"

text \<open>The static \<^verbatim>\<open>ROUTER\<close>, and writing to the console.\<close>

definition init_ttys :: "usize \<Rightarrow> usize \<Rightarrow> memory \<Rightarrow> tty_router option \<times> memory" where
  "init_ttys back0 back1 m = (let (r, m) = tty_router_new back0 back1 m in (Some r, m))"

definition get_router :: "tty_router option \<Rightarrow> tty_router outcome" where
  "get_router ROUTER = of_option ROUTER"

definition set_tty_buffers :: "usize \<Rightarrow> tty_buffers \<Rightarrow> tty_router \<Rightarrow> tty_router" where
  "set_tty_buffers index b r =
     r\<lparr>tty_set := (tty_set r)[unat index := (tty_set r ! unat index)\<lparr>td_buffers := b\<rparr>]\<rparr>"

definition console_write_str :: "u8 list \<Rightarrow> tty_router option \<Rightarrow> ((unit + unit) \<times> tty_router option) outcome" where
  "console_write_str s ROUTER =
     obind (get_router ROUTER) (\<lambda>r.
       case get_tty_buffers 0 r of
         Some b \<Rightarrow> Done (Inr (), Some (set_tty_buffers 0 (b\<lparr>input_buffer := fst (rb_write (input_buffer b) s)\<rparr>) r))
       | None \<Rightarrow> Done (Inl (), Some r))"

text \<open>The device file of a terminal.\<close>

definition tty_device :: "usize \<Rightarrow> tty_router option device_driver" where
  "tty_device tty_id = default_driver
     \<lparr>dd_open := \<lambda>handle R. Done (Inr (), R),
      dd_close := \<lambda>handle R. Done (Inr (), R),
      dd_read := \<lambda>handle buffer R. obind (get_router R) (\<lambda>r.
        case get_tty_buffers tty_id r of
          Some b \<Rightarrow> (let (n, buffer, b) = tty_buffers_read buffer b in Done (Inr n, buffer, Some (set_tty_buffers tty_id b r)))
        | None \<Rightarrow> Done (Inl (), buffer, R)),
      dd_write := \<lambda>handle buffer R. obind (get_router R) (\<lambda>r.
        case get_tty_buffers tty_id r of
          Some b \<Rightarrow> (let (n, b) = tty_buffers_write buffer b in Done (Inr n, Some (set_tty_buffers tty_id b r)))
        | None \<Rightarrow> Done (Inl (), R))\<rparr>"

section \<open>Terminals stay inside their buffers\<close>

definition tty_ok :: "tty \<Rightarrow> bool" where
  "tty_ok t \<longleftrightarrow> on_screen (text_buffer t) \<and> base_pointer (text_buffer t) \<in> {0xc00b8000, 0xb8000, back_buffer t}"

text \<open>The memory a terminal may write: the video memory, at the two addresses the code uses for it, and its back buffer.\<close>

definition drawing_area :: "usize \<Rightarrow> usize set" where
  "drawing_area back = span 0xc00b8000 4000 \<union> span 0xb8000 4000 \<union> span back 4000"

definition tty_step :: "tty \<times> memory \<Rightarrow> tty \<times> memory \<Rightarrow> bool" where
  "tty_step tm tm' \<longleftrightarrow> tty_ok (fst tm') \<and> back_buffer (fst tm') = back_buffer (fst tm)
     \<and> (\<forall>a. a \<notin> drawing_area (back_buffer (fst tm)) \<longrightarrow> snd tm' a = snd tm a)"

lemma tty_step_refl: "tty_ok (fst tm) \<Longrightarrow> tty_step tm tm"
  by (simp add: tty_step_def)

lemma tty_step_trans: "tty_step tm tm' \<Longrightarrow> tty_step tm' tm'' \<Longrightarrow> tty_step tm tm''"
  by (simp add: tty_step_def)

text \<open>Drawing through the current pointer.\<close>

lemma tty_step_draw:
  assumes "tty_ok t" "on_screen (text_buffer t')" "base_pointer (text_buffer t') = base_pointer (text_buffer t)"
    and "back_buffer t' = back_buffer t" "keeps_rest (base_pointer (text_buffer t)) m m'"
  shows "tty_step (t, m) (t', m')"
  using assms by (auto simp: tty_step_def tty_ok_def drawing_area_def keeps_rest_def)

lemma csi_command_step:
  assumes "tty_ok t" "csi_command b (t, m) = (d, t', m')"
  shows "tty_step (t, m) (t', m') \<and> show_cursor t' = show_cursor t"
proof -
  have on: "on_screen (text_buffer t)" using assms(1) by (simp add: tty_ok_def)
  have mv: "tty_step (t, m) (move_by x y t, m)" for x y
    using assms(1) by (intro tty_step_draw) (simp_all add: move_by_def on_screen_moves, simp add: move_cursor_relative_def)
  have dr: "tty_step (t, m) (t, m')" if "keeps_rest (base_pointer (text_buffer t)) m m'" for m'
    using assms(1) on that by (intro tty_step_draw) simp_all
  have sep: "tty_step (t, m) (t\<lparr>csi_args := xs, arg_digits_written := 0\<rparr>, m)" for xs
    using assms(1) on by (intro tty_step_draw) simp_all
  show ?thesis
    using assms(2) mv dr sep keeps_rest_clears [OF on, of m]
    by (auto simp: csi_command_def Let_def move_by_def split: if_splits)
qed

lemma process_character_step:
  assumes "tty_ok t" "process_character b (t, m) = (r, t', m')"
  shows "tty_step (t, m) (t', m')"
proof (cases "parser t")
  case CSI
  define m0 where "m0 = disable_cursor (text_buffer t) m"
  obtain d t1 m1 where c: "csi_command b (t, m0) = (d, t1, m1)" by (cases "csi_command b (t, m0)")
  have on: "on_screen (text_buffer t)" using assms(1) by (simp add: tty_ok_def)
  have "tty_step (t, m) (t, m0)"
    unfolding m0_def using assms(1) on keeps_rest_clears(8) by (intro tty_step_draw) simp_all
  then have s1: "tty_step (t, m) (t1, m1)" using csi_command_step [OF assms(1) c] by (blast intro: tty_step_trans)
  define t2 where "t2 = (if d then t1\<lparr>parser := Ready\<rparr> else t1)"
  have ok1: "tty_ok t1" using s1 by (simp add: tty_step_def)
  then have on1: "on_screen (text_buffer t1)" by (simp add: tty_ok_def)
  have "tty_step (t1, m1) (t2, if show_cursor t2 then invert_cursor (text_buffer t2) m1 else m1)"
    using ok1 on1 keeps_rest_clears(7) [OF on1] by (intro tty_step_draw) (simp_all add: t2_def)
  moreover have "t' = t2" "m' = (if show_cursor t2 then invert_cursor (text_buffer t2) m1 else m1)"
    using assms(2) CSI c by (auto simp: process_character_def m0_def t2_def Let_def)
  ultimately show ?thesis using s1 by (auto intro: tty_step_trans)
qed (use assms in \<open>auto simp: process_character_def tty_ok_def intro!: tty_step_draw split: if_splits\<close>)

lemma send_data_step:
  assumes "tty_ok t"
  shows "tty_step (t, m) (send_data b (t, m))"
proof -
  obtain r t1 m1 where p: "process_character b (t, m) = (r, t1, m1)" by (cases "process_character b (t, m)")
  note s1 = process_character_step [OF assms p]
  then have ok1: "tty_ok t1" by (simp add: tty_step_def)
  then have on1: "on_screen (text_buffer t1)" by (simp add: tty_ok_def)
  show ?thesis
  proof (cases r)
    case (Some ch)
    obtain x m2 where w: "write_byte ch (text_buffer t1, m1) = (x, m2)" by (cases "write_byte ch (text_buffer t1, m1)")
    then have x: "on_screen x" "base_pointer x = base_pointer (text_buffer t1)" "keeps_rest (base_pointer x) m1 m2"
      using write_byte_refines [OF on1, of ch m1] by (simp_all add: screen_step_def)
    have "keeps_rest (base_pointer x) m1 (if show_cursor t1 then invert_cursor x m2 else m2)"
      using x(3) keeps_rest_clears(7) [OF x(1), of m2] by (auto intro: keeps_rest_trans)
    then have "tty_step (t1, m1) (t1\<lparr>text_buffer := x\<rparr>, if show_cursor t1 then invert_cursor x m2 else m2)"
      using ok1 x(1,2) by (intro tty_step_draw) simp_all
    then show ?thesis using s1 by (auto simp: send_data_def p Some w intro: tty_step_trans)
  qed (use s1 in \<open>simp add: send_data_def p\<close>)
qed

lemma handle_input_step: "tty_ok t \<Longrightarrow> tty_step (t, m) (handle_input b (t, m))"
  by (simp add: handle_input_def send_data_step tty_step_refl)

lemma tty_fold_step:
  assumes "\<And>b t m. tty_ok t \<Longrightarrow> tty_step (t, m) (f b (t, m))" "tty_ok (fst tm)"
  shows "tty_step tm (fold f bs tm)"
  using assms(2)
proof (induction bs arbitrary: tm)
  case (Cons b bs)
  have s: "tty_step tm (f b tm)" using assms(1) [of "fst tm" "snd tm" b] Cons.prems by simp
  then have "tty_ok (fst (f b tm))" by (simp add: tty_step_def)
  from Cons.IH [OF this] s show ?case by (auto intro: tty_step_trans)
qed (simp add: tty_step_refl)

lemma copy_screen_rest: "a \<notin> span dest 4000 \<Longrightarrow> copy_screen src dest m a = m a"
proof -
  assume a: "a \<notin> span dest 4000"
  have "fold (\<lambda>off m. store32 m (dest + 4 * of_nat off) (load32 m (src + 4 * of_nat off))) xs m a = m a"
    if "set xs \<subseteq> {..< 1000}" for xs m
    using that
  proof (induction xs arbitrary: m)
    case (Cons x xs)
    have "dest + 4 * of_nat x + of_nat j \<in> span dest 4000" if "j < 4" for j
      using in_span [of "4 * x + j" 4000 dest] that Cons.prems by (simp add: add.assoc)
    from this [of 0] this [of 1] this [of 2] this [of 3] a
    have "store32 m (dest + 4 * of_nat x) v a = m a" for m v by (intro store32_other) auto
    with Cons show ?case by simp
  qed simp
  moreover have "set [0 ..< 1000] \<subseteq> {..< 1000 :: nat}" by auto
  ultimately have "fold (\<lambda>off m. store32 m (dest + 4 * of_nat off) (load32 m (src + 4 * of_nat off))) [0 ..< 1000] m a = m a"
    by blast
  then show ?thesis by (simp add: copy_screen_def BACK_BUFFER_SIZE_def)
qed

lemma swap_steps:
  assumes "tty_ok t"
  shows "tty_step (t, m) (swap_out (set_active False t, m))" "tty_step (t, m) (swap_in (set_active True t, m))"
proof -
  have "on_screen (x\<lparr>base_pointer := p\<rparr>) = on_screen x" for x p by (simp add: on_screen_def tm_col_def tm_row_def)
  then show "tty_step (t, m) (swap_out (set_active False t, m))" "tty_step (t, m) (swap_in (set_active True t, m))"
    using assms
    by (simp_all add: swap_out_def swap_in_def set_active_def set_buffer_pointer_def tty_step_def tty_ok_def drawing_area_def copy_screen_rest)
qed

section \<open>The router\<close>

definition ring_ok :: "ringbuffer \<Rightarrow> bool" where
  "ring_ok rb \<longleftrightarrow> rb_inv rb \<and> length (rb_data rb) = 256"

definition data_ok :: "tty_data \<Rightarrow> bool" where
  "data_ok d \<longleftrightarrow> tty_ok (td_tty d) \<and> ring_ok (output_buffer (td_buffers d)) \<and> ring_ok (input_buffer (td_buffers d))"

definition router_ok :: "tty_router \<Rightarrow> bool" where
  "router_ok r \<longleftrightarrow> list_all data_ok (tty_set r)"

definition backs :: "tty_router \<Rightarrow> usize list" where
  "backs r = map (\<lambda>d. back_buffer (td_tty d)) (tty_set r)"

definition router_step :: "tty_router \<times> memory \<Rightarrow> tty_router \<times> memory \<Rightarrow> bool" where
  "router_step rm rm' \<longleftrightarrow> router_ok (fst rm') \<and> backs (fst rm') = backs (fst rm)
     \<and> (\<forall>a. (\<forall>b. b \<in> set (backs (fst rm)) \<longrightarrow> a \<notin> drawing_area b) \<longrightarrow> snd rm' a = snd rm a)"

lemma router_step_refl: "router_ok (fst rm) \<Longrightarrow> router_step rm rm"
  by (simp add: router_step_def)

lemma router_step_trans: "router_step rm rm' \<Longrightarrow> router_step rm' rm'' \<Longrightarrow> router_step rm rm''"
  by (simp add: router_step_def)

text \<open>Replacing the data of one terminal.\<close>

lemma router_step_update:
  assumes "router_ok r" "i < length (tty_set r)" "tty_step (td_tty (tty_set r ! i), m) (td_tty d, m')" "data_ok d"
  shows "router_step (r, m) (r\<lparr>tty_set := (tty_set r)[i := d]\<rparr>, m')"
proof -
  have b: "back_buffer (td_tty d) = backs r ! i" using assms(2,3) by (simp add: backs_def tty_step_def)
  have "backs (r\<lparr>tty_set := (tty_set r)[i := d]\<rparr>) = (backs r)[i := backs r ! i]"
    using b by (simp add: backs_def map_update)
  then have "backs (r\<lparr>tty_set := (tty_set r)[i := d]\<rparr>) = backs r" by simp
  moreover have "router_ok (r\<lparr>tty_set := (tty_set r)[i := d]\<rparr>)"
    using assms(1,4) set_update_subset_insert [of "tty_set r" i d] by (auto simp: router_ok_def list_all_iff)
  moreover have "backs r ! i \<in> set (backs r)" using assms(2) by (simp add: backs_def)
  ultimately show ?thesis using assms(3) b by (auto simp: router_step_def tty_step_def)
qed

lemma router_okD: "router_ok r \<Longrightarrow> i < length (tty_set r) \<Longrightarrow> data_ok (tty_set r ! i)"
  by (simp add: router_ok_def list_all_length)

lemma on_tty_step:
  assumes "router_ok (fst rm)" "\<And>t m. tty_ok t \<Longrightarrow> tty_step (t, m) (f (t, m))"
  shows "router_step rm (on_tty index f rm)"
proof (cases "unat index < length (tty_set (fst rm))")
  case True
  obtain r m where rm: "rm = (r, m)" by (cases rm)
  let ?d = "tty_set r ! unat index"
  obtain t m' where f: "f (td_tty ?d, m) = (t, m')" by (cases "f (td_tty ?d, m)")
  have d: "data_ok ?d" using router_okD assms(1) True rm by auto
  then have s: "tty_step (td_tty ?d, m) (t, m')" using assms(2) [of "td_tty ?d" m] f by (simp add: data_ok_def)
  then have "data_ok (?d\<lparr>td_tty := t\<rparr>)" using d by (simp add: data_ok_def tty_step_def)
  with s True assms(1) show ?thesis using router_step_update [of r "unat index" m "?d\<lparr>td_tty := t\<rparr>" m']
    by (simp add: on_tty_def rm nth_opt_def f)
next
  case False
  then show ?thesis using assms(1) by (cases rm) (simp add: on_tty_def nth_opt_def router_step_refl)
qed

lemma set_active_tty_step:
  assumes "router_ok (fst rm)"
  shows "router_step rm (set_active_tty index rm)"
proof (cases "length (tty_set (fst rm)) \<le> unat index")
  case False
  define rm1 where "rm1 = on_tty (active_tty (fst rm)) (\<lambda>(t, m). swap_out (set_active False t, m)) rm"
  have s1: "router_step rm rm1" unfolding rm1_def using assms swap_steps(1) by (intro on_tty_step) auto
  then have s2: "router_step rm ((fst rm1)\<lparr>active_tty := index\<rparr>, snd rm1)"
    by (simp add: router_step_def router_ok_def backs_def)
  moreover have "router_step ((fst rm1)\<lparr>active_tty := index\<rparr>, snd rm1)
      (on_tty index (\<lambda>(t, m). swap_in (set_active True t, m)) ((fst rm1)\<lparr>active_tty := index\<rparr>, snd rm1))"
    using s2 swap_steps(2) by (intro on_tty_step) (auto simp: router_step_def)
  ultimately show ?thesis using False by (auto simp: set_active_tty_def rm1_def Let_def intro: router_step_trans)
qed (use assms in \<open>simp add: set_active_tty_def router_step_refl\<close>)

lemma ring_ok_write: "ring_ok rb \<Longrightarrow> length s < 2 ^ 32 \<Longrightarrow> ring_ok (fst (rb_write rb s))"
  using rb_write_spec(1,3) [of rb s _ "fst (rb_write rb s)" "snd (rb_write rb s)"] by (simp add: ring_ok_def)

lemma ring_ok_read: "ring_ok rb \<Longrightarrow> length s < 2 ^ 32 \<Longrightarrow> ring_ok (fst (rb_read rb s))"
  using rb_read_spec(1,3) [of rb s _ "fst (rb_read rb s)" "fst (snd (rb_read rb s))" "snd (snd (rb_read rb s))"]
  by (simp add: ring_ok_def)

lemma deliver_step:
  assumes "router_ok (fst rm)" "length bytes < 2 ^ 32"
  shows "router_step rm (deliver bytes rm)"
proof (cases "unat (active_tty (fst rm)) < length (tty_set (fst rm))")
  case True
  obtain r m where rm: "rm = (r, m)" by (cases rm)
  define i where "i = unat (active_tty r)"
  let ?d = "tty_set r ! i"
  have i: "i < length (tty_set r)" using True by (simp add: rm i_def)
  have d: "data_ok ?d" using router_okD assms(1) i rm by auto
  obtain t m' where f: "fold handle_input bytes (td_tty ?d, m) = (t, m')" by (cases "fold handle_input bytes (td_tty ?d, m)")
  have s: "tty_step (td_tty ?d, m) (t, m')"
    using tty_fold_step [of handle_input "(td_tty ?d, m)" bytes] handle_input_step d f by (simp add: data_ok_def)
  let ?b = "(td_buffers ?d)\<lparr>output_buffer := fst (rb_write (output_buffer (td_buffers ?d)) bytes)\<rparr>"
  have "data_ok \<lparr>td_tty = t, td_buffers = ?b\<rparr>"
    using d s ring_ok_write [OF _ assms(2)] by (simp add: data_ok_def tty_step_def)
  with s i assms(1) show ?thesis using router_step_update [of r i m "\<lparr>td_tty = t, td_buffers = ?b\<rparr>" m']
    by (simp add: deliver_def rm i_def [symmetric] nth_opt_def f Let_def)
next
  case False
  then show ?thesis using assms(1) by (cases rm) (simp add: deliver_def nth_opt_def router_step_refl Let_def)
qed

lemma send_key_action_step:
  assumes "router_ok (fst rm)"
  shows "\<exists>rm'. send_key_action a rm = Done rm' \<and> router_step rm rm'"
proof -
  from process_key_action_total [of "[0, 0, 0, 0]" a "router_keys (fst rm)"] obtain out b ks where
    p: "process_key_action a [0, 0, 0, 0] (router_keys (fst rm)) = Done (out, b, ks)" "length b = 4" by auto
  define rm1 where "rm1 = ((fst rm)\<lparr>router_keys := ks\<rparr>, snd rm)"
  have s1: "router_step rm rm1" using assms by (simp add: rm1_def router_step_def router_ok_def backs_def)
  then have ok1: "router_ok (fst rm1)" by (simp add: router_step_def)
  have dl: "router_step rm1 (deliver (take n b) rm1)" for n using ok1 p(2) by (intro deliver_step) simp_all
  show ?thesis
    using s1 router_step_trans [OF s1 set_active_tty_step [OF ok1]] router_step_trans [OF s1 dl]
    by (auto simp: send_key_action_def p(1) rm1_def [symmetric] Let_def split: option.splits)
qed

text \<open>Emptying an input buffer ends, because every round takes what it counted.\<close>

lemma drain_input_ends:
  assumes "ring_ok rb" "unat to_read = length (rb_list rb)" "tty_ok t"
  shows "\<exists>rb' t' m'. drain_input to_read rb (t, m) = Some (rb', t', m') \<and> ring_ok rb' \<and> tty_step (t, m) (t', m')"
  using assms
proof (induction "length (rb_list rb)" arbitrary: to_read rb t m rule: less_induct)
  case less
  show ?case
  proof (cases "to_read > 0")
    case True
    obtain rb1 chunk n where r: "rb_read rb [0, 0, 0, 0] = (rb1, chunk, n)" by (cases "rb_read rb [0, 0, 0, 0]")
    obtain t1 m1 where f: "fold send_data (take (unat n) chunk) (t, m) = (t1, m1)"
      by (cases "fold send_data (take (unat n) chunk) (t, m)")
    have s1: "tty_step (t, m) (t1, m1)"
      using tty_fold_step [of send_data "(t, m)" "take (unat n) chunk"] send_data_step less.prems(3) f by simp
    then have ok1: "tty_ok t1" by (simp add: tty_step_def)
    have ring1: "ring_ok rb1" using ring_ok_read [OF less.prems(1), of "[0, 0, 0, 0]"] r by simp
    note spec = rb_read_spec [of rb "[0, 0, 0, 0]", OF _ _ refl r]
    have n: "unat n = min 4 (length (rb_list rb))" "rb_list rb1 = drop (unat n) (rb_list rb)"
      using spec(2,4) less.prems(1) by (simp_all add: ring_ok_def)
    have pos: "0 < unat to_read" using True by (simp add: word_less_nat_alt)
    define rest where "rest = (if n = 4 then to_read - n else 0)"
    have "\<exists>rb' t' m'. drain_input rest rb1 (t1, m1) = Some (rb', t', m') \<and> ring_ok rb' \<and> tty_step (t1, m1) (t', m')"
    proof (cases "n = 4")
      case four: True
      then have "unat rest = length (rb_list rb1)" "length (rb_list rb1) < length (rb_list rb)"
        using n less.prems(2) by (simp_all add: rest_def unat_sub_le)
      then show ?thesis using less.hyps [of rb1 rest t1 m1] ring1 ok1 by simp
    next
      case False
      then show ?thesis using ring1 ok1 by (simp add: rest_def drain_input.simps [of 0] tty_step_refl)
    qed
    then show ?thesis using s1 True by (subst drain_input.simps) (auto simp: r f rest_def intro: tty_step_trans)
  next
    case False
    then show ?thesis using less.prems by (subst drain_input.simps) (simp add: tty_step_refl)
  qed
qed

lemma process_each_ends:
  assumes "list_all data_ok ds"
  shows "\<exists>ds' m'. process_each ds m = Some (ds', m') \<and> list_all data_ok ds'
    \<and> map (\<lambda>d. back_buffer (td_tty d)) ds' = map (\<lambda>d. back_buffer (td_tty d)) ds
    \<and> (\<forall>a. (\<forall>d. d \<in> set ds \<longrightarrow> a \<notin> drawing_area (back_buffer (td_tty d))) \<longrightarrow> m' a = m a)"
  using assms
proof (induction ds arbitrary: m)
  case (Cons d ds)
  let ?rb = "input_buffer (td_buffers d)"
  have d: "data_ok d" using Cons.prems by simp
  then obtain rb' t' m1 where dr: "drain_input (available_bytes ?rb) ?rb (td_tty d, m) = Some (rb', t', m1)"
    "ring_ok rb'" "tty_step (td_tty d, m) (t', m1)"
    using drain_input_ends [of ?rb "available_bytes ?rb" "td_tty d" m] available_bytes_spec [of ?rb] by (auto simp: data_ok_def)
  from Cons.IH [of m1] Cons.prems obtain ds' m' where ds': "process_each ds m1 = Some (ds', m')" "list_all data_ok ds'"
    "map (\<lambda>d. back_buffer (td_tty d)) ds' = map (\<lambda>d. back_buffer (td_tty d)) ds"
    "\<forall>a. (\<forall>d. d \<in> set ds \<longrightarrow> a \<notin> drawing_area (back_buffer (td_tty d))) \<longrightarrow> m' a = m1 a" by auto
  have "data_ok \<lparr>td_tty = t', td_buffers = (td_buffers d)\<lparr>input_buffer := rb'\<rparr>\<rparr>"
    using dr(2,3) d by (simp add: data_ok_def tty_step_def)
  then show ?case using dr ds' by (auto simp: tty_step_def)
qed simp

lemma process_buffers_step:
  assumes "router_ok (fst rm)"
  shows "\<exists>rm'. process_buffers rm = Done rm' \<and> router_step rm rm'"
proof -
  from assms process_each_ends [of "tty_set (fst rm)" "snd rm"] obtain ds' m' where
    p: "process_each (tty_set (fst rm)) (snd rm) = Some (ds', m')" "list_all data_ok ds'"
    "map (\<lambda>d. back_buffer (td_tty d)) ds' = backs (fst rm)"
    "\<forall>a. (\<forall>d. d \<in> set (tty_set (fst rm)) \<longrightarrow> a \<notin> drawing_area (back_buffer (td_tty d))) \<longrightarrow> m' a = snd rm a"
    by (auto simp: router_ok_def backs_def)
  then have "router_step rm ((fst rm)\<lparr>tty_set := ds'\<rparr>, m')"
    by (auto simp: router_step_def router_ok_def backs_def)
  then show ?thesis by (simp add: process_buffers_def p(1))
qed

section \<open>Safety of the terminals\<close>

text \<open>What can happen to the terminals: a key, a round of the terminal process, a read or a write of a device file.\<close>

datatype tty_op = Key key_action | Draw | ReadTTY usize "u8 list" | WriteTTY usize "u8 list"

fun tty_do :: "tty_op \<Rightarrow> tty_router \<times> memory \<Rightarrow> (tty_router \<times> memory) outcome" where
  "tty_do (Key a) rm = send_key_action a rm"
| "tty_do Draw rm = process_buffers rm"
| "tty_do (ReadTTY i buffer) rm =
     obind (dd_read (tty_device i) (LocalHandle 0) buffer (Some (fst rm))) (\<lambda>(_, _, R). obind (get_router R) (\<lambda>r. Done (r, snd rm)))"
| "tty_do (WriteTTY i buffer) rm =
     obind (dd_write (tty_device i) (LocalHandle 0) buffer (Some (fst rm))) (\<lambda>(_, R). obind (get_router R) (\<lambda>r. Done (r, snd rm)))"

fun tty_op_ok :: "tty_op \<Rightarrow> bool" where
  "tty_op_ok (ReadTTY i buffer) \<longleftrightarrow> length buffer < 2 ^ 32"
| "tty_op_ok (WriteTTY i buffer) \<longleftrightarrow> length buffer < 2 ^ 32"
| "tty_op_ok _ \<longleftrightarrow> True"

lemma set_tty_buffers_step:
  assumes "router_ok r" "unat i < length (tty_set r)" "ring_ok (output_buffer b)" "ring_ok (input_buffer b)"
  shows "router_step (r, m) (set_tty_buffers i b r, m)"
  unfolding set_tty_buffers_def
proof (rule router_step_update [OF assms(1,2)])
  have "data_ok (tty_set r ! unat i)" using assms(1,2) by (rule router_okD)
  then show "data_ok ((tty_set r ! unat i)\<lparr>td_buffers := b\<rparr>)"
    "tty_step (td_tty (tty_set r ! unat i), m) (td_tty ((tty_set r ! unat i)\<lparr>td_buffers := b\<rparr>), m)"
    using assms(3,4) by (simp_all add: data_ok_def tty_step_refl)
qed

lemma tty_device_steps:
  assumes "router_ok r" "length buffer < 2 ^ 32"
  shows "\<exists>n buf' r'. dd_read (tty_device i) h buffer (Some r) = Done (n, buf', Some r') \<and> router_step (r, m) (r', m)"
    and "\<exists>n r'. dd_write (tty_device i) h buffer (Some r) = Done (n, Some r') \<and> router_step (r, m) (r', m)"
proof -
  have dev: "get_router (Some r) = Done r" by (simp add: get_router_def)
  have "(\<exists>n buf' r'. dd_read (tty_device i) h buffer (Some r) = Done (n, buf', Some r') \<and> router_step (r, m) (r', m))
    \<and> (\<exists>n r'. dd_write (tty_device i) h buffer (Some r) = Done (n, Some r') \<and> router_step (r, m) (r', m))"
  proof (cases "unat i < length (tty_set r)")
    case True
    let ?b = "td_buffers (tty_set r ! unat i)"
    have d: "ring_ok (output_buffer ?b)" "ring_ok (input_buffer ?b)"
      using router_okD [OF assms(1) True] by (simp_all add: data_ok_def)
    have "get_tty_buffers i r = Some ?b" using True by (simp add: get_tty_buffers_def nth_opt_def)
    moreover have "router_step (r, m) (set_tty_buffers i (?b\<lparr>output_buffer := fst (rb_read (output_buffer ?b) buffer)\<rparr>) r, m)"
      using d ring_ok_read [OF d(1) assms(2)] by (intro set_tty_buffers_step assms(1) True) simp_all
    moreover have "router_step (r, m) (set_tty_buffers i (?b\<lparr>input_buffer := fst (rb_write (input_buffer ?b) buffer)\<rparr>) r, m)"
      using d ring_ok_write [OF d(2) assms(2)] by (intro set_tty_buffers_step assms(1) True) simp_all
    ultimately show ?thesis
      by (simp add: tty_device_def default_driver_def dev tty_buffers_read_def tty_buffers_write_def case_prod_unfold Let_def)
  next
    case False
    then have "get_tty_buffers i r = None" by (simp add: get_tty_buffers_def nth_opt_def)
    then show ?thesis using assms(1) by (simp add: tty_device_def default_driver_def dev router_step_refl)
  qed
  then show "\<exists>n buf' r'. dd_read (tty_device i) h buffer (Some r) = Done (n, buf', Some r') \<and> router_step (r, m) (r', m)"
    "\<exists>n r'. dd_write (tty_device i) h buffer (Some r) = Done (n, Some r') \<and> router_step (r, m) (r', m)" by blast+
qed

lemma tty_do_step:
  assumes "router_ok (fst rm)" "tty_op_ok x"
  shows "\<exists>rm'. tty_do x rm = Done rm' \<and> router_step rm rm'"
proof (cases x)
  case (Key a)
  then show ?thesis using send_key_action_step [OF assms(1)] by simp
next
  case Draw
  then show ?thesis using process_buffers_step [OF assms(1)] by simp
next
  case (ReadTTY i buffer)
  then show ?thesis using tty_device_steps(1) [OF assms(1), of buffer i "LocalHandle 0" "snd rm"] assms(2)
    by (auto simp: get_router_def)
next
  case (WriteTTY i buffer)
  then show ?thesis using tty_device_steps(2) [OF assms(1), of buffer i "LocalHandle 0" "snd rm"] assms(2)
    by (auto simp: get_router_def)
qed

lemma tty_run_steps:
  assumes "router_ok (fst rm)" "list_all tty_op_ok ops"
  shows "\<exists>rm'. ofold tty_do ops rm = Done rm' \<and> router_step rm rm'"
  using assms
proof (induction ops arbitrary: rm)
  case (Cons x ops)
  then obtain rm1 where s: "tty_do x rm = Done rm1" "router_step rm rm1" using tty_do_step [of rm x] by auto
  then have "router_ok (fst rm1)" by (simp add: router_step_def)
  from Cons.IH [OF this] Cons.prems(2) obtain rm' where "ofold tty_do ops rm1 = Done rm'" "router_step rm1 rm'" by auto
  with s show ?case by (auto intro: router_step_trans)
qed (simp add: router_step_refl)

lemma router_new_ok:
  "\<exists>r m'. tty_router_new back0 back1 m = (r, m') \<and> router_ok r \<and> backs r = [back0, back1]"
proof -
  have "(256 :: nat) dvd 2 ^ 32" by (simp add: dvd_def)
  then have "ring_ok (ringbuffer_new (replicate 256 0))"
    using rb_new_spec [of "replicate 256 0"] by (simp add: ring_ok_def ringbuffer_new_def)
  then show ?thesis
    by (simp add: tty_router_new_def tty_new_def set_active_def force_background_def set_buffer_pointer_def tty_data_new_def
        router_ok_def data_ok_def tty_ok_def backs_def tty_buffers_new_def text_mode_new_def on_screen_def tm_col_def tm_row_def)
qed

text \<open>C22: the terminals are safe.  From their creation on, whatever keys are pressed and whatever is read from and
  written to their device files, escape sequences and switching between terminals included, the terminal code never panics and never
  hangs, every cursor stays on its screen, and no byte of memory is written outside the video memory and the two back
  buffers.\<close>

theorem terminals_are_safe:
  assumes "tty_router_new back0 back1 m = (r, m0)" "list_all tty_op_ok ops"
  shows "\<exists>r' m'. ofold tty_do ops (r, m0) = Done (r', m')
    \<and> list_all (\<lambda>d. on_screen (text_buffer (td_tty d))) (tty_set r')
    \<and> (\<forall>a. a \<notin> span 0xc00b8000 4000 \<union> span 0xb8000 4000 \<union> span back0 4000 \<union> span back1 4000 \<longrightarrow> m' a = m0 a)"
proof -
  from router_new_ok [of back0 back1 m] assms(1) have r: "router_ok r" "backs r = [back0, back1]" by auto
  then obtain r' m' where run: "ofold tty_do ops (r, m0) = Done (r', m')" "router_step (r, m0) (r', m')"
    using tty_run_steps [of "(r, m0)" ops] assms(2) by auto
  then have "list_all (\<lambda>d. on_screen (text_buffer (td_tty d))) (tty_set r')"
    by (auto simp: router_step_def router_ok_def data_ok_def tty_ok_def list_all_iff)
  moreover have "\<forall>a. a \<notin> span 0xc00b8000 4000 \<union> span 0xb8000 4000 \<union> span back0 4000 \<union> span back1 4000 \<longrightarrow> m' a = m0 a"
    using run(2) r(2) by (auto simp: router_step_def drawing_area_def)
  ultimately show ?thesis using run(1) by blast
qed

text \<open>A shifted letter, a switch to the second terminal and a clear-screen sequence written to it.\<close>

theorem terminals_are_safe_witness:
  "\<exists>r' m'. ofold tty_do [Key (Press KeyShift), Key (Press KeyA), Key (Press KeyAlt), Key (Press KeyNum1),
       WriteTTY 1 [0x1b, 0x5b, 0x4a], Draw] (tty_router_new 0x100000 0x200000 (\<lambda>a. 0)) = Done (r', m') \<and> m' 0x300000 = 0"
proof -
  obtain r m0 where rm: "tty_router_new 0x100000 0x200000 (\<lambda>a. 0) = (r, m0)"
    by (cases "tty_router_new 0x100000 0x200000 (\<lambda>a. 0)")
  have ne: "(0x300000 :: usize) \<notin> span b 4000" if "unat b + 4000 \<le> 0x300000 \<or> 0xc0000000 \<le> unat b \<and> unat b < 0xd0000000" for b
  proof
    assume "(0x300000 :: usize) \<in> span b 4000"
    then obtain i where i: "i < 4000" "0x300000 = b + of_nat i" by (auto simp: span_def)
    then have "unat (b + of_nat i) = unat b + i" using that by (subst unat_add32) (auto simp: unat_of_nat32)
    moreover have "unat (b + of_nat i) = 0x300000" using i(2) by (simp flip: i(2))
    ultimately show False using that i(1) by auto
  qed
  have "list_all tty_op_ok [Key (Press KeyShift), Key (Press KeyA), Key (Press KeyAlt), Key (Press KeyNum1),
       WriteTTY 1 [0x1b, 0x5b, 0x4a], Draw]" by simp
  from terminals_are_safe [OF rm this] obtain r' m' where
    m': "ofold tty_do [Key (Press KeyShift), Key (Press KeyA), Key (Press KeyAlt), Key (Press KeyNum1),
       WriteTTY 1 [0x1b, 0x5b, 0x4a], Draw] (r, m0) = Done (r', m')"
    "\<forall>a. a \<notin> span 0xc00b8000 4000 \<union> span 0xb8000 4000 \<union> span 0x100000 4000 \<union> span 0x200000 4000 \<longrightarrow> m' a = m0 a" by blast
  have "m' 0x300000 = m0 0x300000" using m'(2) ne by simp
  moreover have "fold (\<lambda>i m. m(p + of_nat i := 0)) xs (\<lambda>a. 0) = (\<lambda>a. 0 :: u8)" for xs and p :: usize
    by (induction xs) (simp_all add: fun_upd_idem)
  then have "m0 = (\<lambda>a. 0)" using rm by (auto simp: tty_router_new_def tty_new_def)
  ultimately show ?thesis using m'(1) rm by auto
qed

end
