(* ===== verification/PageFault.thy ===== *)
theory PageFault
  imports ForkMemory Processes FileSystems
begin

text \<open>
  The page fault handler (\<^verbatim>\<open>interrupts/exceptions.rs\<close>), which ties the process, its memory regions,
  the frame allocator and the page directory together: a fault on a page that is not present in a
  region of the process is answered by mapping a frame there.  The handler's \<^verbatim>\<open>loop {}\<close> is
  \<open>Hang\<close>; what it prints is left out.  Reading a mapped file goes through the mounted file
  systems, which are an argument; their state is the kernel and a rest \<open>'w\<close>.
\<close>

section \<open>Bytes of the current address space\<close>

definition vread8 :: "machine \<Rightarrow> usize \<Rightarrow> u8 outcome" where
  "vread8 s v = (case translate s (cr3 s) v of None \<Rightarrow> Panic | Some a \<Rightarrow> Done (ram s a))"

definition vwrite8 :: "usize \<Rightarrow> u8 \<Rightarrow> machine \<Rightarrow> machine outcome" where
  "vwrite8 v x s = (case translate s (cr3 s) v of None \<Rightarrow> Panic | Some a \<Rightarrow> Done (s\<lparr>ram := (ram s)(a := x)\<rparr>))"

fun vread_bytes :: "machine \<Rightarrow> usize \<Rightarrow> nat \<Rightarrow> u8 list outcome" where
  "vread_bytes s v 0 = Done []"
| "vread_bytes s v (Suc n) = obind (vread8 s v) (\<lambda>x. obind (vread_bytes s (v + 1) n) (\<lambda>xs. Done (x # xs)))"

fun vwrite_bytes :: "usize \<Rightarrow> u8 list \<Rightarrow> machine \<Rightarrow> machine outcome" where
  "vwrite_bytes v [] s = Done s"
| "vwrite_bytes v (x # xs) s = obind (vwrite8 v x s) (vwrite_bytes (v + 1) xs)"

section \<open>The handler\<close>

text \<open>A page of a region backed by a given range of frames.\<close>

definition map_backed :: "region \<Rightarrow> frame_range \<Rightarrow> usize \<Rightarrow> permission_flags \<Rightarrow> machine \<Rightarrow> machine outcome" where
  "map_backed rng frs address flags s =
     (let off = (address AND 0xfffff000) - va_usize (rg_start rng);
          paddr = pa_usize (get_starting_address frs)
      in current_map (frame_new (paddr + off)) (VirtualAddress (address AND 0xfffff000)) flags s)"

definition user_page_flags :: permission_flags where
  "user_page_flags = PermissionFlags (USER_ACCESS OR WRITE_ACCESS)"

text \<open>How many bytes of a mapped file are read into one page.\<close>

definition mapped_read_len :: "usize \<Rightarrow> usize \<Rightarrow> usize" where
  "mapped_read_len off len = (if len < off then 0 else if off + len < 0x1000 then len else 0x1000)"

definition read_mapped :: "(kernel \<times> 'w) file_system_map \<Rightarrow> region \<Rightarrow> usize \<Rightarrow> kernel \<times> 'w \<Rightarrow> (kernel \<times> 'w) outcome" where
  "read_mapped vfs rng page_start kw =
     (case backed_by rng of
        MemMapped drive handle len \<Rightarrow>
          let off = page_start - va_usize (rg_start rng);
              read_len = mapped_read_len off len
          in obind (of_option (get_fs drive vfs)) (\<lambda>fs.
             obind (vread_bytes (mach (fst kw)) page_start (unat read_len)) (\<lambda>buffer.
             obind (fs_read fs handle buffer kw) (\<lambda>(r, buffer, k, w).
             obind (vwrite_bytes page_start buffer (mach k)) (\<lambda>s.
             obind (unwrap r) (\<lambda>_. Done (k\<lparr>mach := s\<rparr>, w))))))
      | _ \<Rightarrow> Done kw)"

text \<open>The two halves of the handler.\<close>

definition kernel_fault :: "region option \<Rightarrow> u32 \<Rightarrow> usize \<Rightarrow> machine \<Rightarrow> machine outcome" where
  "kernel_fault found error address s =
     (if error AND 4 = 4 then Hang
      else if error AND 1 = 0 then
        (case found of
           Some rng \<Rightarrow>
             (case backed_by rng of
                Anonymous _ \<Rightarrow> obind (take_frame s) (\<lambda>(kernel_frame, s).
                  current_map kernel_frame (VirtualAddress (address AND 0xfffff000)) (PermissionFlags 0) s)
              | DMA frs \<Rightarrow> map_backed rng frs address (PermissionFlags 0) s
              | _ \<Rightarrow> Done s)
         | None \<Rightarrow> Done s)
      else Hang)"

definition user_fault :: "(kernel \<times> 'w) file_system_map \<Rightarrow> region option \<Rightarrow> u32 \<Rightarrow> usize \<Rightarrow> kernel \<times> 'w \<Rightarrow> (kernel \<times> 'w) outcome" where
  "user_fault vfs found error address kw =
     (case found of
        None \<Rightarrow> Hang
      | Some rng \<Rightarrow>
          if error AND 1 = 0 then
            (case backed_by rng of
               Direct frs \<Rightarrow> obind (map_backed rng frs address user_page_flags (mach (fst kw))) (\<lambda>s.
                 Done ((fst kw)\<lparr>mach := s\<rparr>, snd kw))
             | _ \<Rightarrow>
                 obind (take_frame (mach (fst kw))) (\<lambda>(new_frame, s).
                 obind (current_map new_frame (VirtualAddress (address AND 0xfffff000)) user_page_flags s) (\<lambda>s.
                 obind (if rg_permissions rng = CopyOnWrite
                        then obind (phys_reference_frame_at_address (get_address new_frame) (frames s)) (\<lambda>(_, p).
                             Done (s\<lparr>frames := p\<rparr>))
                        else Done s) (\<lambda>s.
                 read_mapped vfs rng (address AND 0xfffff000) ((fst kw)\<lparr>mach := s\<rparr>, snd kw)))))
          else Hang)"

definition page_fault :: "(kernel \<times> 'w) file_system_map \<Rightarrow> u32 \<Rightarrow> usize \<Rightarrow> kernel \<times> 'w \<Rightarrow> (kernel \<times> 'w) outcome" where
  "page_fault vfs error address kw =
     obind (current_process (fst kw)) (\<lambda>cur.
     obind (of_option cur) (\<lambda>current_proc.
       let found = get_range_containing_address (pm_regions (ps_memory current_proc)) (kregions (fst kw)) (VirtualAddress address)
       in if address \<ge> 0xc0000000
          then obind (kernel_fault found error address (mach (fst kw))) (\<lambda>s. Done ((fst kw)\<lparr>mach := s\<rparr>, snd kw))
          else user_fault vfs found error address kw))"

section \<open>A fault maps a fresh frame\<close>

lemma page_of_base: "page_of (VirtualAddress (a AND 0xfffff000)) = page_of (VirtualAddress a)"
  by (simp add: page_of_def unat_page_base minus_mod_eq_mult_div)

lemma same_page_base: "page_of (VirtualAddress v) = page_of (VirtualAddress a) \<longleftrightarrow> v AND 0xfffff000 = a AND 0xfffff000"
  by (auto simp: page_of_def word_unat_eq_iff unat_page_base minus_mod_eq_mult_div)

text \<open>Taking a frame and mapping it at an address.\<close>

lemma map_fresh:
  assumes "pd_ok D s r" "page_of (VirtualAddress address) div 1024 \<in> D" "2 \<le> free_count (frames s)"
  shows "\<exists>f s1 s'. take_frame s = Done (Frame (of_nat (f * 4096)), s1) \<and> current_map (Frame (of_nat (f * 4096))) (VirtualAddress (address AND 0xfffff000)) flags s1 = Done s'
    \<and> pd_ok D s' r \<and> f < 1048576 \<and> f < phys_total (frames s) \<and> REF_COUNT (frames s') = REF_COUNT (frames s)
    \<and> \<not> phys_used (frames s) f \<and> phys_used (frames s') f
    \<and> (\<forall>v < 0xffc00000. translate s' (cr3 s') v =
         (if v AND 0xfffff000 = address AND 0xfffff000 then Some (of_nat (f * 4096) + (v AND 0xfff)) else translate s (cr3 s) v))
    \<and> (pf_u8 flags AND WRITE_ACCESS \<noteq> 0 \<longrightarrow> is_write_access_granted (raw s' r (page_of (VirtualAddress address))))
    \<and> (pf_u8 flags AND USER_ACCESS \<noteq> 0 \<longrightarrow> is_user_access_granted (raw s' r (page_of (VirtualAddress address))))"
proof -
  have wf: "phys_wf (frames s)" using assms(1) by (simp add: pd_ok_def current_ok_def)
  from take_frame_spec [OF wf] assms(3) obtain f p where t: "take_frame s = Done (Frame (of_nat (f * 4096)), s\<lparr>frames := p\<rparr>)"
    "phys_wf p" "f < 1048576" "\<not> phys_used (frames s) f" "\<forall>j. phys_used p j = (phys_used (frames s) j \<or> j = f)"
    "free_count (frames s) \<le> free_count p + 1" "f < phys_total (frames s)" "REF_COUNT p = REF_COUNT (frames s)" by auto
  let ?s = "s\<lparr>frames := p\<rparr>" and ?v = "VirtualAddress (address AND 0xfffff000)"
  have ok: "pd_ok D ?s r" using pd_ok_frames(1) [OF assms(1) t(2)] t(5) by simp
  have "(of_nat (f * 4096) :: usize) AND 0xfffff000 = of_nat (f * 4096)"
    using t(3) by (simp add: word_unat_eq_iff unat_page_base unat_of_nat32 del: of_nat_mult)
  moreover from current_map_translates [OF ok, of ?v "of_nat (f * 4096)" flags] assms(2,3) t(6) obtain s' where
    s': "current_map (Frame (of_nat (f * 4096))) ?v flags ?s = Done s'" "pd_ok D s' r" "phys_used (frames s') f" "REF_COUNT (frames s') = REF_COUNT p"
    "\<forall>v < 0xffc00000. translate s' (cr3 s') v =
       (if page_of (VirtualAddress v) = page_of ?v then Some ((of_nat (f * 4096) AND 0xfffff000) + (v AND 0xfff))
        else translate ?s (cr3 ?s) v)"
    "is_write_access_granted (raw s' r (page_of ?v)) \<longleftrightarrow> pf_u8 flags AND WRITE_ACCESS \<noteq> 0 \<or> is_write_access_granted (raw ?s r (page_of ?v))"
    "is_user_access_granted (raw s' r (page_of ?v)) \<longleftrightarrow> pf_u8 flags AND USER_ACCESS \<noteq> 0 \<or> is_user_access_granted (raw ?s r (page_of ?v))"
    using t(5) by (auto simp: page_of_base)
  moreover have "translate ?s (cr3 ?s) v = translate s (cr3 s) v" for v by (simp add: translate_def Let_def)
  ultimately show ?thesis using t
    by (intro exI [of _ f] exI [of _ ?s] exI [of _ s']) (simp add: page_of_base same_page_base)
qed

text \<open>The counter of a frame, counted up when the frame is mapped into a copy-on-write region.\<close>

definition counted :: "nat \<Rightarrow> frame_refcount \<Rightarrow> frame_refcount" where
  "counted f rc = rc\<lparr>references := (references rc)[f := references rc ! f + 1]\<rparr>"

lemma reference_fresh:
  assumes "REF_COUNT p = Some rc" "f < length (references rc)" "f < 1048576"
  shows "phys_reference_frame_at_address (PhysicalAddress (of_nat (f * 4096))) p
    = Done (references rc ! f + 1, p\<lparr>REF_COUNT := Some (counted f rc)\<rparr>)"
proof -
  have "unat (of_nat (f * 4096) div 0x1000 :: usize) = f" unfolding page_number using assms(3) by (subst unat_of_nat32) simp_all
  then show ?thesis using assms(1,2)
    by (simp add: phys_reference_frame_at_address_def with_refcount_def reference_frame_at_address_def
        reference_frame_at_index_def counted_def Let_def del: of_nat_mult)
qed

lemma recounted:
  fixes c :: "frame_refcount option"
  assumes "pd_ok D s r"
  defines "s' \<equiv> s\<lparr>frames := (frames s)\<lparr>REF_COUNT := c\<rparr>\<rparr>"
  shows "pd_ok D s' r" "raw s' r q = raw s r q" "translate s' (cr3 s') v = translate s (cr3 s) v"
    "phys_used (frames s') f = phys_used (frames s) f"
proof -
  have w: "phys_wf ((frames s)\<lparr>REF_COUNT := c\<rparr>)" "\<And>k. phys_used (frames s) k \<Longrightarrow> phys_used ((frames s)\<lparr>REF_COUNT := c\<rparr>) k"
    using assms(1) by (simp_all add: pd_ok_def current_ok_def phys_wf_def phys_used_def)
  show "pd_ok D s' r" unfolding s'_def by (rule pd_ok_frames(1) [OF assms(1) w])
  show "raw s' r q = raw s r q" by (simp add: s'_def raw_def ent_def)
  show "translate s' (cr3 s') v = translate s (cr3 s) v" by (simp add: s'_def translate_def Let_def)
  show "phys_used (frames s') f = phys_used (frames s) f" by (simp add: s'_def phys_used_def)
qed

text \<open>C4: a page fault is resolved.  When the current process touches a page that is not present in one of its
  regions of anonymous memory, from user mode below 3 GiB or in the kernel, two frames are free and every frame has a
  reference counter, the handler returns with that page, and no other, mapped to a frame nobody used before, which is now taken.  For a user page of a
  copy-on-write region the reference count of the frame goes up by one; otherwise no count changes.  A user page can be written by the user whatever the permissions of the region are, also when they
  are read-only.  The directory stays well formed, and nothing but memory management changes, so the access can be
  repeated; in particular the region is not extended.\<close>

theorem page_fault_maps_fresh_frame:
  assumes "pd_ok D (mach k) r" "page_of (VirtualAddress address) div 1024 \<in> D" "2 \<le> free_count (frames (mach k))"
    and "PROCESS_MAP k = Some m" "get_current_process m = Some p"
    and "get_range_containing_address (pm_regions (ps_memory p)) (kregions k) (VirtualAddress address) = Some rng"
    and "backed_by rng = Anonymous d"
    and "REF_COUNT (frames (mach k)) = Some rc" "phys_total (frames (mach k)) \<le> length (references rc)"
    and "error AND 1 = 0" "address \<ge> 0xc0000000 \<longrightarrow> error AND 4 = 0"
  shows "\<exists>f s'. page_fault vfs error address (k, w) = Done (k\<lparr>mach := s'\<rparr>, w)
    \<and> pd_ok D s' r \<and> f < phys_total (frames (mach k)) \<and> \<not> phys_used (frames (mach k)) f \<and> phys_used (frames s') f
    \<and> (\<forall>v < 0xffc00000. translate s' (cr3 s') v =
         (if v AND 0xfffff000 = address AND 0xfffff000 then Some (of_nat (f * 4096) + (v AND 0xfff))
          else translate (mach k) (cr3 (mach k)) v))
    \<and> (address < 0xc0000000 \<longrightarrow> is_write_access_granted (raw s' r (page_of (VirtualAddress address)))
         \<and> is_user_access_granted (raw s' r (page_of (VirtualAddress address))))
    \<and> REF_COUNT (frames s') = Some (if address < 0xc0000000 \<and> rg_permissions rng = CopyOnWrite
         then rc\<lparr>references := (references rc)[f := references rc ! f + 1]\<rparr> else rc)"
proof -
  have cur: "current_process k = Done (Some p)" using assms(4,5) by (simp add: current_process_def all_processes_def)
  show ?thesis
  proof (cases "address \<ge> 0xc0000000")
    case True
    from map_fresh [OF assms(1-3), of "PermissionFlags 0"] obtain f s1 s' where
      "take_frame (mach k) = Done (Frame (of_nat (f * 4096)), s1)"
      "current_map (Frame (of_nat (f * 4096))) (VirtualAddress (address AND 0xfffff000)) (PermissionFlags 0) s1 = Done s'"
      "pd_ok D s' r" "f < phys_total (frames (mach k))" "REF_COUNT (frames s') = REF_COUNT (frames (mach k))"
      "\<not> phys_used (frames (mach k)) f" "phys_used (frames s') f"
      "\<forall>v < 0xffc00000. translate s' (cr3 s') v = (if v AND 0xfffff000 = address AND 0xfffff000
         then Some (of_nat (f * 4096) + (v AND 0xfff)) else translate (mach k) (cr3 (mach k)) v)" by blast
    then show ?thesis using True assms(6-11)
      by (intro exI [of _ f] exI [of _ s']) (simp add: page_fault_def cur kernel_fault_def not_less [symmetric])
  next
    case False
    from map_fresh [OF assms(1-3), of user_page_flags] obtain f s1 s' where
      m: "take_frame (mach k) = Done (Frame (of_nat (f * 4096)), s1)"
      "current_map (Frame (of_nat (f * 4096))) (VirtualAddress (address AND 0xfffff000)) user_page_flags s1 = Done s'"
      and f: "f < 1048576" "f < phys_total (frames (mach k))" "REF_COUNT (frames s') = Some rc"
      and r: "pd_ok D s' r" "\<not> phys_used (frames (mach k)) f" "phys_used (frames s') f"
      "\<forall>v < 0xffc00000. translate s' (cr3 s') v = (if v AND 0xfffff000 = address AND 0xfffff000
         then Some (of_nat (f * 4096) + (v AND 0xfff)) else translate (mach k) (cr3 (mach k)) v)"
      "is_write_access_granted (raw s' r (page_of (VirtualAddress address)))"
      "is_user_access_granted (raw s' r (page_of (VirtualAddress address)))"
      unfolding assms(8) by (auto simp: user_page_flags_def USER_ACCESS_def WRITE_ACCESS_def)
    define rc' where "rc' = (if rg_permissions rng = CopyOnWrite then counted f rc else rc)"
    define s2 where "s2 = s'\<lparr>frames := (frames s')\<lparr>REF_COUNT := Some rc'\<rparr>\<rparr>"
    note keep = recounted [OF r(1), where c = "Some rc'", folded s2_def]
    have same: "s'\<lparr>frames := (frames s')\<lparr>REF_COUNT := Some rc\<rparr>\<rparr> = s'" using f(3) by simp
    have ref: "phys_reference_frame_at_address (PhysicalAddress (of_nat (f * 4096))) (frames s')
        = Done (references rc ! f + 1, (frames s')\<lparr>REF_COUNT := Some (counted f rc)\<rparr>)"
      using f assms(9) by (intro reference_fresh) auto
    have "page_fault vfs error address (k, w) = Done (k\<lparr>mach := s2\<rparr>, w)"
      using False assms(6,7,10) m ref same
      by (simp add: page_fault_def cur user_fault_def read_mapped_def s2_def rc'_def)
    moreover have "REF_COUNT (frames s2) = Some rc'" by (simp add: s2_def)
    ultimately show ?thesis using False f(2) r keep unfolding rc'_def counted_def
      by (intro exI [of _ f] exI [of _ s2]) simp
  qed
qed

definition sample_faulting :: kernel where
  "sample_faulting =
     (let (regs, kregs) = regions_initial (VirtualAddress 0xc0400000) kernel_regions_initial;
          p = \<lparr>ps_pid = 0, ps_parent = 0, ps_memory = \<lparr>pm_regions = regs, pm_heap_break = VirtualAddress 0\<rparr>,
               ps_page_directory = ptr_new (PhysicalAddress 0x1000), ps_kernel_esp = 0xffbfe000,
               ps_open_files = fhm_new, ps_open_directories = fhm_new, ps_run_state = Running, ps_subsystem = Native, ps_exit_code = 0\<rparr>
      in \<lparr>PROCESS_MAP = Some \<lparr>pmap_current = 0, pmap_next_pid = 1, pmap_processes = [(0, p)]\<rparr>, mach = booted, kregions = kregs,
          tss_esp0 = 0, cpu_esp = 0\<rparr>)"

text \<open>A process just after boot: the first push on its stack, and the first access to its program, which is in a
  copy-on-write region.\<close>

theorem page_fault_maps_fresh_frame_witness:
  "(\<exists>f s'. page_fault [] 6 0xbffffffc (sample_faulting, ()) = Done (sample_faulting\<lparr>mach := s'\<rparr>, ())
     \<and> translate s' (cr3 s') 0xbffffffc = Some (of_nat (f * 4096) + 0xffc) \<and> \<not> phys_used (frames booted) f)
   \<and> (\<exists>f s'. page_fault [] 4 0x1004 (sample_faulting, ()) = Done (sample_faulting\<lparr>mach := s'\<rparr>, ())
     \<and> translate s' (cr3 s') 0x1004 = Some (of_nat (f * 4096) + 4) \<and> \<not> phys_used (frames booted) f
     \<and> REF_COUNT (frames s') = Some \<lparr>references = (replicate 8192 0)[f := 1]\<rparr>)"
proof -
  obtain r where r: "pd_ok {..< 1023} booted r" "8190 \<le> free_count (frames booted)"
    "REF_COUNT (frames booted) = REF_COUNT sample_frames" "phys_total (frames booted) = 8192" using booted_ok by blast
  define rc where "rc = \<lparr>references = replicate 8192 (0 :: u8)\<rparr>"
  have rc: "REF_COUNT (frames booted) = Some rc" "phys_total (frames booted) \<le> length (references rc)" "2 \<le> free_count (frames booted)"
    using r(2-4) by (simp_all add: sample_frames_def rc_def)
  define k where "k = sample_faulting"
  define m where "m = the (PROCESS_MAP k)"
  define p where "p = the (get_current_process m)"
  note defs = p_def m_def k_def sample_faulting_def regions_initial_def Let_def get_current_process_def get_process_def bt_get_def
  note regs = get_range_containing_address_def region_contains_def region_new_def region_empty_def
        kernel_regions_initial_def STACK_START_def STACK_SIZE_def INITIAL_HEAP_SIZE_def
  have k: "mach k = booted" "PROCESS_MAP k = Some m" "get_current_process m = Some p" by (simp_all add: defs)
  have stack: "get_range_containing_address (pm_regions (ps_memory p)) (kregions k) (VirtualAddress 0xbffffffc)
      = Some (region_new (VirtualAddress 0xbfffe000) 0x2000 (Anonymous Before) ReadWrite)" by (simp add: defs regs)
  have code: "get_range_containing_address (pm_regions (ps_memory p)) (kregions k) (VirtualAddress 0x1004)
      = Some (region_new (VirtualAddress 0) 0x400000 (Anonymous NoExpansion) CopyOnWrite)" by (simp add: defs regs)
  have pg: "page_of (VirtualAddress 0xbffffffc) div 1024 \<in> {..< 1023}" "page_of (VirtualAddress 0x1004) div 1024 \<in> {..< 1023}"
    by (simp_all add: page_of_def)
  note fault = page_fault_maps_fresh_frame [of "{..< 1023}" k r, unfolded k(1), OF r(1)]
  from fault [OF pg(1) rc(3) k(2,3) stack _ rc(1,2), of Before 6 "[]" "()"]
  obtain f s' where f: "page_fault [] 6 0xbffffffc (k, ()) = Done (k\<lparr>mach := s'\<rparr>, ())" "\<not> phys_used (frames booted) f"
    "\<forall>v < 0xffc00000. translate s' (cr3 s') v = (if v AND 0xfffff000 = 0xbffffffc AND 0xfffff000
       then Some (of_nat (f * 4096) + (v AND 0xfff)) else translate booted (cr3 booted) v)"
    by (auto simp: region_new_def)
  from fault [OF pg(2) rc(3) k(2,3) code _ rc(1,2), of NoExpansion 4 "[]" "()"]
  obtain g s2 where g: "page_fault [] 4 0x1004 (k, ()) = Done (k\<lparr>mach := s2\<rparr>, ())" "\<not> phys_used (frames booted) g"
    "g < phys_total (frames booted)"
    "\<forall>v < 0xffc00000. translate s2 (cr3 s2) v = (if v AND 0xfffff000 = 0x1004 AND 0xfffff000
       then Some (of_nat (g * 4096) + (v AND 0xfff)) else translate booted (cr3 booted) v)"
    "REF_COUNT (frames s2) = Some (rc\<lparr>references := (references rc)[g := references rc ! g + 1]\<rparr>)"
    by (auto simp: region_new_def)
  from spec [OF f(3), of "0xbffffffc"] spec [OF g(4), of "0x1004"] f(1,2) g(1-3,5) r(4) show ?thesis
    by (auto simp: k_def rc_def)
qed

end
