(* ===== verification/InitFs.thy ===== *)
theory InitFs
  imports Devices BTree
begin

text \<open>
  The initial file system (\<^verbatim>\<open>filesystems/init/mod.rs\<close>): read-only files in a cpio archive that lies
  in memory.  The archive is read byte by byte through its address; the model takes the memory as
  the kernel sees it there.  A path and a file name are lists of bytes in UTF-8.
\<close>

section \<open>Headers of the archive\<close>

definition load16 :: "memory \<Rightarrow> usize \<Rightarrow> u16" where
  "load16 m a = ucast (m a) OR push_bit 8 (ucast (m (a + 1)))"

definition mem_bytes :: "memory \<Rightarrow> usize \<Rightarrow> nat \<Rightarrow> u8 list" where
  "mem_bytes m a n = map (\<lambda>i. m (a + of_nat i)) [0 ..< n]"

definition TRAILER :: "u8 list" where
  "TRAILER = [0x54, 0x52, 0x41, 0x49, 0x4c, 0x45, 0x52, 0x21, 0x21, 0x21]"

text \<open>A header is known by its address; the fields lie at the offsets of the packed structure.\<close>

type_synonym cpio_header = usize

definition cpio_magic :: "memory \<Rightarrow> cpio_header \<Rightarrow> u16" where "cpio_magic m h = load16 m h"
definition cpio_name_size :: "memory \<Rightarrow> cpio_header \<Rightarrow> u16" where "cpio_name_size m h = load16 m (h + 20)"
definition cpio_size_high :: "memory \<Rightarrow> cpio_header \<Rightarrow> u16" where "cpio_size_high m h = load16 m (h + 22)"
definition cpio_size_low :: "memory \<Rightarrow> cpio_header \<Rightarrow> u16" where "cpio_size_low m h = load16 m (h + 24)"

definition cpio_is_valid :: "memory \<Rightarrow> cpio_header \<Rightarrow> bool" where
  "cpio_is_valid m h \<longleftrightarrow> cpio_magic m h = 0x71c7"

definition get_filename_ptr :: "cpio_header \<Rightarrow> usize" where
  "get_filename_ptr h = h + 26"

definition get_file_size :: "memory \<Rightarrow> cpio_header \<Rightarrow> usize" where
  "get_file_size m h = push_bit 16 (ucast (cpio_size_high m h)) OR ucast (cpio_size_low m h)"

definition get_content_ptr :: "memory \<Rightarrow> cpio_header \<Rightarrow> usize" where
  "get_content_ptr m h =
     (let file_start = get_filename_ptr h + ucast (cpio_name_size m h)
      in if (file_start - h) AND 1 \<noteq> 0 then file_start + 1 else file_start)"

definition get_filename :: "memory \<Rightarrow> cpio_header \<Rightarrow> u8 list" where
  "get_filename m h = mem_bytes m (get_filename_ptr h) (unat (ucast (cpio_name_size m h) - 1 :: usize))"

text \<open>\<^verbatim>\<open>core::str::from_utf8\<close> accepts exactly the well-formed UTF-8 sequences.\<close>

definition cont :: "u8 \<Rightarrow> bool" where "cont b \<longleftrightarrow> 0x80 \<le> b \<and> b \<le> 0xbf"

definition utf8_lead3 :: "u8 \<Rightarrow> u8 \<Rightarrow> bool" where
  "utf8_lead3 b0 b1 \<longleftrightarrow>
     (if b0 = 0xe0 then 0xa0 \<le> b1 \<and> b1 \<le> 0xbf
      else if b0 = 0xed then 0x80 \<le> b1 \<and> b1 \<le> 0x9f
      else 0xe1 \<le> b0 \<and> b0 \<le> 0xef \<and> cont b1)"

definition utf8_lead4 :: "u8 \<Rightarrow> u8 \<Rightarrow> bool" where
  "utf8_lead4 b0 b1 \<longleftrightarrow>
     (if b0 = 0xf0 then 0x90 \<le> b1 \<and> b1 \<le> 0xbf
      else if b0 = 0xf4 then 0x80 \<le> b1 \<and> b1 \<le> 0x8f
      else 0xf1 \<le> b0 \<and> b0 \<le> 0xf3 \<and> cont b1)"

fun utf8_valid :: "u8 list \<Rightarrow> bool" where
  "utf8_valid [] = True"
| "utf8_valid [b0] = (b0 < 0x80)"
| "utf8_valid [b0, b1] =
     (if b0 < 0x80 then utf8_valid [b1] else 0xc2 \<le> b0 \<and> b0 \<le> 0xdf \<and> cont b1)"
| "utf8_valid [b0, b1, b2] =
     (if b0 < 0x80 then utf8_valid [b1, b2]
      else if 0xc2 \<le> b0 \<and> b0 \<le> 0xdf then cont b1 \<and> utf8_valid [b2]
      else utf8_lead3 b0 b1 \<and> cont b2)"
| "utf8_valid (b0 # b1 # b2 # b3 # bs) =
     (if b0 < 0x80 then utf8_valid (b1 # b2 # b3 # bs)
      else if 0xc2 \<le> b0 \<and> b0 \<le> 0xdf then cont b1 \<and> utf8_valid (b2 # b3 # bs)
      else if b0 < 0xf0 then utf8_lead3 b0 b1 \<and> cont b2 \<and> utf8_valid (b3 # bs)
      else utf8_lead4 b0 b1 \<and> cont b2 \<and> cont b3 \<and> utf8_valid bs)"

definition get_filename_str :: "memory \<Rightarrow> cpio_header \<Rightarrow> u8 list outcome" where
  "get_filename_str m h = (let name = get_filename m h in if utf8_valid name then Done name else Panic)"

definition is_trailer :: "memory \<Rightarrow> cpio_header \<Rightarrow> bool" where
  "is_trailer m h \<longleftrightarrow> mem_bytes m (get_filename_ptr h) (length TRAILER) = TRAILER"

definition round_even :: "usize \<Rightarrow> usize" where
  "round_even n = (if n AND 1 \<noteq> 0 then n + 1 else n)"

definition cpio_length :: "memory \<Rightarrow> cpio_header \<Rightarrow> usize" where
  "cpio_length m h = 26 + round_even (ucast (cpio_name_size m h)) + round_even (get_file_size m h)"

definition cpio_next :: "memory \<Rightarrow> usize \<Rightarrow> cpio_header option \<times> usize" where
  "cpio_next m address = (if is_trailer m address then (None, address) else (Some address, address + cpio_length m address))"

section \<open>The file system\<close>

record open_file =
  of_cursor :: usize
  of_length :: usize
  of_start :: usize

record init_file_system =
  init_handles :: handle_allocator
  cpio_archive_address :: virtual_address
  init_open_files :: "(local_handle, open_file) btree"

definition init_file_system_new :: "virtual_address \<Rightarrow> init_file_system" where
  "init_file_system_new addr = \<lparr>init_handles = handle_allocator_new, cpio_archive_address = addr, init_open_files = []\<rparr>"

text \<open>The loop over the entries; an archive without a trailer may never end.\<close>

partial_function (option) cpio_find :: "memory \<Rightarrow> u8 list \<Rightarrow> usize \<Rightarrow> cpio_header option outcome option" where
  "cpio_find m path address =
     (case cpio_next m address of
        (None, _) \<Rightarrow> Some (Done None)
      | (Some entry, address') \<Rightarrow>
          (case get_filename_str m entry of
             Done name \<Rightarrow> if name = path then Some (Done (Some entry)) else cpio_find m path address'
           | Panic \<Rightarrow> Some Panic
           | Hang \<Rightarrow> Some Hang))"

definition cpio_search :: "memory \<Rightarrow> u8 list \<Rightarrow> usize \<Rightarrow> cpio_header option outcome" where
  "cpio_search m path address = (case cpio_find m path address of Some r \<Rightarrow> r | None \<Rightarrow> Hang)"

definition init_open :: "string \<Rightarrow> init_file_system \<times> memory \<Rightarrow> ((unit + local_handle) \<times> init_file_system \<times> memory) outcome" where
  "init_open path fm =
     (case fm of (f, m) \<Rightarrow>
        obind (cpio_search m (str_bytes (strip_backslash path)) (va_usize (cpio_archive_address f))) (\<lambda>found.
          case found of
            None \<Rightarrow> Done (Inl (), f, m)
          | Some entry \<Rightarrow>
              let (h, a) = ha_get_next (init_handles f);
                  handle = LocalHandle h;
                  open_file = \<lparr>of_cursor = 0, of_length = get_file_size m entry, of_start = get_content_ptr m entry\<rparr>
              in Done (Inr handle, f\<lparr>init_handles := a, init_open_files := bt_insert handle open_file (init_open_files f)\<rparr>, m)))"

definition init_read :: "local_handle \<Rightarrow> u8 list \<Rightarrow> init_file_system \<times> memory
    \<Rightarrow> ((unit + usize) \<times> u8 list \<times> init_file_system \<times> memory) outcome" where
  "init_read handle buffer fm =
     (case fm of (f, m) \<Rightarrow>
        case bt_get (init_open_files f) handle of
          None \<Rightarrow> Done (Inl (), buffer, f, m)
        | Some fl \<Rightarrow>
            let bytes_left = of_length fl - of_cursor fl;
                to_read = (if bytes_left < of_nat (length buffer) then bytes_left else of_nat (length buffer));
                address = of_start fl + of_cursor fl
            in Done (Inr to_read,
                     fold (\<lambda>i b. b[i := m (address + of_nat i)]) [0 ..< unat to_read] buffer,
                     f\<lparr>init_open_files := bt_insert handle (fl\<lparr>of_cursor := of_cursor fl + to_read\<rparr>) (init_open_files f)\<rparr>, m))"

definition init_seek :: "local_handle \<Rightarrow> seek_method \<Rightarrow> init_file_system \<times> memory
    \<Rightarrow> ((unit + usize) \<times> init_file_system \<times> memory) outcome" where
  "init_seek handle off fm =
     (case fm of (f, m) \<Rightarrow>
        case bt_get (init_open_files f) handle of
          None \<Rightarrow> Done (Inl (), f, m)
        | Some fl \<Rightarrow>
            let new_cursor = from_current_position off (of_cursor fl)
            in Done (Inr new_cursor, f\<lparr>init_open_files := bt_insert handle (fl\<lparr>of_cursor := new_cursor\<rparr>) (init_open_files f)\<rparr>, m))"

definition init_file_system_ops :: "(init_file_system \<times> memory) file_system" where
  "init_file_system_ops =
     \<lparr>fs_open = init_open,
      fs_read = init_read,
      fs_write = (\<lambda>handle buffer fm. Done (Inr 0, fm)),
      fs_close = (\<lambda>handle fm. Done (Inl (), fm)),
      fs_dup = (\<lambda>handle fm. Done (Inl (), fm)),
      fs_seek = init_seek,
      fs_open_dir = (\<lambda>path fm. Done (Inl (), fm)),
      fs_read_dir = (\<lambda>handle index info fm. Done (Inl (), info, fm)),
      fs_ioctl = (\<lambda>handle command arg fm. Done (Inl (), fm))\<rparr>"

section \<open>Archives\<close>

text \<open>The format, written as an encoder: 20 bytes of other fields, the magic number first, then the sizes, the name
  and the contents, both padded.  The archive ends with a member of a fixed name, whose other fields are \<open>meta\<close>.\<close>

record member =
  mb_meta :: "u8 list"
  mb_name :: "u8 list"
  mb_content :: "u8 list"

definition le16 :: "u16 \<Rightarrow> u8 list" where
  "le16 w = [ucast w, ucast (drop_bit 8 w)]"

definition pad2 :: "u8 list \<Rightarrow> u8 list" where
  "pad2 xs = (if odd (length xs) then xs @ [0] else xs)"

definition cpio_member :: "member \<Rightarrow> u8 list" where
  "cpio_member e =
     (let size = of_nat (length (mb_content e)) :: u32
      in mb_meta e @ le16 (of_nat (length (mb_name e) + 1)) @ le16 (ucast (drop_bit 16 size)) @ le16 (ucast size)
         @ pad2 (mb_name e @ [0]) @ pad2 (mb_content e))"

definition cpio_archive :: "u8 list \<Rightarrow> member list \<Rightarrow> u8 list" where
  "cpio_archive meta es = concat (map cpio_member es) @ cpio_member \<lparr>mb_meta = meta, mb_name = TRAILER, mb_content = []\<rparr>"

definition member_ok :: "member \<Rightarrow> bool" where
  "member_ok e \<longleftrightarrow> length (mb_meta e) = 20 \<and> length (mb_name e) < 65535 \<and> length (mb_content e) < 2 ^ 32 - 1
     \<and> utf8_valid (mb_name e) \<and> take 10 (mb_name e) \<noteq> TRAILER"

definition holds :: "memory \<Rightarrow> usize \<Rightarrow> u8 list \<Rightarrow> bool" where
  "holds m a xs \<longleftrightarrow> mem_bytes m a (length xs) = xs"

lemma length_mem_bytes [simp]: "length (mem_bytes m a n) = n"
  by (simp add: mem_bytes_def)

lemma mem_bytes_add: "mem_bytes m a (n + k) = mem_bytes m a n @ mem_bytes m (a + of_nat n) k"
  by (induction k) (simp_all add: mem_bytes_def add.assoc)

lemma holds_append: "holds m a (xs @ ys) \<longleftrightarrow> holds m a xs \<and> holds m (a + of_nat (length xs)) ys"
  by (auto simp: holds_def mem_bytes_add)

lemma holds_nth: "holds m a xs \<Longrightarrow> i < length xs \<Longrightarrow> m (a + of_nat i) = xs ! i"
  unfolding holds_def by (metis (no_types, lifting) add_0 diff_zero length_upt mem_bytes_def nth_map nth_upt)

lemma holds_take: "holds m a xs \<Longrightarrow> n \<le> length xs \<Longrightarrow> mem_bytes m a n = take n xs"
  by (metis append_take_drop_id holds_append holds_def length_take min.absorb2)

lemma load16_le16:
  assumes "holds m a (le16 w)"
  shows "load16 m a = w"
proof -
  have "m a = ucast w" "m (a + 1) = ucast (drop_bit 8 w)"
    using holds_nth [OF assms, of 0] holds_nth [OF assms, of 1] by (simp_all add: le16_def)
  then have "load16 m a = ucast (ucast w :: u8) OR push_bit 8 (ucast (ucast (drop_bit 8 w) :: u8))"
    by (simp add: load16_def)
  also have "\<dots> = w"
  proof (rule bit_eqI)
    fix n
    show "bit ((ucast (ucast w :: u8) :: u16) OR push_bit 8 (ucast (ucast (drop_bit 8 w) :: u8))) n = bit w n"
      by (cases "n < 8") (auto simp: bit_simps dest: bit_imp_le_length)
  qed
  finally show ?thesis .
qed

lemma halves32: "push_bit 16 (ucast (ucast (drop_bit 16 w) :: u16)) OR ucast (ucast w :: u16) = (w :: u32)"
proof (rule bit_eqI)
  fix n
  show "bit (push_bit 16 (ucast (ucast (drop_bit 16 w) :: u16)) OR ucast (ucast w :: u16) :: u32) n = bit w n"
    by (cases "n < 16") (auto simp: bit_simps dest: bit_imp_le_length)
qed

lemma odd_word: "((of_nat n :: usize) AND 1 \<noteq> 0) = odd n"
  by (simp add: and_one_eq odd_iff_mod_2_eq_one flip: even_iff_mod_2_eq_zero)

lemma round_even_of_nat: "round_even (of_nat (length xs)) = of_nat (length (pad2 xs))"
  by (simp add: round_even_def odd_word pad2_def)

section \<open>Reading an archive back\<close>

lemma length_le16 [simp]: "length (le16 w) = 2"
  by (simp add: le16_def)

lemma length_TRAILER [simp]: "length TRAILER = 10"
  by (simp add: TRAILER_def)

lemma holds_pad2: "holds m a (pad2 xs) \<Longrightarrow> holds m a xs"
  by (simp add: pad2_def holds_append split: if_splits)

lemma member_layout:
  assumes "holds m a (cpio_member e)" "member_ok e"
  defines "n \<equiv> length (pad2 (mb_name e @ [0]))"
  shows "cpio_name_size m a = of_nat (length (mb_name e) + 1)"
    and "get_file_size m a = of_nat (length (mb_content e))"
    and "holds m (a + 26) (pad2 (mb_name e @ [0]))"
    and "holds m (a + 26 + of_nat n) (mb_content e)"
    and "length (cpio_member e) = 26 + n + length (pad2 (mb_content e))"
proof -
  define sz :: u32 where "sz = of_nat (length (mb_content e))"
  have meta: "length (mb_meta e) = 20" using assms(2) by (simp add: member_ok_def)
  have h: "holds m (a + 20) (le16 (of_nat (length (mb_name e) + 1)))" "holds m (a + 22) (le16 (ucast (drop_bit 16 sz)))"
    "holds m (a + 24) (le16 (ucast sz))" "holds m (a + 26) (pad2 (mb_name e @ [0]))" "holds m (a + 26 + of_nat n) (pad2 (mb_content e))"
    using assms(1) by (simp_all add: cpio_member_def Let_def holds_append meta sz_def [symmetric] n_def add.assoc)
  show "cpio_name_size m a = of_nat (length (mb_name e) + 1)"
    unfolding cpio_name_size_def by (rule load16_le16 [OF h(1)])
  have "get_file_size m a = push_bit 16 (ucast (ucast (drop_bit 16 sz) :: u16)) OR ucast (ucast sz :: u16)"
    by (simp add: get_file_size_def cpio_size_high_def cpio_size_low_def load16_le16 [OF h(2)] load16_le16 [OF h(3)])
  then show "get_file_size m a = of_nat (length (mb_content e))" by (simp only: halves32 sz_def)
  show "holds m (a + 26) (pad2 (mb_name e @ [0]))" by (rule h(4))
  show "holds m (a + 26 + of_nat n) (mb_content e)" by (rule holds_pad2 [OF h(5)])
  show "length (cpio_member e) = 26 + n + length (pad2 (mb_content e))" by (simp add: cpio_member_def Let_def meta n_def)
qed

lemma member_name:
  assumes "holds m (a + 26) (pad2 (name @ [0]))" "cpio_name_size m a = of_nat (length name + 1)" "length name < 65535"
  shows "get_filename m a = name" and "ucast (cpio_name_size m a) = (of_nat (length name + 1) :: usize)"
    and "get_content_ptr m a = a + 26 + of_nat (length (pad2 (name @ [0])))"
proof -
  have u: "ucast (cpio_name_size m a) = (of_nat (length name + 1) :: usize)"
    unfolding assms(2) using assms(3) by (simp add: word_unat_eq_iff unsigned_ucast_eq unat_of_nat take_bit_eq_mod del: of_nat_Suc of_nat_add)
  then show "ucast (cpio_name_size m a) = (of_nat (length name + 1) :: usize)" .
  have nm: "holds m (a + 26) (name @ [0])" by (rule holds_pad2 [OF assms(1)])
  then have "mem_bytes m (a + 26) (length name) = name" using holds_take [OF nm, of "length name"] by simp
  moreover have "unat (ucast (cpio_name_size m a) - 1 :: usize) = length name"
    unfolding u using assms(3) by (simp add: unat_of_nat32)
  ultimately show "get_filename m a = name" by (simp add: get_filename_def get_filename_ptr_def)
  have "(of_nat (26 + length name + 1) :: usize) AND 1 \<noteq> 0 \<longleftrightarrow> odd (length (name @ [0]))" unfolding odd_word by simp
  moreover have "get_filename_ptr a + ucast (cpio_name_size m a) - a = of_nat (26 + length name + 1)"
    by (simp add: get_filename_ptr_def u)
  ultimately show "get_content_ptr m a = a + 26 + of_nat (length (pad2 (name @ [0])))"
    by (simp add: get_content_ptr_def Let_def pad2_def u get_filename_ptr_def add.assoc)
qed

lemma member_not_trailer:
  assumes "holds m (a + 26) (pad2 (name @ [0]))" "take 10 name \<noteq> TRAILER"
  shows "\<not> is_trailer m a"
proof
  assume "is_trailer m a"
  then have t: "mem_bytes m (a + 26) 10 = TRAILER" by (simp add: is_trailer_def get_filename_ptr_def)
  have nm: "holds m (a + 26) (name @ [0])" by (rule holds_pad2 [OF assms(1)])
  show False
  proof (cases "10 \<le> length name")
    case True
    then have "mem_bytes m (a + 26) 10 = take 10 name" using holds_take [OF nm, of 10] by simp
    then show False using t assms(2) by simp
  next
    case False
    then have "TRAILER ! length name = m (a + 26 + of_nat (length name))"
      unfolding t [symmetric] by (simp add: mem_bytes_def)
    also have "\<dots> = 0" using holds_nth [OF nm, of "length name"] by simp
    finally have "(0 :: u8) \<in> set TRAILER" using False nth_mem [of "length name" TRAILER] by simp
    then show False by (simp add: TRAILER_def)
  qed
qed

lemma cpio_next_member:
  assumes "holds m a (cpio_member e)" "member_ok e"
  shows "cpio_next m a = (Some a, a + of_nat (length (cpio_member e)))" "get_filename_str m a = Done (mb_name e)"
    and "get_file_size m a = of_nat (length (mb_content e))" "holds m (get_content_ptr m a) (mb_content e)"
proof -
  note l = member_layout [OF assms]
  have ok: "length (mb_name e) < 65535" "utf8_valid (mb_name e)" "take 10 (mb_name e) \<noteq> TRAILER"
    using assms(2) by (simp_all add: member_ok_def)
  note nm = member_name [OF l(3,1) ok(1)]
  have "cpio_length m a = of_nat (length (cpio_member e))"
    using round_even_of_nat [of "mb_name e @ [0]"] round_even_of_nat [of "mb_content e"]
    by (simp add: cpio_length_def nm(2) l(2,5))
  then show "cpio_next m a = (Some a, a + of_nat (length (cpio_member e)))"
    using member_not_trailer [OF l(3) ok(3)] by (simp add: cpio_next_def)
  show "get_filename_str m a = Done (mb_name e)" by (simp add: get_filename_str_def nm(1) ok(2))
  show "get_file_size m a = of_nat (length (mb_content e))" by (rule l(2))
  show "holds m (get_content_ptr m a) (mb_content e)" unfolding nm(3) by (rule l(4))
qed

lemma cpio_find_archive:
  assumes "holds m a (cpio_archive meta es)" "list_all member_ok es" "length meta = 20"
  shows "case find (\<lambda>e. mb_name e = path) es of
      None \<Rightarrow> cpio_find m path a = Some (Done None)
    | Some e \<Rightarrow> \<exists>h. cpio_find m path a = Some (Done (Some h)) \<and> get_file_size m h = of_nat (length (mb_content e))
        \<and> holds m (get_content_ptr m h) (mb_content e)"
  using assms(1,2)
proof (induction es arbitrary: a)
  case Nil
  have "holds m (a + 26) (pad2 (TRAILER @ [0]))"
    using Nil.prems(1) assms(3) by (simp add: cpio_archive_def cpio_member_def Let_def holds_append add.assoc)
  then have "mem_bytes m (a + 26) 10 = TRAILER" using holds_take [of m "a + 26" "pad2 (TRAILER @ [0])" 10] by (simp add: pad2_def)
  then have "cpio_next m a = (None, a)" by (simp add: cpio_next_def is_trailer_def get_filename_ptr_def)
  then show ?case by (subst cpio_find.simps) simp
next
  case (Cons e es)
  have h: "holds m a (cpio_member e)" "holds m (a + of_nat (length (cpio_member e))) (cpio_archive meta es)"
    using Cons.prems(1) by (simp_all add: cpio_archive_def holds_append)
  have ok: "member_ok e" "list_all member_ok es" using Cons.prems(2) by simp_all
  note n = cpio_next_member [OF h(1) ok(1)]
  show ?case
  proof (cases "mb_name e = path")
    case True
    then have "cpio_find m path a = Some (Done (Some a))" by (subst cpio_find.simps) (simp add: n)
    then show ?thesis using True n by simp
  next
    case False
    then have "cpio_find m path a = cpio_find m path (a + of_nat (length (cpio_member e)))"
      by (subst cpio_find.simps) (simp add: n)
    then show ?thesis using Cons.IH [OF h(2) ok(2)] False by (simp split: option.splits)
  qed
qed

text \<open>Reading into one buffer after the other; the bytes delivered are collected.\<close>

fun init_reads :: "local_handle \<Rightarrow> u8 list list \<Rightarrow> init_file_system \<times> memory \<Rightarrow> u8 list outcome" where
  "init_reads h [] fm = Done []"
| "init_reads h (b # bs) fm =
     obind (init_read h b fm) (\<lambda>(r, b, f, m).
     obind (unwrap r) (\<lambda>n. obind (init_reads h bs (f, m)) (\<lambda>xs. Done (take (unat n) b @ xs))))"

lemma init_read_spec:
  assumes "bt_get (init_open_files f) h = Some \<lparr>of_cursor = of_nat c, of_length = of_nat (length xs), of_start = ptr\<rparr>"
    and "holds m ptr xs" "c \<le> length xs" "length xs < 2 ^ 32" "length b < 2 ^ 32"
  defines "n \<equiv> min (length b) (length xs - c)"
  shows "\<exists>b' f'. init_read h b (f, m) = Done (Inr (of_nat n), b', f', m) \<and> take n b' = take n (drop c xs)
    \<and> bt_get (init_open_files f') h = Some \<lparr>of_cursor = of_nat (c + n), of_length = of_nat (length xs), of_start = ptr\<rparr>"
proof -
  define to_read :: usize where
    "to_read = (if of_nat (length xs) - of_nat c < (of_nat (length b) :: usize) then of_nat (length xs) - of_nat c else of_nat (length b))"
  have left: "unat (of_nat (length xs) - of_nat c :: usize) = length xs - c"
    using assms(3,4) by (subst unat_sub_le) (simp_all add: unat_of_nat32)
  then have u: "unat to_read = n" using assms(5) by (auto simp: to_read_def n_def word_less_nat_alt unat_of_nat32)
  moreover have "to_read = of_nat (unat to_read)" by simp
  ultimately have tr: "to_read = of_nat n" by simp
  define b' where "b' = fold (\<lambda>i b. b[i := m (ptr + of_nat c + of_nat i)]) [0 ..< n] b"
  have "b' = map (\<lambda>i. m (ptr + of_nat c + of_nat i)) [0 ..< n] @ drop n b"
    unfolding b'_def by (rule fold_update_nth) (simp add: n_def)
  moreover have "map (\<lambda>i. m (ptr + of_nat c + of_nat i)) [0 ..< n] = take n (drop c xs)"
  proof (rule nth_equalityI)
    fix i assume "i < length (map (\<lambda>i. m (ptr + of_nat c + of_nat i)) [0 ..< n])"
    then have i: "i < n" by simp
    then have "m (ptr + of_nat (c + i)) = xs ! (c + i)" by (intro holds_nth [OF assms(2)]) (auto simp: n_def)
    then show "map (\<lambda>i. m (ptr + of_nat c + of_nat i)) [0 ..< n] ! i = take n (drop c xs) ! i"
      using i assms(3) by (simp add: add.assoc n_def)
  qed (simp add: n_def)
  ultimately have "take n b' = take n (drop c xs)" by (simp add: n_def)
  then show ?thesis
    using assms(1) by (simp add: init_read_def Let_def to_read_def [symmetric] u [unfolded tr] tr b'_def [symmetric])
qed

lemma init_reads_spec:
  assumes "bt_get (init_open_files f) h = Some \<lparr>of_cursor = of_nat c, of_length = of_nat (length xs), of_start = ptr\<rparr>"
    and "holds m ptr xs" "c \<le> length xs" "length xs < 2 ^ 32" "list_all (\<lambda>b. length b < 2 ^ 32) bs"
  shows "init_reads h bs (f, m) = Done (take (sum_list (map length bs)) (drop c xs))"
  using assms(1,3,5)
proof (induction bs arbitrary: f c)
  case (Cons b bs)
  define n where "n = min (length b) (length xs - c)"
  from init_read_spec [OF Cons.prems(1) assms(2) Cons.prems(2) assms(4), of b] Cons.prems(3) obtain b' f' where
    r: "init_read h b (f, m) = Done (Inr (of_nat n), b', f', m)" "take n b' = take n (drop c xs)"
    "bt_get (init_open_files f') h = Some \<lparr>of_cursor = of_nat (c + n), of_length = of_nat (length xs), of_start = ptr\<rparr>"
    unfolding n_def by auto
  have IH: "init_reads h bs (f', m) = Done (take (sum_list (map length bs)) (drop (c + n) xs))"
    using Cons.prems by (intro Cons.IH [OF r(3)]) (simp_all add: n_def)
  have "unat (of_nat n :: usize) = n" using Cons.prems(3) by (intro unat_of_nat32) (auto simp: n_def)
  moreover have "take n (drop c xs) @ take k (drop (c + n) xs) = take (length b + k) (drop c xs)" for k
    by (cases "length b \<le> length xs - c") (simp_all add: n_def take_add add.commute [of c])
  ultimately show ?case by (simp add: r(1,2) IH)
qed simp

text \<open>C18: files of the initial file system are the files of the archive.  For every list of files, if their
  archive lies in memory at the address of the file system, opening a path returns a handle exactly when a
  file has that name, the first one if there are several, and reading through the handle into any sequence of buffers
  delivers the contents of that file from the beginning, byte by byte, until it ends.  The fields of a member the reader
  does not look at, its magic number among them, may hold anything, for the last member as for the others.\<close>

theorem init_fs_reads_archive:
  assumes "holds m (va_usize (cpio_archive_address f)) (cpio_archive meta es)" "list_all member_ok es" "length meta = 20"
    and "list_all (\<lambda>b. length b < 2 ^ 32) bs"
  shows "case find (\<lambda>e. mb_name e = str_bytes (strip_backslash path)) es of
      None \<Rightarrow> init_open path (f, m) = Done (Inl (), f, m)
    | Some e \<Rightarrow> \<exists>h f'. init_open path (f, m) = Done (Inr h, f', m)
        \<and> init_reads h bs (f', m) = Done (take (sum_list (map length bs)) (mb_content e))"
proof (cases "find (\<lambda>e. mb_name e = str_bytes (strip_backslash path)) es")
  case None
  then show ?thesis using cpio_find_archive [OF assms(1-3), of "str_bytes (strip_backslash path)"]
    by (simp add: init_open_def cpio_search_def)
next
  case (Some e)
  with cpio_find_archive [OF assms(1-3), of "str_bytes (strip_backslash path)"] obtain h where
    h: "cpio_find m (str_bytes (strip_backslash path)) (va_usize (cpio_archive_address f)) = Some (Done (Some h))"
    "get_file_size m h = of_nat (length (mb_content e))" "holds m (get_content_ptr m h) (mb_content e)" by auto
  have "e \<in> set es" using Some by (auto simp: find_Some_iff)
  then have len: "length (mb_content e) < 2 ^ 32" using assms(2) by (auto simp: list_all_iff member_ok_def)
  define hd where "hd = LocalHandle (next_id (init_handles f))"
  define f' where "f' = f\<lparr>init_handles := (init_handles f)\<lparr>next_id := next_id (init_handles f) + 1\<rparr>,
    init_open_files := bt_insert hd \<lparr>of_cursor = 0, of_length = of_nat (length (mb_content e)), of_start = get_content_ptr m h\<rparr> (init_open_files f)\<rparr>"
  have "init_open path (f, m) = Done (Inr hd, f', m)"
    by (simp add: init_open_def cpio_search_def h(1,2) ha_get_next_def hd_def f'_def Let_def)
  moreover have "init_reads hd bs (f', m) = Done (take (sum_list (map length bs)) (drop 0 (mb_content e)))"
    using h(3) len assms(4) by (intro init_reads_spec [where ptr = "get_content_ptr m h"]) (simp_all add: f'_def)
  ultimately show ?thesis using Some by auto
qed

text \<open>An archive of two files, the second with an odd number of bytes, with the magic number \<^verbatim>\<open>0x71c7\<close> in front of
  every member.\<close>

definition sample_meta :: "u8 list" where "sample_meta = [0xc7, 0x71] @ replicate 18 0"

definition sample_members :: "member list" where
  "sample_members = [\<lparr>mb_meta = sample_meta, mb_name = [0x41], mb_content = [1, 2]\<rparr>,
     \<lparr>mb_meta = sample_meta, mb_name = [0x42, 0x43], mb_content = [3, 4, 5]\<rparr>]"

definition sample_archive_memory :: memory where
  "sample_archive_memory a = (if unat a < length (cpio_archive sample_meta sample_members) then cpio_archive sample_meta sample_members ! unat a else 0)"

theorem init_fs_reads_archive_witness:
  "\<exists>h f'. init_open ''BC'' (init_file_system_new (VirtualAddress 0), sample_archive_memory) = Done (Inr h, f', sample_archive_memory)
     \<and> init_reads h [[0, 0], [0, 0]] (f', sample_archive_memory) = Done [3, 4, 5]"
proof -
  have ok: "list_all member_ok sample_members" by (simp add: sample_members_def sample_meta_def member_ok_def TRAILER_def)
  have len: "length (cpio_archive sample_meta sample_members) < 4294967296"
    by (simp add: cpio_archive_def sample_members_def sample_meta_def cpio_member_def Let_def pad2_def le16_def TRAILER_def)
  have "holds sample_archive_memory 0 (cpio_archive sample_meta sample_members)"
    unfolding holds_def mem_bytes_def
  proof (rule nth_equalityI)
    fix i assume "i < length (map (\<lambda>i. sample_archive_memory (0 + of_nat i)) [0 ..< length (cpio_archive sample_meta sample_members)])"
    then have "i < length (cpio_archive sample_meta sample_members)" by simp
    moreover from this len have "unat (of_nat i :: usize) = i" by (intro unat_of_nat32) simp
    ultimately show "map (\<lambda>i. sample_archive_memory (0 + of_nat i)) [0 ..< length (cpio_archive sample_meta sample_members)] ! i
        = cpio_archive sample_meta sample_members ! i" by (simp add: sample_archive_memory_def)
  qed simp
  then have h: "holds sample_archive_memory (va_usize (cpio_archive_address (init_file_system_new (VirtualAddress 0)))) (cpio_archive sample_meta sample_members)"
    by (simp add: init_file_system_new_def)
  have "find (\<lambda>e. mb_name e = str_bytes (strip_backslash ''BC'')) sample_members
      = Some \<lparr>mb_meta = sample_meta, mb_name = [0x42, 0x43], mb_content = [3, 4, 5]\<rparr>"
    by (simp add: sample_members_def str_bytes_def strip_backslash_def of_char_def)
  moreover have "length sample_meta = 20" by (simp add: sample_meta_def)
  ultimately show ?thesis using init_fs_reads_archive [OF h ok, of "[[0, 0], [0, 0]]" "''BC''"] by simp
qed

end
