(* ===== verification/Fat12Layout.thy ===== *)
theory Fat12Layout
  imports Devices BTree
begin

text \<open>
  The structures of a FAT12 disk (\<^verbatim>\<open>filesystems/fat12/{disk,fat,directory,file}.rs\<close>): the parameter block
  and the sector ranges computed from it, entries of the allocation table with their 12-bit packing,
  chains of clusters and the sectors they stand for, directory entries, names in 8.3 form, dates and
  times.  Packed structures that the source reads through a pointer are decoded from bytes; a
  division by zero is a panic.
\<close>

section \<open>Disk parameters\<close>

definition DIRECTORY_ENTRY_SIZE :: usize where "DIRECTORY_ENTRY_SIZE = 32"

datatype cluster = Cluster (cl_usize: usize)

record sector_range =
  sr_first :: usize
  sr_count :: usize

record disk_config =
  dc_bytes_per_sector :: usize
  dc_sectors_per_cluster :: usize
  dc_reserved_sectors :: usize
  dc_fat_count :: usize
  dc_root_directory_entries :: usize
  dc_sectors_per_fat :: usize
  dc_total_sectors :: usize

definition disk_config_empty :: disk_config where
  "disk_config_empty =
     \<lparr>dc_bytes_per_sector = 512, dc_sectors_per_cluster = 1, dc_reserved_sectors = 1, dc_fat_count = 1,
      dc_root_directory_entries = 1, dc_sectors_per_fat = 1, dc_total_sectors = 1\<rparr>"

text \<open>Little-endian fields of a packed structure that starts at byte \<open>i\<close>.\<close>

definition field16 :: "(nat \<Rightarrow> u8) \<Rightarrow> nat \<Rightarrow> u16" where
  "field16 b i = ucast (b i) OR push_bit 8 (ucast (b (i + 1)))"

definition field32 :: "(nat \<Rightarrow> u8) \<Rightarrow> nat \<Rightarrow> u32" where
  "field32 b i = ucast (field16 b i) OR push_bit 16 (ucast (field16 b (i + 2)))"

record bios_param_block =
  bpb_bytes_per_sector :: u16
  bpb_sectors_per_cluster :: u8
  bpb_reserved_sectors :: u16
  bpb_fat_count :: u8
  bpb_root_directory_entries :: u16
  bpb_total_sectors :: u16
  bpb_media_desc :: u8
  bpb_sectors_per_fat :: u16

definition bpb_size :: nat where "bpb_size = 13"

definition bpb_empty :: bios_param_block where
  "bpb_empty =
     \<lparr>bpb_bytes_per_sector = 0, bpb_sectors_per_cluster = 0, bpb_reserved_sectors = 0, bpb_fat_count = 0,
      bpb_root_directory_entries = 0, bpb_total_sectors = 0, bpb_media_desc = 0, bpb_sectors_per_fat = 0\<rparr>"

text \<open>\<^verbatim>\<open>as_buffer\<close> shows the structure as bytes; these two functions are the view and its inverse.\<close>

definition bpb_bytes :: "bios_param_block \<Rightarrow> u8 list" where
  "bpb_bytes p =
     [ucast (bpb_bytes_per_sector p), ucast (drop_bit 8 (bpb_bytes_per_sector p)), bpb_sectors_per_cluster p,
      ucast (bpb_reserved_sectors p), ucast (drop_bit 8 (bpb_reserved_sectors p)), bpb_fat_count p,
      ucast (bpb_root_directory_entries p), ucast (drop_bit 8 (bpb_root_directory_entries p)),
      ucast (bpb_total_sectors p), ucast (drop_bit 8 (bpb_total_sectors p)), bpb_media_desc p,
      ucast (bpb_sectors_per_fat p), ucast (drop_bit 8 (bpb_sectors_per_fat p))]"

definition bpb_of_bytes :: "u8 list \<Rightarrow> bios_param_block" where
  "bpb_of_bytes bs =
     \<lparr>bpb_bytes_per_sector = field16 ((!) bs) 0, bpb_sectors_per_cluster = bs ! 2, bpb_reserved_sectors = field16 ((!) bs) 3,
      bpb_fat_count = bs ! 5, bpb_root_directory_entries = field16 ((!) bs) 6, bpb_total_sectors = field16 ((!) bs) 8,
      bpb_media_desc = bs ! 10, bpb_sectors_per_fat = field16 ((!) bs) 11\<rparr>"

definition from_bpb :: "bios_param_block \<Rightarrow> disk_config \<Rightarrow> disk_config" where
  "from_bpb p c = c
     \<lparr>dc_bytes_per_sector := ucast (bpb_bytes_per_sector p),
      dc_sectors_per_cluster := ucast (bpb_sectors_per_cluster p),
      dc_reserved_sectors := ucast (bpb_reserved_sectors p),
      dc_fat_count := ucast (bpb_fat_count p),
      dc_root_directory_entries := ucast (bpb_root_directory_entries p),
      dc_sectors_per_fat := ucast (bpb_sectors_per_fat p),
      dc_total_sectors := ucast (bpb_total_sectors p)\<rparr>"

definition get_sectors_for_cluster :: "cluster \<Rightarrow> disk_config \<Rightarrow> sector_range" where
  "get_sectors_for_cluster cl c =
     \<lparr>sr_first = cl_usize cl * dc_sectors_per_cluster c, sr_count = dc_sectors_per_cluster c\<rparr>"

datatype fat_error = InvalidFatTable

definition get_fat_sectors :: "usize \<Rightarrow> disk_config \<Rightarrow> fat_error + sector_range" where
  "get_fat_sectors fat_table c =
     (if fat_table \<ge> dc_fat_count c then Inl InvalidFatTable
      else let fat_start = dc_reserved_sectors c + fat_table * dc_sectors_per_fat c
           in Inr \<lparr>sr_first = fat_start, sr_count = dc_sectors_per_fat c\<rparr>)"

definition get_root_directory_size :: "disk_config \<Rightarrow> usize" where
  "get_root_directory_size c = dc_root_directory_entries c * DIRECTORY_ENTRY_SIZE"

definition udiv :: "usize \<Rightarrow> usize \<Rightarrow> usize outcome" where
  "udiv a b = (if b = 0 then Panic else Done (a div b))"

definition umod :: "usize \<Rightarrow> usize \<Rightarrow> usize outcome" where
  "umod a b = (if b = 0 then Panic else Done (a mod b))"

definition get_root_directory_sectors :: "disk_config \<Rightarrow> sector_range outcome" where
  "get_root_directory_sectors c =
     obind (udiv (get_root_directory_size c) (dc_bytes_per_sector c)) (\<lambda>sector_count.
       Done \<lparr>sr_first = dc_reserved_sectors c + dc_fat_count c * dc_sectors_per_fat c, sr_count = sector_count\<rparr>)"

definition get_data_sectors :: "disk_config \<Rightarrow> sector_range outcome" where
  "get_data_sectors c =
     obind (get_root_directory_sectors c) (\<lambda>root.
       Done \<lparr>sr_first = sr_first root, sr_count = dc_total_sectors c - sr_first root\<rparr>)"

definition get_directory_index_location :: "usize \<Rightarrow> disk_config \<Rightarrow> (usize \<times> usize) outcome" where
  "get_directory_index_location index c =
     (let entries_per_sector = dc_bytes_per_sector c div DIRECTORY_ENTRY_SIZE
      in obind (udiv index entries_per_sector) (\<lambda>absolute_sector.
         obind (umod index entries_per_sector) (\<lambda>local_index. Done (absolute_sector, local_index))))"

section \<open>Chains of clusters\<close>

type_synonym cluster_chain = "cluster list"

record chain_sector_iterator =
  it_clusters :: cluster_chain
  it_cluster_index :: usize
  it_sector_index :: usize
  it_sectors_per_cluster :: usize
  it_root_dir_sectors :: sector_range
  it_data_sectors :: sector_range

definition sector_iter :: "cluster_chain \<Rightarrow> disk_config \<Rightarrow> chain_sector_iterator outcome" where
  "sector_iter clusters c =
     obind (get_root_directory_sectors c) (\<lambda>root_sectors.
     obind (get_data_sectors c) (\<lambda>data_sectors.
       Done \<lparr>it_clusters = clusters, it_cluster_index = 0, it_sector_index = 0,
             it_sectors_per_cluster = dc_sectors_per_cluster c, it_root_dir_sectors = root_sectors,
             it_data_sectors = data_sectors\<rparr>))"

definition sector_iter_next :: "chain_sector_iterator \<Rightarrow> (usize option \<times> chain_sector_iterator) outcome" where
  "sector_iter_next it =
     (let cluster_count = of_nat (length (it_clusters it))
      in if cluster_count = 0
         then if it_sector_index it > sr_count (it_root_dir_sectors it) then Done (None, it)
              else Done (Some (sr_first (it_root_dir_sectors it) + it_sector_index it), it)
         else if it_cluster_index it \<ge> cluster_count then Done (None, it)
         else obind (vec_get (it_clusters it) (unat (it_cluster_index it))) (\<lambda>cl.
                let current_cluster = cl_usize cl
                in if current_cluster < 2 then Done (None, it)
                   else let cluster_start = sr_first (it_data_sectors it) + (current_cluster - 2) * it_sectors_per_cluster it;
                            sector = cluster_start + it_sector_index it;
                            next_index = it_sector_index it + 1
                        in if next_index \<ge> it_sectors_per_cluster it
                           then Done (Some sector, it\<lparr>it_cluster_index := it_cluster_index it + 1, it_sector_index := 0\<rparr>)
                           else Done (Some sector, it\<lparr>it_sector_index := next_index\<rparr>)))"

section \<open>The allocation table\<close>

datatype fat_entry = NextCluster cluster | EndOfChain | Free | BadSector | Reserved | TemporaryAllocation

definition fat_entry_from_value :: "u16 \<Rightarrow> fat_entry" where
  "fat_entry_from_value value =
     (if value = 0 then Free
      else if value = 1 then TemporaryAllocation
      else if 0xff0 \<le> value \<and> value \<le> 0xff5 then EndOfChain
      else if value = 0xff6 then Reserved
      else if value = 0xff7 then BadSector
      else if 0xff8 \<le> value \<and> value \<le> 0xfff then EndOfChain
      else NextCluster (Cluster (ucast value)))"

definition has_next :: "fat_entry \<Rightarrow> bool" where
  "has_next e = (case e of NextCluster _ \<Rightarrow> True | _ \<Rightarrow> False)"

record fat_section =
  fat_bytes :: "u8 list"
  fat_byte_offset :: usize
  fat_first_cluster :: cluster

datatype fat_value_result = OutOfBoundsBefore | OutOfBoundsAfter | Partial8 u8 | Partial4 u8 | Success fat_entry

definition get_value :: "cluster \<Rightarrow> fat_section \<Rightarrow> fat_value_result outcome" where
  "get_value cl s =
     (let target_cluster = cl_usize cl; first_cluster = cl_usize (fat_first_cluster s)
      in if target_cluster < first_cluster then Done OutOfBoundsBefore
         else let distance = target_cluster - first_cluster;
                  triad_start = (distance div 2) * 3 + fat_byte_offset s;
                  len = of_nat (length (fat_bytes s))
              in if triad_start \<ge> len then Done OutOfBoundsAfter
                 else let triad_offset = distance AND 1; byte_addr = triad_start + triad_offset
                      in if len - byte_addr < 2
                         then obind (vec_get (fat_bytes s) (unat byte_addr)) (\<lambda>b.
                                if triad_offset = 0 then Done (Partial8 b) else Done (Partial4 (drop_bit 4 b)))
                         else obind (vec_get (fat_bytes s) (unat byte_addr)) (\<lambda>low.
                              obind (vec_get (fat_bytes s) (unat (byte_addr + 1))) (\<lambda>high.
                                let value = (ucast low OR push_bit 8 (ucast high) :: u16);
                                    value = drop_bit (unat (triad_offset * 4)) value;
                                    value = value AND 0xfff
                                in Done (Success (fat_entry_from_value value)))))"

section \<open>Directories and names\<close>

datatype file_time = FileTime u16

fun ft_hours :: "file_time \<Rightarrow> u16" where "ft_hours (FileTime t) = drop_bit 11 t"
fun ft_minutes :: "file_time \<Rightarrow> u16" where "ft_minutes (FileTime t) = drop_bit 5 t AND 0x3f"
fun ft_seconds :: "file_time \<Rightarrow> u16" where "ft_seconds (FileTime t) = push_bit 1 (t AND 0x1f)"

datatype file_date = FileDate u16

fun fd_year :: "file_date \<Rightarrow> usize" where "fd_year (FileDate d) = ucast (drop_bit 9 d AND 0x7f) + 1980"
fun fd_month :: "file_date \<Rightarrow> u16" where "fd_month (FileDate d) = drop_bit 5 d AND 0xf"
fun fd_day :: "file_date \<Rightarrow> u16" where "fd_day (FileDate d) = d AND 0x1f"

datatype file_type = FtFile | FtDirectory | FtVolumeLabel

definition is_file :: "file_type \<Rightarrow> bool" where "is_file t = (case t of FtFile \<Rightarrow> True | _ \<Rightarrow> False)"
definition is_directory :: "file_type \<Rightarrow> bool" where "is_directory t = (case t of FtDirectory \<Rightarrow> True | _ \<Rightarrow> False)"

record directory_entry =
  fe_file_name :: "u8 list"
  fe_ext :: "u8 list"
  fe_attributes :: u8
  fe_nonstandard_attributes :: u8
  fe_fine_create_time :: u8
  fe_creation_time :: file_time
  fe_creation_date :: file_date
  fe_access_date :: file_date
  fe_extended_attributes :: u16
  fe_last_modify_time :: file_time
  fe_last_modify_date :: file_date
  fe_first_file_cluster :: u16
  fe_byte_size :: u32

definition directory_entry_at :: "(nat \<Rightarrow> u8) \<Rightarrow> nat \<Rightarrow> directory_entry" where
  "directory_entry_at b a =
     \<lparr>fe_file_name = map (\<lambda>i. b (a + i)) [0 ..< 8], fe_ext = map (\<lambda>i. b (a + 8 + i)) [0 ..< 3],
      fe_attributes = b (a + 11), fe_nonstandard_attributes = b (a + 12), fe_fine_create_time = b (a + 13),
      fe_creation_time = FileTime (field16 b (a + 14)), fe_creation_date = FileDate (field16 b (a + 16)),
      fe_access_date = FileDate (field16 b (a + 18)), fe_extended_attributes = field16 b (a + 20),
      fe_last_modify_time = FileTime (field16 b (a + 22)), fe_last_modify_date = FileDate (field16 b (a + 24)),
      fe_first_file_cluster = field16 b (a + 26), fe_byte_size = field32 b (a + 28)\<rparr>"

definition get_file_type :: "directory_entry \<Rightarrow> file_type" where
  "get_file_type e =
     (if fe_attributes e AND 0x08 = 0x08 then FtVolumeLabel
      else if fe_attributes e AND 0x10 = 0x10 then FtDirectory else FtFile)"

definition get_first_cluster :: "directory_entry \<Rightarrow> cluster" where
  "get_first_cluster e = Cluster (ucast (fe_first_file_cluster e))"

definition fe_is_empty :: "directory_entry \<Rightarrow> bool" where
  "fe_is_empty e \<longleftrightarrow> fe_file_name e ! 0 = 0"

definition copy_name :: "directory_entry \<Rightarrow> u8 list \<Rightarrow> u8 list" where
  "copy_name e buffer = fold (\<lambda>i b. b[i := fe_file_name e ! i]) [0 ..< 8] buffer"

definition copy_ext :: "directory_entry \<Rightarrow> u8 list \<Rightarrow> u8 list" where
  "copy_ext e buffer = fold (\<lambda>i b. b[i := fe_ext e ! i]) [0 ..< 3] buffer"

definition get_full_name :: "directory_entry \<Rightarrow> u8 list \<Rightarrow> u8 list" where
  "get_full_name e buffer =
     fold (\<lambda>i b. b[8 + i := fe_ext e ! i]) [0 ..< 3] (fold (\<lambda>i b. b[i := fe_file_name e ! i]) [0 ..< 8] buffer)"

definition get_byte_size :: "directory_entry \<Rightarrow> usize" where
  "get_byte_size e = fe_byte_size e"

definition name_character_matches :: "u8 \<Rightarrow> u8 \<Rightarrow> bool" where
  "name_character_matches a b =
     (if a = b then True
      else if b = 0x3f then True
      else if a > 64 \<and> a < 91 \<and> a + 32 = b then True
      else if b > 64 \<and> b < 91 \<and> b + 32 = a then True
      else False)"

definition name_matches_search :: "u8 list \<Rightarrow> u8 list \<Rightarrow> directory_entry \<Rightarrow> bool" where
  "name_matches_search name ext e =
     (if list_ex (\<lambda>i. \<not> name_character_matches (fe_file_name e ! i) (name ! i)) [0 ..< 8] then False
      else if list_ex (\<lambda>i. \<not> name_character_matches (fe_ext e ! i) (ext ! i)) [0 ..< 3] then False
      else True)"

fun name_components :: "u8 list \<Rightarrow> u8 list \<Rightarrow> u8 list \<Rightarrow> nat \<Rightarrow> bool \<Rightarrow> u8 list \<times> u8 list" where
  "name_components [] name ext index on_extension = (name, ext)"
| "name_components (ch # chs) name ext index on_extension =
     (if ch = 0x2e then (if on_extension then (name, ext) else name_components chs name ext 0 True)
      else if ch = 0x2f then (name, ext)
      else if on_extension
      then (if index \<ge> 3 then (name, ext) else name_components chs name (ext[index := ch]) (index + 1) True)
      else (if index \<ge> 8 then (name, ext) else name_components chs (name[index := ch]) ext (index + 1) False))"

definition file_name_components_from_string :: "string \<Rightarrow> u8 list \<times> u8 list" where
  "file_name_components_from_string s = name_components (str_bytes s) (replicate 8 0x20) (replicate 3 0x20) 0 False"

text \<open>The iterator over the entries of a sector: at most \<open>max_count\<close>, up to the first empty one.\<close>

record directory_entry_iterator =
  dit_start :: nat
  dit_max_count :: usize
  dit_current :: usize

definition dir_iter_next :: "(nat \<Rightarrow> u8) \<Rightarrow> directory_entry_iterator \<Rightarrow> directory_entry option \<times> directory_entry_iterator" where
  "dir_iter_next b it =
     (if dit_current it \<ge> dit_max_count it then (None, it)
      else let entry = directory_entry_at b (dit_start it + 32 * unat (dit_current it))
           in if fe_is_empty entry then (None, it)
              else (Some entry, it\<lparr>dit_current := dit_current it + 1\<rparr>))"

section \<open>Decoding the allocation table\<close>

text \<open>The format: entry \<open>n\<close> are twelve bits that start at bit \<open>12 * n\<close> of the table.\<close>

definition fat_value :: "(nat \<Rightarrow> u8) \<Rightarrow> nat \<Rightarrow> u16" where
  "fat_value b n =
     (let k = 3 * n div 2
      in if even n then ucast (b k) OR push_bit 8 (ucast (b (k + 1) AND 0x0f))
         else ucast (drop_bit 4 (b k)) OR push_bit 4 (ucast (b (k + 1))))"

lemma twelve_bits_even:
  fixes low high :: u8
  shows "(ucast low OR push_bit 8 (ucast high) :: u16) AND 0xfff = ucast low OR push_bit 8 (ucast (high AND 0x0f))"
proof -
  have m: "(0xfff :: u16) = mask 12" "(0x0f :: u8) = mask 4" by (simp_all add: mask_eq_exp_minus_1)
  show ?thesis unfolding m by (rule bit_word_eqI) (auto simp: bit_simps dest: bit_imp_le_length)
qed

lemma twelve_bits_odd:
  fixes low high :: u8
  shows "drop_bit 4 (ucast low OR push_bit 8 (ucast high) :: u16) AND 0xfff = ucast (drop_bit 4 low) OR push_bit 4 (ucast high)"
proof -
  have m: "(0xfff :: u16) = mask 12" by (simp add: mask_eq_exp_minus_1)
  show ?thesis unfolding m by (rule bit_word_eqI) (auto simp: bit_simps dest: bit_imp_le_length)
qed

text \<open>A window of the table that starts at byte \<open>org\<close>; its first whole entry is \<open>n0\<close>, an even one.\<close>

lemma get_value_window:
  assumes "s = \<lparr>fat_bytes = map (\<lambda>i. b (org + i)) [0 ..< len], fat_byte_offset = of_nat off, fat_first_cluster = Cluster (of_nat n0)\<rparr>"
    and "3 * n0 = 2 * (org + off)" "n0 \<le> n" "n < 4096" "len < 2 ^ 16" "off < 3"
  defines "k \<equiv> 3 * n div 2 - org"
  shows "k + 1 < len \<Longrightarrow> get_value (Cluster (of_nat n)) s = Done (Success (fat_entry_from_value (fat_value b n)))"
    and "k + 1 = len \<Longrightarrow> even n \<Longrightarrow> get_value (Cluster (of_nat n)) s = Done (Partial8 (b (3 * n div 2)))"
    and "k + 1 = len \<Longrightarrow> odd n \<Longrightarrow> get_value (Cluster (of_nat n)) s = Done (Partial4 (drop_bit 4 (b (3 * n div 2))))"
    and "k = len \<Longrightarrow> odd n \<Longrightarrow> get_value (Cluster (of_nat n)) s = Panic"
proof -
  define d where "d = n - n0"
  have n: "n = n0 + d" using assms(3) by (simp add: d_def)
  have ev: "even n0" using assms(2) by presburger
  then obtain m where m: "n0 = 2 * m" by (elim evenE)
  have om: "org + off = 3 * m" using assms(2) m by simp
  have par: "even d \<longleftrightarrow> even n" by (simp add: n m)
  have "3 * n div 2 = 3 * m + 3 * d div 2" unfolding n m by simp
  moreover have "3 * d div 2 = (d div 2) * 3 + d mod 2" by presburger
  ultimately have k: "k = (d div 2) * 3 + off + d mod 2" "org + k = 3 * n div 2"
    using om unfolding k_def by linarith+
  have bnd: "(d div 2) * 3 + off < 2 ^ 16" "k < 2 ^ 16" using assms(4,6) k(1) by (auto simp: d_def)
  have dw: "(of_nat n - of_nat n0 :: usize) = of_nat d" by (simp add: n)
  have lt: "\<not> (of_nat n :: usize) < of_nat n0" using assms(3,4) by (simp add: word_less_nat_alt unat_of_nat32)
  have dd: "unat (of_nat d :: usize) = d" using assms(4) by (intro unat_of_nat32) (simp add: d_def)
  have ts: "(of_nat d div 2 :: usize) * 3 + of_nat off = of_nat ((d div 2) * 3 + off)"
    using bnd(1) by (simp add: word_unat_eq_iff unat_div_distrib unat_of_nat32 dd unat_word_ariths)
  have an: "(of_nat d :: usize) AND 1 = of_nat (d mod 2)"
    by (simp add: and_one_eq word_unat_eq_iff unat_mod_distrib dd unat_of_nat32)
  have tl: "(of_nat len \<le> (of_nat ((d div 2) * 3 + off) :: usize)) \<longleftrightarrow> len \<le> (d div 2) * 3 + off"
    using bnd assms(5) by (simp add: word_le_nat_alt unat_of_nat32 del: of_nat_add of_nat_mult)
  have ba: "(of_nat ((d div 2) * 3 + off) :: usize) + of_nat (d mod 2) = of_nat k" by (simp add: k(1))
  have uk: "unat (of_nat k :: usize) = k" "unat (of_nat k + 1 :: usize) = k + 1"
    using bnd(2) unat_of_nat32 [of k] unat_of_nat32 [of "k + 1"] by (simp_all add: add.commute)
  have rem: "(of_nat len - of_nat k :: usize) < 2 \<longleftrightarrow> len - k < 2" if "k \<le> len"
  proof -
    have "(of_nat len - of_nat k :: usize) = of_nat (len - k)" using that by (simp add: of_nat_diff)
    then show ?thesis using assms(5) by (simp add: word_less_nat_alt unat_of_nat32)
  qed
  have od: "d mod 2 = (if even n then 0 else 1)" using par by presburger
  have tr0: "(of_nat (d mod 2) :: usize) = 0 \<longleftrightarrow> even n" and sh: "unat (of_nat (d mod 2) * 4 :: usize) = (if even n then 0 else 4)"
    by (simp_all add: od)
  have le: "d div 2 * 3 + off \<le> k" by (simp add: k(1))
  let ?bs = "map (\<lambda>i. b (org + i)) [0 ..< len]"
  have gv: "get_value (Cluster (of_nat n)) s =
      (if len \<le> (d div 2) * 3 + off then Done OutOfBoundsAfter
       else if (of_nat len - of_nat k :: usize) < 2
       then obind (vec_get ?bs k) (\<lambda>b. if even n then Done (Partial8 b) else Done (Partial4 (drop_bit 4 b)))
       else obind (vec_get ?bs k) (\<lambda>low. obind (vec_get ?bs (k + 1)) (\<lambda>high.
              Done (Success (fat_entry_from_value (drop_bit (if even n then 0 else 4) (ucast low OR push_bit 8 (ucast high)) AND 0xfff))))))"
    by (simp only: get_value_def assms(1) Let_def dw lt ts an tl ba tr0 sh uk cluster.sel fat_section.simps length_map length_upt diff_zero if_False)
  show "get_value (Cluster (of_nat n)) s = Done (Success (fat_entry_from_value (fat_value b n)))" if "k + 1 < len"
  proof -
    have "\<not> len - k < 2" using that by linarith
    then show ?thesis using that le rem k(2)
      by (simp add: gv twelve_bits_even twelve_bits_odd fat_value_def Let_def del: drop_bit_or)
  qed
  show "get_value (Cluster (of_nat n)) s = Done (Partial8 (b (3 * n div 2)))" if "k + 1 = len" "even n"
    using that le rem k(2) by (simp add: gv)
  show "get_value (Cluster (of_nat n)) s = Done (Partial4 (drop_bit 4 (b (3 * n div 2))))" if "k + 1 = len" "odd n"
    using that le rem k(2) by (simp add: gv)
  show "get_value (Cluster (of_nat n)) s = Panic" if "k = len" "odd n"
    using that k(1) od by (simp add: gv vec_get_def)
qed

text \<open>The parameter block is read back from its bytes.\<close>

lemma field16_le: "ucast (ucast w :: u8) OR push_bit 8 (ucast (ucast (drop_bit 8 w) :: u8)) = (w :: u16)"
  by (rule bit_word_eqI) (auto simp: bit_simps)

lemma bpb_roundtrip: "bpb_of_bytes (bpb_bytes p) = p" "length (bpb_bytes p) = bpb_size"
  by (simp_all add: bpb_of_bytes_def bpb_bytes_def field16_def field16_le bpb_size_def)

end
