(* ===== verification/Fat12.thy ===== *)
theory Fat12
  imports Fat12Layout
begin

text \<open>
  The FAT12 file system (\<^verbatim>\<open>filesystems/fat12/{fs,mod}.rs\<close>) over a block device that is reached through
  the table of drivers.  The buffer for one sector is a list of 512 bytes; what lies behind it in the
  kernel heap, which the entry iterator would read on a disk with longer sectors, is the parameter
  \<open>behind\<close>.
\<close>

section \<open>State\<close>

record fat_open_file =
  fo_cursor :: usize
  fo_file_type :: file_type
  fo_clusters :: cluster_chain

record fat12_file_system =
  fat_allocator :: handle_allocator
  fat_open_files :: "(local_handle, fat_open_file) btree"
  drive_number :: usize
  drive_access_handle :: local_handle
  fat_config :: disk_config
  io_buffer :: "u8 list"

definition fat12_file_system_new :: "usize \<Rightarrow> local_handle \<Rightarrow> fat12_file_system" where
  "fat12_file_system_new number access =
     \<lparr>fat_allocator = handle_allocator_new, fat_open_files = [], drive_number = number, drive_access_handle = access,
      fat_config = disk_config_empty, io_buffer = replicate 512 0\<rparr>"

type_synonym 'g fat_state = "fat12_file_system \<times> 'g"

definition disk_seek :: "'g device_driver \<Rightarrow> usize \<Rightarrow> 'g fat_state \<Rightarrow> ((unit + usize) \<times> 'g fat_state) outcome" where
  "disk_seek drv position fg =
     (case fg of (f, g) \<Rightarrow> obind (dd_seek drv (drive_access_handle f) (Absolute position) g) (\<lambda>(r, g). Done (r, f, g)))"

text \<open>Reading into the first \<open>n\<close> bytes of the buffer; the whole buffer is \<open>n = 512\<close>.\<close>

definition disk_read :: "'g device_driver \<Rightarrow> nat \<Rightarrow> 'g fat_state \<Rightarrow> ((unit + usize) \<times> 'g fat_state) outcome" where
  "disk_read drv n fg =
     (case fg of (f, g) \<Rightarrow> obind (dd_read drv (drive_access_handle f) (take n (io_buffer f)) g) (\<lambda>(r, b, g).
        Done (r, f\<lparr>io_buffer := b @ drop n (io_buffer f)\<rparr>, g)))"

definition fat_init :: "'g device_drivers \<Rightarrow> 'g fat_state \<Rightarrow> ((unit + unit) \<times> 'g fat_state) outcome" where
  "fat_init devs fg =
     (case fg of (f, g) \<Rightarrow> case get_device (drive_number f) devs of
        None \<Rightarrow> Done (Inl (), f, g)
      | Some driver \<Rightarrow>
          try_op (obind (dd_open driver (drive_access_handle f) g) (\<lambda>(r, g). Done (r, f, g))) (\<lambda>_ fg.
          try_op (disk_seek driver 0x0b fg) (\<lambda>_ (f, g).
            obind (dd_read driver (drive_access_handle f) (bpb_bytes bpb_empty) g) (\<lambda>(r, bytes, g).
              case r of
                Inl e \<Rightarrow> Done (Inl e, f, g)
              | Inr _ \<Rightarrow> Done (Inr (), f\<lparr>fat_config := from_bpb (bpb_of_bytes bytes) (fat_config f)\<rparr>, g)))))"

section \<open>Following the allocation table\<close>

definition clusters_per_sector :: "disk_config \<Rightarrow> usize" where
  "clusters_per_sector c = dc_bytes_per_sector c * 2 div 3 + 1"

definition get_fat_sector_for_cluster :: "cluster \<Rightarrow> fat12_file_system \<Rightarrow> usize outcome" where
  "get_fat_sector_for_cluster cl f = udiv (cl_usize cl) (clusters_per_sector (fat_config f))"

definition load_sector_of_fat_table :: "'g device_drivers \<Rightarrow> usize \<Rightarrow> usize \<Rightarrow> 'g fat_state \<Rightarrow> ((unit + unit) \<times> 'g fat_state) outcome" where
  "load_sector_of_fat_table devs table sector fg =
     (case fg of (f, g) \<Rightarrow>
        if sector \<ge> dc_sectors_per_fat (fat_config f) then Done (Inl (), fg)
        else case get_fat_sectors table (fat_config f) of
          Inl _ \<Rightarrow> Done (Inl (), fg)
        | Inr fat_sectors \<Rightarrow>
            let sector_index = sr_first fat_sectors + sector;
                position = dc_bytes_per_sector (fat_config f) * sector_index
            in case get_device (drive_number f) devs of
                 None \<Rightarrow> Done (Inl (), fg)
               | Some driver \<Rightarrow>
                   try_op (disk_seek driver position fg) (\<lambda>_ fg.
                   try_op (disk_read driver (length (io_buffer f)) fg) (\<lambda>_ fg. Done (Inr (), fg))))"

text \<open>The local variables of \<^verbatim>\<open>get_cluster_chain\<close> apart from \<^verbatim>\<open>next\<close>.\<close>

record chain_vars =
  cv_clusters :: cluster_chain
  cv_sector :: usize
  cv_byte_offset :: usize
  cv_first_cluster :: cluster

definition chain_load :: "'g device_drivers \<Rightarrow> usize \<Rightarrow> chain_vars \<Rightarrow> 'g fat_state \<Rightarrow> (chain_vars \<times> 'g fat_state) outcome" where
  "chain_load devs sector v fg =
     (if sector \<noteq> cv_sector v
      then obind (load_sector_of_fat_table devs 0 sector fg) (\<lambda>(_, f, g).
             let first = Cluster (clusters_per_sector (fat_config f) * sector);
                 off = (if sector > 0 then 3 - sector * dc_bytes_per_sector (fat_config f) mod 3 else 0)
             in Done (v\<lparr>cv_first_cluster := first, cv_byte_offset := off, cv_sector := sector\<rparr>, f, g))
      else Done (v, fg))"

text \<open>An entry that reaches into the next sector: that sector is loaded and its first byte is the rest.\<close>

definition chain_straddle :: "'g device_drivers \<Rightarrow> usize \<Rightarrow> usize \<Rightarrow> chain_vars \<Rightarrow> 'g fat_state
    \<Rightarrow> (u8 \<times> chain_vars \<times> 'g fat_state) outcome" where
  "chain_straddle devs sector off v fg =
     obind (load_sector_of_fat_table devs 0 (sector + 1) fg) (\<lambda>(_, f, g).
     obind (vec_get (io_buffer f) 0) (\<lambda>b.
       Done (b, v\<lparr>cv_sector := cv_sector v + 1,
                  cv_first_cluster := Cluster (cl_usize (cv_first_cluster v) + clusters_per_sector (fat_config f)),
                  cv_byte_offset := off\<rparr>, f, g)))"

definition chain_step :: "'g device_drivers \<Rightarrow> cluster \<Rightarrow> chain_vars \<Rightarrow> 'g fat_state \<Rightarrow> (fat_entry \<times> chain_vars \<times> 'g fat_state) outcome" where
  "chain_step devs cl v fg =
     (let v = v\<lparr>cv_clusters := cv_clusters v @ [cl]\<rparr>
      in obind (get_fat_sector_for_cluster cl (fst fg)) (\<lambda>sector.
         obind (chain_load devs sector v fg) (\<lambda>(v, f, g).
         obind (get_value cl \<lparr>fat_bytes = io_buffer f, fat_byte_offset = cv_byte_offset v, fat_first_cluster = cv_first_cluster v\<rparr>) (\<lambda>value.
           case value of
             Partial4 part \<Rightarrow>
               obind (chain_straddle devs sector 1 v (f, g)) (\<lambda>(b, v, fg).
                 Done (fat_entry_from_value (ucast part OR push_bit 4 (ucast b)), v, fg))
           | Partial8 part \<Rightarrow>
               obind (chain_straddle devs sector 2 v (f, g)) (\<lambda>(b, v, fg).
                 Done (fat_entry_from_value (ucast part OR push_bit 8 (ucast (b AND 0x0f))), v, fg))
           | Success entry \<Rightarrow> Done (entry, v, f, g)
           | _ \<Rightarrow> Done (NextCluster cl, v, f, g)))))"

partial_function (option) chain_loop :: "'g device_drivers \<Rightarrow> fat_entry \<Rightarrow> chain_vars \<Rightarrow> 'g fat_state
    \<Rightarrow> (chain_vars \<times> 'g fat_state) outcome option" where
  "chain_loop devs entry v fg =
     (case entry of
        NextCluster cl \<Rightarrow>
          (case chain_step devs cl v fg of
             Done (entry', v', fg') \<Rightarrow> chain_loop devs entry' v' fg'
           | Panic \<Rightarrow> Some Panic
           | Hang \<Rightarrow> Some Hang)
      | _ \<Rightarrow> Some (Done (v, fg)))"

definition get_cluster_chain :: "'g device_drivers \<Rightarrow> cluster \<Rightarrow> 'g fat_state \<Rightarrow> ((unit + cluster_chain) \<times> 'g fat_state) outcome" where
  "get_cluster_chain devs first_cluster fg =
     (case chain_loop devs (NextCluster first_cluster)
         \<lparr>cv_clusters = [], cv_sector = 0xffff, cv_byte_offset = 0, cv_first_cluster = Cluster 0\<rparr> fg of
        None \<Rightarrow> Hang
      | Some r \<Rightarrow> obind r (\<lambda>(v, fg). Done (Inr (cv_clusters v), fg)))"

section \<open>Looking up a name\<close>

definition buffer_byte :: "(nat \<Rightarrow> u8) \<Rightarrow> u8 list \<Rightarrow> nat \<Rightarrow> u8" where
  "buffer_byte behind buf i = (if i < length buf then buf ! i else behind (i - length buf))"

text \<open>The loop over the entries of one sector, with the number of entries looked at; \<open>left\<close> is the
  number of entries the iterator still allows.\<close>

fun scan_entries :: "nat \<Rightarrow> (nat \<Rightarrow> u8) \<Rightarrow> u8 list \<Rightarrow> u8 list \<Rightarrow> directory_entry_iterator \<Rightarrow> usize \<Rightarrow> directory_entry option \<times> usize" where
  "scan_entries 0 b name ext it entry_count = (None, entry_count)"
| "scan_entries (Suc left) b name ext it entry_count =
     (case dir_iter_next b it of
        (None, it) \<Rightarrow> (None, entry_count)
      | (Some entry, it) \<Rightarrow>
          if name_matches_search name ext entry then (Some entry, entry_count + 1)
          else scan_entries left b name ext it (entry_count + 1))"

partial_function (option) find_entry_loop :: "(nat \<Rightarrow> u8) \<Rightarrow> 'g device_driver \<Rightarrow> u8 list \<Rightarrow> u8 list \<Rightarrow> chain_sector_iterator
    \<Rightarrow> 'g fat_state \<Rightarrow> ((unit + directory_entry) \<times> 'g fat_state) outcome option" where
  "find_entry_loop behind driver name ext it fg =
     (case sector_iter_next it of
        Panic \<Rightarrow> Some Panic
      | Hang \<Rightarrow> Some Hang
      | Done (None, it) \<Rightarrow> Some (Done (Inl (), fg))
      | Done (Some sector, it) \<Rightarrow>
          (let bytes_per_sector = dc_bytes_per_sector (fat_config (fst fg)); position = sector * bytes_per_sector
           in case try_op (disk_seek driver position fg) (\<lambda>_ fg. disk_read driver (length (io_buffer (fst fg))) fg) of
                Panic \<Rightarrow> Some Panic
              | Hang \<Rightarrow> Some Hang
              | Done (Inl e, fg) \<Rightarrow> Some (Done (Inl e, fg))
              | Done (Inr _, fg) \<Rightarrow>
                  (let entries_per_sector = bytes_per_sector div DIRECTORY_ENTRY_SIZE
                   in case scan_entries (unat entries_per_sector) (buffer_byte behind (io_buffer (fst fg))) name ext
                             \<lparr>dit_start = 0, dit_max_count = entries_per_sector, dit_current = 0\<rparr> 0 of
                        (Some entry, _) \<Rightarrow> Some (Done (Inr entry, fg))
                      | (None, entry_count) \<Rightarrow>
                          if entry_count < entries_per_sector then Some (Done (Inl (), fg))
                          else find_entry_loop behind driver name ext it fg)))"

definition find_entry_in_directory :: "(nat \<Rightarrow> u8) \<Rightarrow> 'g device_drivers \<Rightarrow> u8 list \<Rightarrow> u8 list \<Rightarrow> cluster_chain
    \<Rightarrow> 'g fat_state \<Rightarrow> ((unit + directory_entry) \<times> 'g fat_state) outcome" where
  "find_entry_in_directory behind devs name ext search_dir fg =
     (case get_device (drive_number (fst fg)) devs of
        None \<Rightarrow> Done (Inl (), fg)
      | Some driver \<Rightarrow>
          obind (sector_iter search_dir (fat_config (fst fg))) (\<lambda>it.
            case find_entry_loop behind driver name ext it fg of None \<Rightarrow> Hang | Some r \<Rightarrow> r))"

section \<open>The operations of the file system\<close>

fun split_backslash :: "string \<Rightarrow> string list" where
  "split_backslash [] = [[]]"
| "split_backslash (ch # s) =
     (if ch = CHR 0x5c then [] # split_backslash s
      else case split_backslash s of [] \<Rightarrow> [[ch]] | p # ps \<Rightarrow> (ch # p) # ps)"

definition insert_open_file :: "fat_open_file \<Rightarrow> fat12_file_system \<Rightarrow> local_handle \<times> fat12_file_system" where
  "insert_open_file fl f =
     (let (h, a) = ha_get_next (fat_allocator f); handle = LocalHandle h
      in (handle, f\<lparr>fat_allocator := a, fat_open_files := bt_insert handle fl (fat_open_files f)\<rparr>))"

definition fat_open :: "(nat \<Rightarrow> u8) \<Rightarrow> 'g device_drivers \<Rightarrow> string \<Rightarrow> 'g fat_state \<Rightarrow> ((unit + local_handle) \<times> 'g fat_state) outcome" where
  "fat_open behind devs path fg =
     (let part = last (split_backslash path);
          (name, ext) = file_name_components_from_string part
      in try_op (find_entry_in_directory behind devs name ext [] fg) (\<lambda>entry fg.
         try_op (get_cluster_chain devs (get_first_cluster entry) fg) (\<lambda>chain (f, g).
           let (handle, f) = insert_open_file \<lparr>fo_cursor = 0, fo_file_type = FtFile, fo_clusters = chain\<rparr> f
           in Done (Inr handle, f, g))))"

definition fat_open_dir :: "string \<Rightarrow> 'g fat_state \<Rightarrow> ((unit + local_handle) \<times> 'g fat_state) outcome" where
  "fat_open_dir path fg =
     (case fg of (f, g) \<Rightarrow>
        let (handle, f) = insert_open_file \<lparr>fo_cursor = 0, fo_file_type = FtDirectory, fo_clusters = []\<rparr> f
        in Done (Inr handle, f, g))"

fun iter_skip :: "nat \<Rightarrow> chain_sector_iterator \<Rightarrow> chain_sector_iterator outcome" where
  "iter_skip 0 it = Done it"
| "iter_skip (Suc n) it = obind (sector_iter_next it) (\<lambda>(_, it). iter_skip n it)"

definition fat_fill_dir_entry :: "directory_entry \<Rightarrow> dir_entry_info \<Rightarrow> dir_entry_info" where
  "fat_fill_dir_entry entry info =
     (if fe_is_empty entry
      then info\<lparr>de_file_name := [0x20, 0x20, 0x20, 0x20, 0x20, 0x20, 0x20, 0x20], de_file_ext := [0x20, 0x20, 0x20],
                de_entry_type := EntryEmpty, de_byte_size := 0\<rparr>
      else info\<lparr>de_file_name := copy_name entry (de_file_name info), de_file_ext := copy_ext entry (de_file_ext info),
                de_entry_type := EntryFile, de_byte_size := get_byte_size entry\<rparr>)"

definition fat_read_dir :: "(nat \<Rightarrow> u8) \<Rightarrow> 'g device_drivers \<Rightarrow> local_handle \<Rightarrow> usize \<Rightarrow> dir_entry_info \<Rightarrow> 'g fat_state
    \<Rightarrow> ((unit + unit) \<times> dir_entry_info \<times> 'g fat_state) outcome" where
  "fat_read_dir behind devs handle index info fg =
     (case fg of (f, g) \<Rightarrow> case bt_get (fat_open_files f) handle of
        None \<Rightarrow> Done (Inl (), info, f, g)
      | Some fl \<Rightarrow>
          obind (get_directory_index_location index (fat_config f)) (\<lambda>(dir_sector, local_index).
          obind (sector_iter (fo_clusters fl) (fat_config f)) (\<lambda>it.
          obind (iter_skip (unat dir_sector) it) (\<lambda>it.
          obind (sector_iter_next it) (\<lambda>(next_sector, _).
            case next_sector of
              None \<Rightarrow> Done (Inl (), info, f, g)
            | Some sector \<Rightarrow>
                let position = sector * dc_bytes_per_sector (fat_config f) + local_index * DIRECTORY_ENTRY_SIZE
                in case get_device (drive_number f) devs of
                     None \<Rightarrow> Done (Inl (), info, f, g)
                   | Some driver \<Rightarrow>
                       obind (try_op (disk_seek driver position (f, g)) (\<lambda>_ fg. disk_read driver 32 fg)) (\<lambda>(r, f, g).
                         case r of
                           Inl e \<Rightarrow> Done (Inl e, info, f, g)
                         | Inr _ \<Rightarrow>
                             let entry = directory_entry_at (buffer_byte behind (io_buffer f)) 0
                             in Done (Inr (), fat_fill_dir_entry entry info, f, g)))))))"

definition fat12_file_system_ops :: "(nat \<Rightarrow> u8) \<Rightarrow> 'g device_drivers \<Rightarrow> 'g fat_state file_system" where
  "fat12_file_system_ops behind devs =
     \<lparr>fs_open = fat_open behind devs,
      fs_read = (\<lambda>handle buffer fg. Done (Inl (), buffer, fg)),
      fs_write = (\<lambda>handle buffer fg. Done (Inl (), fg)),
      fs_close = (\<lambda>handle fg. Done (Inl (), fg)),
      fs_dup = (\<lambda>handle fg. Done (Inl (), fg)),
      fs_seek = (\<lambda>handle off fg. Done (Inl (), fg)),
      fs_open_dir = fat_open_dir,
      fs_read_dir = fat_read_dir behind devs,
      fs_ioctl = default_ioctl\<rparr>"

definition fat12_create_fs :: "'g device_drivers \<Rightarrow> 'g vfs_statics \<Rightarrow> string \<Rightarrow> 'g \<Rightarrow> ((unit + fat12_file_system) \<times> 'g) outcome" where
  "fat12_create_fs devs vfs device g =
     obind (of_option (get_fs (DEV_FS vfs) (VFS vfs))) (\<lambda>dev_fs.
     obind (fs_open dev_fs device g) (\<lambda>(r, g).
     obind (unwrap r) (\<lambda>access_handle.
       try_op (fs_ioctl dev_fs access_handle 0 0 g) (\<lambda>device_no g.
         obind (fat_init devs (fat12_file_system_new device_no access_handle, g)) (\<lambda>(r, f, g).
           case r of Inl e \<Rightarrow> Done (Inl e, g) | Inr _ \<Rightarrow> Done (Inr f, g))))))"

section \<open>A disk behind the driver\<close>

text \<open>What the file system relies on: after a seek to a position, a read fills its buffer with the
  bytes of the disk from there.  The predicate \<open>rdy\<close> describes the states of the driver in which it works.\<close>

definition serves_disk :: "'g device_driver \<Rightarrow> local_handle \<Rightarrow> (nat \<Rightarrow> u8) \<Rightarrow> ('g \<Rightarrow> bool) \<Rightarrow> bool" where
  "serves_disk driver h disk rdy \<longleftrightarrow>
     (\<forall>g pos. rdy g \<longrightarrow> (\<exists>r g1. dd_seek driver h (Absolute pos) g = Done (Inr r, g1) \<and>
        (\<forall>buf. \<exists>n g2. dd_read driver h buf g1 = Done (Inr n, map (\<lambda>i. disk (unat pos + i)) [0 ..< length buf], g2) \<and> rdy g2)))"

definition volume_ok :: "disk_config \<Rightarrow> bool" where
  "volume_ok c \<longleftrightarrow> dc_bytes_per_sector c = 512 \<and> dc_reserved_sectors c < 65536 \<and> 1 \<le> dc_fat_count c \<and> dc_fat_count c < 256
     \<and> 3 \<le> dc_sectors_per_fat c \<and> dc_sectors_per_fat c \<le> 12"

definition fat_area :: "disk_config \<Rightarrow> (nat \<Rightarrow> u8) \<Rightarrow> nat \<Rightarrow> u8" where
  "fat_area c disk i = disk (512 * unat (dc_reserved_sectors c) + i)"

definition root_area :: "disk_config \<Rightarrow> (nat \<Rightarrow> u8) \<Rightarrow> nat \<Rightarrow> u8" where
  "root_area c disk i = disk (512 * (unat (dc_reserved_sectors c) + unat (dc_fat_count c) * unat (dc_sectors_per_fat c)) + i)"

definition fat_ready :: "'g device_drivers \<Rightarrow> (nat \<Rightarrow> u8) \<Rightarrow> ('g \<Rightarrow> bool) \<Rightarrow> fat12_file_system \<Rightarrow> bool" where
  "fat_ready devs disk rdy f \<longleftrightarrow> volume_ok (fat_config f) \<and> length (io_buffer f) = 512 \<and>
     (\<exists>driver. get_device (drive_number f) devs = Some driver \<and> serves_disk driver (drive_access_handle f) disk rdy)"

definition window :: "(nat \<Rightarrow> u8) \<Rightarrow> nat \<Rightarrow> u8 list" where
  "window b s = map (\<lambda>i. b (512 * s + i)) [0 ..< 512]"

lemma length_window [simp]: "length (window b s) = 512"
  by (simp add: window_def)

lemma fat_ready_buffer [simp]: "length b = 512 \<Longrightarrow> fat_ready devs disk rdy f \<Longrightarrow> fat_ready devs disk rdy (f\<lparr>io_buffer := b\<rparr>)"
  by (simp add: fat_ready_def)

lemma disk_fetch:
  assumes "serves_disk driver (drive_access_handle f) disk rdy" "rdy g"
  shows "\<exists>r n g1 g2. disk_seek driver pos (f, g) = Done (Inr r, f, g1) \<and> rdy g2 \<and> disk_read driver (length (io_buffer f)) (f, g1)
      = Done (Inr n, f\<lparr>io_buffer := map (\<lambda>i. disk (unat pos + i)) [0 ..< length (io_buffer f)]\<rparr>, g2)"
proof -
  from assms obtain r g1 where s: "dd_seek driver (drive_access_handle f) (Absolute pos) g = Done (Inr r, g1)"
    "\<And>buf. \<exists>n g2. dd_read driver (drive_access_handle f) buf g1
        = Done (Inr n, map (\<lambda>i. disk (unat pos + i)) [0 ..< length buf], g2) \<and> rdy g2"
    unfolding serves_disk_def by blast
  obtain n g2 where "dd_read driver (drive_access_handle f) (io_buffer f) g1
      = Done (Inr n, map (\<lambda>i. disk (unat pos + i)) [0 ..< length (io_buffer f)], g2)" "rdy g2" using s(2) by blast
  then show ?thesis using s(1) by (simp add: disk_seek_def disk_read_def)
qed

lemma volume_position:
  assumes "volume_ok c" "k < unat (dc_sectors_per_fat c)"
  shows "unat (512 * (dc_reserved_sectors c + of_nat k) :: usize) = 512 * unat (dc_reserved_sectors c) + 512 * k"
proof -
  define R where "R = unat (dc_reserved_sectors c)"
  have "R < 65536" "unat (dc_sectors_per_fat c) \<le> 12" using assms(1) by (auto simp: volume_ok_def word_less_nat_alt word_le_nat_alt R_def)
  then have "unat (of_nat (512 * (R + k)) :: usize) = 512 * (R + k)" using assms(2) by (intro unat_of_nat32) simp
  moreover have "(512 * (dc_reserved_sectors c + of_nat k) :: usize) = of_nat (512 * (R + k))" by (simp add: R_def)
  ultimately show ?thesis by (simp add: R_def)
qed

lemma load_window:
  assumes "fat_ready devs disk rdy f" "rdy g" "k < unat (dc_sectors_per_fat (fat_config f))"
  shows "\<exists>g'. load_sector_of_fat_table devs 0 (of_nat k) (f, g)
      = Done (Inr (), f\<lparr>io_buffer := window (fat_area (fat_config f) disk) k\<rparr>, g') \<and> rdy g'"
proof -
  let ?c = "fat_config f"
  from assms(1) obtain driver where drv: "get_device (drive_number f) devs = Some driver"
    "serves_disk driver (drive_access_handle f) disk rdy" and v: "volume_ok ?c" and l: "length (io_buffer f) = 512"
    by (auto simp: fat_ready_def)
  have k: "\<not> dc_sectors_per_fat ?c \<le> of_nat k"
    using assms(3) v by (simp add: word_le_nat_alt unat_of_nat32 volume_ok_def)
  have pos: "unat (512 * (dc_reserved_sectors ?c + of_nat k) :: usize) = 512 * unat (dc_reserved_sectors ?c) + 512 * k"
    by (rule volume_position [OF v assms(3)])
  have cnt: "\<not> dc_fat_count ?c \<le> 0" using v by (auto simp: volume_ok_def word_le_nat_alt)
  from disk_fetch [OF drv(2) assms(2), of "512 * (dc_reserved_sectors ?c + of_nat k)"] obtain r n g1 g2 where
    "disk_seek driver (512 * (dc_reserved_sectors ?c + of_nat k)) (f, g) = Done (Inr r, f, g1)" "rdy g2"
    "disk_read driver 512 (f, g1) = Done (Inr n, f\<lparr>io_buffer := window (fat_area ?c disk) k\<rparr>, g2)"
    unfolding l pos by (auto simp: window_def fat_area_def add.assoc)
  then show ?thesis using v k cnt
    by (simp add: load_sector_of_fat_table_def get_fat_sectors_def Let_def drv(1) l volume_ok_def)
qed

section \<open>The chain of a file\<close>

definition vars_ok :: "(nat \<Rightarrow> u8) \<Rightarrow> chain_vars \<Rightarrow> u8 list \<Rightarrow> bool" where
  "vars_ok fat v buf \<longleftrightarrow> cv_sector v = 0xffff \<or>
     (\<exists>s < 3. cv_sector v = of_nat s \<and> buf = window fat s \<and> cv_byte_offset v = of_nat s \<and> cv_first_cluster v = Cluster (of_nat (342 * s)))"

text \<open>The variables after sector \<open>s\<close> of the table has been loaded.\<close>

definition at_sector :: "nat \<Rightarrow> chain_vars \<Rightarrow> chain_vars" where
  "at_sector s v = v\<lparr>cv_sector := of_nat s, cv_byte_offset := of_nat s, cv_first_cluster := Cluster (of_nat (342 * s))\<rparr>"

lemma at_sector_simps [simp]:
  "cv_clusters (at_sector s v) = cv_clusters v" "cv_sector (at_sector s v) = of_nat s"
  "cv_byte_offset (at_sector s v) = of_nat s" "cv_first_cluster (at_sector s v) = Cluster (of_nat (342 * s))"
  by (simp_all add: at_sector_def)

lemma vars_ok_at_sector [simp]: "s < 3 \<Longrightarrow> vars_ok fat (at_sector s v) (window fat s)"
  by (auto simp: vars_ok_def at_sector_def)

lemma chain_load_window:
  assumes "fat_ready devs disk rdy f" "rdy g" "s < 2" "vars_ok (fat_area (fat_config f) disk) v (io_buffer f)"
  shows "\<exists>g'. chain_load devs (of_nat s) v (f, g)
      = Done (at_sector s v, f\<lparr>io_buffer := window (fat_area (fat_config f) disk) s\<rparr>, g') \<and> rdy g'"
proof (cases "cv_sector v = of_nat s")
  case True
  have s01: "s = 0 \<or> s = 1" using assms(3) by auto
  have "cv_sector v \<noteq> 0xffff" using True s01 by auto
  then obtain s' where s': "s' < 3" "cv_sector v = of_nat s'" "io_buffer f = window (fat_area (fat_config f) disk) s'"
    "cv_byte_offset v = of_nat s'" "cv_first_cluster v = Cluster (of_nat (342 * s'))"
    using assms(4) unfolding vars_ok_def by blast
  have "unat (of_nat s' :: usize) = unat (of_nat s :: usize)" using s'(2) True by simp
  then have "s' = s" using s'(1) assms(3) by (simp add: unat_of_nat32)
  then have "at_sector s v = v"
    "f\<lparr>io_buffer := window (fat_area (fat_config f) disk) s\<rparr> = f" using s' by (simp_all add: at_sector_def)
  then show ?thesis using True assms(2) by (simp add: chain_load_def)
next
  case False
  have v: "volume_ok (fat_config f)" using assms(1) by (simp add: fat_ready_def)
  then have "s < unat (dc_sectors_per_fat (fat_config f))" using assms(3) by (auto simp: volume_ok_def word_le_nat_alt)
  from load_window [OF assms(1,2) this] obtain g' where
    "load_sector_of_fat_table devs 0 (of_nat s) (f, g) = Done (Inr (), f\<lparr>io_buffer := window (fat_area (fat_config f) disk) s\<rparr>, g')" "rdy g'"
    by blast
  moreover have "s = 0 \<or> s = 1" using assms(3) by auto
  ultimately show ?thesis using False v by (auto simp: chain_load_def clusters_per_sector_def volume_ok_def at_sector_def)
qed

lemma volume_clusters: "volume_ok c \<Longrightarrow> clusters_per_sector c = 342"
  by (simp add: clusters_per_sector_def volume_ok_def)

lemma chain_straddle_window:
  assumes "fat_ready devs disk rdy f" "rdy g" "s < 2"
  defines "fat \<equiv> fat_area (fat_config f) disk"
  shows "\<exists>g'. chain_straddle devs (of_nat s) (of_nat (s + 1)) (at_sector s v) (f, g)
      = Done (fat (512 * (s + 1)), at_sector (s + 1) v, f\<lparr>io_buffer := window fat (s + 1)\<rparr>, g') \<and> rdy g'"
proof -
  have v: "volume_ok (fat_config f)" using assms(1) by (simp add: fat_ready_def)
  then have "s + 1 < unat (dc_sectors_per_fat (fat_config f))" using assms(3) by (auto simp: volume_ok_def word_le_nat_alt)
  from load_window [OF assms(1,2) this] obtain g' where
    "load_sector_of_fat_table devs 0 (of_nat (s + 1)) (f, g) = Done (Inr (), f\<lparr>io_buffer := window fat (s + 1)\<rparr>, g')" "rdy g'"
    by (auto simp: fat_def)
  then show ?thesis using volume_clusters [OF v] by (simp add: chain_straddle_def add.commute window_def at_sector_def)
qed

lemma chain_step_loaded:
  assumes "fat_ready devs disk rdy f" "rdy g" "n < 683" "vars_ok (fat_area (fat_config f) disk) v (io_buffer f)"
  defines "s \<equiv> n div 342" and "cl \<equiv> Cluster (of_nat n)" and "fat \<equiv> fat_area (fat_config f) disk"
  defines "v1 \<equiv> at_sector s (v\<lparr>cv_clusters := cv_clusters v @ [cl]\<rparr>)" and "f1 \<equiv> f\<lparr>io_buffer := window fat s\<rparr>"
  shows "\<exists>g1. rdy g1 \<and> chain_step devs cl v (f, g) =
      obind (get_value cl \<lparr>fat_bytes = window fat s, fat_byte_offset = of_nat s, fat_first_cluster = Cluster (of_nat (342 * s))\<rparr>)
       (\<lambda>value. case value of
         Partial4 part \<Rightarrow> obind (chain_straddle devs (of_nat s) 1 v1 (f1, g1)) (\<lambda>(b, v, fg).
           Done (fat_entry_from_value (ucast part OR push_bit 4 (ucast b)), v, fg))
       | Partial8 part \<Rightarrow> obind (chain_straddle devs (of_nat s) 2 v1 (f1, g1)) (\<lambda>(b, v, fg).
           Done (fat_entry_from_value (ucast part OR push_bit 8 (ucast (b AND 0x0f))), v, fg))
       | Success entry \<Rightarrow> Done (entry, v1, f1, g1)
       | _ \<Rightarrow> Done (NextCluster cl, v1, f1, g1))"
proof -
  have v: "volume_ok (fat_config f)" using assms(1) by (simp add: fat_ready_def)
  have sec: "get_fat_sector_for_cluster cl f = Done (of_nat s)"
    using assms(3) volume_clusters [OF v]
    by (simp add: get_fat_sector_for_cluster_def udiv_def s_def cl_def word_unat_eq_iff unat_div_distrib unat_of_nat32)
  define v0 where "v0 = v\<lparr>cv_clusters := cv_clusters v @ [cl]\<rparr>"
  have s: "s < 2" using assms(3) by (simp add: s_def)
  have "vars_ok fat v0 (io_buffer f)" using assms(4) by (simp add: vars_ok_def v0_def fat_def)
  from chain_load_window [OF assms(1,2) s this [unfolded fat_def]] obtain g1 where
    load: "chain_load devs (of_nat s) v0 (f, g) = Done (v1, f1, g1)" "rdy g1" by (auto simp: v1_def v0_def f1_def fat_def)
  have "\<lparr>fat_bytes = io_buffer f1, fat_byte_offset = cv_byte_offset v1, fat_first_cluster = cv_first_cluster v1\<rparr>
      = \<lparr>fat_bytes = window fat s, fat_byte_offset = of_nat s, fat_first_cluster = Cluster (of_nat (342 * s))\<rparr>"
    by (simp add: v1_def f1_def)
  then have "chain_step devs cl v (f, g) =
      obind (get_value cl \<lparr>fat_bytes = window fat s, fat_byte_offset = of_nat s, fat_first_cluster = Cluster (of_nat (342 * s))\<rparr>)
       (\<lambda>value. case value of
         Partial4 part \<Rightarrow> obind (chain_straddle devs (of_nat s) 1 v1 (f1, g1)) (\<lambda>(b, v, fg).
           Done (fat_entry_from_value (ucast part OR push_bit 4 (ucast b)), v, fg))
       | Partial8 part \<Rightarrow> obind (chain_straddle devs (of_nat s) 2 v1 (f1, g1)) (\<lambda>(b, v, fg).
           Done (fat_entry_from_value (ucast part OR push_bit 8 (ucast (b AND 0x0f))), v, fg))
       | Success entry \<Rightarrow> Done (entry, v1, f1, g1)
       | _ \<Rightarrow> Done (NextCluster cl, v1, f1, g1))"
    by (simp only: chain_step_def Let_def fst_conv sec v0_def [symmetric] load(1) obind.simps prod.case)
  then show ?thesis using load(2) by blast
qed

lemma straddling_entries:
  fixes n :: nat
  assumes "n < 683"
  shows "3 * n div 2 - 512 * (n div 342) + 1 < 512 \<or> n = 341 \<or> n = 682"
proof (cases "n < 342")
  case True
  then show ?thesis by simp linarith
next
  case False
  then have "n div 342 = 1" using assms by simp
  then show ?thesis using assms by simp linarith
qed

lemma chain_step_entry:
  assumes "fat_ready devs disk rdy f" "rdy g" "n < 683" "vars_ok (fat_area (fat_config f) disk) v (io_buffer f)"
  shows "\<exists>v' b g'. chain_step devs (Cluster (of_nat n)) v (f, g)
      = Done (fat_entry_from_value (fat_value (fat_area (fat_config f) disk) n), v', f\<lparr>io_buffer := b\<rparr>, g')
      \<and> length b = 512 \<and> rdy g' \<and> vars_ok (fat_area (fat_config f) disk) v' b \<and> cv_clusters v' = cv_clusters v @ [Cluster (of_nat n)]"
proof -
  define fat where "fat = fat_area (fat_config f) disk"
  define s where "s = n div 342"
  define v0 where "v0 = v\<lparr>cv_clusters := cv_clusters v @ [Cluster (of_nat n)]\<rparr>"
  define f1 where "f1 = f\<lparr>io_buffer := window fat s\<rparr>"
  have s: "s < 2" "342 * s \<le> n" "n < 342 * s + 342" using assms(3) by (simp_all add: s_def)
  from chain_step_loaded [OF assms] obtain g1 where g1: "rdy g1" and step: "chain_step devs (Cluster (of_nat n)) v (f, g) =
      obind (get_value (Cluster (of_nat n)) \<lparr>fat_bytes = window fat s, fat_byte_offset = of_nat s, fat_first_cluster = Cluster (of_nat (342 * s))\<rparr>)
       (\<lambda>value. case value of
         Partial4 part \<Rightarrow> obind (chain_straddle devs (of_nat s) 1 (at_sector s v0) (f1, g1)) (\<lambda>(b, v, fg).
           Done (fat_entry_from_value (ucast part OR push_bit 4 (ucast b)), v, fg))
       | Partial8 part \<Rightarrow> obind (chain_straddle devs (of_nat s) 2 (at_sector s v0) (f1, g1)) (\<lambda>(b, v, fg).
           Done (fat_entry_from_value (ucast part OR push_bit 8 (ucast (b AND 0x0f))), v, fg))
       | Success entry \<Rightarrow> Done (entry, at_sector s v0, f1, g1)
       | _ \<Rightarrow> Done (NextCluster (Cluster (of_nat n)), at_sector s v0, f1, g1))"
    unfolding s_def fat_def v0_def f1_def by blast
  have "fat_ready devs disk rdy f1" "fat_area (fat_config f1) disk = fat" using assms(1) by (simp_all add: f1_def fat_def)
  from chain_straddle_window [OF this(1) g1 s(1), of v0, unfolded this(2)] obtain g2 where
    str: "chain_straddle devs (of_nat s) (of_nat (s + 1)) (at_sector s v0) (f1, g1)
      = Done (fat (512 * (s + 1)), at_sector (s + 1) v0, f\<lparr>io_buffer := window fat (s + 1)\<rparr>, g2)" "rdy g2"
    by (auto simp: f1_def)
  note gv = get_value_window [where b = fat and org = "512 * s" and len = 512 and off = s and ?n0.0 = "342 * s" and n = n,
      OF refl, folded window_def]
  have gvp: "3 * (342 * s) = 2 * (512 * s + s)" "342 * s \<le> n" "n < 4096" "(512 :: nat) < 2 ^ 16" "s < 3"
    using s assms(3) by simp_all
  consider "3 * n div 2 - 512 * s + 1 < 512" | "3 * n div 2 - 512 * s + 1 = 512" "odd n" "s = 0" "3 * n div 2 = 511"
    | "3 * n div 2 - 512 * s + 1 = 512" "even n" "s = 1" "3 * n div 2 = 1023"
    using straddling_entries [OF assms(3)] by (auto simp: s_def)
  then show ?thesis
  proof cases
    case 1
    show ?thesis unfolding step fat_def [symmetric]
      using gv(1) [OF gvp 1] g1 s(1) by (auto simp: f1_def v0_def)
  next
    case 2
    have "fat_value fat n = ucast (drop_bit 4 (fat 511)) OR push_bit 4 (ucast (fat (512 * (s + 1))))"
      using 2 by (simp add: fat_value_def)
    then show ?thesis unfolding step fat_def [symmetric] using 2 gv(3) [OF gvp 2(1,2)] str by (auto simp: v0_def)
  next
    case 3
    have "fat_value fat n = ucast (fat 1023) OR push_bit 8 (ucast (fat (512 * (s + 1)) AND 0x0f))"
      using 3 by (simp add: fat_value_def)
    then show ?thesis unfolding step fat_def [symmetric] using 3 gv(2) [OF gvp 3(1,2)] str by (auto simp: v0_def)
  qed
qed

text \<open>From cluster 683 on the entries computed per sector no longer fit: the entry that starts behind the
  second sector is looked for in it, and the access behind the buffer panics.\<close>

lemma cluster_683_panics:
  "get_value (Cluster 683) \<lparr>fat_bytes = window fat 1, fat_byte_offset = 1, fat_first_cluster = Cluster 342\<rparr> = Panic"
  using get_value_window(4) [where b = fat and org = 512 and len = 512 and off = 1 and ?n0.0 = 342 and n = 683, OF refl]
  by (simp add: window_def)

text \<open>A chain in the table: each entry names the next cluster, the last one none.\<close>

fun fat_chain :: "(nat \<Rightarrow> u8) \<Rightarrow> cluster list \<Rightarrow> bool" where
  "fat_chain fat [] = False"
| "fat_chain fat [c] = (\<not> has_next (fat_entry_from_value (fat_value fat (unat (cl_usize c)))))"
| "fat_chain fat (c # d # cs) = (fat_entry_from_value (fat_value fat (unat (cl_usize c))) = NextCluster d \<and> fat_chain fat (d # cs))"

lemma chain_loop_follows:
  assumes "fat_ready devs disk rdy f" "rdy g" "vars_ok (fat_area (fat_config f) disk) v (io_buffer f)"
    and "fat_chain (fat_area (fat_config f) disk) cs" "list_all (\<lambda>c. cl_usize c < 683) cs"
  shows "\<exists>v' b g'. chain_loop devs (NextCluster (hd cs)) v (f, g) = Some (Done (v', f\<lparr>io_buffer := b\<rparr>, g'))
      \<and> length b = 512 \<and> rdy g' \<and> cv_clusters v' = cv_clusters v @ cs"
  using assms
proof (induction cs arbitrary: v f g)
  case (Cons c cs)
  let ?fat = "fat_area (fat_config f) disk"
  have "unat (cl_usize c) < 683" "c = Cluster (of_nat (unat (cl_usize c)))"
    using Cons.prems(5) by (simp_all add: word_less_nat_alt)
  from chain_step_entry [OF Cons.prems(1,2) this(1) Cons.prems(3)] this(2) obtain v1 b g1 where
    step: "chain_step devs c v (f, g) = Done (fat_entry_from_value (fat_value ?fat (unat (cl_usize c))), v1, f\<lparr>io_buffer := b\<rparr>, g1)"
    "length b = 512" "rdy g1" "vars_ok ?fat v1 b" "cv_clusters v1 = cv_clusters v @ [c]" by auto
  show ?case
  proof (cases "cs = []")
    case True
    then have "\<not> has_next (fat_entry_from_value (fat_value ?fat (unat (cl_usize c))))" using Cons.prems(4) by simp
    then have "chain_loop devs (fat_entry_from_value (fat_value ?fat (unat (cl_usize c)))) v1 (f\<lparr>io_buffer := b\<rparr>, g1)
        = Some (Done (v1, f\<lparr>io_buffer := b\<rparr>, g1))"
      by (subst chain_loop.simps) (simp add: has_next_def split: fat_entry.splits)
    then have "chain_loop devs (NextCluster c) v (f, g) = Some (Done (v1, f\<lparr>io_buffer := b\<rparr>, g1))"
      by (subst chain_loop.simps) (simp add: step(1))
    then show ?thesis using step True by auto
  next
    case False
    then have e: "fat_entry_from_value (fat_value ?fat (unat (cl_usize c))) = NextCluster (hd cs)" "fat_chain ?fat cs"
      using Cons.prems(4) by (cases cs; simp)+
    have "chain_loop devs (NextCluster c) v (f, g) = chain_loop devs (NextCluster (hd cs)) v1 (f\<lparr>io_buffer := b\<rparr>, g1)"
      by (subst chain_loop.simps) (simp add: step(1) e(1))
    moreover have "\<exists>v' b' g'. chain_loop devs (NextCluster (hd cs)) v1 (f\<lparr>io_buffer := b\<rparr>, g1) = Some (Done (v', f\<lparr>io_buffer := b\<rparr>\<lparr>io_buffer := b'\<rparr>, g'))
        \<and> length b' = 512 \<and> rdy g' \<and> cv_clusters v' = cv_clusters v1 @ cs"
      using Cons.prems(1,5) step e(2) by (intro Cons.IH) simp_all
    ultimately show ?thesis using step(5) by auto
  qed
qed simp

lemma get_cluster_chain_follows:
  assumes "fat_ready devs disk rdy f" "rdy g"
    and "fat_chain (fat_area (fat_config f) disk) cs" "list_all (\<lambda>c. cl_usize c < 683) cs"
  shows "\<exists>b g'. get_cluster_chain devs (hd cs) (f, g) = Done (Inr cs, f\<lparr>io_buffer := b\<rparr>, g') \<and> length b = 512 \<and> rdy g'"
proof -
  let ?v = "\<lparr>cv_clusters = [], cv_sector = 0xffff, cv_byte_offset = 0, cv_first_cluster = Cluster 0\<rparr>"
  have "vars_ok (fat_area (fat_config f) disk) ?v (io_buffer f)" by (simp add: vars_ok_def)
  from chain_loop_follows [OF assms(1,2) this assms(3,4)] show ?thesis by (auto simp: get_cluster_chain_def)
qed

section \<open>The root directory\<close>

abbreviation entry_at :: "(nat \<Rightarrow> u8) \<Rightarrow> nat \<Rightarrow> directory_entry" where
  "entry_at b i \<equiv> directory_entry_at b (32 * i)"

text \<open>The entries of a sector: those before the first empty one, at most sixteen.\<close>

definition sector_entries :: "(nat \<Rightarrow> u8) \<Rightarrow> directory_entry list" where
  "sector_entries b = takeWhile (\<lambda>e. \<not> fe_is_empty e) (map (entry_at b) [0 ..< 16])"

lemma entry_at_cong:
  assumes "\<And>i. i < 512 \<Longrightarrow> b i = b' i" "j < 16"
  shows "entry_at b j = entry_at b' j"
proof -
  have "b (32 * j + i) = b' (32 * j + i)" if "i < 32" for i using assms that by simp
  moreover from this have "b (i + 32 * j) = b' (i + 32 * j)" if "i < 32" for i using that by (metis add.commute)
  ultimately show ?thesis by (simp add: directory_entry_at_def field16_def field32_def add.assoc)
qed

lemma scan_entries_spec:
  fixes b :: "nat \<Rightarrow> u8"
  assumes "j \<le> 16"
  defines "es \<equiv> takeWhile (\<lambda>e. \<not> fe_is_empty e) (map (entry_at b) [j ..< 16])"
  shows "scan_entries (16 - j) b name ext \<lparr>dit_start = 0, dit_max_count = 16, dit_current = of_nat j\<rparr> cnt
      = (case find (name_matches_search name ext) es of
           Some e \<Rightarrow> (Some e, cnt + of_nat (length (takeWhile (\<lambda>e. \<not> name_matches_search name ext e) es)) + 1)
         | None \<Rightarrow> (None, cnt + of_nat (length es)))"
  using assms(1) unfolding es_def
proof (induction "16 - j" arbitrary: j cnt)
  case 0
  then show ?case by simp
next
  case (Suc x)
  then have j: "j < 16" "16 - j = Suc (16 - Suc j)" "x = 16 - Suc j" by simp_all
  have up: "[j ..< 16] = j # [Suc j ..< 16]" using j(1) by (rule upt_conv_Cons)
  have u: "unat (of_nat j :: usize) = j" "\<not> (16 :: usize) \<le> of_nat j" using j(1) by (simp_all add: unat_of_nat32 word_le_nat_alt)
  have "(of_nat j + 1 :: usize) = of_nat (Suc j)" by simp
  then show ?case unfolding j(2) up
    using Suc.hyps(1) [OF j(3), of "cnt + 1"] j(1) u
    by (auto simp: dir_iter_next_def Let_def add_ac split: option.splits)
qed

lemma root_window_entries:
  "takeWhile (\<lambda>e. \<not> fe_is_empty e) (map (entry_at (buffer_byte behind (window b 0))) [0 ..< 16]) = sector_entries b"
proof -
  have "map (entry_at (buffer_byte behind (window b 0))) [0 ..< 16] = map (entry_at b) [0 ..< 16]"
    by (intro map_cong refl entry_at_cong) (simp_all add: buffer_byte_def window_def)
  then show ?thesis by (simp only: sector_entries_def)
qed

text \<open>The first sector of the root directory and the iterator over it.\<close>

definition root_sector :: "disk_config \<Rightarrow> usize" where
  "root_sector c = dc_reserved_sectors c + dc_fat_count c * dc_sectors_per_fat c"

definition root_iter :: "disk_config \<Rightarrow> chain_sector_iterator" where
  "root_iter c = \<lparr>it_clusters = [], it_cluster_index = 0, it_sector_index = 0, it_sectors_per_cluster = dc_sectors_per_cluster c,
     it_root_dir_sectors = \<lparr>sr_first = root_sector c, sr_count = get_root_directory_size c div 512\<rparr>,
     it_data_sectors = \<lparr>sr_first = root_sector c,
       sr_count = dc_total_sectors c - root_sector c\<rparr>\<rparr>"

lemma sector_iter_root: "volume_ok c \<Longrightarrow> sector_iter [] c = Done (root_iter c)"
  by (simp add: sector_iter_def get_root_directory_sectors_def get_data_sectors_def udiv_def volume_ok_def root_iter_def root_sector_def)

lemma sector_iter_next_root:
  "sector_iter_next (root_iter c) = Done (Some (root_sector c), root_iter c)"
  by (simp add: sector_iter_next_def root_iter_def)

lemma root_position:
  assumes "volume_ok c"
  shows "unat (root_sector c * 512 :: usize)
    = 512 * (unat (dc_reserved_sectors c) + unat (dc_fat_count c) * unat (dc_sectors_per_fat c))"
proof -
  define R N F where "R = unat (dc_reserved_sectors c)" and "N = unat (dc_fat_count c)" and "F = unat (dc_sectors_per_fat c)"
  have "R < 65536" "N < 256" "F \<le> 12" using assms by (auto simp: volume_ok_def word_less_nat_alt word_le_nat_alt R_def N_def F_def)
  then have "N * F \<le> 255 * 12" by (intro mult_mono) simp_all
  then have "unat (of_nat ((R + N * F) * 512) :: usize) = (R + N * F) * 512" using \<open>R < 65536\<close> by (intro unat_of_nat32) simp
  moreover have "(root_sector c * 512 :: usize) = of_nat ((R + N * F) * 512)"
    by (simp add: R_def N_def F_def root_sector_def)
  ultimately show ?thesis by (simp add: R_def N_def F_def)
qed

lemma fetch_root:
  assumes "volume_ok (fat_config f)" "length (io_buffer f) = 512" "serves_disk driver (drive_access_handle f) disk rdy" "rdy g"
  defines "c \<equiv> fat_config f"
  shows "\<exists>n g'. try_op (disk_seek driver (root_sector c * 512) (f, g))
      (\<lambda>_ fg. disk_read driver (length (io_buffer (fst fg))) fg)
      = Done (Inr n, f\<lparr>io_buffer := window (root_area c disk) 0\<rparr>, g') \<and> rdy g'"
proof -
  let ?pos = "root_sector c * 512"
  have "map (\<lambda>i. disk (unat ?pos + i)) [0 ..< 512] = window (root_area c disk) 0"
    unfolding root_position [OF assms(1), folded c_def] window_def root_area_def by simp
  with disk_fetch [OF assms(3,4), of ?pos] assms(2) show ?thesis by auto
qed

lemma find_entry_loop_root:
  assumes "volume_ok (fat_config f)" "length (io_buffer f) = 512" "serves_disk driver (drive_access_handle f) disk rdy" "rdy g"
  defines "es \<equiv> sector_entries (root_area (fat_config f) disk)" and "f' \<equiv> f\<lparr>io_buffer := window (root_area (fat_config f) disk) 0\<rparr>"
  shows "\<exists>g'. rdy g' \<and> find_entry_loop behind driver name ext (root_iter (fat_config f)) (f, g) =
     (case find (name_matches_search name ext) es of
        Some e \<Rightarrow> Some (Done (Inr e, f', g'))
      | None \<Rightarrow> if length es < 16 then Some (Done (Inl (), f', g'))
               else find_entry_loop behind driver name ext (root_iter (fat_config f)) (f', g'))"
proof -
  from fetch_root [OF assms(1-4)] obtain n g' where fetch: "rdy g'"
    "try_op (disk_seek driver (root_sector (fat_config f) * 512) (f, g))
       (\<lambda>_ fg. disk_read driver (length (io_buffer (fst fg))) fg) = Done (Inr n, f', g')" by (auto simp: f'_def)
  have bps: "dc_bytes_per_sector (fat_config f) = 512" using assms(1) by (simp add: volume_ok_def)
  have "length es \<le> 16" using length_takeWhile_le [of _ "map (entry_at (root_area (fat_config f) disk)) [0 ..< 16]"]
    by (simp add: es_def sector_entries_def)
  then have lt: "(of_nat (length es) :: usize) < 16 \<longleftrightarrow> length es < 16" by (simp add: word_less_nat_alt unat_of_nat32)
  have scan: "scan_entries 16 (buffer_byte behind (io_buffer f')) name ext \<lparr>dit_start = 0, dit_max_count = 16, dit_current = 0\<rparr> 0
      = (case find (name_matches_search name ext) es of
           Some e \<Rightarrow> (Some e, of_nat (length (takeWhile (\<lambda>e. \<not> name_matches_search name ext e) es)) + 1)
         | None \<Rightarrow> (None, of_nat (length es)))"
    using scan_entries_spec [of 0 "buffer_byte behind (window (root_area (fat_config f) disk) 0)" name ext 0, unfolded root_window_entries]
    by (simp add: f'_def es_def split: option.splits)
  have "find_entry_loop behind driver name ext (root_iter (fat_config f)) (f, g) =
     (case find (name_matches_search name ext) es of
        Some e \<Rightarrow> Some (Done (Inr e, f', g'))
      | None \<Rightarrow> if length es < 16 then Some (Done (Inl (), f', g'))
               else find_entry_loop behind driver name ext (root_iter (fat_config f)) (f', g'))"
    by (subst find_entry_loop.simps)
      (simp add: sector_iter_next_root bps fetch(2) DIRECTORY_ENTRY_SIZE_def scan lt split: option.splits)
  then show ?thesis using fetch(1) by blast
qed

text \<open>The iterator never leaves the first sector: a full sector without a match is read for ever.\<close>

definition full_root :: "(nat \<Rightarrow> u8) \<Rightarrow> ('g \<Rightarrow> bool) \<Rightarrow> 'g device_driver \<Rightarrow> u8 list \<Rightarrow> u8 list \<Rightarrow> chain_sector_iterator \<Rightarrow> 'g fat_state \<Rightarrow> bool" where
  "full_root disk rdy driver name ext it fg \<longleftrightarrow>
     (case fg of (f, g) \<Rightarrow> it = root_iter (fat_config f) \<and> volume_ok (fat_config f) \<and> length (io_buffer f) = 512
      \<and> serves_disk driver (drive_access_handle f) disk rdy \<and> rdy g
      \<and> find (name_matches_search name ext) (sector_entries (root_area (fat_config f) disk)) = None
      \<and> length (sector_entries (root_area (fat_config f) disk)) = 16)"

lemma find_entry_loop_full:
  assumes "find_entry_loop behind driver name ext it fg = Some y"
  shows "\<not> full_root disk rdy driver name ext it fg"
proof (rule find_entry_loop.raw_induct [where P = "\<lambda>behind driver name ext it fg y. \<not> full_root disk rdy driver name ext it fg", OF _ assms], goal_cases)
  case (1 loop behind driver name ext it fg y)
  show ?case
  proof
    assume full: "full_root disk rdy driver name ext it fg"
    obtain f g where fg: "fg = (f, g)" by (cases fg)
    have a: "volume_ok (fat_config f)" "length (io_buffer f) = 512" "serves_disk driver (drive_access_handle f) disk rdy" "rdy g"
      "it = root_iter (fat_config f)"
      "find (name_matches_search name ext) (sector_entries (root_area (fat_config f) disk)) = None"
      "length (sector_entries (root_area (fat_config f) disk)) = 16" using full by (simp_all add: full_root_def fg)
    define f' where "f' = f\<lparr>io_buffer := window (root_area (fat_config f) disk) 0\<rparr>"
    from fetch_root [OF a(1-4)] obtain n g' where fetch: "rdy g'"
      "try_op (disk_seek driver (root_sector (fat_config f) * 512) (f, g))
         (\<lambda>_ fg. disk_read driver (length (io_buffer (fst fg))) fg) = Done (Inr n, f', g')" by (auto simp: f'_def)
    have bps: "dc_bytes_per_sector (fat_config f) = 512" using a(1) by (simp add: volume_ok_def)
    have "scan_entries 16 (buffer_byte behind (io_buffer f')) name ext \<lparr>dit_start = 0, dit_max_count = 16, dit_current = 0\<rparr> 0 = (None, 16)"
      using scan_entries_spec [of 0 "buffer_byte behind (window (root_area (fat_config f) disk) 0)" name ext 0, unfolded root_window_entries] a(6,7)
      by (simp add: f'_def)
    then have "loop behind driver name ext it (f', g') = Some y"
      using 1(2) by (simp add: a(5) fg sector_iter_next_root bps fetch(2) DIRECTORY_ENTRY_SIZE_def)
    from 1(1) [OF this] show False using a fetch(1) by (simp add: full_root_def f'_def)
  qed
qed

lemma find_entry_root:
  assumes "fat_ready devs disk rdy f" "rdy g"
  defines "es \<equiv> sector_entries (root_area (fat_config f) disk)" and "f' \<equiv> f\<lparr>io_buffer := window (root_area (fat_config f) disk) 0\<rparr>"
  shows "case find (name_matches_search name ext) es of
      Some e \<Rightarrow> \<exists>g'. rdy g' \<and> find_entry_in_directory behind devs name ext [] (f, g) = Done (Inr e, f', g')
    | None \<Rightarrow> if length es < 16 then \<exists>g'. rdy g' \<and> find_entry_in_directory behind devs name ext [] (f, g) = Done (Inl (), f', g')
             else find_entry_in_directory behind devs name ext [] (f, g) = Hang"
proof -
  from assms(1) obtain driver where drv: "get_device (drive_number f) devs = Some driver"
    "serves_disk driver (drive_access_handle f) disk rdy" and v: "volume_ok (fat_config f)" "length (io_buffer f) = 512"
    by (auto simp: fat_ready_def)
  have eq: "find_entry_in_directory behind devs name ext [] (f, g) =
      (case find_entry_loop behind driver name ext (root_iter (fat_config f)) (f, g) of None \<Rightarrow> Hang | Some r \<Rightarrow> r)"
    by (simp add: find_entry_in_directory_def drv(1) sector_iter_root [OF v(1)])
  have le: "length es \<le> 16" using length_takeWhile_le [of _ "map (entry_at (root_area (fat_config f) disk)) [0 ..< 16]"]
    by (simp add: es_def sector_entries_def)
  show ?thesis
  proof (cases "find (name_matches_search name ext) es = None \<and> \<not> length es < 16")
    case True
    have "find_entry_loop behind driver name ext (root_iter (fat_config f)) (f, g) = None"
    proof (cases "find_entry_loop behind driver name ext (root_iter (fat_config f)) (f, g)")
      case (Some y)
      have "full_root disk rdy driver name ext (root_iter (fat_config f)) (f, g)"
        using True drv(2) v assms(2) le by (simp add: full_root_def es_def)
      then show ?thesis using find_entry_loop_full [OF Some] by blast
    qed
    then show ?thesis using True eq by simp
  next
    case False
    then show ?thesis using find_entry_loop_root [OF v drv(2) assms(2), where name = name and ext = ext and behind = behind]
      unfolding eq es_def [symmetric] f'_def [symmetric] by (auto split: option.splits)
  qed
qed

text \<open>C19: opening a file on a FAT12 disk.  On a volume with sectors of 512 bytes and a table of 3 to 12 sectors, and
  over any driver that serves the bytes of the disk, opening a path looks its last component up,
  in 8.3 form, among the entries of the first sector of the root directory.  If one matches, a handle is returned whose open file has
  exactly the clusters of the chain that the allocation table holds from the first cluster of that entry on, for every
  chain of clusters below 683, entries that straddle two sectors included.  If none matches, the result is an error when the sector
  has an empty entry, and the search never ends when it has none.\<close>

theorem fat12_open_correct:
  assumes "fat_ready devs disk rdy f" "rdy g"
    and "file_name_components_from_string (last (split_backslash path)) = (name, ext)"
    and "\<And>e. find (name_matches_search name ext) (sector_entries (root_area (fat_config f) disk)) = Some e \<Longrightarrow>
      hd cs = get_first_cluster e \<and> fat_chain (fat_area (fat_config f) disk) cs \<and> list_all (\<lambda>c. cl_usize c < 683) cs"
  shows "case find (name_matches_search name ext) (sector_entries (root_area (fat_config f) disk)) of
      Some e \<Rightarrow> \<exists>h f' g'. fat_open behind devs path (f, g) = Done (Inr h, f', g') \<and> rdy g' \<and> fat_ready devs disk rdy f'
        \<and> bt_get (fat_open_files f') h = Some \<lparr>fo_cursor = 0, fo_file_type = FtFile, fo_clusters = cs\<rparr>
    | None \<Rightarrow>
        if length (sector_entries (root_area (fat_config f) disk)) < 16
        then \<exists>f' g'. fat_open behind devs path (f, g) = Done (Inl (), f', g') \<and> rdy g' \<and> fat_ready devs disk rdy f'
        else fat_open behind devs path (f, g) = Hang"
proof (cases "find (name_matches_search name ext) (sector_entries (root_area (fat_config f) disk))")
  case None
  have "fat_ready devs disk rdy (f\<lparr>io_buffer := window (root_area (fat_config f) disk) 0\<rparr>)" using assms(1) by simp
  then show ?thesis using None find_entry_root [OF assms(1,2), where name = name and ext = ext and behind = behind]
    by (auto simp: fat_open_def Let_def assms(3) split: if_splits)
next
  case (Some e)
  define f1 where "f1 = f\<lparr>io_buffer := window (root_area (fat_config f) disk) 0\<rparr>"
  have r1: "fat_ready devs disk rdy f1" "fat_config f1 = fat_config f" using assms(1) by (simp_all add: f1_def)
  from find_entry_root [OF assms(1,2), where name = name and ext = ext and behind = behind] Some obtain g1 where
    find: "rdy g1" "find_entry_in_directory behind devs name ext [] (f, g) = Done (Inr e, f1, g1)" by (auto simp: f1_def)
  have cs: "hd cs = get_first_cluster e" "fat_chain (fat_area (fat_config f1) disk) cs" "list_all (\<lambda>c. cl_usize c < 683) cs"
    using assms(4) [OF Some] r1(2) by simp_all
  from get_cluster_chain_follows [OF r1(1) find(1) cs(2,3)] obtain b g2 where
    chain: "get_cluster_chain devs (get_first_cluster e) (f1, g1) = Done (Inr cs, f1\<lparr>io_buffer := b\<rparr>, g2)" "length b = 512" "rdy g2"
    by (auto simp: cs(1))
  have "fat_ready devs disk rdy (f1\<lparr>io_buffer := b, fat_allocator := x, fat_open_files := y\<rparr>)" for x y
    using r1(1) chain(2) by (simp add: fat_ready_def)
  then show ?thesis using Some chain find(2)
    by (simp add: fat_open_def Let_def assms(3) insert_open_file_def ha_get_next_def)
qed

text \<open>A disk in memory with one file whose chain crosses the end of the first sector of the table.\<close>

definition sample_disk :: "nat \<Rightarrow> u8" where
  "sample_disk i =
     (if i = 515 then 0xff else if i = 516 then 0x0f else if i = 1023 then 0x20
      else if i = 2048 then 0x41 else if 2049 \<le> i \<and> i < 2059 then 0x20
      else if i = 2074 then 0x55 else if i = 2075 then 1 else 0)"

definition ram_disk :: "(nat \<Rightarrow> u8) \<Rightarrow> nat device_driver" where
  "ram_disk disk = default_driver
     \<lparr>dd_seek := \<lambda>h off g. (case off of Absolute pos \<Rightarrow> Done (Inr pos, unat pos) | Relative _ \<Rightarrow> Done (Inl (), g)),
      dd_read := \<lambda>h buf g. Done (Inr (of_nat (length buf)), map (\<lambda>i. disk (g + i)) [0 ..< length buf], g + length buf)\<rparr>"

definition sample_volume :: fat12_file_system where
  "sample_volume = (fat12_file_system_new 1 (LocalHandle 1))
     \<lparr>fat_config := disk_config_empty\<lparr>dc_sectors_per_fat := 3\<rparr>\<rparr>"

definition sample_drivers :: "nat device_drivers" where
  "sample_drivers = \<lparr>drivers = [ram_disk sample_disk], device_names = []\<rparr>"

theorem fat12_open_correct_witness:
  "\<exists>h f' g'. fat_open (\<lambda>_. 0) sample_drivers (''DIR'' @ [CHR 0x5c] @ ''a'') (sample_volume, 0) = Done (Inr h, f', g')
     \<and> bt_get (fat_open_files f') h = Some \<lparr>fo_cursor = 0, fo_file_type = FtFile, fo_clusters = [Cluster 341, Cluster 2]\<rparr>"
proof -
  let ?name = "[0x61, 0x20, 0x20, 0x20, 0x20, 0x20, 0x20, 0x20] :: u8 list" and ?ext = "[0x20, 0x20, 0x20] :: u8 list"
  have "serves_disk (ram_disk sample_disk) h sample_disk (\<lambda>_. True)" for h
    by (simp add: serves_disk_def ram_disk_def default_driver_def)
  then have r: "fat_ready sample_drivers sample_disk (\<lambda>_. True) sample_volume"
    by (simp add: fat_ready_def volume_ok_def sample_volume_def sample_drivers_def fat12_file_system_new_def
        disk_config_empty_def get_device_def nth_opt_def)
  have nm: "file_name_components_from_string (last (split_backslash (''DIR'' @ [CHR 0x5c] @ ''a''))) = (?name, ?ext)"
  proof -
    have "replicate 8 x = [x, x, x, x, x, x, x, x]" "replicate 3 x = [x, x, x]" for x :: u8 by (simp_all add: numeral_eq_Suc)
    then show ?thesis by (simp add: file_name_components_from_string_def str_bytes_def of_char_def)
  qed
  have area: "root_area (fat_config sample_volume) sample_disk = (\<lambda>i. sample_disk (2048 + i))"
    "fat_area (fat_config sample_volume) sample_disk = (\<lambda>i. sample_disk (512 + i))"
    by (simp_all add: root_area_def fat_area_def fun_eq_iff sample_volume_def fat12_file_system_new_def disk_config_empty_def)
  have up: "[0 ..< 16] = 0 # 1 # [2 ..< 16]" by (simp add: upt_rec numeral_eq_Suc)
  have "sector_entries (\<lambda>i. sample_disk (2048 + i)) = [entry_at (\<lambda>i. sample_disk (2048 + i)) 0]"
    unfolding sector_entries_def up by (simp add: fe_is_empty_def directory_entry_at_def sample_disk_def)
  moreover have "name_matches_search ?name ?ext (entry_at (\<lambda>i. sample_disk (2048 + i)) 0)"
    by (simp add: name_matches_search_def directory_entry_at_def sample_disk_def name_character_matches_def upt_rec)
  ultimately have f: "find (name_matches_search ?name ?ext) (sector_entries (root_area (fat_config sample_volume) sample_disk))
      = Some (entry_at (\<lambda>i. sample_disk (2048 + i)) 0)" unfolding area by simp
  have cl: "get_first_cluster (entry_at (\<lambda>i. sample_disk (2048 + i)) 0) = Cluster 341"
    by (simp add: get_first_cluster_def directory_entry_at_def field16_def sample_disk_def)
  have ch: "fat_chain (\<lambda>i. sample_disk (512 + i)) [Cluster 341, Cluster 2]"
    by (simp add: fat_value_def sample_disk_def fat_entry_from_value_def has_next_def)
  have "hd [Cluster 341, Cluster 2] = get_first_cluster e \<and> fat_chain (fat_area (fat_config sample_volume) sample_disk) [Cluster 341, Cluster 2]
      \<and> list_all (\<lambda>c. cl_usize c < 683) [Cluster 341, Cluster 2]"
    if "find (name_matches_search ?name ?ext) (sector_entries (root_area (fat_config sample_volume) sample_disk)) = Some e" for e
    using that f cl ch area by simp
  from fat12_open_correct [OF r TrueI nm this, where g = 0 and behind = "\<lambda>_. 0"] f show ?thesis by auto
qed

end
