(* ===== verification/Floppy.thy ===== *)
theory Floppy
  imports Devices Ports BTree Regions
begin

text \<open>
  The floppy disk: sectors (\<^verbatim>\<open>drivers/floppy/sector.rs\<close>), the ISA DMA controller
  (\<^verbatim>\<open>hardware/dma.rs\<close>), the floppy disk controller (\<^verbatim>\<open>hardware/floppy.rs\<close>) and the device driver
  (\<^verbatim>\<open>drivers/floppy/mod.rs\<close>).  The hardware is a bus, a parameter.  Waiting gives the processor to
  other processes and to interrupt handlers; what they do until the caller runs again is a
  parameter too, functions on the state of the controller and the hardware.
\<close>

section \<open>Sectors\<close>

datatype sector = Sector (sector_lba: usize)

definition SECTORS_PER_TRACK :: usize where "SECTORS_PER_TRACK = 18"
definition SECTOR_SIZE :: usize where "SECTOR_SIZE = 512"

definition to_chs :: "sector \<Rightarrow> usize \<times> usize \<times> usize" where
  "to_chs sec =
     (let n = sector_lba sec;
          c = n div (2 * SECTORS_PER_TRACK);
          h = (n mod (2 * SECTORS_PER_TRACK)) div SECTORS_PER_TRACK;
          s = (n mod (2 * SECTORS_PER_TRACK)) mod SECTORS_PER_TRACK + 1
      in (c, h, s))"

record floppy_range =
  fr_first :: sector
  fr_count :: usize

definition for_byte_range :: "usize \<Rightarrow> usize \<Rightarrow> floppy_range" where
  "for_byte_range start len =
     (let sector_start = start AND NOT (SECTOR_SIZE - 1);
          range_end = start + len;
          sector_count = (range_end - sector_start) div SECTOR_SIZE;
          sector_count = (if range_end AND (SECTOR_SIZE - 1) \<noteq> 0 then sector_count + 1 else sector_count)
      in \<lparr>fr_first = Sector (sector_start div SECTOR_SIZE), fr_count = sector_count\<rparr>)"

definition fr_byte_length :: "floppy_range \<Rightarrow> usize" where
  "fr_byte_length r = fr_count r * SECTOR_SIZE"

definition get_local_offset :: "usize \<Rightarrow> floppy_range \<Rightarrow> usize" where
  "get_local_offset absolute r =
     (let start = sector_lba (fr_first r) * SECTOR_SIZE
      in if absolute < start then 0 else absolute - start)"

section \<open>The DMA controller\<close>

record channel_registers =
  ch_start_address :: port
  ch_count_register :: port
  ch_page :: port
  ch_mode :: port
  ch_flip_flop_reset :: port
  ch_multi_channel_mask :: port

text \<open>The registers of \<^verbatim>\<open>DMARegisters::low_channels\<close> for one channel.\<close>

definition get_channel_registers :: "u8 \<Rightarrow> channel_registers outcome" where
  "get_channel_registers channel =
     (let regs = (\<lambda>a n p. \<lparr>ch_start_address = a, ch_count_register = n, ch_page = p, ch_mode = Port 0x0b,
                            ch_flip_flop_reset = Port 0x0c, ch_multi_channel_mask = Port 0x0f\<rparr>)
      in if channel = 1 then Done (regs (Port 0x02) (Port 0x03) (Port 0x83))
         else if channel = 2 then Done (regs (Port 0x04) (Port 0x05) (Port 0x81))
         else if channel = 3 then Done (regs (Port 0x06) (Port 0x07) (Port 0x82))
         else Panic)"

definition dma_set_address :: "'h bus \<Rightarrow> channel_registers \<Rightarrow> physical_address \<Rightarrow> 'h \<Rightarrow> 'h" where
  "dma_set_address b r addr hw =
     (let addr_32 = pa_usize addr;
          addr_low = ucast (addr_32 AND 0xff) :: u8;
          addr_mid = ucast (drop_bit 8 addr_32 AND 0xff) :: u8;
          addr_high = ucast (drop_bit 16 addr_32 AND 0xff) :: u8;
          hw = port_write_u8 b (ch_flip_flop_reset r) 0xff hw;
          hw = port_write_u8 b (ch_start_address r) addr_low hw;
          hw = port_write_u8 b (ch_start_address r) addr_mid hw
      in port_write_u8 b (ch_page r) addr_high hw)"

definition dma_set_count :: "'h bus \<Rightarrow> channel_registers \<Rightarrow> usize \<Rightarrow> 'h \<Rightarrow> 'h" where
  "dma_set_count b r count hw =
     (let count_low = ucast (count AND 0xff) :: u8;
          count_high = ucast (drop_bit 8 count AND 0xff) :: u8;
          hw = port_write_u8 b (ch_flip_flop_reset r) 0xff hw;
          hw = port_write_u8 b (ch_count_register r) count_low hw
      in port_write_u8 b (ch_count_register r) count_high hw)"

definition dma_set_mode :: "'h bus \<Rightarrow> channel_registers \<Rightarrow> u8 \<Rightarrow> 'h \<Rightarrow> 'h" where
  "dma_set_mode b r mode hw = port_write_u8 b (ch_mode r) mode hw"

text \<open>\<^verbatim>\<open>DMA::get_channel\<close>, the use of the channel and its \<^verbatim>\<open>drop\<close>, which writes the mask of the
  controller, initially 1.\<close>

definition DMA_MASK_BASE :: u8 where "DMA_MASK_BASE = 1"

definition dma_get_channel :: "'h bus \<Rightarrow> u8 \<Rightarrow> 'h \<Rightarrow> (channel_registers \<times> 'h) outcome" where
  "dma_get_channel b channel hw =
     (let hw = port_write_u8 b (Port 0x0c) 0xff hw
      in obind (get_channel_registers (channel mod 4)) (\<lambda>r. Done (r, hw)))"

definition dma_drop_channel :: "'h bus \<Rightarrow> channel_registers \<Rightarrow> 'h \<Rightarrow> 'h" where
  "dma_drop_channel b r hw = port_write_u8 b (ch_multi_channel_mask r) DMA_MASK_BASE hw"

section \<open>The controller\<close>

datatype controller_error = InvalidResponse | NotReadyForParam | ReadyTimeout | UnsupportedController

datatype floppy_command = ReadTrack | Specify | SenseDriveStatus | WriteData | ReadData | Recalibrate | SenseInterrupt
  | WriteDeletedData | ReadID | Seek | Version | Configure | Unlock | Lock

fun command_code :: "floppy_command \<Rightarrow> u8" where
  "command_code ReadTrack = 0x02"
| "command_code Specify = 0x03"
| "command_code SenseDriveStatus = 0x04"
| "command_code WriteData = 0x05 OR 0x40"
| "command_code ReadData = 0x06 OR 0x40"
| "command_code Recalibrate = 0x07"
| "command_code SenseInterrupt = 0x08"
| "command_code WriteDeletedData = 0x09"
| "command_code ReadID = 0x0a"
| "command_code Seek = 0x0f"
| "command_code Version = 0x10"
| "command_code Configure = 0x13"
| "command_code Unlock = 0x14"
| "command_code Lock = 0x94"

text \<open>The controller, the driver's two statics and the hardware.\<close>

record 'h fdc =
  fdc_initialized :: bool
  fdc_interrupt_received :: bool
  fdc_wake_on_int :: wake_reference
  fdc_motor_on :: bool
  fdc_dma_addr :: "(physical_address \<times> virtual_address) option"
  fdc_open_files :: "(local_handle, usize) btree"
  fdc_hw :: 'h

definition fdc_new :: "'h \<Rightarrow> 'h fdc" where
  "fdc_new hw = \<lparr>fdc_initialized = False, fdc_interrupt_received = False, fdc_wake_on_int = None, fdc_motor_on = False,
     fdc_dma_addr = None, fdc_open_files = [], fdc_hw = hw\<rparr>"

text \<open>The process calls the controller makes.\<close>

record 's scheduling =
  sch_current_pid :: "'s \<Rightarrow> process_id"
  sch_stop :: "process_id \<Rightarrow> 's \<Rightarrow> 's"
  sch_yield :: "'s \<Rightarrow> 's"
  sch_sleep :: "usize \<Rightarrow> 's \<Rightarrow> 's"

definition fdc_out :: "'h bus \<Rightarrow> u16 \<Rightarrow> u8 \<Rightarrow> 'h fdc \<Rightarrow> 'h fdc" where
  "fdc_out b p v s = s\<lparr>fdc_hw := port_write_u8 b (Port p) v (fdc_hw s)\<rparr>"

definition fdc_in :: "'h bus \<Rightarrow> u16 \<Rightarrow> 'h fdc \<Rightarrow> u8 \<times> 'h fdc" where
  "fdc_in b p s = (let (v, hw) = port_read_u8 b (Port p) (fdc_hw s) in (v, s\<lparr>fdc_hw := hw\<rparr>))"

definition get_status :: "'h bus \<Rightarrow> 'h fdc \<Rightarrow> u8 \<times> 'h fdc" where
  "get_status b s = fdc_in b 0x3f4 s"

text \<open>The handler of interrupt 6; the flag is free because its writers hold the lock for one assignment.\<close>

definition handle_int6 :: "'h fdc \<Rightarrow> kernel \<Rightarrow> ('h fdc \<times> kernel) outcome" where
  "handle_int6 s k =
     (let s = s\<lparr>fdc_interrupt_received := True\<rparr>
      in obind (wake (fdc_wake_on_int s) k) (\<lambda>k. Done (s, k)))"

definition wait_for_interrupt :: "'h fdc scheduling \<Rightarrow> 'h fdc \<Rightarrow> 'h fdc" where
  "wait_for_interrupt sch s =
     (if fdc_interrupt_received s then s
      else let pid = sch_current_pid sch s;
               s = s\<lparr>fdc_wake_on_int := set_process pid (fdc_wake_on_int s)\<rparr>;
               s = sch_stop sch pid s;
               s = sch_yield sch s
           in s\<lparr>fdc_wake_on_int := clear_process (fdc_wake_on_int s)\<rparr>)"

text \<open>The loop of \<^verbatim>\<open>wait_for_rqm\<close> with the attempts left.\<close>

fun rqm_loop :: "'h bus \<Rightarrow> 'h fdc scheduling \<Rightarrow> nat \<Rightarrow> 'h fdc \<Rightarrow> (controller_error + unit) \<times> 'h fdc" where
  "rqm_loop b sch 0 s = (Inl ReadyTimeout, s)"
| "rqm_loop b sch (Suc n) s =
     (let (status, s) = get_status b s
      in if status AND 0x80 = 0x80 then (Inr (), s) else rqm_loop b sch n (sch_yield sch s))"

definition wait_for_rqm :: "'h bus \<Rightarrow> 'h fdc scheduling \<Rightarrow> 'h fdc \<Rightarrow> (controller_error + unit) \<times> 'h fdc" where
  "wait_for_rqm b sch s = rqm_loop b sch 10 s"

fun send_params :: "'h bus \<Rightarrow> 'h fdc scheduling \<Rightarrow> u8 list \<Rightarrow> 'h fdc \<Rightarrow> (controller_error + unit) \<times> 'h fdc" where
  "send_params b sch [] s = wait_for_rqm b sch s"
| "send_params b sch (p # ps) s =
     (case wait_for_rqm b sch s of
        (Inl e, s) \<Rightarrow> (Inl e, s)
      | (Inr _, s) \<Rightarrow>
          let (status, s) = get_status b s
          in if status AND 0x40 \<noteq> 0 then (Inl NotReadyForParam, s)
             else send_params b sch ps (fdc_out b 0x3f5 p s))"

text \<open>\<^verbatim>\<open>get_response\<close>: bytes for which the slice has no room are not fetched, and the loop waits for the
  controller to withdraw them.\<close>

partial_function (option) response_loop :: "'h bus \<Rightarrow> 'h fdc scheduling \<Rightarrow> bool \<Rightarrow> nat \<Rightarrow> u8 list \<Rightarrow> 'h fdc
    \<Rightarrow> ((controller_error + nat) \<times> u8 list \<times> 'h fdc) option" where
  "response_loop b sch has_response index response s =
     (if has_response
      then let (index, response, s) =
                 (if index < length response
                  then let (v, s) = fdc_in b 0x3f5 s in (index + 1, response[index := v], s)
                  else (index, response, s))
           in case wait_for_rqm b sch s of
                (Inl e, s) \<Rightarrow> Some (Inl e, response, s)
              | (Inr _, s) \<Rightarrow>
                  (let (status, s) = get_status b s
                   in response_loop b sch (status AND 0x50 = 0x50) index response s)
      else let (status, s) = get_status b s
           in if status AND 0xd0 = 0x80 then Some (Inr index, response, s) else Some (Inl InvalidResponse, response, s))"

definition fdc_response :: "'h bus \<Rightarrow> 'h fdc scheduling \<Rightarrow> u8 list \<Rightarrow> 'h fdc \<Rightarrow> ((controller_error + nat) \<times> u8 list \<times> 'h fdc) option" where
  "fdc_response b sch response s =
     (case wait_for_rqm b sch s of
        (Inl e, s) \<Rightarrow> Some (Inl e, response, s)
      | (Inr _, s) \<Rightarrow>
          let (status, s) = get_status b s
          in response_loop b sch (status AND 0x50 = 0x50) 0 response s)"

definition get_response :: "'h bus \<Rightarrow> 'h fdc scheduling \<Rightarrow> u8 list \<Rightarrow> 'h fdc \<Rightarrow> ((controller_error + nat) \<times> u8 list \<times> 'h fdc) outcome" where
  "get_response b sch response s = (case fdc_response b sch response s of None \<Rightarrow> Hang | Some r \<Rightarrow> Done r)"

text \<open>\<^verbatim>\<open>send_command\<close> and \<^verbatim>\<open>reset\<close> call each other; \<open>SenseInterrupts\<close> is the loop of \<^verbatim>\<open>reset\<close>.\<close>

datatype fdc_call = SendCommand floppy_command "u8 list" | Reset | SenseInterrupts nat

partial_function (option) fdc_run :: "'h bus \<Rightarrow> 'h fdc scheduling \<Rightarrow> fdc_call \<Rightarrow> 'h fdc \<Rightarrow> ((controller_error + unit) \<times> 'h fdc) option" where
  "fdc_run b sch call s =
     (case call of
        SendCommand command params \<Rightarrow>
          (let (status, s) = get_status b s
           in Option.bind (if status AND 0xc0 \<noteq> 0x80 then fdc_run b sch Reset s else Some (Inr (), s)) (\<lambda>(r, s).
                case r of
                  Inl e \<Rightarrow> Some (Inl e, s)
                | Inr _ \<Rightarrow>
                    Some (send_params b sch params (fdc_out b 0x3f5 (command_code command) (s\<lparr>fdc_interrupt_received := False\<rparr>)))))
      | Reset \<Rightarrow>
          (let s = wait_for_interrupt sch (fdc_out b 0x3f2 0x0c (fdc_out b 0x3f2 0 s))
           in Option.bind (fdc_run b sch (SenseInterrupts 4) s) (\<lambda>(r, s).
                case r of
                  Inl e \<Rightarrow> Some (Inl e, s)
                | Inr _ \<Rightarrow> fdc_run b sch (SendCommand Specify [0x80, 0x0a]) (fdc_out b 0x3f7 0 s)))
      | SenseInterrupts n \<Rightarrow>
          (if n = 0 then Some (Inr (), s)
           else Option.bind (fdc_run b sch (SendCommand SenseInterrupt []) s) (\<lambda>(r, s).
                case r of
                  Inl e \<Rightarrow> Some (Inl e, s)
                | Inr _ \<Rightarrow>
                    Option.bind (fdc_response b sch [0, 0] s) (\<lambda>(r, _, s).
                      case r of
                        Inl e \<Rightarrow> Some (Inl e, s)
                      | Inr _ \<Rightarrow> fdc_run b sch (SenseInterrupts (n - 1)) s))))"

definition send_command :: "'h bus \<Rightarrow> 'h fdc scheduling \<Rightarrow> floppy_command \<Rightarrow> u8 list \<Rightarrow> 'h fdc \<Rightarrow> ((controller_error + unit) \<times> 'h fdc) outcome" where
  "send_command b sch command params s = (case fdc_run b sch (SendCommand command params) s of None \<Rightarrow> Hang | Some r \<Rightarrow> Done r)"

definition reset :: "'h bus \<Rightarrow> 'h fdc scheduling \<Rightarrow> 'h fdc \<Rightarrow> ((controller_error + unit) \<times> 'h fdc) outcome" where
  "reset b sch s = (case fdc_run b sch Reset s of None \<Rightarrow> Hang | Some r \<Rightarrow> Done r)"

definition ensure_motor_on :: "'h bus \<Rightarrow> 'h fdc scheduling \<Rightarrow> 'h fdc \<Rightarrow> 'h fdc" where
  "ensure_motor_on b sch s =
     (if fdc_motor_on s then s
      else let (dor, s) = fdc_in b 0x3f2 s;
               s = fdc_out b 0x3f2 (0x10 OR dor) s
           in sch_sleep sch 300 (s\<lparr>fdc_motor_on := True\<rparr>))"

text \<open>A command that answers with the bytes of \<open>response\<close>.\<close>

definition get_response_into :: "'h bus \<Rightarrow> 'h fdc scheduling \<Rightarrow> u8 list \<Rightarrow> 'h fdc \<Rightarrow> ((controller_error + u8 list) \<times> 'h fdc) outcome" where
  "get_response_into b sch response s =
     obind (get_response b sch response s) (\<lambda>(r, response, s). case r of Inl e \<Rightarrow> Done (Inl e, s) | Inr _ \<Rightarrow> Done (Inr response, s))"

definition recalibrate :: "'h bus \<Rightarrow> 'h fdc scheduling \<Rightarrow> u8 list \<Rightarrow> 'h fdc \<Rightarrow> ((controller_error + u8 list) \<times> 'h fdc) outcome" where
  "recalibrate b sch st0 s =
     try_op (send_command b sch Recalibrate [0] s) (\<lambda>_ s.
     try_op (send_command b sch SenseInterrupt [] (wait_for_interrupt sch s)) (\<lambda>_ s.
       get_response_into b sch st0 s))"

definition floppy_init :: "'h bus \<Rightarrow> 'h fdc scheduling \<Rightarrow> 'h fdc \<Rightarrow> ((controller_error + unit) \<times> 'h fdc) outcome" where
  "floppy_init b sch s =
     try_op (send_command b sch Version [] s) (\<lambda>_ s.
     try_op (get_response_into b sch [0] s) (\<lambda>version_response s.
       if version_response ! 0 \<noteq> 0x90 then Done (Inl UnsupportedController, s)
       else
         try_op (send_command b sch Configure [0, 0x78, 0] s) (\<lambda>_ s.
         try_op (send_command b sch Lock [] s) (\<lambda>_ s.
         try_op (get_response_into b sch [0] s) (\<lambda>_ s.
         try_op (reset b sch s) (\<lambda>_ s.
         try_op (recalibrate b sch [0, 0] (ensure_motor_on b sch s)) (\<lambda>st0 s.
         try_op (if st0 ! 0 AND 0x20 \<noteq> 0x20 then recalibrate b sch st0 s else Done (Inr st0, s)) (\<lambda>_ s.
           Done (Inr (), s\<lparr>fdc_initialized := True\<rparr>)))))))))"

definition floppy_dma :: "'h bus \<Rightarrow> 'h fdc scheduling \<Rightarrow> floppy_command \<Rightarrow> usize \<Rightarrow> usize \<Rightarrow> usize \<Rightarrow> 'h fdc
    \<Rightarrow> ((controller_error + unit) \<times> 'h fdc) outcome" where
  "floppy_dma b sch command cylinder head sec s =
     try_op (send_command b sch command [ucast (push_bit 2 head), ucast cylinder, ucast head, ucast sec, 2, 18, 0x1b, 0xff] s) (\<lambda>_ s.
     try_op (get_response_into b sch [0, 0, 0, 0, 0, 0, 0] (wait_for_interrupt sch s)) (\<lambda>_ s. Done (Inr (), s)))"

definition floppy_read :: "'h bus \<Rightarrow> 'h fdc scheduling \<Rightarrow> usize \<Rightarrow> usize \<Rightarrow> usize \<Rightarrow> 'h fdc \<Rightarrow> ((controller_error + unit) \<times> 'h fdc) outcome" where
  "floppy_read b sch cylinder head sec s = floppy_dma b sch ReadData cylinder head sec s"

definition floppy_write :: "'h bus \<Rightarrow> 'h fdc scheduling \<Rightarrow> usize \<Rightarrow> usize \<Rightarrow> usize \<Rightarrow> 'h fdc \<Rightarrow> ((controller_error + unit) \<times> 'h fdc) outcome" where
  "floppy_write b sch cylinder head sec s = floppy_dma b sch WriteData cylinder head sec s"

section \<open>The driver\<close>

definition DMA_SIZE :: usize where "DMA_SIZE = 4096"

definition init_dma :: "'h fdc \<Rightarrow> kernel_regions \<Rightarrow> phys \<Rightarrow> ('h fdc \<times> kernel_regions \<times> phys) outcome" where
  "init_dma s k p = obind (kernel_mmap_dma DMA_SIZE k p) (\<lambda>(pair, k, p). Done (s\<lparr>fdc_dma_addr := Some pair\<rparr>, k, p))"

partial_function (option) dma_address_loop :: "'h fdc scheduling \<Rightarrow> 'h fdc \<Rightarrow> ((physical_address \<times> virtual_address) \<times> 'h fdc) option" where
  "dma_address_loop sch s = (case fdc_dma_addr s of Some pair \<Rightarrow> Some (pair, s) | None \<Rightarrow> dma_address_loop sch (sch_yield sch s))"

definition get_dma_addresses :: "'h fdc scheduling \<Rightarrow> 'h fdc \<Rightarrow> ((physical_address \<times> virtual_address) \<times> 'h fdc) outcome" where
  "get_dma_addresses sch s = (case dma_address_loop sch s of None \<Rightarrow> Hang | Some r \<Rightarrow> Done r)"

definition program_dma :: "'h bus \<Rightarrow> physical_address \<Rightarrow> usize \<Rightarrow> u8 \<Rightarrow> 'h \<Rightarrow> 'h outcome" where
  "program_dma b phys count mode hw =
     obind (dma_get_channel b 2 hw) (\<lambda>(r, hw).
       Done (dma_drop_channel b r (dma_set_mode b r mode (dma_set_count b r count (dma_set_address b r phys hw)))))"

definition load_sectors_to_cache :: "'h bus \<Rightarrow> 'h fdc scheduling \<Rightarrow> floppy_range \<Rightarrow> u8 \<Rightarrow> 'h fdc \<Rightarrow> ((unit + virtual_address) \<times> 'h fdc) outcome" where
  "load_sectors_to_cache b sch sectors dma_mode s =
     obind (get_dma_addresses sch s) (\<lambda>((dma_phys, dma_virt), s).
     obind (program_dma b dma_phys (fr_byte_length sectors - 1) dma_mode (fdc_hw s)) (\<lambda>hw.
       let s = s\<lparr>fdc_hw := hw\<rparr>; (c, h, sec) = to_chs (fr_first sectors)
       in obind (floppy_read b sch c h sec s) (\<lambda>(r, s).
            case r of Inl e \<Rightarrow> Done (Inl (), s) | Inr _ \<Rightarrow> Done (Inr dma_virt, s))))"

definition fd_open :: "local_handle \<Rightarrow> 'h fdc \<Rightarrow> ((unit + unit) \<times> 'h fdc) outcome" where
  "fd_open handle s = Done (Inr (), s\<lparr>fdc_open_files := bt_insert handle 0 (fdc_open_files s)\<rparr>)"

definition fd_close :: "local_handle \<Rightarrow> 'h fdc \<Rightarrow> ((unit + unit) \<times> 'h fdc) outcome" where
  "fd_close handle s = Done (Inr (), s\<lparr>fdc_open_files := bt_remove handle (fdc_open_files s)\<rparr>)"

text \<open>The bytes at an address of the kernel, where the DMA transfer of the hardware puts its data, are
  given by the parameter \<open>vmem\<close>.\<close>

definition fd_read :: "'h bus \<Rightarrow> 'h fdc scheduling \<Rightarrow> ('h \<Rightarrow> memory) \<Rightarrow> local_handle \<Rightarrow> u8 list \<Rightarrow> 'h fdc
    \<Rightarrow> ((unit + usize) \<times> u8 list \<times> 'h fdc) outcome" where
  "fd_read b sch vmem handle buffer s =
     (case bt_get (fdc_open_files s) handle of
        None \<Rightarrow> Done (Inl (), buffer, s)
      | Some cursor \<Rightarrow>
          let len = of_nat (length buffer); sectors = for_byte_range cursor len
          in obind (load_sectors_to_cache b sch sectors 0x56 s) (\<lambda>(r, s).
               case r of
                 Inl e \<Rightarrow> Done (Inl e, buffer, s)
               | Inr dma_src \<Rightarrow>
                   let src = va_usize dma_src + get_local_offset cursor sectors;
                       buffer = fold (\<lambda>i buf. buf[i := vmem (fdc_hw s) (src + of_nat i)]) [0 ..< unat len] buffer
                   in case bt_get (fdc_open_files s) handle of
                        Some cursor \<Rightarrow> Done (Inr len, buffer, s\<lparr>fdc_open_files := bt_insert handle (cursor + len) (fdc_open_files s)\<rparr>)
                      | None \<Rightarrow> Done (Inl (), buffer, s)))"

definition fd_seek :: "local_handle \<Rightarrow> seek_method \<Rightarrow> 'h fdc \<Rightarrow> ((unit + usize) \<times> 'h fdc) outcome" where
  "fd_seek handle off s =
     (case bt_get (fdc_open_files s) handle of
        None \<Rightarrow> Done (Inl (), s)
      | Some cursor \<Rightarrow>
          let new_cursor = from_current_position off cursor
          in Done (Inr new_cursor, s\<lparr>fdc_open_files := bt_insert handle new_cursor (fdc_open_files s)\<rparr>))"

definition floppy_device :: "'h bus \<Rightarrow> 'h fdc scheduling \<Rightarrow> ('h \<Rightarrow> memory) \<Rightarrow> 'h fdc device_driver" where
  "floppy_device b sch vmem = default_driver
     \<lparr>dd_open := fd_open, dd_close := fd_close, dd_read := fd_read b sch vmem,
      dd_write := \<lambda>handle buffer s. Done (Inr 0, s), dd_seek := fd_seek\<rparr>"

section \<open>Sector arithmetic\<close>

lemma sector_mask: "SECTOR_SIZE - 1 = mask 9"
  by (simp add: SECTOR_SIZE_def mask_eq_exp_minus_1)

lemma sector_start: "unat (start AND NOT (SECTOR_SIZE - 1)) = 512 * (unat start div 512)"
  by (simp only: sector_mask unat_and_not_mask) (simp add: minus_mod_eq_mult_div)

lemma first_sector: "unat (sector_lba (fr_first (for_byte_range start len))) = unat start div 512"
  by (simp add: for_byte_range_def Let_def unat_div_distrib sector_start) (simp add: SECTOR_SIZE_def)

lemma sector_count:
  assumes "unat start + unat len < 2 ^ 32"
  defines "e \<equiv> unat start + unat len"
  shows "unat (fr_count (for_byte_range start len)) = e div 512 - unat start div 512 + (if e mod 512 = 0 then 0 else 1)"
proof -
  have e: "unat (start + len) = e" using assms(1) by (simp add: e_def unat_word_ariths)
  have "unat (start AND NOT (SECTOR_SIZE - 1)) \<le> unat (start + len)" unfolding sector_start e e_def by simp
  then have "unat (start + len - (start AND NOT (SECTOR_SIZE - 1))) = e - 512 * (unat start div 512)"
    unfolding sector_start [symmetric] e [symmetric] by (rule unat_sub_le)
  then have d: "unat ((start + len - (start AND NOT (SECTOR_SIZE - 1))) div SECTOR_SIZE) = e div 512 - unat start div 512"
  proof -
    have "(e - 512 * q) div 512 = e div 512 - q" for q using div_mult_self4 by (cases "512 * q \<le> e") (auto simp: le_iff_add)
    then show ?thesis using \<open>unat (start + len - (start AND NOT (SECTOR_SIZE - 1))) = e - 512 * (unat start div 512)\<close>
      by (simp add: unat_div_distrib) (simp add: SECTOR_SIZE_def)
  qed
  have "unat ((start + len) AND (SECTOR_SIZE - 1)) = e mod 512" by (simp only: sector_mask unat_and_mask e) simp
  then have m: "(start + len) AND (SECTOR_SIZE - 1) = 0 \<longleftrightarrow> e mod 512 = 0" by (simp add: word_unat_eq_iff)
  have "e < 2 ^ 32" using assms(1) by (simp add: e_def)
  then have "e div 512 - unat start div 512 < 2 ^ 23" by simp
  then have "unat ((start + len - (start AND NOT (SECTOR_SIZE - 1))) div SECTOR_SIZE + 1) = e div 512 - unat start div 512 + 1"
    using d by (simp add: unat_word_ariths)
  then show ?thesis using d m by (simp add: for_byte_range_def Let_def)
qed

lemma to_chs_spec:
  assumes "to_chs sec = (c, h, s)"
  shows "unat c * 36 + unat h * 18 + (unat s - 1) = unat (sector_lba sec)" "unat h < 2" "1 \<le> unat s" "unat s \<le> 18"
proof -
  define n where "n = unat (sector_lba sec)"
  have "unat c = n div 36" "unat h = n mod 36 div 18" "unat s = n mod 36 mod 18 + 1"
    using assms by (auto simp: to_chs_def Let_def SECTORS_PER_TRACK_def n_def unat_div_distrib unat_mod_distrib unat_word_ariths)
  then show "unat c * 36 + unat h * 18 + (unat s - 1) = unat (sector_lba sec)" "unat h < 2" "1 \<le> unat s" "unat s \<le> 18"
    unfolding n_def [symmetric] by simp_all
qed

text \<open>C39: a read from the floppy disk fetches the right sectors.  For every range of bytes within the 32-bit
  address space of the disk, the sectors chosen cover the range, the first one holds its first byte and the last
  one its last byte; the range starts in the buffer at the local offset; and cylinder, head and sector number of the first one
  address that sector on a disk with two heads and 18 sectors per track.\<close>

theorem sector_range_covers:
  assumes "unat start + unat len < 2 ^ 32" "len \<noteq> 0"
  shows "let r = for_byte_range start len; first = unat (sector_lba (fr_first r)); n = unat (fr_count r); (c, h, s) = to_chs (fr_first r)
    in first * 512 \<le> unat start \<and> unat start < (first + 1) * 512
       \<and> unat start + unat len \<le> (first + n) * 512 \<and> (first + n) * 512 < unat start + unat len + 512
       \<and> unat (get_local_offset start r) = unat start - first * 512
       \<and> unat c * 36 + unat h * 18 + (unat s - 1) = first \<and> unat h < 2 \<and> 1 \<le> unat s \<and> unat s \<le> 18"
proof -
  define r where "r = for_byte_range start len"
  define e where "e = unat start + unat len"
  obtain c h s where chs: "to_chs (fr_first r) = (c, h, s)" by (cases "to_chs (fr_first r)")
  have first: "unat (sector_lba (fr_first r)) = unat start div 512" by (simp add: r_def first_sector)
  have n: "unat (fr_count r) = e div 512 - unat start div 512 + (if e mod 512 = 0 then 0 else 1)"
    unfolding r_def e_def by (rule sector_count [OF assms(1)])
  have mono: "unat start div 512 \<le> e div 512" by (simp add: e_def div_le_mono)
  have "sector_lba (fr_first r) * SECTOR_SIZE = start AND NOT (SECTOR_SIZE - 1)"
  proof -
    have "unat start < 2 ^ 32" using unsigned_less [of start, where 'a = nat] by simp
    then have "unat start div 512 * 512 < 2 ^ 32" by (simp add: order_le_less_trans [OF div_times_less_eq_dividend])
    then have "unat (sector_lba (fr_first r) * SECTOR_SIZE) = 512 * (unat start div 512)"
      by (simp add: unat_word_ariths first SECTOR_SIZE_def)
    then show ?thesis by (simp only: word_unat_eq_iff sector_start)
  qed
  then have "unat (get_local_offset start r) = unat start - unat start div 512 * 512"
    by (auto simp: get_local_offset_def Let_def word_less_nat_alt sector_start unat_sub_le word_le_nat_alt)
  moreover have "e \<le> (unat start div 512 + unat (fr_count r)) * 512" "(unat start div 512 + unat (fr_count r)) * 512 < e + 512"
  proof -
    define q m where "q = e div 512" and "m = e mod 512"
    have "e = q * 512 + m" "m < 512" by (simp_all add: q_def m_def)
    moreover have "unat start div 512 + unat (fr_count r) = q + (if m = 0 then 0 else 1)" using n mono by (simp add: q_def m_def)
    ultimately show "e \<le> (unat start div 512 + unat (fr_count r)) * 512" "(unat start div 512 + unat (fr_count r)) * 512 < e + 512"
      by (auto split: if_splits)
  qed
  ultimately show ?thesis using to_chs_spec [OF chs] unfolding r_def [symmetric] e_def [symmetric] Let_def chs first by simp
qed

theorem sector_range_covers_witness:
  "for_byte_range 1000 600 = \<lparr>fr_first = Sector 1, fr_count = 3\<rparr> \<and> to_chs (Sector 1) = (0, 0, 2)
    \<and> unat (get_local_offset 1000 \<lparr>fr_first = Sector 1, fr_count = 3\<rparr>) = 488"
proof -
  have r: "for_byte_range 1000 600 = \<lparr>fr_first = Sector 1, fr_count = 3\<rparr>" by (simp add: for_byte_range_def SECTOR_SIZE_def)
  have c: "to_chs (Sector 1) = (0, 0, 2)" by (simp add: to_chs_def SECTORS_PER_TRACK_def)
  show ?thesis using sector_range_covers [of 1000 600] by (simp add: r c)
qed

section \<open>Sending a command\<close>

text \<open>A bus that records everything that is read from and written to any bus.\<close>

datatype bus_event = Rd u16 u8 | Wr u16 u8

definition traced_bus :: "'h bus \<Rightarrow> ('h \<times> bus_event list) bus" where
  "traced_bus b =
     \<lparr>inb = (\<lambda>p (h, l). let (v, h) = inb b p h in (v, h, l @ [Rd p v])),
      outb = (\<lambda>p v (h, l). (outb b p v h, l @ [Wr p v]))\<rparr>"

definition events :: "('h \<times> bus_event list) fdc \<Rightarrow> bus_event list" where
  "events s = snd (fdc_hw s)"

lemma events_out [simp]: "events (fdc_out (traced_bus b) p v s) = events s @ [Wr p v]"
  by (simp add: events_def fdc_out_def port_write_u8_def traced_bus_def split: prod.splits)

lemma events_status: "get_status (traced_bus b) s = (v, s') \<Longrightarrow> events s' = events s @ [Rd 0x3f4 v]"
  by (auto simp: get_status_def events_def fdc_in_def port_read_u8_def traced_bus_def Let_def split: prod.splits)

text \<open>
  The protocol of the controller, as its events and the result they give.  One wait polls the status until bit 7, the
  controller's request for a transfer, is set, at most ten times.  A parameter is written after such a
  wait and one more look at the status, whose bit 6, the direction, must be clear.
\<close>

definition granted :: "u8 list \<Rightarrow> bool" where
  "granted vs \<longleftrightarrow> vs \<noteq> [] \<and> length vs \<le> 10 \<and> bit (last vs) 7 \<and> (\<forall>v \<in> set (butlast vs). \<not> bit v 7)"

definition refused :: "u8 list \<Rightarrow> bool" where
  "refused vs \<longleftrightarrow> length vs = 10 \<and> (\<forall>v \<in> set vs. \<not> bit v 7)"

inductive params_protocol :: "u8 list \<Rightarrow> bus_event list \<Rightarrow> controller_error + unit \<Rightarrow> bool" where
  finished: "granted vs \<Longrightarrow> params_protocol [] (map (Rd 0x3f4) vs) (Inr ())"
| timeout: "refused vs \<Longrightarrow> params_protocol ps (map (Rd 0x3f4) vs) (Inl ReadyTimeout)"
| wrong_way: "granted vs \<Longrightarrow> bit d 6 \<Longrightarrow> params_protocol (p # ps) (map (Rd 0x3f4) vs @ [Rd 0x3f4 d]) (Inl NotReadyForParam)"
| parameter: "granted vs \<Longrightarrow> \<not> bit d 6 \<Longrightarrow> params_protocol ps evs r
    \<Longrightarrow> params_protocol (p # ps) (map (Rd 0x3f4) vs @ Rd 0x3f4 d # Wr 0x3f5 p # evs) r"

fun written :: "bus_event list \<Rightarrow> (u16 \<times> u8) list" where
  "written [] = []"
| "written (Rd p v # evs) = written evs"
| "written (Wr p v # evs) = (p, v) # written evs"

lemma written_reads [simp]: "written (map (Rd p) vs @ evs) = written evs" "written (map (Rd p) vs) = []"
  by (induction vs) simp_all

lemma protocol_written:
  assumes "params_protocol ps evs r"
  shows "\<exists>k \<le> length ps. written evs = map (Pair 0x3f5) (take k ps) \<and> (r = Inr () \<longrightarrow> k = length ps)"
  using assms
proof (induction rule: params_protocol.induct)
  case (parameter vs d ps evs r p)
  then obtain k where "k \<le> length ps" "written evs = map (Pair 0x3f5) (take k ps)" "r = Inr () \<longrightarrow> k = length ps" by blast
  then show ?case by (intro exI [of _ "Suc k"]) simp
qed auto

lemma status_bits: "(v :: u8) AND 0x80 = 0x80 \<longleftrightarrow> bit v 7" "(v :: u8) AND 0x40 \<noteq> 0 \<longleftrightarrow> bit v 6"
  using and_single [of 7 v] and_exp_eq_0_iff_not_bit [of v 6] by simp_all

text \<open>One wait with \<open>n\<close> attempts left.\<close>

lemma rqm_events:
  assumes "\<And>s. events (sch_yield sch s) = events s" "rqm_loop (traced_bus b) sch n s = (r, s')"
  shows "\<exists>vs. events s' = events s @ map (Rd 0x3f4) vs
    \<and> (r = Inr () \<and> vs \<noteq> [] \<and> length vs \<le> n \<and> bit (last vs) 7 \<and> (\<forall>v \<in> set (butlast vs). \<not> bit v 7)
       \<or> r = Inl ReadyTimeout \<and> length vs = n \<and> (\<forall>v \<in> set vs. \<not> bit v 7))"
  using assms(2)
proof (induction n arbitrary: s)
  case (Suc n)
  obtain v s1 where g: "get_status (traced_bus b) s = (v, s1)" by (cases "get_status (traced_bus b) s")
  note e = events_status [OF g]
  show ?case
  proof (cases "bit v 7")
    case True
    then have "r = Inr () \<and> s' = s1" using Suc.prems g by (simp add: status_bits(1))
    then show ?thesis using e True by (intro exI [of _ "[v]"]) simp
  next
    case False
    then have "rqm_loop (traced_bus b) sch n (sch_yield sch s1) = (r, s')" using Suc.prems g by (simp add: status_bits(1))
    from Suc.IH [OF this] obtain vs where vs: "events s' = events s1 @ map (Rd 0x3f4) vs"
      "r = Inr () \<and> vs \<noteq> [] \<and> length vs \<le> n \<and> bit (last vs) 7 \<and> (\<forall>v \<in> set (butlast vs). \<not> bit v 7)
       \<or> r = Inl ReadyTimeout \<and> length vs = n \<and> (\<forall>v \<in> set vs. \<not> bit v 7)" unfolding assms(1) by blast
    then show ?thesis using e False by (intro exI [of _ "v # vs"]) auto
  qed
qed simp

lemma wait_events:
  assumes "\<And>s. events (sch_yield sch s) = events s" "wait_for_rqm (traced_bus b) sch s = (r, s')"
  obtains vs where "events s' = events s @ map (Rd 0x3f4) vs" "r = Inr () \<and> granted vs \<or> r = Inl ReadyTimeout \<and> refused vs"
proof -
  from rqm_events [OF assms(1) assms(2) [unfolded wait_for_rqm_def]] obtain vs where
    "events s' = events s @ map (Rd 0x3f4) vs"
    "r = Inr () \<and> vs \<noteq> [] \<and> length vs \<le> 10 \<and> bit (last vs) 7 \<and> (\<forall>v \<in> set (butlast vs). \<not> bit v 7)
       \<or> r = Inl ReadyTimeout \<and> length vs = 10 \<and> (\<forall>v \<in> set vs. \<not> bit v 7)" by blast
  then show ?thesis using that unfolding granted_def refused_def by blast
qed

lemma send_params_protocol:
  assumes "\<And>s. events (sch_yield sch s) = events s" "send_params (traced_bus b) sch params s = (r, s')"
  shows "\<exists>evs. events s' = events s @ evs \<and> params_protocol params evs r"
  using assms(2)
proof (induction params arbitrary: s)
  case Nil
  then have "wait_for_rqm (traced_bus b) sch s = (r, s')" by simp
  with assms(1) obtain vs where "events s' = events s @ map (Rd 0x3f4) vs"
    "r = Inr () \<and> granted vs \<or> r = Inl ReadyTimeout \<and> refused vs" by (rule wait_events)
  then show ?case by (blast intro: finished timeout)
next
  case (Cons p ps)
  obtain r1 s1 where w: "wait_for_rqm (traced_bus b) sch s = (r1, s1)" by (cases "wait_for_rqm (traced_bus b) sch s")
  with assms(1) obtain vs where vs: "events s1 = events s @ map (Rd 0x3f4) vs"
    "r1 = Inr () \<and> granted vs \<or> r1 = Inl ReadyTimeout \<and> refused vs" by (rule wait_events)
  obtain d s2 where g: "get_status (traced_bus b) s1 = (d, s2)" by (cases "get_status (traced_bus b) s1")
  note e2 = events_status [OF g]
  consider "r1 = Inl ReadyTimeout" "refused vs" | "r1 = Inr ()" "granted vs" "bit d 6" | "r1 = Inr ()" "granted vs" "\<not> bit d 6"
    using vs(2) by blast
  then show ?case
  proof cases
    case 1
    then have "r = Inl ReadyTimeout" "s' = s1" using Cons.prems w by simp_all
    then show ?thesis using vs(1) timeout [OF 1(2)] by blast
  next
    case 2
    then have "r = Inl NotReadyForParam" "s' = s2" using Cons.prems w g by (simp_all add: status_bits(2))
    then show ?thesis using vs(1) e2 wrong_way [OF 2(2,3), of p ps] by (metis append.assoc)
  next
    case 3
    then have "send_params (traced_bus b) sch ps (fdc_out (traced_bus b) 0x3f5 p s2) = (r, s')"
      using Cons.prems w g by (simp add: status_bits(2))
    from Cons.IH [OF this] obtain evs where "events s' = (events s2 @ [Wr 0x3f5 p]) @ evs" "params_protocol ps evs r" by auto
    then show ?thesis using vs(1) e2 parameter [OF 3(2,3), of ps evs r p]
      by (intro exI [of _ "map (Rd 0x3f4) vs @ Rd 0x3f4 d # Wr 0x3f5 p # evs"]) simp
  qed
qed

text \<open>C24: the command protocol of the floppy controller.  When the status shows a controller that is ready for a command, and
  other processes that run during a wait leave the ports alone, sending a command always returns, whatever
  the hardware answers.  What happens on the bus is exactly one read of the status, the write of the code of the command, and then
  the protocol above for its parameters, whose outcome is the result: each parameter is written once and
  in order to the data port after the status showed bit 7 set in one of at most ten reads and bit 6 clear in the next; the result is a
  timeout exactly when ten reads in a row showed bit 7 clear, an error of direction exactly when the read that follows showed bit 6
  set, and success exactly when all parameters were written and bit 7 was seen once more.\<close>

theorem floppy_command_protocol:
  assumes "get_status (traced_bus b) s = (status, s1)" "status AND 0xc0 = 0x80" "\<And>s. events (sch_yield sch s) = events s"
  shows "\<exists>r s' evs k. send_command (traced_bus b) sch command params s = Done (r, s')
     \<and> events s' = events s @ Rd 0x3f4 status # Wr 0x3f5 (command_code command) # evs
     \<and> params_protocol params evs r
     \<and> k \<le> length params \<and> written evs = map (Pair 0x3f5) (take k params) \<and> (r = Inr () \<longrightarrow> k = length params)"
proof -
  note e1 = events_status [OF assms(1)]
  let ?s2 = "fdc_out (traced_bus b) 0x3f5 (command_code command) (s1\<lparr>fdc_interrupt_received := False\<rparr>)"
  obtain r s' where p: "send_params (traced_bus b) sch params ?s2 = (r, s')" by (cases "send_params (traced_bus b) sch params ?s2")
  have "fdc_run (traced_bus b) sch (SendCommand command params) s = Some (r, s')"
    by (subst fdc_run.simps) (simp add: assms(1,2) p)
  then have "send_command (traced_bus b) sch command params s = Done (r, s')" by (simp add: send_command_def)
  moreover have "events (s1\<lparr>fdc_interrupt_received := False\<rparr>) = events s1" by (simp add: events_def)
  then have "events ?s2 = events s @ [Rd 0x3f4 status, Wr 0x3f5 (command_code command)]" using e1 by simp
  moreover obtain evs where "events s' = events ?s2 @ evs" "params_protocol params evs r"
    using send_params_protocol [OF assms(3) p] by blast
  ultimately show ?thesis using protocol_written [of params evs r] by auto
qed

text \<open>A controller that is always ready takes the command and its parameter.\<close>

definition ready_bus :: "unit bus" where
  "ready_bus = \<lparr>inb = (\<lambda>p h. (0x80, h)), outb = (\<lambda>p v h. h)\<rparr>"

definition no_others :: "'s scheduling" where
  "no_others = \<lparr>sch_current_pid = (\<lambda>s. 1), sch_stop = (\<lambda>pid s. s), sch_yield = (\<lambda>s. s), sch_sleep = (\<lambda>ms s. s)\<rparr>"

theorem floppy_command_protocol_witness:
  "\<exists>s' evs. send_command (traced_bus ready_bus) no_others Recalibrate [0] (fdc_new ((), [])) = Done (Inr (), s')
     \<and> events s' = Rd 0x3f4 0x80 # Wr 0x3f5 0x07 # evs \<and> params_protocol [0] evs (Inr ()) \<and> written evs = [(0x3f5, 0)]"
proof -
  have st: "get_status (traced_bus ready_bus) s = (0x80, s\<lparr>fdc_hw := (fst (fdc_hw s), snd (fdc_hw s) @ [Rd 0x3f4 0x80])\<rparr>)" for s
    by (simp add: get_status_def fdc_in_def port_read_u8_def traced_bus_def ready_bus_def split: prod.splits)
  have rqm: "rqm_loop (traced_bus ready_bus) no_others (Suc n) s
      = (Inr (), s\<lparr>fdc_hw := (fst (fdc_hw s), snd (fdc_hw s) @ [Rd 0x3f4 0x80])\<rparr>)" for n s by (simp add: st)
  have "wait_for_rqm (traced_bus ready_bus) no_others s
      = (Inr (), s\<lparr>fdc_hw := (fst (fdc_hw s), snd (fdc_hw s) @ [Rd 0x3f4 0x80])\<rparr>)" for s
    using rqm [of 9] by (simp add: wait_for_rqm_def)
  then have ok: "fst (send_params (traced_bus ready_bus) no_others [0] s) = Inr ()" for s by (simp add: st)
  have "\<exists>s'. send_command (traced_bus ready_bus) no_others Recalibrate [0] (fdc_new ((), [])) = Done (Inr (), s')"
    unfolding send_command_def by (subst fdc_run.simps) (simp add: st prod_eq_iff ok del: send_params.simps)
  moreover have "events (sch_yield no_others s) = events s" for s :: "(unit \<times> bus_event list) fdc" by (simp add: no_others_def)
  from floppy_command_protocol [OF st [of "fdc_new ((), [])"] _ this, of Recalibrate "[0]"]
  obtain r s' evs k where "send_command (traced_bus ready_bus) no_others Recalibrate [0] (fdc_new ((), [])) = Done (r, s')"
    "events s' = events (fdc_new ((), [])) @ Rd 0x3f4 0x80 # Wr 0x3f5 (command_code Recalibrate) # evs" "params_protocol [0] evs r"
    "written evs = map (Pair 0x3f5) (take k [0])" "r = Inr () \<longrightarrow> k = length [0 :: u8]" by auto
  ultimately show ?thesis by (auto simp: events_def fdc_new_def)
qed

end
