(* ===== verification/Serial.thy ===== *)
theory Serial
  imports Floppy
begin

text \<open>
  The serial port and its device (\<^verbatim>\<open>drivers/com/{serial,mod}.rs\<close>) with the queue of readers
  (\<^verbatim>\<open>drivers/queue.rs\<close>).  The port is reached over a bus that is a parameter, and what happens while a
  process waits is a parameter, as for the floppy controller.  Ports are counted from the first one.
\<close>

section \<open>The port\<close>

definition STATUS_TRANSMIT_BUFFER_EMPTY :: u8 where "STATUS_TRANSMIT_BUFFER_EMPTY = push_bit 5 1"
definition STATUS_DATA_READY :: u8 where "STATUS_DATA_READY = 1"

record 'h com =
  serial_port :: u16
  wake_on_data_ready :: "process_id option"
  com_queue :: "process_id list"
  com_hw :: 'h

definition com_new :: "u16 \<Rightarrow> 'h \<Rightarrow> 'h com" where
  "com_new initial_port hw = \<lparr>serial_port = initial_port, wake_on_data_ready = None, com_queue = [], com_hw = hw\<rparr>"

definition com_out :: "'h bus \<Rightarrow> u16 \<Rightarrow> u8 \<Rightarrow> 'h com \<Rightarrow> 'h com" where
  "com_out b i v s = s\<lparr>com_hw := port_write_u8 b (Port (serial_port s + i)) v (com_hw s)\<rparr>"

definition com_in :: "'h bus \<Rightarrow> u16 \<Rightarrow> 'h com \<Rightarrow> u8 \<times> 'h com" where
  "com_in b i s = (let (v, hw) = port_read_u8 b (Port (serial_port s + i)) (com_hw s) in (v, s\<lparr>com_hw := hw\<rparr>))"

definition serial_init :: "'h bus \<Rightarrow> 'h com \<Rightarrow> 'h com" where
  "serial_init b s =
     fold (\<lambda>(i, v) s. com_out b i v s) [(1, 0x01), (3, 0x80), (0, 0x03), (1, 0x00), (3, 0x03), (2, 0xc7), (4, 0x0b)] s"

definition is_transmitting :: "'h bus \<Rightarrow> 'h com \<Rightarrow> bool \<times> 'h com" where
  "is_transmitting b s = (let (v, s) = com_in b 5 s in (v AND STATUS_TRANSMIT_BUFFER_EMPTY = 0, s))"

text \<open>The busy wait of \<^verbatim>\<open>send_byte\<close>.\<close>

partial_function (option) send_byte :: "'h bus \<Rightarrow> u8 \<Rightarrow> 'h com \<Rightarrow> 'h com option" where
  "send_byte b byte s =
     (let (busy, s) = is_transmitting b s in if busy then send_byte b byte s else Some (com_out b 0 byte s))"

definition has_data :: "'h bus \<Rightarrow> 'h com \<Rightarrow> bool \<times> 'h com" where
  "has_data b s = (let (v, s) = com_in b 5 s in (v AND STATUS_DATA_READY \<noteq> 0, s))"

definition receive_byte :: "'h bus \<Rightarrow> 'h com \<Rightarrow> u8 option \<times> 'h com" where
  "receive_byte b s =
     (let (ready, s) = has_data b s
      in if ready then (let (v, s) = com_in b 0 s in (Some v, s)) else (None, s))"

definition com_handle_interrupt :: "'h bus \<Rightarrow> 'h com \<Rightarrow> kernel \<Rightarrow> ('h com \<times> kernel) outcome" where
  "com_handle_interrupt b s k =
     (let (interrupt_info, s) = com_in b 2 s
      in if interrupt_info AND 4 \<noteq> 0
         then (case wake_on_data_ready s of
                 Some pid \<Rightarrow> obind (process_send_signal pid SIG_CONTINUE k) (\<lambda>k. Done (s, k))
               | None \<Rightarrow> Done (s, k))
         else Done (s, k))"

definition maybe_set_wake_on_data_ready :: "process_id \<Rightarrow> 'h com \<Rightarrow> 'h com" where
  "maybe_set_wake_on_data_ready pid s = (case wake_on_data_ready s of None \<Rightarrow> s\<lparr>wake_on_data_ready := Some pid\<rparr> | Some _ \<Rightarrow> s)"

definition force_wake_on_data_ready :: "process_id \<Rightarrow> 'h com \<Rightarrow> 'h com" where
  "force_wake_on_data_ready pid s = s\<lparr>wake_on_data_ready := Some pid\<rparr>"

definition clear_wake_on_data_ready :: "'h com \<Rightarrow> 'h com" where
  "clear_wake_on_data_ready s = s\<lparr>wake_on_data_ready := None\<rparr>"

section \<open>The queue of readers\<close>

definition add_process_to_queue :: "process_id \<Rightarrow> 'h com \<Rightarrow> nat \<times> 'h com" where
  "add_process_to_queue pid s =
     (let s = s\<lparr>com_queue := com_queue s @ [pid]\<rparr>; len = length (com_queue s)
      in (len, if len = 1 then maybe_set_wake_on_data_ready pid s else s))"

definition get_first_process_in_queue :: "'h com \<Rightarrow> process_id option" where
  "get_first_process_in_queue s = nth_opt (com_queue s) 0"

definition get_queue_length :: "'h com \<Rightarrow> nat" where
  "get_queue_length s = length (com_queue s)"

definition remove_first_in_queue :: "'h com \<Rightarrow> process_id option \<times> 'h com" where
  "remove_first_in_queue s =
     (let s = clear_wake_on_data_ready s;
          first = nth_opt (com_queue s) 0;
          s = s\<lparr>com_queue := tl (com_queue s)\<rparr>
      in (first, case nth_opt (com_queue s) 0 of Some pid \<Rightarrow> force_wake_on_data_ready pid s | None \<Rightarrow> s))"

text \<open>The loop of \<^verbatim>\<open>read_available_data\<close> from position \<open>i\<close>: the second test of \<^verbatim>\<open>has_data\<close>, in \<^verbatim>\<open>receive_byte\<close>, may
  differ from the first, and then the position stays.\<close>

partial_function (option) read_available :: "'h bus \<Rightarrow> nat \<Rightarrow> u8 list \<Rightarrow> 'h com \<Rightarrow> (nat \<times> u8 list \<times> 'h com) option" where
  "read_available b i buffer s =
     (if i < length buffer
      then let (ready, s) = has_data b s
           in if ready
              then let (data, s) = receive_byte b s
                   in case data of
                        Some v \<Rightarrow> read_available b (i + 1) (buffer[i := v]) s
                      | None \<Rightarrow> read_available b i buffer s
              else Some (i, buffer, s)
      else Some (i, buffer, s))"

definition queue_wait :: "'h com scheduling \<Rightarrow> process_id \<Rightarrow> 'h com \<Rightarrow> 'h com" where
  "queue_wait sch pid s = sch_yield sch (sch_stop sch pid s)"

partial_function (option) wait_turn :: "'h com scheduling \<Rightarrow> process_id \<Rightarrow> 'h com \<Rightarrow> 'h com option" where
  "wait_turn sch pid s =
     (if get_first_process_in_queue s \<noteq> Some pid then wait_turn sch pid (queue_wait sch pid s) else Some s)"

text \<open>The loop that fills the buffer; \<open>rest\<close> is the part of it that is still empty.\<close>

partial_function (option) fill_buffer :: "'h bus \<Rightarrow> 'h com scheduling \<Rightarrow> process_id \<Rightarrow> u8 list \<Rightarrow> u8 list \<Rightarrow> 'h com \<Rightarrow> (u8 list \<times> 'h com) option" where
  "fill_buffer b sch pid filled rest s =
     (if rest = [] then Some (filled, s)
      else Option.bind (read_available b 0 rest s) (\<lambda>(n, rest, s).
             let filled = filled @ take n rest; rest = drop n rest
             in if rest \<noteq> []
                then let (ready, s) = has_data b s
                     in fill_buffer b sch pid filled rest (if ready then s else queue_wait sch pid s)
                else fill_buffer b sch pid filled rest s))"

text \<open>\<^verbatim>\<open>process_wake\<close> of another process, a parameter like the other process calls.\<close>

definition blocking_read :: "'h bus \<Rightarrow> 'h com scheduling \<Rightarrow> (process_id \<Rightarrow> 'h com \<Rightarrow> 'h com) \<Rightarrow> u8 list \<Rightarrow> 'h com \<Rightarrow> (nat \<times> u8 list \<times> 'h com) option" where
  "blocking_read b sch wake_process buffer s =
     (let pid = sch_current_pid sch s; (len, s) = add_process_to_queue pid s
      in Option.bind (wait_turn sch pid (if len > 1 then queue_wait sch pid s else s)) (\<lambda>s.
         Option.bind (fill_buffer b sch pid [] buffer s) (\<lambda>(buffer, s).
           let (_, s) = remove_first_in_queue s;
               (ready, s) = has_data b s
           in Some (length buffer, buffer,
                    if ready then (case get_first_process_in_queue s of Some pid \<Rightarrow> wake_process pid s | None \<Rightarrow> s) else s))))"

section \<open>The device\<close>

fun send_bytes :: "'h bus \<Rightarrow> u8 list \<Rightarrow> 'h com \<Rightarrow> 'h com option" where
  "send_bytes b [] s = Some s"
| "send_bytes b (x # xs) s = Option.bind (send_byte b x s) (send_bytes b xs)"

definition com_read :: "'h bus \<Rightarrow> 'h com scheduling \<Rightarrow> (process_id \<Rightarrow> 'h com \<Rightarrow> 'h com) \<Rightarrow> local_handle \<Rightarrow> u8 list \<Rightarrow> 'h com
    \<Rightarrow> ((unit + usize) \<times> u8 list \<times> 'h com) outcome" where
  "com_read b sch wake_process handle buffer s =
     (case blocking_read b sch wake_process buffer s of
        None \<Rightarrow> Hang
      | Some (n, buffer, s) \<Rightarrow> Done (Inr (of_nat n), buffer, s))"

definition com_write :: "'h bus \<Rightarrow> local_handle \<Rightarrow> u8 list \<Rightarrow> 'h com \<Rightarrow> ((unit + usize) \<times> 'h com) outcome" where
  "com_write b handle buffer s =
     (case send_bytes b buffer s of None \<Rightarrow> Hang | Some s \<Rightarrow> Done (Inr (of_nat (length buffer)), s))"

definition com_device :: "'h bus \<Rightarrow> 'h com scheduling \<Rightarrow> (process_id \<Rightarrow> 'h com \<Rightarrow> 'h com) \<Rightarrow> 'h com device_driver" where
  "com_device b sch wake_process = default_driver
     \<lparr>dd_open := \<lambda>handle s. Done (Inr (), s), dd_close := \<lambda>handle s. Done (Inr (), s),
      dd_read := com_read b sch wake_process, dd_write := com_write b\<rparr>"

section \<open>What is written is sent\<close>

text \<open>On a line that becomes free within a bounded number of polls, given by a measure \<open>n\<close> of the hardware, the byte is
  written to the data port.\<close>

lemma send_byte_sends:
  fixes n :: "'h com \<Rightarrow> nat"
  assumes "\<And>s. fst (is_transmitting b s) \<Longrightarrow> n (snd (is_transmitting b s)) < n s"
  shows "\<exists>s'. send_byte b byte s = Some (com_out b 0 byte s')"
proof (induction "n s" arbitrary: s rule: less_induct)
  case less
  obtain busy s1 where t: "is_transmitting b s = (busy, s1)" by (cases "is_transmitting b s")
  show ?case
  proof (cases busy)
    case True
    then have "n s1 < n s" using assms [of s] t by simp
    then show ?thesis using less [of s1] True t by (subst send_byte.simps) simp
  next
    case False
    then show ?thesis using t by (subst send_byte.simps) auto
  qed
qed

lemma queue_after_add: "com_queue (snd (add_process_to_queue pid s)) = com_queue s @ [pid]"
  by (auto simp: add_process_to_queue_def Let_def maybe_set_wake_on_data_ready_def split: option.splits)

text \<open>Readers are served in the order in which they came, and the interrupt wakes the one at the front.\<close>

definition queue_ok :: "'h com \<Rightarrow> bool" where
  "queue_ok s \<longleftrightarrow> wake_on_data_ready s = nth_opt (com_queue s) 0"

lemma queue_ok_preserved:
  assumes "queue_ok s"
  shows "queue_ok (snd (add_process_to_queue pid s))" "queue_ok (snd (remove_first_in_queue s))"
proof -
  show "queue_ok (snd (add_process_to_queue pid s))"
    using assms by (cases "com_queue s")
      (auto simp: queue_ok_def add_process_to_queue_def Let_def maybe_set_wake_on_data_ready_def nth_opt_def split: option.splits)
  show "queue_ok (snd (remove_first_in_queue s))"
    by (auto simp: queue_ok_def remove_first_in_queue_def Let_def clear_wake_on_data_ready_def force_wake_on_data_ready_def
        nth_opt_def split: option.splits)
qed

end
