(* ===== verification/Descriptors.thy ===== *)
theory Descriptors
  imports Ports
begin

text \<open>
  The tables of the processor: the global descriptor table and the task state segment
  (\<^verbatim>\<open>gdt.rs\<close>), the interrupt descriptor table (\<^verbatim>\<open>idt.rs\<close>, \<^verbatim>\<open>x86/segments.rs\<close>), and the interrupt
  controller and timer that raise the interrupts (\<^verbatim>\<open>hardware/pic.rs\<close>, \<^verbatim>\<open>hardware/pit.rs\<close>).  Addresses
  of tables and of handler functions are given by the linker and are parameters.  The instructions
  that load the tables into the processor have no state here.
\<close>

section \<open>Segment descriptors\<close>

definition GDT_ACCESS_PRESENT :: u8 where "GDT_ACCESS_PRESENT = push_bit 7 1"
definition GDT_ACCESS_RING_0 :: u8 where "GDT_ACCESS_RING_0 = 0"
definition GDT_ACCESS_RING_3 :: u8 where "GDT_ACCESS_RING_3 = push_bit 5 3"
definition GDT_ACCESS_CODE_DATA_DESCRIPTOR :: u8 where "GDT_ACCESS_CODE_DATA_DESCRIPTOR = push_bit 4 1"
definition GDT_ACCESS_SYSTEM_DESCRIPTOR :: u8 where "GDT_ACCESS_SYSTEM_DESCRIPTOR = 0"
definition GDT_ACCESS_EXECUTABLE :: u8 where "GDT_ACCESS_EXECUTABLE = push_bit 3 1"
definition GDT_ACCESS_RW :: u8 where "GDT_ACCESS_RW = push_bit 1 1"
definition GDT_ACCESS_ACCESSED :: u8 where "GDT_ACCESS_ACCESSED = 1"
definition GDT_FLAG_GRANULARITY_4KB :: u8 where "GDT_FLAG_GRANULARITY_4KB = push_bit 7 1"
definition GDT_FLAG_SIZE_32_BIT :: u8 where "GDT_FLAG_SIZE_32_BIT = push_bit 6 1"

lemmas gdt_constants = GDT_ACCESS_PRESENT_def GDT_ACCESS_RING_0_def GDT_ACCESS_RING_3_def
  GDT_ACCESS_CODE_DATA_DESCRIPTOR_def GDT_ACCESS_SYSTEM_DESCRIPTOR_def GDT_ACCESS_EXECUTABLE_def
  GDT_ACCESS_RW_def GDT_ACCESS_ACCESSED_def GDT_FLAG_GRANULARITY_4KB_def GDT_FLAG_SIZE_32_BIT_def

record gdt_entry =
  limit_low :: u16
  base_low :: u16
  base_middle :: u8
  gdt_access :: u8
  flags_and_limit_high :: u8
  base_high :: u8

definition gdt_entry_new :: "u32 \<Rightarrow> u32 \<Rightarrow> u8 \<Rightarrow> u8 \<Rightarrow> gdt_entry" where
  "gdt_entry_new bs limit access flags =
     \<lparr>limit_low = ucast (limit AND 0xffff), base_low = ucast (bs AND 0xffff), base_middle = ucast (drop_bit 16 bs AND 0xff),
      gdt_access = access, flags_and_limit_high = (flags AND 0xe0) OR ucast (drop_bit 16 limit AND 0xf),
      base_high = ucast (drop_bit 24 bs AND 0xff)\<rparr>"

definition gdt_set_base :: "u32 \<Rightarrow> gdt_entry \<Rightarrow> gdt_entry" where
  "gdt_set_base bs e = e\<lparr>base_low := ucast (bs AND 0xffff), base_middle := ucast (drop_bit 16 bs AND 0xff),
     base_high := ucast (drop_bit 24 bs AND 0xff)\<rparr>"

definition gdt_set_limit :: "u32 \<Rightarrow> gdt_entry \<Rightarrow> gdt_entry" where
  "gdt_set_limit limit e = e\<lparr>limit_low := ucast (limit AND 0xffff),
     flags_and_limit_high := (flags_and_limit_high e AND 0xf0) OR ucast (drop_bit 16 limit AND 0xf)\<rparr>"

record table_descriptor =
  td_size :: u16
  td_offset :: u32

definition GDT_initial :: "gdt_entry list" where
  "GDT_initial =
     [gdt_entry_new 0 0 0 0,
      gdt_entry_new 0 0xffffffff
        (GDT_ACCESS_PRESENT OR GDT_ACCESS_RING_0 OR GDT_ACCESS_CODE_DATA_DESCRIPTOR OR GDT_ACCESS_EXECUTABLE OR GDT_ACCESS_RW)
        (GDT_FLAG_GRANULARITY_4KB OR GDT_FLAG_SIZE_32_BIT),
      gdt_entry_new 0 0xffffffff
        (GDT_ACCESS_PRESENT OR GDT_ACCESS_RING_0 OR GDT_ACCESS_CODE_DATA_DESCRIPTOR OR GDT_ACCESS_RW)
        (GDT_FLAG_GRANULARITY_4KB OR GDT_FLAG_SIZE_32_BIT),
      gdt_entry_new 0 0xffffffff
        (GDT_ACCESS_PRESENT OR GDT_ACCESS_RING_3 OR GDT_ACCESS_CODE_DATA_DESCRIPTOR OR GDT_ACCESS_EXECUTABLE OR GDT_ACCESS_RW)
        (GDT_FLAG_GRANULARITY_4KB OR GDT_FLAG_SIZE_32_BIT),
      gdt_entry_new 0 0xffffffff
        (GDT_ACCESS_PRESENT OR GDT_ACCESS_RING_3 OR GDT_ACCESS_CODE_DATA_DESCRIPTOR OR GDT_ACCESS_RW)
        (GDT_FLAG_GRANULARITY_4KB OR GDT_FLAG_SIZE_32_BIT),
      gdt_entry_new 0 0xffffffff
        (GDT_ACCESS_PRESENT OR GDT_ACCESS_RING_3 OR GDT_ACCESS_SYSTEM_DESCRIPTOR OR GDT_ACCESS_EXECUTABLE OR GDT_ACCESS_ACCESSED)
        0]"

record task_state_segment =
  tss_prev_tss :: u32
  tss_esp0 :: u32
  tss_ss0 :: u32
  tss_esp1 :: u32
  tss_ss1 :: u32
  tss_esp2 :: u32
  tss_ss2 :: u32
  tss_cr3 :: u32
  tss_eip :: u32
  tss_eflags :: u32
  tss_eax :: u32
  tss_ecx :: u32
  tss_edx :: u32
  tss_ebx :: u32
  tss_esp :: u32
  tss_ebp :: u32
  tss_esi :: u32
  tss_edi :: u32
  tss_es :: u32
  tss_cs :: u32
  tss_ss :: u32
  tss_ds :: u32
  tss_fs :: u32
  tss_gs :: u32
  tss_ldt :: u32
  tss_trap :: u16
  tss_iomap_base :: u16

definition tss_size :: usize where "tss_size = 104"

definition tss_zero :: task_state_segment where
  "tss_zero =
     \<lparr>tss_prev_tss = 0, tss_esp0 = 0, tss_ss0 = 0, tss_esp1 = 0, tss_ss1 = 0, tss_esp2 = 0, tss_ss2 = 0, tss_cr3 = 0,
      tss_eip = 0, tss_eflags = 0, tss_eax = 0, tss_ecx = 0, tss_edx = 0, tss_ebx = 0, tss_esp = 0, tss_ebp = 0,
      tss_esi = 0, tss_edi = 0, tss_es = 0, tss_cs = 0, tss_ss = 0, tss_ds = 0, tss_fs = 0, tss_gs = 0, tss_ldt = 0,
      tss_trap = 0, tss_iomap_base = 0\<rparr>"

definition tss_set_stack_segment :: "u32 \<Rightarrow> task_state_segment \<Rightarrow> task_state_segment" where
  "tss_set_stack_segment segment t = t\<lparr>tss_ss0 := segment\<rparr>"

definition tss_set_stack_pointer :: "u32 \<Rightarrow> task_state_segment \<Rightarrow> task_state_segment" where
  "tss_set_stack_pointer pointer t = t\<lparr>tss_esp0 := pointer\<rparr>"

record gdt_statics =
  GDTR :: table_descriptor
  GDT :: "gdt_entry list"
  TSS :: task_state_segment

definition gdt_statics_initial :: gdt_statics where
  "gdt_statics_initial = \<lparr>GDTR = \<lparr>td_size = 0, td_offset = 0\<rparr>, GDT = GDT_initial, TSS = tss_zero\<rparr>"

text \<open>\<^verbatim>\<open>gdt::init\<close>, given the addresses of the table and of the task state segment; an entry has 8 bytes.\<close>

definition gdt_init :: "u32 \<Rightarrow> u32 \<Rightarrow> gdt_statics \<Rightarrow> gdt_statics" where
  "gdt_init gdt_addr tss_addr g =
     g\<lparr>GDTR := \<lparr>td_size = ucast (of_nat (length (GDT g)) * 8 - 1 :: usize), td_offset = gdt_addr\<rparr>,
       TSS := tss_set_stack_segment 0x10 tss_zero,
       GDT := (GDT g)[5 := gdt_set_base tss_addr (gdt_set_limit tss_size (GDT g ! 5))]\<rparr>"

definition set_tss_stack_pointer :: "u32 \<Rightarrow> gdt_statics \<Rightarrow> gdt_statics" where
  "set_tss_stack_pointer sp g = g\<lparr>TSS := tss_set_stack_pointer sp (TSS g)\<rparr>"

section \<open>Interrupt gates\<close>

datatype segment_selector = SegmentSelector u16

definition segment_selector_new :: "u16 \<Rightarrow> u16 \<Rightarrow> segment_selector" where
  "segment_selector_new index priv_level = SegmentSelector (push_bit 3 index OR (priv_level AND 3))"

definition IDT_PRESENT :: u8 where "IDT_PRESENT = push_bit 7 1"
definition IDT_DESCRIPTOR_RING_0 :: u8 where "IDT_DESCRIPTOR_RING_0 = 0"
definition IDT_DESCRIPTOR_RING_3 :: u8 where "IDT_DESCRIPTOR_RING_3 = push_bit 5 3"
definition IDT_GATE_TYPE_INT_32 :: u8 where "IDT_GATE_TYPE_INT_32 = 0xe"

lemmas idt_constants = IDT_PRESENT_def IDT_DESCRIPTOR_RING_0_def IDT_DESCRIPTOR_RING_3_def IDT_GATE_TYPE_INT_32_def

record idt_entry =
  offset_low :: u16
  idt_selector :: segment_selector
  idt_zero :: u8
  type_and_attributes :: u8
  offset_high :: u16

definition idt_entry_new :: idt_entry where
  "idt_entry_new = \<lparr>offset_low = 0, idt_selector = segment_selector_new 1 0, idt_zero = 0, type_and_attributes = 0, offset_high = 0\<rparr>"

definition set_handler_at_offset :: "usize \<Rightarrow> idt_entry \<Rightarrow> idt_entry" where
  "set_handler_at_offset off e = e\<lparr>offset_low := ucast off, offset_high := ucast (drop_bit 16 off),
     type_and_attributes := IDT_PRESENT OR IDT_DESCRIPTOR_RING_0 OR IDT_GATE_TYPE_INT_32\<rparr>"

definition make_usermode_accessible :: "idt_entry \<Rightarrow> idt_entry" where
  "make_usermode_accessible e = e\<lparr>type_and_attributes := type_and_attributes e OR IDT_DESCRIPTOR_RING_3\<rparr>"

definition set_handler :: "usize \<Rightarrow> idt_entry \<Rightarrow> idt_entry" where
  "set_handler func e = set_handler_at_offset func e"

definition set_handler_with_error :: "usize \<Rightarrow> idt_entry \<Rightarrow> idt_entry" where
  "set_handler_with_error func e = set_handler_at_offset func e"

definition set_usermode_handler :: "usize \<Rightarrow> idt_entry \<Rightarrow> idt_entry" where
  "set_usermode_handler func e = make_usermode_accessible (set_handler_at_offset func e)"

record idt_statics =
  IDTR :: table_descriptor
  IDT :: "idt_entry list"

definition idt_statics_initial :: idt_statics where
  "idt_statics_initial = \<lparr>IDTR = \<lparr>td_size = 0, td_offset = 0\<rparr>, IDT = replicate 256 idt_entry_new\<rparr>"

text \<open>The addresses of the handlers that \<^verbatim>\<open>idt::init\<close> installs.\<close>

record handlers =
  hd_divide_by_zero :: usize
  hd_double_fault :: usize
  hd_gpf :: usize
  hd_page_fault :: usize
  hd_syscall :: usize
  hd_pit :: usize
  hd_keyboard :: usize
  hd_com1 :: usize
  hd_floppy :: usize

definition idt_update :: "nat \<Rightarrow> (idt_entry \<Rightarrow> idt_entry) \<Rightarrow> idt_entry list \<Rightarrow> idt_entry list" where
  "idt_update i f t = t[i := f (t ! i)]"

definition idt_init :: "u32 \<Rightarrow> handlers \<Rightarrow> idt_statics \<Rightarrow> idt_statics" where
  "idt_init idt_addr h s =
     (let t = IDT s;
          t = idt_update 0 (set_handler (hd_divide_by_zero h)) t;
          t = idt_update 8 (set_handler (hd_double_fault h)) t;
          t = idt_update 0xd (set_handler_with_error (hd_gpf h)) t;
          t = idt_update 0xe (set_handler_with_error (hd_page_fault h)) t;
          t = idt_update 0x2b (set_usermode_handler (hd_syscall h)) t;
          t = idt_update 0x30 (set_handler (hd_pit h)) t;
          t = idt_update 0x31 (set_handler (hd_keyboard h)) t;
          t = idt_update 0x34 (set_handler (hd_com1 h)) t;
          t = idt_update 0x36 (set_handler (hd_floppy h)) t
      in \<lparr>IDTR = \<lparr>td_size = ucast (of_nat (length (IDT s)) * 8 - 1 :: usize), td_offset = idt_addr\<rparr>, IDT = t\<rparr>)"

section \<open>Interrupt controller and timer\<close>

definition pic_init :: "'h bus \<Rightarrow> 'h \<Rightarrow> 'h" where
  "pic_init b h =
     fold (\<lambda>(p, v) h. port_write_u8 b (Port p) v h)
       [(0x20, 0x10 OR 0x01), (0xa0, 0x10 OR 0x01), (0x21, 0x30), (0xa1, 0x38), (0x21, 0x04), (0xa1, 0x02), (0x21, 0x01), (0xa1, 0x01)] h"

definition acknowledge_interrupt :: "'h bus \<Rightarrow> u8 \<Rightarrow> 'h \<Rightarrow> 'h" where
  "acknowledge_interrupt b irq h =
     (let h = (if irq \<ge> 8 then port_write_u8 b (Port 0xa0) 0x20 h else h)
      in port_write_u8 b (Port 0x20) 0x20 h)"

definition set_divider :: "'h bus \<Rightarrow> u16 \<Rightarrow> 'h \<Rightarrow> 'h" where
  "set_divider b divider h =
     (let h = port_write_u8 b (Port 0x43) 0x36 h;
          h = port_write_u8 b (Port 0x40) (ucast (divider AND 0xff)) h
      in port_write_u8 b (Port 0x40) (ucast (drop_bit 8 divider)) h)"

section \<open>How the processor reads the tables\<close>

text \<open>The fields of a descriptor as the processor decodes them.\<close>

definition descriptor_base :: "gdt_entry \<Rightarrow> u32" where
  "descriptor_base e = ucast (base_low e) OR push_bit 16 (ucast (base_middle e)) OR push_bit 24 (ucast (base_high e))"

definition descriptor_limit :: "gdt_entry \<Rightarrow> u32" where
  "descriptor_limit e = ucast (limit_low e) OR push_bit 16 (ucast (flags_and_limit_high e AND 0x0f))"

definition descriptor_dpl :: "gdt_entry \<Rightarrow> u8" where
  "descriptor_dpl e = drop_bit 5 (gdt_access e) AND 3"

definition gate_offset :: "idt_entry \<Rightarrow> usize" where
  "gate_offset e = ucast (offset_low e) OR push_bit 16 (ucast (offset_high e))"

definition gate_present :: "idt_entry \<Rightarrow> bool" where
  "gate_present e \<longleftrightarrow> bit (type_and_attributes e) 7"

definition gate_dpl :: "idt_entry \<Rightarrow> u8" where
  "gate_dpl e = drop_bit 5 (type_and_attributes e) AND 3"

lemma masks: "(0xffff :: u32) = mask 16" "(0xff :: u32) = mask 8" "(0xf :: u32) = mask 4" "(0x0f :: u8) = mask 4"
  "(0xf0 :: u8) = NOT (mask 4)" "(0xfffff :: u32) = mask 20"
  by (simp_all add: mask_eq_exp_minus_1)

lemma base_parts:
  fixes bs :: u32
  shows "ucast (ucast (bs AND mask 16) :: u16) OR push_bit 16 (ucast (ucast (drop_bit 16 bs AND mask 8) :: u8))
    OR push_bit 24 (ucast (ucast (drop_bit 24 bs AND mask 8) :: u8)) = bs"
proof (rule bit_word_eqI, goal_cases)
  case (1 n)
  then show ?case by (cases "n < 16"; cases "n < 24") (auto simp: bit_simps)
qed

lemma descriptor_set_base: "descriptor_base (gdt_set_base bs e) = bs"
  using base_parts [of bs] by (simp add: descriptor_base_def gdt_set_base_def masks)

lemma descriptor_set_limit: "descriptor_limit (gdt_set_limit limit e) = limit AND 0xfffff"
  unfolding descriptor_limit_def gdt_set_limit_def masks
  by (rule bit_word_eqI) (auto simp: bit_simps)

lemma descriptor_frame:
  "descriptor_limit (gdt_set_base bs e) = descriptor_limit e" "descriptor_base (gdt_set_limit limit e) = descriptor_base e"
  "gdt_access (gdt_set_base bs e) = gdt_access e" "gdt_access (gdt_set_limit limit e) = gdt_access e"
  by (simp_all add: descriptor_limit_def descriptor_base_def gdt_set_base_def gdt_set_limit_def)

lemma gate_set_handler:
  "gate_offset (set_handler_at_offset off e) = off" "gate_present (set_handler_at_offset off e)" "gate_dpl (set_handler_at_offset off e) = 0"
proof -
  show "gate_offset (set_handler_at_offset off e) = off"
    unfolding gate_offset_def set_handler_at_offset_def by (rule bit_word_eqI) (auto simp: bit_simps)
qed (simp_all add: gate_present_def gate_dpl_def set_handler_at_offset_def idt_constants)

lemma gate_usermode:
  "gate_offset (make_usermode_accessible e) = gate_offset e"
  "gate_dpl (make_usermode_accessible (set_handler_at_offset off e)) = 3"
  "gate_present (make_usermode_accessible (set_handler_at_offset off e))"
  by (simp_all add: gate_offset_def gate_dpl_def gate_present_def make_usermode_accessible_def set_handler_at_offset_def idt_constants)

lemma length_idt_init [simp]: "length (IDT (idt_init addr h idt_statics_initial)) = 256"
  by (simp add: idt_init_def Let_def idt_update_def idt_statics_initial_def)

lemma idt_init_nth:
  "i < 256 \<Longrightarrow> IDT (idt_init addr h idt_statics_initial) ! i =
     (if i = 0 then set_handler_at_offset (hd_divide_by_zero h) idt_entry_new
      else if i = 8 then set_handler_at_offset (hd_double_fault h) idt_entry_new
      else if i = 0xd then set_handler_at_offset (hd_gpf h) idt_entry_new
      else if i = 0xe then set_handler_at_offset (hd_page_fault h) idt_entry_new
      else if i = 0x2b then make_usermode_accessible (set_handler_at_offset (hd_syscall h) idt_entry_new)
      else if i = 0x30 then set_handler_at_offset (hd_pit h) idt_entry_new
      else if i = 0x31 then set_handler_at_offset (hd_keyboard h) idt_entry_new
      else if i = 0x34 then set_handler_at_offset (hd_com1 h) idt_entry_new
      else if i = 0x36 then set_handler_at_offset (hd_floppy h) idt_entry_new
      else idt_entry_new)"
  by (simp add: idt_init_def Let_def idt_update_def idt_statics_initial_def set_handler_def set_handler_with_error_def
      set_usermode_handler_def nth_list_update)

lemma empty_gate: "\<not> gate_present idt_entry_new" "gate_dpl idt_entry_new = 0"
  by (simp_all add: gate_present_def gate_dpl_def idt_entry_new_def)

definition vectors :: "nat list" where
  "vectors = [0, 8, 0xd, 0xe, 0x2b, 0x30, 0x31, 0x34, 0x36]"

text \<open>C25: the tables of the processor after start-up, as the processor decodes them.  The task state segment is described
  with its address and its length and names the kernel data segment for the kernel stack; the null and kernel segments have privilege 0, user
  segments privilege 3; the limits of the tables are right.  The gates of the nine handlers, and no others, are present, lead to
  the handler's address, and only the one of system calls may be entered from user mode.\<close>

theorem descriptor_tables_correct:
  "let g = gdt_init gdt_addr tss_addr gdt_statics_initial; s = idt_init idt_addr h idt_statics_initial; t = IDT s
   in descriptor_base (GDT g ! 5) = tss_addr \<and> descriptor_limit (GDT g ! 5) = tss_size \<and> tss_ss0 (TSS g) = 0x10
    \<and> map descriptor_dpl (GDT g) = [0, 0, 0, 3, 3, 3]
    \<and> GDTR g = \<lparr>td_size = 8 * 6 - 1, td_offset = gdt_addr\<rparr> \<and> IDTR s = \<lparr>td_size = 8 * 256 - 1, td_offset = idt_addr\<rparr>
    \<and> map gate_present t = map (\<lambda>i. i \<in> set vectors) [0 ..< 256]
    \<and> map gate_dpl t = map (\<lambda>i. if i = 0x2b then 3 else 0) [0 ..< 256]
    \<and> map (\<lambda>i. gate_offset (t ! i)) vectors
      = [hd_divide_by_zero h, hd_double_fault h, hd_gpf h, hd_page_fault h, hd_syscall h, hd_pit h, hd_keyboard h, hd_com1 h, hd_floppy h]"
proof -
  let ?g = "gdt_init gdt_addr tss_addr gdt_statics_initial" and ?s = "idt_init idt_addr h idt_statics_initial"
  have "length GDT_initial = 6" by (simp add: GDT_initial_def)
  then have five: "GDT ?g ! 5 = gdt_set_base tss_addr (gdt_set_limit tss_size (GDT_initial ! 5))"
    by (simp add: gdt_init_def gdt_statics_initial_def)
  have "descriptor_base (GDT ?g ! 5) = tss_addr" "descriptor_limit (GDT ?g ! 5) = tss_size"
    unfolding five by (simp_all add: descriptor_set_base descriptor_frame descriptor_set_limit tss_size_def)
  moreover have "tss_ss0 (TSS ?g) = 0x10" by (simp add: gdt_init_def tss_set_stack_segment_def)
  moreover have "map descriptor_dpl (GDT ?g) = [0, 0, 0, 3, 3, 3]"
    by (simp add: gdt_init_def gdt_statics_initial_def GDT_initial_def descriptor_dpl_def gdt_entry_new_def gdt_constants
        gdt_set_base_def gdt_set_limit_def)
  moreover have "GDTR ?g = \<lparr>td_size = 8 * 6 - 1, td_offset = gdt_addr\<rparr>"
    by (simp add: gdt_init_def gdt_statics_initial_def GDT_initial_def)
  moreover have "IDTR ?s = \<lparr>td_size = 8 * 256 - 1, td_offset = idt_addr\<rparr>"
    by (simp add: idt_init_def Let_def idt_statics_initial_def)
  moreover have "map gate_present (IDT ?s) = map (\<lambda>i. i \<in> set vectors) [0 ..< 256]"
    by (rule nth_equalityI) (simp_all add: idt_init_nth gate_set_handler gate_usermode empty_gate vectors_def)
  moreover have "map gate_dpl (IDT ?s) = map (\<lambda>i. if i = 0x2b then 3 else 0) [0 ..< 256]"
    by (rule nth_equalityI) (simp_all add: idt_init_nth gate_set_handler gate_usermode empty_gate)
  moreover have "map (\<lambda>i. gate_offset (IDT ?s ! i)) vectors
      = [hd_divide_by_zero h, hd_double_fault h, hd_gpf h, hd_page_fault h, hd_syscall h, hd_pit h, hd_keyboard h, hd_com1 h, hd_floppy h]"
    by (simp add: vectors_def idt_init_nth gate_set_handler gate_usermode)
  ultimately show ?thesis unfolding Let_def by blast
qed

end
