(* ===== verification/Interrupts.thy ===== *)
theory Interrupts
  imports Serial Descriptors Keyboard TimeDate Collections
begin

text \<open>
  The handlers of the hardware interrupts (\<^verbatim>\<open>interrupts/pic.rs\<close>) and the thread that takes the keyboard's
  bytes from them (\<^verbatim>\<open>input.rs\<close>).  Each handler acts on the part of the kernel it touches and
  ends by acknowledging its interrupt.
\<close>

section \<open>Handlers\<close>

definition irq_pit :: "'h bus \<Rightarrow> clock \<times> kernel \<times> 'h \<Rightarrow> (clock \<times> kernel \<times> 'h) outcome" where
  "irq_pit b s =
     (case s of (c, k, hw) \<Rightarrow>
        let c = increment_offset HUNDRED_NS_PER_TICK c
        in obind (send_tick k) (\<lambda>k. Done (c, k, acknowledge_interrupt b 0 hw)))"

record input_statics =
  INPUT_THREAD_ID :: process_id
  INPUT_EVENTS :: ringbuffer

definition input_statics_initial :: input_statics where
  "input_statics_initial = \<lparr>INPUT_THREAD_ID = 0, INPUT_EVENTS = ringbuffer_new (replicate 32 0)\<rparr>"

definition wake_thread :: "input_statics \<Rightarrow> kernel \<Rightarrow> kernel outcome" where
  "wake_thread i k = process_send_signal (INPUT_THREAD_ID i) SIG_CONTINUE k"

definition irq_keyboard :: "'h bus \<Rightarrow> input_statics \<times> kernel \<times> 'h \<Rightarrow> (input_statics \<times> kernel \<times> 'h) outcome" where
  "irq_keyboard b s =
     (case s of (i, k, hw) \<Rightarrow>
        let (v, hw) = port_read_u8 b (Port 0x60) hw;
            i = i\<lparr>INPUT_EVENTS := fst (rb_write (INPUT_EVENTS i) [v])\<rparr>
        in obind (wake_thread i k) (\<lambda>k. Done (i, k, acknowledge_interrupt b 1 hw)))"

definition irq_com1 :: "'h bus \<Rightarrow> 'h com \<times> kernel \<Rightarrow> ('h com \<times> kernel) outcome" where
  "irq_com1 b s =
     (case s of (c, k) \<Rightarrow>
        obind (com_handle_interrupt b c k) (\<lambda>(c, k). Done (c\<lparr>com_hw := acknowledge_interrupt b 4 (com_hw c)\<rparr>, k)))"

definition irq_floppy :: "'h bus \<Rightarrow> 'h fdc \<times> kernel \<Rightarrow> ('h fdc \<times> kernel) outcome" where
  "irq_floppy b s =
     (case s of (f, k) \<Rightarrow>
        obind (handle_int6 f k) (\<lambda>(f, k). Done (f\<lparr>fdc_hw := acknowledge_interrupt b 6 (fdc_hw f)\<rparr>, k)))"

section \<open>The input thread\<close>

text \<open>The loop over the bytes that were waiting, with the number still to take.\<close>

fun input_loop :: "(u8 \<Rightarrow> 't \<Rightarrow> 't outcome) \<Rightarrow> nat \<Rightarrow> u8 list \<Rightarrow> ringbuffer \<times> 't \<Rightarrow> (ringbuffer \<times> 't) outcome" where
  "input_loop handle 0 read_buffer s = Done s"
| "input_loop handle (Suc n) read_buffer s =
     (case rb_read (fst s) read_buffer of
        (ev, read_buffer, read_len) \<Rightarrow>
          if read_len < 1 then Done (ev, snd s)
          else obind (handle (read_buffer ! 0) (snd s)) (\<lambda>t. input_loop handle n read_buffer (ev, t)))"

text \<open>One turn of the endless loop of \<^verbatim>\<open>run_input\<close> after the thread was woken; without a keyboard the bytes are dropped.\<close>

definition run_input_turn :: "(key_action \<Rightarrow> 't \<Rightarrow> 't outcome) \<Rightarrow> ringbuffer \<times> keyboard option \<times> 't
    \<Rightarrow> (ringbuffer \<times> keyboard option \<times> 't) outcome" where
  "run_input_turn send_key_action s =
     (case s of (ev, kbd, t) \<Rightarrow>
        input_loop (\<lambda>byte kt. case kt of
             (Some kbd, t) \<Rightarrow> obind (handle_data send_key_action byte (kbd, t)) (\<lambda>(kbd, t). Done (Some kbd, t))
           | (None, t) \<Rightarrow> Done kt)
          (unat (available_bytes ev)) [0] (ev, kbd, t))"

section \<open>Bytes are handled in the order of their interrupts\<close>

lemma input_loop_fifo:
  assumes "rb_inv ev" "length read_buffer = 1" "n = length (rb_list ev)"
  shows "case input_loop handle n read_buffer (ev, t) of
      Done (ev', t') \<Rightarrow> ofold handle (rb_list ev) t = Done t' \<and> rb_inv ev' \<and> rb_list ev' = []
    | Panic \<Rightarrow> ofold handle (rb_list ev) t = Panic
    | Hang \<Rightarrow> ofold handle (rb_list ev) t = Hang"
  using assms
proof (induction n arbitrary: ev read_buffer t)
  case 0
  from 0(3) have "rb_list ev = []" by (rule length_0_conv [THEN iffD1, OF sym])
  then show ?case using 0(1) by simp
next
  case (Suc n)
  obtain ev1 rb1 c where r: "rb_read ev read_buffer = (ev1, rb1, c)" by (cases "rb_read ev read_buffer")
  obtain x xs where l: "rb_list ev = x # xs" using Suc.prems(3) by (cases "rb_list ev") auto
  have mn: "1 = min (length read_buffer) (length (rb_list ev))" using Suc.prems(2) l by simp
  note spec = rb_read_spec [OF Suc.prems(1) _ mn r]
  have s: "rb_inv ev1" "rb_list ev1 = xs" "unat c = 1" "rb1 = [x]" using spec Suc.prems(2) l by simp_all
  have c: "\<not> c < 1" using s(3) by (simp add: word_less_nat_alt)
  show ?case
  proof (cases "handle x t")
    case (Done t1)
    have "case input_loop handle n rb1 (ev1, t1) of
        Done (ev', t') \<Rightarrow> ofold handle (rb_list ev1) t1 = Done t' \<and> rb_inv ev' \<and> rb_list ev' = []
      | Panic \<Rightarrow> ofold handle (rb_list ev1) t1 = Panic
      | Hang \<Rightarrow> ofold handle (rb_list ev1) t1 = Hang"
      using s l Suc.prems(3) by (intro Suc.IH) simp_all
    then show ?thesis using Done r c s l by (auto split: outcome.splits prod.splits)
  qed (use r c s l in simp_all)
qed

end
