(* ===== verification/FileCalls.thy ===== *)
theory FileCalls
  imports Pipes ProcessCorrect InitFs
begin

text \<open>
  The system calls on files (\<^verbatim>\<open>syscalls/file.rs\<close>) and, of \<^verbatim>\<open>syscalls/exec.rs\<close>, the program break: they
  translate the handles of the current process to a file system and a handle of it, call the
  file system and turn its errors into codes.  The state is the current process and the state of
  the file systems.  Buffers that the caller names by address are passed in and returned.
\<close>

section \<open>Lookup\<close>

type_synonym 'g sys = "process_state \<times> 'g"

definition map_err :: "'e + 'a \<Rightarrow> 'f \<Rightarrow> 'f + 'a" where
  "map_err r f = (case r of Inl _ \<Rightarrow> Inl f | Inr x \<Rightarrow> Inr x)"

definition vfs_get_fs :: "usize \<Rightarrow> 'g vfs_statics \<Rightarrow> 'g file_system option" where
  "vfs_get_fs number vfs = get_fs number (VFS vfs)"

text \<open>The first lines of most calls: the pair behind a handle, then its file system.\<close>

definition file_of_handle :: "'g vfs_statics \<Rightarrow> drive_handle_pair option \<Rightarrow> system_error + 'g file_system \<times> local_handle" where
  "file_of_handle vfs info =
     (case info of
        None \<Rightarrow> Inl BadFileDescriptor
      | Some (DriveHandlePair drive local) \<Rightarrow>
          (case vfs_get_fs drive vfs of None \<Rightarrow> Inl NoSuchFileSystem | Some fs \<Rightarrow> Inr (fs, local)))"

definition fs_of_path :: "'g vfs_statics \<Rightarrow> string \<Rightarrow> system_error + usize \<times> 'g file_system \<times> string" where
  "fs_of_path vfs path_str =
     (let (drive, path) = string_to_drive_and_path path_str
      in case get_fs_number drive (VFS vfs) of
           None \<Rightarrow> Inl NoSuchDrive
         | Some number \<Rightarrow> (case vfs_get_fs number vfs of None \<Rightarrow> Inl NoSuchFileSystem | Some fs \<Rightarrow> Inr (number, fs, path)))"

section \<open>The calls\<close>

definition sys_open_path :: "'g vfs_statics \<Rightarrow> string \<Rightarrow> 'g sys \<Rightarrow> ((system_error + u32) \<times> 'g sys) outcome" where
  "sys_open_path vfs path_str pg =
     (case pg of (p, g) \<Rightarrow> case fs_of_path vfs path_str of
        Inl e \<Rightarrow> Done (Inl e, p, g)
      | Inr (number, fs, path) \<Rightarrow>
          obind (fs_open fs path g) (\<lambda>(r, g).
            case map_err r NoSuchEntity of
              Inl e \<Rightarrow> Done (Inl e, p, g)
            | Inr local \<Rightarrow> obind (ps_open_file number local p) (\<lambda>(handle, p). Done (Inr (fh_u32 handle), p, g))))"

definition close_pair :: "'g vfs_statics \<Rightarrow> drive_handle_pair option \<Rightarrow> 'a \<Rightarrow> 'g sys \<Rightarrow> ((system_error + 'a) \<times> 'g sys) outcome" where
  "close_pair vfs pair_to_close result pg =
     (case pg of (p, g) \<Rightarrow> case pair_to_close of
        None \<Rightarrow> Done (Inl BadFileDescriptor, p, g)
      | Some (DriveHandlePair drive local) \<Rightarrow>
          (case vfs_get_fs drive vfs of
             None \<Rightarrow> Done (Inl NoSuchFileSystem, p, g)
           | Some fs \<Rightarrow>
               obind (fs_close fs local g) (\<lambda>(r, g).
                 case map_err r IOError of Inl e \<Rightarrow> Done (Inl e, p, g) | Inr _ \<Rightarrow> Done (Inr result, p, g))))"

definition sys_close :: "'g vfs_statics \<Rightarrow> u32 \<Rightarrow> 'g sys \<Rightarrow> ((system_error + unit) \<times> 'g sys) outcome" where
  "sys_close vfs handle pg =
     (case pg of (p, g) \<Rightarrow>
        let (prev, p) = ps_close_file (FileHandle handle) p;
            pair_to_close = (case prev of
                Some (DriveHandlePair drive local) \<Rightarrow>
                  if \<not> ps_references_drive_and_handle drive local p then prev else None
              | None \<Rightarrow> None)
        in close_pair vfs pair_to_close () (p, g))"

definition sys_read :: "'g vfs_statics \<Rightarrow> u32 \<Rightarrow> u8 list \<Rightarrow> 'g sys \<Rightarrow> ((system_error + usize) \<times> u8 list \<times> 'g sys) outcome" where
  "sys_read vfs handle buffer pg =
     (case pg of (p, g) \<Rightarrow> case file_of_handle vfs (get_open_file_info (FileHandle handle) p) of
        Inl e \<Rightarrow> Done (Inl e, buffer, p, g)
      | Inr (fs, local) \<Rightarrow>
          obind (fs_read fs local buffer g) (\<lambda>(r, buffer, g). Done (map_err r IOError, buffer, p, g)))"

definition sys_write :: "'g vfs_statics \<Rightarrow> u32 \<Rightarrow> u8 list \<Rightarrow> 'g sys \<Rightarrow> ((system_error + usize) \<times> 'g sys) outcome" where
  "sys_write vfs handle buffer pg =
     (case pg of (p, g) \<Rightarrow> case file_of_handle vfs (get_open_file_info (FileHandle handle) p) of
        Inl e \<Rightarrow> Done (Inl e, p, g)
      | Inr (fs, local) \<Rightarrow> obind (fs_write fs local buffer g) (\<lambda>(r, g). Done (map_err r IOError, p, g)))"

definition sys_ioctl :: "'g vfs_statics \<Rightarrow> u32 \<Rightarrow> u32 \<Rightarrow> u32 \<Rightarrow> 'g sys \<Rightarrow> ((system_error + u32) \<times> 'g sys) outcome" where
  "sys_ioctl vfs handle command arg pg =
     (case pg of (p, g) \<Rightarrow> case file_of_handle vfs (get_open_file_info (FileHandle handle) p) of
        Inl e \<Rightarrow> Done (Inl e, p, g)
      | Inr (fs, local) \<Rightarrow> obind (fs_ioctl fs local command arg g) (\<lambda>(r, g). Done (map_err r IOError, p, g)))"

text \<open>\<^verbatim>\<open>dup\<close> still holds the write lock of the file map when it asks \<^verbatim>\<open>references_drive_and_handle\<close>, which
  waits for the read lock of the same map: the spin lock is never released.\<close>

definition sys_dup :: "'g vfs_statics \<Rightarrow> u32 \<Rightarrow> u32 \<Rightarrow> 'g sys \<Rightarrow> ((system_error + u32) \<times> 'g sys) outcome" where
  "sys_dup vfs to_duplicate to_replace pg =
     (case pg of (p, g) \<Rightarrow> case get_open_file_info (FileHandle to_duplicate) p of
        None \<Rightarrow> Done (Inl BadFileDescriptor, p, g)
      | Some (DriveHandlePair drive local) \<Rightarrow>
          let (next_handle, files) =
                (if to_replace = 0xffffffff then get_next_available_handle (ps_open_files p)
                 else (Some (FileHandle to_replace), ps_open_files p))
          in case next_handle of
               None \<Rightarrow> Done (Inl MaxFilesExceeded, p\<lparr>ps_open_files := files\<rparr>, g)
             | Some handle \<Rightarrow>
                 let (prev, files) = set_handle_directly files handle drive local
                 in case prev of
                      Some pair \<Rightarrow> Hang
                    | None \<Rightarrow> close_pair vfs None (fh_u32 handle) (p\<lparr>ps_open_files := files\<rparr>, g))"

definition sys_pipe :: "'g vfs_statics \<Rightarrow> process_state \<times> pipe_collection option
    \<Rightarrow> ((system_error + u32 \<times> u32) \<times> process_state \<times> pipe_collection option) outcome" where
  "sys_pipe vfs pc =
     (case pc of (p, coll) \<Rightarrow>
        obind (create_pipe coll) (\<lambda>(r, coll).
          case map_err r Unknown of
            Inl e \<Rightarrow> Done (Inl e, p, coll)
          | Inr (read_local, write_local) \<Rightarrow>
              obind (ps_open_file (PIPE_FS vfs) read_local p) (\<lambda>(read_handle, p).
              obind (ps_open_file (PIPE_FS vfs) write_local p) (\<lambda>(write_handle, p).
                Done (Inr (fh_u32 read_handle, fh_u32 write_handle), p, coll)))))"

definition sys_seek :: "'g vfs_statics \<Rightarrow> u32 \<Rightarrow> u32 \<Rightarrow> u32 \<Rightarrow> 'g sys \<Rightarrow> ((system_error + u32) \<times> 'g sys) outcome" where
  "sys_seek vfs handle method_code cursor pg =
     (case pg of (p, g) \<Rightarrow>
        let seek = (if method_code = 1 then Relative cursor else Absolute cursor)
        in case file_of_handle vfs (get_open_file_info (FileHandle handle) p) of
             Inl e \<Rightarrow> Done (Inl e, p, g)
           | Inr (fs, local) \<Rightarrow> obind (fs_seek fs local seek g) (\<lambda>(r, g). Done (map_err r IOError, p, g)))"

definition sys_open_dir :: "'g vfs_statics \<Rightarrow> string \<Rightarrow> 'g sys \<Rightarrow> ((system_error + u32) \<times> 'g sys) outcome" where
  "sys_open_dir vfs path_str pg =
     (case pg of (p, g) \<Rightarrow> case fs_of_path vfs path_str of
        Inl e \<Rightarrow> Done (Inl e, p, g)
      | Inr (number, fs, path) \<Rightarrow>
          obind (fs_open_dir fs path g) (\<lambda>(r, g).
            case map_err r NoSuchEntity of
              Inl e \<Rightarrow> Done (Inl e, p, g)
            | Inr local \<Rightarrow> (let (r, p) = ps_open_directory number local p in Done (map_sum id fh_u32 r, p, g))))"

definition sys_read_dir :: "'g vfs_statics \<Rightarrow> u32 \<Rightarrow> usize \<Rightarrow> dir_entry_info \<Rightarrow> 'g sys
    \<Rightarrow> ((system_error + unit) \<times> dir_entry_info \<times> 'g sys) outcome" where
  "sys_read_dir vfs handle index info pg =
     (case pg of (p, g) \<Rightarrow> case file_of_handle vfs (get_open_dir_info (FileHandle handle) p) of
        Inl e \<Rightarrow> Done (Inl e, info, p, g)
      | Inr (fs, local) \<Rightarrow>
          obind (fs_read_dir fs local index info g) (\<lambda>(r, info, g). Done (map_err r NoSuchEntity, info, p, g)))"

text \<open>The program break of the current process.\<close>

definition sys_brk :: "u32 \<Rightarrow> u32 \<Rightarrow> process_state \<Rightarrow> (unit + u32) \<times> process_state" where
  "sys_brk method_code off p =
     (let (r, pm) = (if method_code = 0 then set_heap_break (VirtualAddress off) (ps_memory p)
                     else if method_code = 1 then move_heap_break off (ps_memory p)
                     else (Inl (), ps_memory p))
      in (map_sum id va_usize r, p\<lparr>ps_memory := pm\<rparr>))"

section \<open>What a handle stands for\<close>

lemma close_file_spec:
  assumes "fhm_ok (ps_open_files p)" "open_handle (ps_open_files p) drive local = (Some h, files)"
    and "\<not> ps_references_drive_and_handle drive local p" "p' = p\<lparr>ps_open_files := files\<rparr>"
  shows "\<exists>p''. ps_close_file h p' = (Some (DriveHandlePair drive local), p'') \<and> \<not> ps_references_drive_and_handle drive local p''
    \<and> (\<forall>k. get_open_file_info k p'' = get_open_file_info k p)"
proof -
  note op = open_handle_Some [OF assms(2,1)]
  define c where "c = snd (close_handle files h)"
  have get: "get_drive_and_handle files h = Some (DriveHandlePair drive local)" using op(3) by simp
  then have cl: "close_handle files h = (Some (DriveHandlePair drive local), c)"
    by (simp add: c_def prod_eq_iff close_handle_spec(1))
  have cget: "get_drive_and_handle c k = get_drive_and_handle (ps_open_files p) k" for k
    using op(1,3) by (simp add: c_def close_handle_spec(2))
  have "fhm_ok c" using op(4) assms(1) by (auto simp: fhm_ok_def c_def close_handle_spec(3))
  then have "\<not> references_drive_and_handle c drive local"
    using assms(3) by (simp add: ps_references_drive_and_handle_def references_iff [OF assms(1)] references_iff cget)
  then show ?thesis using cl cget assms(4)
    by (simp add: ps_close_file_def ps_references_drive_and_handle_def get_open_file_info_def)
qed

text \<open>C20: what a file handle of a process stands for.  Opening a path whose drive is mounted and which the file
  system can open succeeds while the process has fewer than 4096 handles.  The new handle was free and every other
  handle keeps its meaning; reading and writing through it are exactly the file system's own
  operations on the file it opened, with failures reported as an input/output error; and closing
  it, when no other handle of the process shares the file, closes the file there and gives the handles back as they were.\<close>

theorem open_path_routes:
  assumes "fs_of_path vfs path = Inr (number, fs, sub)" "fs_open fs sub g = Done (Inr local, g')"
    and "fhm_ok (ps_open_files p)" "length (fhm_map (ps_open_files p)) < 4096" "\<not> ps_references_drive_and_handle number local p"
  shows "\<exists>h p'. sys_open_path vfs path (p, g) = Done (Inr h, p', g') \<and> get_open_file_info (FileHandle h) p = None
     \<and> (\<forall>k. k \<noteq> FileHandle h \<longrightarrow> get_open_file_info k p' = get_open_file_info k p)
     \<and> (\<forall>buf g2. sys_read vfs h buf (p', g2) = obind (fs_read fs local buf g2) (\<lambda>(r, b, g3). Done (map_err r IOError, b, p', g3)))
     \<and> (\<forall>buf g2. sys_write vfs h buf (p', g2) = obind (fs_write fs local buf g2) (\<lambda>(r, g3). Done (map_err r IOError, p', g3)))
     \<and> (\<exists>p''. (\<forall>k. get_open_file_info k p'' = get_open_file_info k p)
          \<and> (\<forall>g2. sys_close vfs h (p', g2) = obind (fs_close fs local g2) (\<lambda>(r, g3). Done (map_err r IOError, p'', g3))))"
proof -
  obtain r files where op: "open_handle (ps_open_files p) number local = (r, files)" by (cases "open_handle (ps_open_files p) number local")
  have "r \<noteq> None"
  proof
    assume "r = None"
    then show False using open_handle_None(2) [OF op [unfolded \<open>r = None\<close>] assms(3)] assms(4) by simp
  qed
  then obtain fh where opn: "open_handle (ps_open_files p) number local = (Some fh, files)" using op by auto
  obtain h where h: "fh = FileHandle h" by (cases fh)
  note opn = opn [unfolded h]
  define p' where "p' = p\<lparr>ps_open_files := files\<rparr>"
  note oh = open_handle_Some [OF opn assms(3)]
  have fs: "vfs_get_fs number vfs = Some fs"
    using assms(1) by (auto simp: fs_of_path_def Let_def split: prod.splits option.splits)
  have info: "get_open_file_info k p' = (if k = FileHandle h then Some (DriveHandlePair number local) else get_open_file_info k p)" for k
    by (simp add: get_open_file_info_def p'_def oh(3))
  then have fh: "file_of_handle vfs (get_open_file_info (FileHandle h) p') = Inr (fs, local)" by (simp add: file_of_handle_def fs)
  from close_file_spec [OF assms(3) opn assms(5) p'_def] obtain p'' where
    cl: "ps_close_file (FileHandle h) p' = (Some (DriveHandlePair number local), p'')" "\<not> ps_references_drive_and_handle number local p''"
    "\<forall>k. get_open_file_info k p'' = get_open_file_info k p" by blast
  have "sys_close vfs h (p', g2) = obind (fs_close fs local g2) (\<lambda>(r, g3). Done (map_err r IOError, p'', g3))" for g2
    by (simp add: sys_close_def cl(1,2) close_pair_def fs) (rule arg_cong [where f = "obind _"], auto simp: fun_eq_iff map_err_def split: sum.splits)
  moreover have "sys_open_path vfs path (p, g) = Done (Inr h, p', g')"
    by (simp add: sys_open_path_def assms(1,2) map_err_def ps_open_file_def opn p'_def)
  moreover have "get_open_file_info (FileHandle h) p = None" using oh(1) by (simp add: get_open_file_info_def)
  moreover have "sys_read vfs h buf (p', g2) = obind (fs_read fs local buf g2) (\<lambda>(r, b, g3). Done (map_err r IOError, b, p', g3))" for buf g2
    by (simp add: sys_read_def fh)
  moreover have "sys_write vfs h buf (p', g2) = obind (fs_write fs local buf g2) (\<lambda>(r, g3). Done (map_err r IOError, p', g3))" for buf g2
    by (simp add: sys_write_def fh)
  ultimately show ?thesis using info cl(3) by auto
qed

text \<open>A mounted file system with one file of the byte 7 that can be read for ever.\<close>

definition sevens_fs :: "unit file_system" where
  "sevens_fs = \<lparr>fs_open = (\<lambda>path g. Done (Inr (LocalHandle 5), g)),
     fs_read = (\<lambda>h buf g. Done (Inr (of_nat (length buf)), replicate (length buf) 7, g)),
     fs_write = (\<lambda>h buf g. Done (Inl (), g)), fs_close = (\<lambda>h g. Done (Inr (), g)), fs_dup = (\<lambda>h g. Done (Inl (), g)),
     fs_seek = (\<lambda>h off g. Done (Inl (), g)), fs_open_dir = (\<lambda>path g. Done (Inl (), g)),
     fs_read_dir = (\<lambda>h i info g. Done (Inl (), info, g)), fs_ioctl = default_ioctl\<rparr>"

definition sevens_vfs :: "unit vfs_statics" where
  "sevens_vfs = \<lparr>VFS = [NamedFileSystem ''A'' sevens_fs], DEV_FS = 0, PIPE_FS = 0\<rparr>"

theorem open_path_routes_witness:
  "\<exists>h p'. sys_open_path sevens_vfs ''A:x'' (sample_process 1 1 Running, ()) = Done (Inr h, p', ())
     \<and> sys_read sevens_vfs h [0, 0] (p', ()) = Done (Inr 2, [7, 7], p', ())"
proof -
  let ?p = "sample_process 1 1 Running"
  have p: "ps_open_files ?p = fhm_new" by (simp add: sample_process_def)
  have fs: "fs_of_path sevens_vfs ''A:x'' = Inr (0, sevens_fs, ''x'')"
    by (simp add: fs_of_path_def string_to_drive_and_path_def sevens_vfs_def get_fs_number_def matches_name_def vfs_get_fs_def get_fs_def nth_opt_def)
  have op: "fs_open sevens_fs ''x'' () = Done (Inr (LocalHandle 5), ())" by (simp add: sevens_fs_def)
  have "fhm_ok (ps_open_files ?p)" "length (fhm_map (ps_open_files ?p)) < 4096" "\<not> ps_references_drive_and_handle 0 (LocalHandle 5) ?p"
    unfolding ps_references_drive_and_handle_def p by (simp_all add: fhm_new_def fhm_ok_def references_drive_and_handle_def)
  from open_path_routes [OF fs op this] obtain h p' where
    r: "sys_open_path sevens_vfs ''A:x'' (?p, ()) = Done (Inr h, p', ())"
    "sys_read sevens_vfs h [0, 0] (p', ()) = obind (fs_read sevens_fs (LocalHandle 5) [0, 0] ()) (\<lambda>(r, b, g3). Done (map_err r IOError, b, p', g3))"
    by blast
  moreover have "fs_read sevens_fs (LocalHandle 5) [0, 0] () = Done (Inr 2, [7, 7], ())" by (simp add: sevens_fs_def)
  ultimately show ?thesis by (auto simp: map_err_def)
qed

text \<open>Duplicating a handle never succeeds: it fails although the handle was duplicated, or waits for ever for a lock it holds.\<close>

lemma dup_never_succeeds: "sys_dup vfs to_duplicate to_replace pg \<noteq> Done (Inr handle, pg')"
  by (auto simp: sys_dup_def close_pair_def Let_def split: prod.splits option.splits drive_handle_pair.splits)

section \<open>The entry point\<close>

text \<open>
  \<^verbatim>\<open>_syscall_inner\<close> (\<^verbatim>\<open>interrupts/syscall.rs\<close>) in two halves: which call the saved registers ask for, with its
  arguments, and, for the calls on files, the call itself on the memory of the caller with
  the value left in \<^verbatim>\<open>eax\<close>.
\<close>

record saved_registers =
  reg_edi :: u32
  reg_esi :: u32
  reg_ebp :: u32
  reg_ebx :: u32
  reg_edx :: u32
  reg_ecx :: u32
  reg_eax :: u32

datatype syscall_request =
    CallExit u32 | CallFork | CallExec u32 u32 u32 | CallGetPid | CallBrk u32 u32 | CallSleep u32 | CallYield
  | CallRaise u32 | CallSendSignal u32 u32 | CallWaitPid u32 u32
  | CallOpen u32 | CallClose u32 | CallRead u32 u32 u32 | CallWrite u32 u32 u32 | CallOpenDir u32 | CallReadDir u32 u32 u32
  | CallDup u32 u32 | CallIoctl u32 u32 u32 | CallPipe u32 u32 | CallSeek u32 u32 u32 | CallDebug | CallNothing | CallUnknown

definition syscall_request_of :: "saved_registers \<Rightarrow> syscall_request" where
  "syscall_request_of r =
     (let eax = reg_eax r
      in if eax = 0x0 then CallExit (reg_ebx r)
         else if eax = 0x1 then CallFork
         else if eax = 0x2 then CallExec (reg_ebx r) (reg_ecx r) (reg_edx r)
         else if eax = 0x3 then CallGetPid
         else if eax = 0x4 then CallBrk (reg_ebx r) (reg_ecx r)
         else if eax = 0x5 then CallSleep (reg_ebx r)
         else if eax = 0x6 then CallYield
         else if eax = 0x7 then CallRaise (reg_ebx r)
         else if eax = 0x8 then CallSendSignal (reg_ebx r) (reg_ecx r)
         else if eax = 0x9 then CallWaitPid (reg_ebx r) (reg_ecx r)
         else if eax = 0x10 then CallOpen (reg_ebx r)
         else if eax = 0x11 then CallClose (reg_eax r)
         else if eax = 0x12 then CallRead (reg_ebx r) (reg_ecx r) (reg_edx r)
         else if eax = 0x13 then CallWrite (reg_ebx r) (reg_ecx r) (reg_edx r)
         else if eax \<in> {0x14, 0x15, 0x16, 0x17, 0x18, 0x19} then CallNothing
         else if eax = 0x1a then CallOpenDir (reg_ebx r)
         else if eax = 0x1b then CallReadDir (reg_ebx r) (reg_ecx r) (reg_edx r)
         else if eax = 0x1c then CallNothing
         else if eax = 0x1d then CallDup (reg_ebx r) (reg_ecx r)
         else if eax = 0x1e then CallIoctl (reg_ebx r) (reg_ecx r) (reg_edx r)
         else if eax = 0x1f then CallPipe (reg_ebx r) (reg_ecx r)
         else if eax = 0x20 then CallSeek (reg_ebx r) (reg_ecx r) (reg_edx r)
         else if eax \<in> {0x21, 0x22, 0x30, 0x31, 0x32, 0x33} then CallNothing
         else if eax = 0xffff then CallDebug
         else CallUnknown)"

text \<open>A \<^verbatim>\<open>StringPtr\<close> is an address and a length; the bytes are taken as the text.\<close>

definition string_at :: "memory \<Rightarrow> usize \<Rightarrow> string" where
  "string_at m a = map (\<lambda>b. char_of (unat b)) (mem_bytes m (load32 m a) (unat (load32 m (a + 4))))"

definition store_bytes :: "usize \<Rightarrow> u8 list \<Rightarrow> memory \<Rightarrow> memory" where
  "store_bytes a bs m = fold (\<lambda>i m. m(a + of_nat i := bs ! i)) [0 ..< length bs] m"

definition code_or :: "u32 \<Rightarrow> 'e + u32 \<Rightarrow> u32" where
  "code_or fallback r = (case r of Inl _ \<Rightarrow> fallback | Inr v \<Rightarrow> v)"

definition result_code :: "system_error + u32 \<Rightarrow> u32" where
  "result_code r = (case r of Inl e \<Rightarrow> to_code e | Inr v \<Rightarrow> v)"

definition file_call :: "'g vfs_statics \<Rightarrow> syscall_request \<Rightarrow> memory \<times> 'g sys \<Rightarrow> (u32 \<times> memory \<times> 'g sys) outcome option" where
  "file_call vfs request mpg =
     (case mpg of (m, pg) \<Rightarrow> case request of
        CallOpen ptr \<Rightarrow> Some (obind (sys_open_path vfs (string_at m ptr) pg) (\<lambda>(r, pg). Done (result_code r, m, pg)))
      | CallClose handle \<Rightarrow> Some (obind (sys_close vfs handle pg) (\<lambda>(r, pg). Done (result_code (map_sum id (\<lambda>_. 0) r), m, pg)))
      | CallRead handle dest len \<Rightarrow>
          Some (obind (sys_read vfs handle (mem_bytes m dest (unat len)) pg) (\<lambda>(r, buffer, pg).
            Done (result_code r, store_bytes dest buffer m, pg)))
      | CallWrite handle src len \<Rightarrow>
          Some (obind (sys_write vfs handle (mem_bytes m src (unat len)) pg) (\<lambda>(r, pg). Done (result_code r, m, pg)))
      | CallOpenDir ptr \<Rightarrow> Some (obind (sys_open_dir vfs (string_at m ptr) pg) (\<lambda>(r, pg). Done (result_code r, m, pg)))
      | CallDup to_duplicate to_replace \<Rightarrow>
          Some (obind (sys_dup vfs to_duplicate to_replace pg) (\<lambda>(r, pg). Done (code_or 0xffffffff r, m, pg)))
      | CallIoctl handle command arg \<Rightarrow>
          Some (obind (sys_ioctl vfs handle command arg pg) (\<lambda>(r, pg). Done (code_or (to_code UnsupportedCommand) r, m, pg)))
      | CallSeek handle seek_method cursor \<Rightarrow>
          Some (obind (sys_seek vfs handle seek_method cursor pg) (\<lambda>(r, pg). Done (code_or (to_code BadFileDescriptor) r, m, pg)))
      | _ \<Rightarrow> None)"

text \<open>The handle to close is taken from the register that holds the number of the call: every close is
  one of handle 17.\<close>

lemma close_is_always_17: "reg_eax r = 0x11 \<Longrightarrow> syscall_request_of r = CallClose 17"
  by (simp add: syscall_request_of_def Let_def)

lemma dup_always_fails:
  assumes "file_call vfs (CallDup to_duplicate to_replace) (m, pg) = Some (Done (eax, m', pg'))"
  shows "eax = 0xffffffff"
proof -
  obtain r where r: "sys_dup vfs to_duplicate to_replace pg = Done (r, pg')" "eax = code_or 0xffffffff r"
    using assms by (auto simp: file_call_def obind_Done_iff)
  then show ?thesis using dup_never_succeeds [of vfs to_duplicate to_replace pg] by (cases r) (auto simp: code_or_def)
qed

end
