(* ===== verification/SyscallAbi.thy ===== *)
theory SyscallAbi
  imports FileCalls
begin

text \<open>
  The library that programs are linked with (\<^verbatim>\<open>syscall/src/lib.rs\<close>): each call loads the number and its
  arguments into registers and raises interrupt \<^verbatim>\<open>0x2b\<close>.  The definitions give the registers as the
  kernel finds them; the registers that the interrupt does not set are those of the caller.
\<close>

definition syscall_inner :: "u32 \<Rightarrow> u32 \<Rightarrow> u32 \<Rightarrow> u32 \<Rightarrow> saved_registers \<Rightarrow> saved_registers" where
  "syscall_inner mth arg0 arg1 arg2 r = r\<lparr>reg_eax := mth, reg_ebx := arg0, reg_ecx := arg1, reg_edx := arg2\<rparr>"

definition user_debug :: "saved_registers \<Rightarrow> saved_registers" where "user_debug = syscall_inner 0xffff 0 0 0"
definition user_open :: "u32 \<Rightarrow> saved_registers \<Rightarrow> saved_registers" where "user_open path_ptr = syscall_inner 0x10 path_ptr 0 0"
definition user_read :: "u32 \<Rightarrow> u32 \<Rightarrow> u32 \<Rightarrow> saved_registers \<Rightarrow> saved_registers" where
  "user_read handle buffer len = syscall_inner 0x12 handle buffer len"
definition user_write :: "u32 \<Rightarrow> u32 \<Rightarrow> u32 \<Rightarrow> saved_registers \<Rightarrow> saved_registers" where
  "user_write handle buffer len = syscall_inner 0x13 handle buffer len"
definition user_write_str :: "u32 \<Rightarrow> u32 \<Rightarrow> u32 \<Rightarrow> saved_registers \<Rightarrow> saved_registers" where
  "user_write_str handle str_ptr str_len = user_write handle str_ptr str_len"
definition user_open_dir :: "u32 \<Rightarrow> saved_registers \<Rightarrow> saved_registers" where "user_open_dir path_ptr = syscall_inner 0x1a path_ptr 0 0"
definition user_read_dir :: "u32 \<Rightarrow> u32 \<Rightarrow> u32 \<Rightarrow> saved_registers \<Rightarrow> saved_registers" where
  "user_read_dir handle index info = syscall_inner 0x1b handle index info"
definition user_dup :: "u32 \<Rightarrow> saved_registers \<Rightarrow> saved_registers" where "user_dup handle = syscall_inner 0x1d handle 0xffffffff 0"
definition user_dup2 :: "u32 \<Rightarrow> u32 \<Rightarrow> saved_registers \<Rightarrow> saved_registers" where "user_dup2 handle replace = syscall_inner 0x1d handle replace 0"
definition user_ioctl :: "u32 \<Rightarrow> u32 \<Rightarrow> u32 \<Rightarrow> saved_registers \<Rightarrow> saved_registers" where
  "user_ioctl handle command arg = syscall_inner 0x1e handle command arg"
definition user_pipe :: "u32 \<Rightarrow> u32 \<Rightarrow> saved_registers \<Rightarrow> saved_registers" where
  "user_pipe handle0_ptr handle1_ptr = syscall_inner 0x1f handle0_ptr handle1_ptr 0"
definition user_seek :: "u32 \<Rightarrow> u32 \<Rightarrow> saved_registers \<Rightarrow> saved_registers" where "user_seek handle position = syscall_inner 0x20 handle 0 position"
definition user_seek_relative :: "u32 \<Rightarrow> u32 \<Rightarrow> saved_registers \<Rightarrow> saved_registers" where
  "user_seek_relative handle off = syscall_inner 0x20 handle 1 off"
definition user_fork :: "saved_registers \<Rightarrow> saved_registers" where "user_fork = syscall_inner 0x01 0 0 0"
definition user_exec :: "u32 \<Rightarrow> saved_registers \<Rightarrow> saved_registers" where "user_exec path_ptr = syscall_inner 0x02 path_ptr 0 0"
definition user_execv :: "u32 \<Rightarrow> u32 \<Rightarrow> saved_registers \<Rightarrow> saved_registers" where "user_execv path_ptr arg_ptr = syscall_inner 0x02 path_ptr arg_ptr 0"
definition user_exec_format :: "u32 \<Rightarrow> u32 \<Rightarrow> saved_registers \<Rightarrow> saved_registers" where
  "user_exec_format path_ptr format = syscall_inner 0x02 path_ptr 0 format"
definition user_brk :: "u32 \<Rightarrow> saved_registers \<Rightarrow> saved_registers" where "user_brk addr = syscall_inner 0x04 0 addr 0"
definition user_sbrk :: "u32 \<Rightarrow> saved_registers \<Rightarrow> saved_registers" where "user_sbrk delta = syscall_inner 0x04 1 delta 0"
definition user_yield_coop :: "saved_registers \<Rightarrow> saved_registers" where "user_yield_coop = syscall_inner 0x06 0 0 0"
definition user_sleep :: "u32 \<Rightarrow> saved_registers \<Rightarrow> saved_registers" where "user_sleep ms = syscall_inner 0x05 ms 0 0"
definition user_exit :: "u32 \<Rightarrow> saved_registers \<Rightarrow> saved_registers" where "user_exit code = syscall_inner 0 code 0 0"
definition user_get_pid :: "saved_registers \<Rightarrow> saved_registers" where "user_get_pid = syscall_inner 0x03 0 0 0"
definition user_wait_pid :: "u32 \<Rightarrow> u32 \<Rightarrow> saved_registers \<Rightarrow> saved_registers" where "user_wait_pid pid status_ptr = syscall_inner 0x09 pid status_ptr 0"
definition user_send_signal :: "u32 \<Rightarrow> u32 \<Rightarrow> saved_registers \<Rightarrow> saved_registers" where "user_send_signal pid signal = syscall_inner 0x8 pid signal 0"
definition user_raise :: "u32 \<Rightarrow> saved_registers \<Rightarrow> saved_registers" where "user_raise signal = syscall_inner 0x7 signal 0 0"

lemmas user_calls = syscall_inner_def user_debug_def user_open_def user_read_def user_write_def user_write_str_def user_open_dir_def
  user_read_dir_def user_dup_def user_dup2_def user_ioctl_def user_pipe_def user_seek_def user_seek_relative_def
  user_fork_def user_exec_def user_execv_def user_exec_format_def user_brk_def user_sbrk_def user_yield_coop_def
  user_sleep_def user_exit_def user_get_pid_def user_wait_pid_def user_send_signal_def user_raise_def

text \<open>The numbers of the calls the library offers, from the register each of them sets.\<close>

definition library_numbers :: "u32 set" where
  "library_numbers = (\<lambda>call. reg_eax (call \<lparr>reg_edi = 0, reg_esi = 0, reg_ebp = 0, reg_ebx = 0, reg_edx = 0, reg_ecx = 0, reg_eax = 0\<rparr>)) `
     {user_debug, user_open 0, user_read 0 0 0, user_write 0 0 0, user_open_dir 0, user_read_dir 0 0 0, user_dup 0, user_ioctl 0 0 0,
      user_pipe 0 0, user_seek 0 0, user_fork, user_exec 0, user_brk 0, user_yield_coop, user_sleep 0, user_exit 0, user_get_pid,
      user_wait_pid 0 0, user_send_signal 0 0, user_raise 0}"

text \<open>C23: the programs' library and the kernel agree on the system call interface.  Whatever the other registers hold, the kernel
  decodes the registers each of the 26 calls of the library sets up as the call of that name with its arguments in their places.
  Conversely, every number the kernel acts on is one that the library uses, except the one of close: the library
  has no such call, and a program that makes it in the way of the others, to close handle \<open>h\<close>, asks to close
  handle \<^verbatim>\<open>0x11\<close>, because the kernel takes the handle from the register that holds the number.\<close>

theorem syscall_abi_agrees:
  "syscall_request_of (user_open path r) = CallOpen path
   \<and> syscall_request_of (user_read h buf n r) = CallRead h buf n
   \<and> syscall_request_of (user_write h buf n r) = CallWrite h buf n
   \<and> syscall_request_of (user_write_str h str n r) = CallWrite h str n
   \<and> syscall_request_of (user_open_dir path r) = CallOpenDir path
   \<and> syscall_request_of (user_read_dir h index info r) = CallReadDir h index info
   \<and> syscall_request_of (user_dup h r) = CallDup h 0xffffffff
   \<and> syscall_request_of (user_dup2 h replace r) = CallDup h replace
   \<and> syscall_request_of (user_ioctl h command arg r) = CallIoctl h command arg
   \<and> syscall_request_of (user_pipe p0 p1 r) = CallPipe p0 p1
   \<and> syscall_request_of (user_seek h position r) = CallSeek h 0 position
   \<and> syscall_request_of (user_seek_relative h delta r) = CallSeek h 1 delta
   \<and> syscall_request_of (user_fork r) = CallFork
   \<and> syscall_request_of (user_exec path r) = CallExec path 0 0
   \<and> syscall_request_of (user_execv path args r) = CallExec path args 0
   \<and> syscall_request_of (user_exec_format path format r) = CallExec path 0 format
   \<and> syscall_request_of (user_brk addr r) = CallBrk 0 addr
   \<and> syscall_request_of (user_sbrk delta r) = CallBrk 1 delta
   \<and> syscall_request_of (user_yield_coop r) = CallYield
   \<and> syscall_request_of (user_sleep ms r) = CallSleep ms
   \<and> syscall_request_of (user_exit code r) = CallExit code
   \<and> syscall_request_of (user_get_pid r) = CallGetPid
   \<and> syscall_request_of (user_wait_pid pid status r) = CallWaitPid pid status
   \<and> syscall_request_of (user_send_signal pid sig r) = CallSendSignal pid sig
   \<and> syscall_request_of (user_raise sig r) = CallRaise sig
   \<and> syscall_request_of (user_debug r) = CallDebug
   \<and> syscall_request_of (syscall_inner 0x11 h x y r) = CallClose 0x11
   \<and> (syscall_request_of q \<in> {CallUnknown, CallNothing, CallClose 0x11} \<or> reg_eax q \<in> library_numbers)"
proof (intro conjI)
  show "syscall_request_of q \<in> {CallUnknown, CallNothing, CallClose 0x11} \<or> reg_eax q \<in> library_numbers"
    by (simp add: library_numbers_def user_calls syscall_request_of_def Let_def)
qed (simp_all add: user_calls syscall_request_of_def)

end
