(* ===== verification/Spec2Isabelle.thy ===== *)
theory Spec2Isabelle
  imports Collections FrameAlloc KernelHeap ProcessCorrect Pipes Terminal PageFault InitFs Fat12 Interrupts SyscallAbi
begin

text \<open>
  A verification library for the \<^verbatim>\<open>imm-dos-nx\<close> kernel, a small operating system for 32-bit x86
  written in Rust.  The sources are under \<^verbatim>\<open>src/kernel/src/\<close> (the kernel) and
  \<^verbatim>\<open>src/syscall/src/\<close> (the library that user programs are linked with); file names below are
  relative to these directories.

  \<^bold>\<open>The program.\<close>  At the bottom, physical memory is a bitmap of frames with reference counts.  Page
  directories map frames into address spaces: the current one is edited through its recursive
  mapping, any other one through a temporary page.  The kernel heap is a free list in memory that
  grows by mapping frames.  A process owns regions of memory, a page directory, open files and a run
  state; the scheduler goes round the process map, and a page fault fills a region on demand.  Files
  are reached through a table of file systems (pipes, devices, the initial archive, FAT12), devices
  through a table of drivers (terminals, floppy disk, serial ports, null and zero).  Interrupts feed
  the keyboard, the clock, the floppy driver and the serial ports; user programs enter by one
  software interrupt whose registers name the call.

  \<^bold>\<open>Conventions\<close> (theory Prelude).  The target is a 32-bit release build: \<^verbatim>\<open>usize\<close> is a 32-bit word,
  arithmetic wraps, and an index out of range panics.  A computation that can panic or run for ever
  has type \<open>outcome\<close> with \<open>Done\<close>, \<open>Panic\<close> and \<open>Hang\<close>; \<open>Result\<close> is a sum with the error on the left.
  Structures are records, enumerations datatypes, traits records of methods over a state.  Global
  variables behind a lock are fields of a state that is passed explicitly; where the source can wait
  for a lock it holds itself the outcome is \<open>Hang\<close>.  Memory is a function from addresses to bytes, so
  that aliasing of headers, tables and screens is real.

  \<^bold>\<open>Theories and sources.\<close>
  \<^item> Collections: \<^verbatim>\<open>collections/slotlist.rs\<close>, \<^verbatim>\<open>buffers.rs\<close>.  Slots keep their index; the ring buffer is a
    first-in first-out queue although its cursors wrap (locales \<open>slot_store\<close>, \<open>byte_fifo\<close>).
  \<^item> FrameAlloc: \<^verbatim>\<open>memory/address.rs\<close>, \<^verbatim>\<open>memory/physical/\<close>.  First fit of the bitmap, its construction from
    the BIOS memory map, reference counts, copy on write; the contract \<open>frame_source\<close> (frames handed out
    are free, in range and never shared) holds of the bitmap and of the global allocator.
  \<^item> HeapAlloc, HeapLists, HeapCorrect: \<^verbatim>\<open>memory/heap/list_allocator.rs\<close>.  The first holds the code, the
    second relates memory to a list of blocks, the third the contract \<open>heap_store\<close> of its clients: what
    a client wrote stays until it frees the block, whatever the others do.
  \<^item> KernelHeap: \<^verbatim>\<open>memory/heap/mod.rs\<close>, the global allocator that grows the heap and tries again.
  \<^item> Files: \<^verbatim>\<open>files/\<close>, handles, positions, path names.  Regions: \<^verbatim>\<open>memory/virt/region.rs\<close> and the
    regions of \<^verbatim>\<open>process/memory.rs\<close>, the program break and device mappings.
  \<^item> Paging, PagingCorrect, AddressSpaces, BootPaging, ForkMemory: \<^verbatim>\<open>memory/virt/\<close> and the rest of
    \<^verbatim>\<open>process/memory.rs\<close>.  The walk of the processor is a definition of its own; mapping, unmapping,
    forking and copying are shown to change exactly the pages they name, on both kinds of directory;
    \<open>page_step\<close> is the contract of one page that the loops over a region lift to all of its pages.
  \<^item> BTree: the ordered map of the Rust library as far as the kernel uses it (locale \<open>ordered_map\<close>).
  \<^item> SystemErrors: \<^verbatim>\<open>result.rs\<close>, \<^verbatim>\<open>signals.rs\<close> of the library, and the codes calls return.
  \<^item> Ports: \<^verbatim>\<open>x86/io.rs\<close>.  TimeDate: \<^verbatim>\<open>time/\<close>, \<^verbatim>\<open>hardware/rtc.rs\<close>; conversion of timestamps against the
    Gregorian calendar.
  \<^item> Processes, ProcessCorrect: \<^verbatim>\<open>process/\<close>.  Fairness of the scheduler, the invariant of the process map
    over every sequence of kernel operations (the inductive relation \<open>kernel_reach\<close>), waiting for a
    child, sleeping.
  \<^item> PageFault: \<^verbatim>\<open>page_fault\<close> of \<^verbatim>\<open>interrupts/exceptions.rs\<close>, over processes, regions and directories.
  \<^item> FileSystems: \<^verbatim>\<open>filesystems/filesystem.rs\<close>, \<^verbatim>\<open>filesystems/mod.rs\<close>.  Simulation: forward simulation as
    a locale.  Pipes: \<^verbatim>\<open>pipes/\<close>, shown to refine queues of bytes with that locale.
  \<^item> Devices: \<^verbatim>\<open>drivers/driver.rs\<close>, \<^verbatim>\<open>devices.rs\<close>, \<^verbatim>\<open>promise.rs\<close>, \<^verbatim>\<open>filesystems/dev/mod.rs\<close> and the null and
    zero devices.  Keyboard: \<^verbatim>\<open>drivers/keyboard/\<close>, \<^verbatim>\<open>tty/keyboard.rs\<close>.
  \<^item> TextMode: \<^verbatim>\<open>hardware/vga/\<close>; printing refines a list of cells.  Terminal: \<^verbatim>\<open>tty/\<close>; no sequence of
    operations panics, hangs or writes outside of the screen and the back buffers.
  \<^item> InitFs: \<^verbatim>\<open>filesystems/init/mod.rs\<close>; opening and reading gives the bytes of the archive's member.
  \<^item> Fat12Layout, Fat12: \<^verbatim>\<open>filesystems/fat12/\<close>.  The twelve-bit entries of the table, the cluster chain
    and the search of the root directory against the bytes of the disk.
  \<^item> Floppy: \<^verbatim>\<open>drivers/floppy/\<close>, \<^verbatim>\<open>hardware/floppy.rs\<close>, \<^verbatim>\<open>hardware/dma.rs\<close>; the handshake of a command and
    the sectors a transfer covers.  Serial: \<^verbatim>\<open>drivers/com/\<close>, \<^verbatim>\<open>drivers/queue.rs\<close>.
  \<^item> Descriptors: \<^verbatim>\<open>gdt.rs\<close>, \<^verbatim>\<open>idt.rs\<close>, \<^verbatim>\<open>x86/segments.rs\<close>, \<^verbatim>\<open>hardware/pic.rs\<close>, \<^verbatim>\<open>hardware/pit.rs\<close>; the
    fields of every entry read back as the processor reads them.  Interrupts: \<^verbatim>\<open>interrupts/pic.rs\<close>,
    \<^verbatim>\<open>input.rs\<close>.
  \<^item> FileCalls: \<^verbatim>\<open>syscalls/file.rs\<close>, the program break of \<^verbatim>\<open>syscalls/exec.rs\<close> and the decoding of calls in
    \<^verbatim>\<open>interrupts/syscall.rs\<close>.  SyscallAbi: \<^verbatim>\<open>lib.rs\<close> of the library; what a program asks for is what the
    kernel decodes.

  \<^bold>\<open>Parameters.\<close>  What is not code of the repository is an argument.  Hardware ports are a \<open>bus\<close>, two
  functions over an arbitrary hardware state; the calls by which a driver waits for an interrupt are
  a record \<open>scheduling\<close>; drivers and file systems behind a table are records of methods; memory that
  a DMA transfer fills, the bytes that lie behind a sector buffer and the addresses the linker chooses are
  arguments of the definitions that read them.  Hypotheses on them are stated in each theorem, and its
  witness instantiates them.

  \<^bold>\<open>Termination and bounds.\<close>  Loops over ranges and lists are structural, or recursive with a measure.
  Loops that the hardware, a corrupt disk or a cyclic list can keep going are
  partial functions into \<open>option\<close>, read as \<open>Hang\<close> when they have no value; theorems state that they return
  (\<open>Done\<close>, a value) from their preconditions.  No definition takes fuel.  Words keep their width
  everywhere; where a result needs room the bound is a hypothesis, such as blocks below 2 GiB for
  the heap, which keeps the state of a block in the top bit of its size.

  \<^bold>\<open>Not modelled.\<close>
  \<^item> Start-up (\<^verbatim>\<open>lib.rs\<close>, \<^verbatim>\<open>init.rs\<close>, \<^verbatim>\<open>disks.rs\<close> of the kernel): one run of calls to modelled parts with
    linker symbols, assembly and console output between them.
  \<^item> Assembly and register access (\<^verbatim>\<open>x86/registers.rs\<close>, \<^verbatim>\<open>asm/\<close>, \<^verbatim>\<open>interrupts/stack.rs\<close>), the boot
    loader, test programs and the build script.  A context switch is the change of state it makes.
  \<^item> Output for people (\<^verbatim>\<open>debug.rs\<close>, \<^verbatim>\<open>panic.rs\<close>, formatting traits) and the DOS interface
    (\<^verbatim>\<open>interrupts/syscall_legacy.rs\<close>), which only prints.
  \<^item> Interleaving inside a kernel operation: an operation is one step and interrupts arrive between
    steps.  The translation cache of the processor is absent, so missing invalidations do not show.
  \<^item> Of \<^verbatim>\<open>interrupts/syscall.rs\<close>, the two calls that write structures whose layout the compiler chooses.
\<close>

end
